(* ===== verification/Prelude.thy ===== *)
theory Prelude
  imports Main "HOL-Library.Word"
begin

text \<open>
  Shared foundations of the development: the result type of kernel code, the
  sequencing combinators in which every stateful C function of the kernel is
  written, loops over static arrays, and a small calculus for invariants.

  A kernel function runs on one hart.  It may give up the processor (in
  \<^verbatim>\<open>sched\<close>) or spin on a lock that another hart holds; what the rest of the
  system does meanwhile is not determined by the function.  A computation
  therefore takes, besides the state, a list of environment steps.  Every point
  where the hart has to wait consumes one of them, and a computation whose list
  is used up is \<open>Blocked\<close>.  Theorems quantify over the list, so they hold for
  every behaviour of the other harts, or name what they need of it.
\<close>

unbundle bit_operations_syntax

named_theorems kmon_simps \<open>unfolding the sequencing combinators at a state\<close>
named_theorems kpres_intros \<open>rules that decompose an invariant proof along a program\<close>

subsection \<open>Results of kernel code\<close>

text \<open>
  \<open>Ret\<close>: the function returned.  \<open>Panic\<close>: it called \<^verbatim>\<open>panic\<close> with this message.
  \<open>Blocked\<close>: it is off the processor, or spinning, and was not resumed by the
  given environment.  \<open>Diverge\<close>: it is in a loop that never ends.
\<close>

datatype ('s, 'a) outcome =
    Ret 'a "('s \<Rightarrow> 's) list" 's
  | Panic string 's
  | Blocked 's
  | Diverge 's

type_synonym 's env = "('s \<Rightarrow> 's) list"
type_synonym ('s, 'a) kmon = "'s env \<Rightarrow> 's \<Rightarrow> ('s, 'a) outcome"

definition kret :: "'a \<Rightarrow> ('s, 'a) kmon" where
  "kret x = (\<lambda>es s. Ret x es s)"

definition kbind :: "('s, 'a) kmon \<Rightarrow> ('a \<Rightarrow> ('s, 'b) kmon) \<Rightarrow> ('s, 'b) kmon" where
  "kbind m f = (\<lambda>es s. case m es s of
       Ret x es' s' \<Rightarrow> f x es' s'
     | Panic msg s' \<Rightarrow> Panic msg s'
     | Blocked s' \<Rightarrow> Blocked s'
     | Diverge s' \<Rightarrow> Diverge s')"

definition kget :: "('s \<Rightarrow> 'a) \<Rightarrow> ('s, 'a) kmon" where
  "kget f = (\<lambda>es s. Ret (f s) es s)"

definition kmodify :: "('s \<Rightarrow> 's) \<Rightarrow> ('s, unit) kmon" where
  "kmodify f = (\<lambda>es s. Ret () es (f s))"

definition kpanic :: "string \<Rightarrow> ('s, 'a) kmon" where
  "kpanic msg = (\<lambda>es s. Panic msg s)"

definition kdiverge :: "('s, 'a) kmon" where
  "kdiverge = (\<lambda>es s. Diverge s)"

text \<open>
  The C code has undefined behaviour here: it follows a null pointer or leaves the
  bounds of an array.  Nothing can be said about what follows.
\<close>

definition kundef :: "('s, 'a) kmon" where
  "kundef = kpanic ''undefined behaviour''"

text \<open>
  The value of a C \<^verbatim>\<open>int\<close> is an integer; counting past its range is undefined.
\<close>

definition INT_MAX :: int where [simp]: "INT_MAX = 2147483647"

definition INT_MIN :: int where [simp]: "INT_MIN = -2147483648"

definition c_inc :: "int \<Rightarrow> (int \<Rightarrow> ('s, 'a) kmon) \<Rightarrow> ('s, 'a) kmon" where
  "c_inc n f = (if n < INT_MAX then f (n + 1) else kundef)"

definition c_dec :: "int \<Rightarrow> (int \<Rightarrow> ('s, 'a) kmon) \<Rightarrow> ('s, 'a) kmon" where
  "c_dec n f = (if n > INT_MIN then f (n - 1) else kundef)"

text \<open>The hart waits: the rest of the system makes its next step.\<close>

definition kwait :: "('s, unit) kmon" where
  "kwait = (\<lambda>es s. case es of [] \<Rightarrow> Blocked s | e # es' \<Rightarrow> Ret () es' (e s))"

text \<open>Statements in sequence, and a guarded statement.\<close>

primrec kseq :: "('s, unit) kmon list \<Rightarrow> ('s, unit) kmon" where
  "kseq [] = kret ()"
| "kseq (m # ms) = kbind m (\<lambda>_. kseq ms)"

definition kwhen :: "bool \<Rightarrow> ('s, unit) kmon \<Rightarrow> ('s, unit) kmon" where
  "kwhen b m = (if b then m else kret ())"

text \<open>
  \<open>kfor xs body\<close> runs the body on each element; \<open>kfind xs body\<close> is a loop with an
  early return: the body gives \<open>None\<close> to go on and \<open>Some r\<close> to leave with \<open>r\<close>.
\<close>

primrec kfor :: "'i list \<Rightarrow> ('i \<Rightarrow> ('s, unit) kmon) \<Rightarrow> ('s, unit) kmon" where
  "kfor [] body = kret ()"
| "kfor (x # xs) body = kbind (body x) (\<lambda>_. kfor xs body)"

primrec kfind :: "'i list \<Rightarrow> ('i \<Rightarrow> ('s, 'r option) kmon) \<Rightarrow> ('s, 'r option) kmon" where
  "kfind [] body = kret None"
| "kfind (x # xs) body =
     kbind (body x) (\<lambda>r. case r of None \<Rightarrow> kfind xs body | Some v \<Rightarrow> kret (Some v))"

text \<open>
  \<open>kloop n body\<close> repeats a body that gives \<open>None\<close> to go round again and \<open>Some r\<close> to
  leave with \<open>r\<close>, at most \<open>n\<close> times.  \<open>kwaitloop body\<close> is an unbounded loop each of
  whose rounds, if it goes on, waits at least once: the waits that are left bound
  the rounds.
\<close>

primrec kloop :: "nat \<Rightarrow> ('s, 'r option) kmon \<Rightarrow> ('s, 'r) kmon" where
  "kloop 0 body = kdiverge"
| "kloop (Suc n) body =
     kbind body (\<lambda>r. case r of None \<Rightarrow> kloop n body | Some v \<Rightarrow> kret v)"

definition kwaitloop :: "('s, 'r option) kmon \<Rightarrow> ('s, 'r) kmon" where
  "kwaitloop body = (\<lambda>es s. kloop (Suc (length es)) body es s)"

lemma kret_apply [simp, kmon_simps]: "kret x es s = Ret x es s"
  by (simp add: kret_def)

lemma kget_apply [simp, kmon_simps]: "kget f es s = Ret (f s) es s"
  by (simp add: kget_def)

lemma kmodify_apply [simp, kmon_simps]: "kmodify f es s = Ret () es (f s)"
  by (simp add: kmodify_def)

lemma kpanic_apply [simp, kmon_simps]: "kpanic msg es s = Panic msg s"
  by (simp add: kpanic_def)

lemma kundef_apply [simp, kmon_simps]: "kundef es s = Panic ''undefined behaviour'' s"
  by (simp add: kundef_def)

lemma kdiverge_apply [simp, kmon_simps]: "kdiverge es s = Diverge s"
  by (simp add: kdiverge_def)

lemma kbind_apply [simp, kmon_simps]:
  "kbind m f es s = (case m es s of
       Ret x es' s' \<Rightarrow> f x es' s'
     | Panic msg s' \<Rightarrow> Panic msg s'
     | Blocked s' \<Rightarrow> Blocked s'
     | Diverge s' \<Rightarrow> Diverge s')"
  by (simp add: kbind_def)

lemma kbind_kret [simp]: "kbind (kret x) f = f x"
  by (simp add: kbind_def fun_eq_iff)

lemma kbind_kpanic [simp]: "kbind (kpanic msg) f = kpanic msg"
  by (simp add: kbind_def kpanic_def fun_eq_iff)

lemma kbind_assoc [simp]: "kbind (kbind m f) g = kbind m (\<lambda>x. kbind (f x) g)"
  by (simp add: kbind_def fun_eq_iff split: outcome.splits)

lemma kbind_unit [simp]: "kbind m (\<lambda>_ :: unit. kret ()) = m"
  by (simp add: kbind_def fun_eq_iff split: outcome.split)

lemma kbind_kret_right [simp]: "kbind m kret = m"
  by (simp add: kbind_def fun_eq_iff split: outcome.split)

lemma case_outcome_kret [simp]:
  "(case r of Ret x es' s' \<Rightarrow> kret x es' s' | Panic msg s' \<Rightarrow> Panic msg s'
     | Blocked s' \<Rightarrow> Blocked s' | Diverge s' \<Rightarrow> Diverge s') = r"
  by (cases r) simp_all

lemma kwhen_True [simp]: "kwhen True m = m"
  by (simp add: kwhen_def)

lemma kwhen_False [simp]: "kwhen False m = kret ()"
  by (simp add: kwhen_def)

lemma kwait_Nil [simp]: "kwait [] s = Blocked s"
  by (simp add: kwait_def)

lemma kwait_Cons [simp]: "kwait (e # es) s = Ret () es (e s)"
  by (simp add: kwait_def)

lemma kbind_Ret_iff:
  "kbind m f es s = Ret y es2 s2 \<longleftrightarrow>
     (\<exists>x es1 s1. m es s = Ret x es1 s1 \<and> f x es1 s1 = Ret y es2 s2)"
  by (cases "m es s") (simp_all add: kbind_def)

lemma kfor_append: "kfor (xs @ ys) body = kbind (kfor xs body) (\<lambda>_. kfor ys body)"
  by (induction xs) (simp_all del: kbind_apply kret_apply)

text \<open>A loop whose body always succeeds and only applies a state update is a fold.\<close>

lemma kfor_fold:
  assumes "\<And>x s. x \<in> set xs \<Longrightarrow> P s \<Longrightarrow> body x es s = Ret () es (g x s)"
    and "\<And>x s. x \<in> set xs \<Longrightarrow> P s \<Longrightarrow> P (g x s)"
    and "P s"
  shows "kfor xs body es s = Ret () es (fold g xs s)"
  using assms
proof (induction xs arbitrary: s)
  case Nil
  then show ?case by simp
next
  case (Cons x xs)
  have "body x es s = Ret () es (g x s)" using Cons.prems by simp
  moreover have "P (g x s)" using Cons.prems by simp
  moreover have "kfor xs body es (g x s) = Ret () es (fold g xs (g x s))"
    using Cons.prems \<open>P (g x s)\<close> by (intro Cons.IH) simp_all
  ultimately show ?case by simp
qed

lemma kfor_states:
  assumes "\<And>i. i < n \<Longrightarrow> body i es (S i) = Ret () es (S (Suc i))"
  shows "kfor [0..<n] body es (S 0) = Ret () es (S n)"
  using assms
proof (induction n)
  case (Suc n)
  then have "kfor [0..<n] body es (S 0) = Ret () es (S n)" by simp
  with Suc.prems [of n] show ?case by (simp add: kfor_append)
qed simp

subsection \<open>Invariants along a program\<close>

text \<open>
  \<open>kpres I m\<close>: if the invariant holds and the environment keeps it, it holds
  wherever \<open>m\<close> stops (returned, panicked, blocked or looping), and \<open>m\<close> invents
  no environment steps.
\<close>

definition env_keeps :: "('s \<Rightarrow> bool) \<Rightarrow> 's env \<Rightarrow> bool" where
  "env_keeps I es \<longleftrightarrow> (\<forall>e \<in> set es. \<forall>s. I s \<longrightarrow> I (e s))"

definition kpres :: "('s \<Rightarrow> bool) \<Rightarrow> ('s, 'a) kmon \<Rightarrow> bool" where
  "kpres I m \<longleftrightarrow> (\<forall>es s. I s \<longrightarrow> env_keeps I es \<longrightarrow>
     (case m es s of
        Ret x es' s' \<Rightarrow> I s' \<and> set es' \<subseteq> set es
      | Panic msg s' \<Rightarrow> I s'
      | Blocked s' \<Rightarrow> I s'
      | Diverge s' \<Rightarrow> I s'))"

lemma env_keeps_Nil [simp]: "env_keeps I []"
  by (simp add: env_keeps_def)

lemma env_keeps_Cons [simp]:
  "env_keeps I (e # es) \<longleftrightarrow> (\<forall>s. I s \<longrightarrow> I (e s)) \<and> env_keeps I es"
  by (auto simp: env_keeps_def)

lemma env_keeps_subset: "env_keeps I es \<Longrightarrow> set es' \<subseteq> set es \<Longrightarrow> env_keeps I es'"
  by (auto simp: env_keeps_def)

lemma kpresD:
  assumes "kpres I m" and "I s" and "env_keeps I es" and "m es s = Ret x es' s'"
  shows "I s' \<and> set es' \<subseteq> set es"
proof -
  have "case m es s of Ret x es' s' \<Rightarrow> I s' \<and> set es' \<subseteq> set es
      | Panic msg s' \<Rightarrow> I s' | Blocked s' \<Rightarrow> I s' | Diverge s' \<Rightarrow> I s'"
    using assms(1-3) unfolding kpres_def by blast
  with assms(4) show ?thesis by simp
qed

lemma kpres_kret [kpres_intros]: "kpres I (kret x)"
  by (simp add: kpres_def)

lemma kpres_kget [kpres_intros]: "kpres I (kget f)"
  by (simp add: kpres_def)

lemma kpres_kpanic [kpres_intros]: "kpres I (kpanic msg)"
  by (simp add: kpres_def)

lemma kpres_kdiverge [kpres_intros]: "kpres I kdiverge"
  by (simp add: kpres_def)

lemma kpres_kmodify: "(\<And>s. I s \<Longrightarrow> I (f s)) \<Longrightarrow> kpres I (kmodify f)"
  by (simp add: kpres_def)

lemma kpres_kwait [kpres_intros]: "kpres I kwait"
  unfolding kpres_def
proof (intro allI impI)
  fix es s
  assume "I s" and "env_keeps I es"
  then show "case kwait es s of Ret x es' s' \<Rightarrow> I s' \<and> set es' \<subseteq> set es
      | Panic msg s' \<Rightarrow> I s' | Blocked s' \<Rightarrow> I s' | Diverge s' \<Rightarrow> I s'"
    by (cases es) (simp_all add: subset_insertI)
qed

lemma kpres_cases:
  assumes "kpres I m" and "I s" and "env_keeps I es"
  obtains (ret) x es' s' where "m es s = Ret x es' s'" and "I s'" and "set es' \<subseteq> set es"
    | (panic) msg s' where "m es s = Panic msg s'" and "I s'"
    | (blocked) s' where "m es s = Blocked s'" and "I s'"
    | (diverge) s' where "m es s = Diverge s'" and "I s'"
proof -
  have *: "case m es s of Ret x es' s' \<Rightarrow> I s' \<and> set es' \<subseteq> set es
      | Panic msg s' \<Rightarrow> I s' | Blocked s' \<Rightarrow> I s' | Diverge s' \<Rightarrow> I s'"
    using assms unfolding kpres_def by blast
  show thesis
    by (cases "m es s") (use * that in simp_all)
qed

lemma kpres_kbind [kpres_intros]:
  assumes m: "kpres I m" and f: "\<And>x. kpres I (f x)"
  shows "kpres I (kbind m f)"
  unfolding kpres_def
proof (intro allI impI)
  fix es s
  assume s: "I s" and es: "env_keeps I es"
  from m s es show "case kbind m f es s of Ret x es' s' \<Rightarrow> I s' \<and> set es' \<subseteq> set es
      | Panic msg s' \<Rightarrow> I s' | Blocked s' \<Rightarrow> I s' | Diverge s' \<Rightarrow> I s'"
  proof (cases rule: kpres_cases)
    case (ret x es1 s1)
    have "env_keeps I es1" using es ret(3) by (rule env_keeps_subset)
    with f [of x] ret(2) show ?thesis
      by (cases rule: kpres_cases) (use ret in \<open>auto simp: kbind_def\<close>)
  qed (simp_all add: kbind_def)
qed

lemma kpres_if [kpres_intros]: "kpres I m \<Longrightarrow> kpres I n \<Longrightarrow> kpres I (if b then m else n)"
  by simp

lemma kpres_kwhen [kpres_intros]: "kpres I m \<Longrightarrow> kpres I (kwhen b m)"
  by (cases b) (simp_all add: kpres_kret)

lemma kpres_option [kpres_intros]:
  "kpres I m \<Longrightarrow> (\<And>x. kpres I (f x)) \<Longrightarrow> kpres I (case v of None \<Rightarrow> m | Some x \<Rightarrow> f x)"
  by (cases v) simp_all

lemma kpres_c_inc [kpres_intros]: "(\<And>m. kpres I (f m)) \<Longrightarrow> kpres I (c_inc n f)"
  by (simp add: c_inc_def kundef_def kpres_kpanic)

lemma kpres_c_dec [kpres_intros]: "(\<And>m. kpres I (f m)) \<Longrightarrow> kpres I (c_dec n f)"
  by (simp add: c_dec_def kundef_def kpres_kpanic)

lemma kpres_kseq [kpres_intros]: "(\<And>m. m \<in> set ms \<Longrightarrow> kpres I m) \<Longrightarrow> kpres I (kseq ms)"
  by (induction ms) (simp_all add: kpres_kret kpres_kbind)

lemma kpres_kfor [kpres_intros]: "(\<And>x. x \<in> set xs \<Longrightarrow> kpres I (body x)) \<Longrightarrow> kpres I (kfor xs body)"
  by (induction xs) (simp_all add: kpres_kret kpres_kbind)

lemma kpres_kfind [kpres_intros]: "(\<And>x. x \<in> set xs \<Longrightarrow> kpres I (body x)) \<Longrightarrow> kpres I (kfind xs body)"
  by (induction xs) (auto intro!: kpres_kret kpres_kbind split: option.splits)

end
