(* ===== verification/Riscv.thy ===== *)
theory Riscv
  imports Prelude
begin

text \<open>
  Constants and macros of \<^verbatim>\<open>kernel/types.h\<close>, \<^verbatim>\<open>param.h\<close>, \<^verbatim>\<open>riscv.h\<close> and
  \<^verbatim>\<open>memlayout.h\<close>: integer widths, table sizes, status bits, the Sv39 page-table
  arithmetic and the physical and virtual memory layout; and physical memory
  as a map from addresses to bytes with little-endian 64-bit access.
\<close>

type_synonym u8 = "8 word"
type_synonym u16 = "16 word"
type_synonym u32 = "32 word"
type_synonym u64 = "64 word"

subsection \<open>param.h\<close>

definition NPROC :: nat where [simp]: "NPROC = 64"
definition NCPU :: nat where [simp]: "NCPU = 8"
definition NOFILE :: nat where [simp]: "NOFILE = 16"
definition NFILE :: nat where [simp]: "NFILE = 100"
definition NINODE :: nat where [simp]: "NINODE = 50"
definition NDEV :: nat where [simp]: "NDEV = 10"
definition ROOTDEV :: u32 where [simp]: "ROOTDEV = 1"
definition MAXARG :: nat where [simp]: "MAXARG = 32"
definition MAXOPBLOCKS :: nat where [simp]: "MAXOPBLOCKS = 10"
definition LOGSIZE :: nat where [simp]: "LOGSIZE = MAXOPBLOCKS * 3"
definition NBUF :: nat where [simp]: "NBUF = MAXOPBLOCKS * 3"
definition FSSIZE :: nat where [simp]: "FSSIZE = 2000"
definition MAXPATH :: nat where [simp]: "MAXPATH = 128"
definition USERSTACK :: u64 where [simp]: "USERSTACK = 1"
definition MAXPRIORITY :: nat where [simp]: "MAXPRIORITY = 5"

subsection \<open>riscv.h: status bits and Sv39 page tables\<close>

definition SSTATUS_SPP :: u64 where "SSTATUS_SPP = push_bit 8 1"
definition SSTATUS_SPIE :: u64 where "SSTATUS_SPIE = push_bit 5 1"
definition SSTATUS_SIE :: u64 where "SSTATUS_SIE = push_bit 1 1"

definition SATP_SV39 :: u64 where "SATP_SV39 = push_bit 60 8"

definition MAKE_SATP :: "u64 \<Rightarrow> u64" where
  "MAKE_SATP pagetable = SATP_SV39 OR drop_bit 12 pagetable"

definition PGSIZE :: u64 where [simp]: "PGSIZE = 4096"
definition PGSHIFT :: nat where [simp]: "PGSHIFT = 12"

definition PGROUNDUP :: "u64 \<Rightarrow> u64" where
  "PGROUNDUP sz = (sz + PGSIZE - 1) AND NOT (PGSIZE - 1)"

definition PGROUNDDOWN :: "u64 \<Rightarrow> u64" where
  "PGROUNDDOWN a = a AND NOT (PGSIZE - 1)"

definition PTE_V :: u64 where "PTE_V = push_bit 0 1"
definition PTE_R :: u64 where "PTE_R = push_bit 1 1"
definition PTE_W :: u64 where "PTE_W = push_bit 2 1"
definition PTE_X :: u64 where "PTE_X = push_bit 3 1"
definition PTE_U :: u64 where "PTE_U = push_bit 4 1"

lemmas pte_bit_defs = PTE_V_def PTE_R_def PTE_W_def PTE_X_def PTE_U_def

definition PA2PTE :: "u64 \<Rightarrow> u64" where
  "PA2PTE pa = push_bit 10 (drop_bit 12 pa)"

definition PTE2PA :: "u64 \<Rightarrow> u64" where
  "PTE2PA pte = push_bit 12 (drop_bit 10 pte)"

definition PTE_FLAGS :: "u64 \<Rightarrow> u64" where
  "PTE_FLAGS pte = pte AND 0x3FF"

definition PXSHIFT :: "nat \<Rightarrow> nat" where
  "PXSHIFT level = PGSHIFT + 9 * level"

definition PX :: "nat \<Rightarrow> u64 \<Rightarrow> u64" where
  "PX level va = drop_bit (PXSHIFT level) va AND 0x1FF"

definition MAXVA :: u64 where "MAXVA = push_bit (9 + 9 + 9 + 12 - 1) 1"

subsection \<open>memlayout.h\<close>

definition UART0 :: u64 where [simp]: "UART0 = 0x10000000"
definition UART0_IRQ :: u32 where [simp]: "UART0_IRQ = 10"
definition VIRTIO0 :: u64 where [simp]: "VIRTIO0 = 0x10001000"
definition VIRTIO0_IRQ :: u32 where [simp]: "VIRTIO0_IRQ = 1"
definition PLIC :: u64 where [simp]: "PLIC = 0x0c000000"

definition PLIC_SENABLE :: "u64 \<Rightarrow> u64" where
  "PLIC_SENABLE hart = PLIC + 0x2080 + hart * 0x100"
definition PLIC_SPRIORITY :: "u64 \<Rightarrow> u64" where
  "PLIC_SPRIORITY hart = PLIC + 0x201000 + hart * 0x2000"
definition PLIC_SCLAIM :: "u64 \<Rightarrow> u64" where
  "PLIC_SCLAIM hart = PLIC + 0x201004 + hart * 0x2000"

definition KERNBASE :: u64 where [simp]: "KERNBASE = 0x80000000"
definition PHYSTOP :: u64 where [simp]: "PHYSTOP = KERNBASE + 128 * 1024 * 1024"
definition TRAMPOLINE :: u64 where "TRAMPOLINE = MAXVA - PGSIZE"

definition KSTACK :: "nat \<Rightarrow> u64" where
  "KSTACK p = TRAMPOLINE - (of_nat p + 1) * 2 * PGSIZE"

definition TRAPFRAME :: u64 where "TRAPFRAME = TRAMPOLINE - PGSIZE"

subsection \<open>Physical memory\<close>

type_synonym memory = "u64 \<Rightarrow> u8"

text \<open>A 64-bit load and store, little-endian as on RISC-V.\<close>

definition ld64 :: "memory \<Rightarrow> u64 \<Rightarrow> u64" where
  "ld64 m a =
     ucast (m a) OR push_bit 8 (ucast (m (a + 1))) OR
     push_bit 16 (ucast (m (a + 2))) OR push_bit 24 (ucast (m (a + 3))) OR
     push_bit 32 (ucast (m (a + 4))) OR push_bit 40 (ucast (m (a + 5))) OR
     push_bit 48 (ucast (m (a + 6))) OR push_bit 56 (ucast (m (a + 7)))"

definition st64 :: "memory \<Rightarrow> u64 \<Rightarrow> u64 \<Rightarrow> memory" where
  "st64 m a v = (\<lambda>x. if x - a < 8 then ucast (drop_bit (8 * unat (x - a)) v) else m x)"

lemma less8_cases:
  "q < (8 :: nat) \<Longrightarrow> q = 0 \<or> q = 1 \<or> q = 2 \<or> q = 3 \<or> q = 4 \<or> q = 5 \<or> q = 6 \<or> q = 7"
  by auto

lemma not_bit_u8: "8 \<le> n \<Longrightarrow> \<not> bit (x :: u8) n"
  using bit_imp_le_length [of x n] by auto

lemma bit_ld64_byte:
  assumes "r < 8" and "q < 8"
  shows "bit (ld64 m a) (8 * q + r) = bit (m (a + of_nat q)) r"
  using less8_cases [OF assms(2)] assms(1) unfolding ld64_def
  by (elim disjE) (simp_all add: bit_or_iff bit_push_bit_iff bit_ucast_iff not_bit_u8)

lemma bit_ld64: "n < 64 \<Longrightarrow> bit (ld64 m a) n = bit (m (a + of_nat (n div 8))) (n mod 8)"
  using bit_ld64_byte [of "n mod 8" "n div 8" m a] by simp

lemma of_nat_less8: "k < 8 \<Longrightarrow> (of_nat k :: u64) < 8 \<and> unat (of_nat k :: u64) = k"
  by (simp add: word_less_nat_alt unat_of_nat)

lemma ld64_st64_same [simp]: "ld64 (st64 m a v) a = v"
proof (rule bit_word_eqI)
  fix n assume n: "n < LENGTH(64)"
  then have k: "n div 8 < 8" by auto
  then show "bit (ld64 (st64 m a v) a) n = bit v n"
    using n of_nat_less8 [OF k] by (simp add: bit_ld64 st64_def bit_ucast_iff bit_drop_bit_eq)
qed

lemma ld64_cong:
  assumes "\<And>k. k < 8 \<Longrightarrow> m (a + k) = m' (a + k)"
  shows "ld64 m a = ld64 m' a"
  using assms [of 0] assms [of 1] assms [of 2] assms [of 3]
    assms [of 4] assms [of 5] assms [of 6] assms [of 7]
  by (simp add: ld64_def)

subsection \<open>Alignment and rounding\<close>

lemma unat_u64_less: "unat (x :: u64) < 2 ^ 64"
  by (rule order_less_le_trans [OF unsigned_less]) simp

lemma unat_add_small: "unat (a :: u64) + unat b < 2 ^ 64 \<Longrightarrow> unat (a + b) = unat a + unat b"
  by (simp add: unat_plus_if')

lemma unat_ucast_32_64: "unat (ucast (n :: u32) :: u64) = unat n"
proof -
  have "unat n < 2 ^ 32" by (rule order_less_le_trans [OF unsigned_less]) simp
  then show ?thesis by (simp add: unsigned_ucast_eq take_bit_nat_eq_self_iff)
qed

definition page_aligned :: "u64 \<Rightarrow> bool" where
  "page_aligned a \<longleftrightarrow> a mod PGSIZE = 0"

lemma page_aligned_unat: "page_aligned a \<longleftrightarrow> unat a mod 4096 = 0"
  by (simp add: page_aligned_def word_unat_eq_iff unat_mod_distrib)

lemma unat_diff_mod:
  assumes "unat (a :: u64) mod N = 0" and "unat (b :: u64) mod N = 0" and "N dvd 2 ^ 64"
  shows "unat (a - b) mod N = 0"
  using assms by (simp add: unat_sub_if' mod_0_imp_dvd dvd_imp_mod_0 dvd_diff_nat)

text \<open>
  The distance from a multiple of \<open>N\<close> to an address in the block of \<open>N\<close> bytes
  at another multiple is at least \<open>N\<close>: aligned blocks do not overlap.
\<close>

lemma aligned_blocks_apart:
  assumes a: "unat (a :: u64) mod N = 0" and b: "unat (b :: u64) mod N = 0"
    and N: "N dvd 2 ^ 64" and ne: "a \<noteq> b" and j: "unat j < N"
  shows "N \<le> unat (a + j - b)"
proof -
  have d: "unat (a - b) mod N = 0" using a b N by (rule unat_diff_mod)
  have "unat (a - b) \<noteq> 0" using ne by (simp add: unat_eq_0)
  with d have ge: "N \<le> unat (a - b)" by (metis mod_less not_le)
  have lt: "unat (a - b) < 2 ^ 64" by (rule order_less_le_trans [OF unsigned_less]) simp
  have "unat (a - b) + N \<le> 2 ^ 64"
  proof -
    obtain p where p: "unat (a - b) = N * p" using d by (metis mod_0_imp_dvd dvdE)
    obtain q where q: "(2 :: nat) ^ 64 = N * q" using N by (rule dvdE)
    have "p < q" using lt unfolding p q by simp
    then have "N * Suc p \<le> N * q" by (intro mult_le_mono2) simp
    then show ?thesis unfolding p q by simp
  qed
  with j have "unat (a - b) + unat j < 2 ^ 64" by linarith
  then have "unat (a - b + j) = unat (a - b) + unat j"
    by (simp add: unat_plus_if')
  moreover have "a + j - b = a - b + j" by (simp add: algebra_simps)
  ultimately show ?thesis using ge by (simp only:)
qed

lemma ld64_st64_other:
  assumes "unat a mod 8 = 0" and "unat b mod 8 = 0" and "a \<noteq> b"
  shows "ld64 (st64 m b v) a = ld64 m a"
proof (rule ld64_cong)
  fix k :: u64 assume "k < 8"
  then have "8 \<le> unat (a + k - b)"
    using assms by (intro aligned_blocks_apart) (simp_all add: word_less_nat_alt)
  then show "st64 m b v (a + k) = m (a + k)"
    by (simp add: st64_def word_less_nat_alt)
qed

lemma and_minus_4096: "a AND - 4096 = push_bit 12 (drop_bit 12 (a :: u64))"
proof -
  have m: "- 4096 = NOT (mask 12 :: u64)" by (simp add: mask_eq_exp_minus_1)
  show ?thesis
    unfolding m by (auto intro!: bit_word_eqI simp: bit_simps)
qed

lemma unat_push_drop_12: "unat (push_bit 12 (drop_bit 12 (a :: u64))) = unat a - unat a mod 4096"
proof -
  have "push_bit 12 (drop_bit 12 a) = a - take_bit 12 a"
    using bits_ident [of 12 a] by (metis add_diff_cancel_right')
  moreover have "take_bit 12 a = a mod 4096"
    by (simp add: take_bit_eq_mod)
  moreover have "a mod 4096 \<le> a"
    by (simp add: word_le_nat_alt unat_mod_distrib)
  ultimately show ?thesis
    by (simp add: unat_sub unat_mod_distrib)
qed

lemma unat_PGROUNDDOWN: "unat (PGROUNDDOWN a) = unat a - unat a mod 4096"
  by (simp add: PGROUNDDOWN_def and_minus_4096 unat_push_drop_12)

lemma page_aligned_PGROUNDDOWN: "page_aligned (PGROUNDDOWN a)"
  by (simp add: page_aligned_unat unat_PGROUNDDOWN minus_mod_eq_mult_div)

lemma PGROUNDDOWN_aligned: "page_aligned a \<Longrightarrow> PGROUNDDOWN a = a"
  by (simp add: word_unat_eq_iff unat_PGROUNDDOWN page_aligned_unat)

lemma PGROUNDUP_alt: "PGROUNDUP a = PGROUNDDOWN (a + 4095)"
  by (simp add: PGROUNDUP_def PGROUNDDOWN_def add.commute)

lemma page_aligned_PGROUNDUP: "page_aligned (PGROUNDUP a)"
  by (simp add: PGROUNDUP_alt page_aligned_PGROUNDDOWN)

text \<open>Rounding up does not overflow below \<open>2 ^ 64 - 4095\<close>.\<close>

lemma unat_PGROUNDUP:
  assumes "unat a + 4095 < 2 ^ 64"
  shows "unat (PGROUNDUP a) = (unat a + 4095) div 4096 * 4096"
proof -
  have "unat (a + 4095) = unat a + 4095"
    using assms by (simp add: unat_plus_if')
  then show ?thesis
    by (simp add: PGROUNDUP_alt unat_PGROUNDDOWN minus_mod_eq_div_mult)
qed

subsection \<open>Page-table entries and virtual-address fields\<close>

lemma PTE2PA_PA2PTE:
  assumes "page_aligned pa" and "flags < 0x400"
  shows "PTE2PA (PA2PTE pa OR flags) = pa"
proof -
  have "drop_bit 10 flags = 0"
    using assms(2) by (simp add: drop_bit_eq_div word_less_nat_alt word_unat_eq_iff unat_div_distrib)
  then have "PTE2PA (PA2PTE pa OR flags) = push_bit 12 (drop_bit 12 pa)"
    by (auto intro!: bit_word_eqI simp: PTE2PA_def PA2PTE_def bit_simps)
  also have "\<dots> = pa"
    using assms(1) by (simp add: word_unat_eq_iff unat_push_drop_12 page_aligned_unat)
  finally show ?thesis .
qed

lemma PTE_FLAGS_PA2PTE:
  assumes "flags < 0x400"
  shows "PTE_FLAGS (PA2PTE pa OR flags) = flags"
proof -
  have m: "(0x3FF :: u64) = mask 10" by (simp add: mask_eq_exp_minus_1)
  have "take_bit 10 flags = flags"
    using assms by (simp add: take_bit_eq_mod word_less_nat_alt word_unat_eq_iff unat_mod_distrib)
  then show ?thesis
    unfolding PTE_FLAGS_def m PA2PTE_def
    by (auto intro!: bit_word_eqI simp: bit_simps bit_take_bit_iff simp flip: take_bit_eq_mask)
qed

text \<open>
  Below \<^const>\<open>MAXVA\<close> the three indices and the page offset determine the
  virtual address: two pages that share all indices are the same page.
\<close>

lemma PX_alt: "PX level va = take_bit 9 (drop_bit (12 + 9 * level) va)"
proof -
  have m: "(0x1FF :: u64) = mask 9" by (simp add: mask_eq_exp_minus_1)
  show ?thesis unfolding PX_def PXSHIFT_def m by (simp flip: take_bit_eq_mask)
qed

lemma bit_PX: "bit (PX level va) n \<longleftrightarrow> n < 9 \<and> bit va (12 + 9 * level + n)"
  by (simp add: PX_alt bit_take_bit_iff bit_drop_bit_eq)

lemma PX_less: "PX level va < 512"
proof -
  have "PX level va = drop_bit (12 + 9 * level) va mod 512"
    by (simp add: PX_alt take_bit_eq_mod)
  then show ?thesis by (simp add: word_less_nat_alt unat_mod_distrib)
qed

lemma MAXVA_eq: "MAXVA = 0x4000000000"
  by (simp add: MAXVA_def)

lemma high_bits_below_MAXVA:
  assumes "va < MAXVA" and "38 \<le> n"
  shows "\<not> bit va n"
proof
  assume b: "bit va n"
  have "va = take_bit 38 va"
    using assms(1) by (simp add: MAXVA_eq take_bit_eq_mod word_less_nat_alt word_unat_eq_iff unat_mod_distrib)
  then have "bit (take_bit 38 va) n" using b by simp
  with assms(2) show False by (simp add: bit_take_bit_iff)
qed

lemma PX_inject:
  assumes "va < MAXVA" and "va' < MAXVA"
    and "PX 2 va = PX 2 va'" and "PX 1 va = PX 1 va'" and "PX 0 va = PX 0 va'"
  shows "PGROUNDDOWN va = PGROUNDDOWN va'"
proof -
  have idx: "bit va (12 + 9 * l + r) = bit va' (12 + 9 * l + r)"
    if "l < 3" and "r < 9" for l r
  proof -
    have "PX l va = PX l va'"
      using that(1) assms(3-5) by (auto simp: less_Suc_eq numeral_3_eq_3 numeral_2_eq_2)
    then have "bit (PX l va) r = bit (PX l va') r" by simp
    with that(2) show ?thesis by (simp add: bit_PX)
  qed
  have "bit va n = bit va' n" if "12 \<le> n" for n
  proof (cases "n < 39")
    case True
    have "n = 12 + 9 * ((n - 12) div 9) + (n - 12) mod 9" using that by simp
    moreover have "(n - 12) div 9 < 3" using True that by linarith
    ultimately show ?thesis using idx [of "(n - 12) div 9" "(n - 12) mod 9"] by simp
  next
    case False
    then show ?thesis using high_bits_below_MAXVA assms(1,2) by simp
  qed
  then show ?thesis
    by (auto intro!: bit_word_eqI simp: PGROUNDDOWN_def and_minus_4096 bit_simps)
qed

lemma PX_PGROUNDDOWN:
  assumes "PGROUNDDOWN va = PGROUNDDOWN va'"
  shows "PX level va = PX level va'"
proof -
  have "bit va n = bit va' n" if "12 \<le> n" "n < 64" for n
  proof -
    have "bit (PGROUNDDOWN va) n = bit (PGROUNDDOWN va') n" using assms by simp
    then show ?thesis using that by (simp add: PGROUNDDOWN_def and_minus_4096 bit_simps)
  qed
  moreover have "\<not> bit (x :: u64) n" if "64 \<le> n" for x n
    using that bit_imp_le_length [of x n] by auto
  ultimately have "bit va n = bit va' n" if "12 \<le> n" for n
    using that by (cases "n < 64") auto
  then show ?thesis by (auto intro!: bit_word_eqI simp: bit_PX)
qed

end
