(* ===== verification/Spinlock.thy ===== *)
theory Spinlock
  imports Riscv
begin

text \<open>
  \<^verbatim>\<open>kernel/spinlock.c\<close> with the per-CPU state of \<^verbatim>\<open>kernel/proc.h\<close>: nested
  interrupt disabling (\<open>push_off\<close>, \<open>pop_off\<close>) and test-and-set spin locks.
  Spin locks are kept in a store indexed by \<open>lockid\<close>, one constructor per
  \<^verbatim>\<open>struct spinlock\<close> of the kernel, so that "the address of a lock" is a value.
  The last part is a step relation in which the instructions of \<open>acquire\<close> and
  \<open>release\<close> of any number of harts interleave.
\<close>

subsection \<open>State\<close>

datatype sleeplockid =
    BufLock nat      \<comment> \<open>\<^verbatim>\<open>bcache.buf[i].lock\<close>\<close>
  | InodeLock nat    \<comment> \<open>\<^verbatim>\<open>itable.inode[i].lock\<close>\<close>

datatype lockid =
    KmemLock | PidLock | WaitLock | PriorityLock | ProcLock nat
  | TicksLock | ConsLock | PrLock | UartTxLock
  | BcacheLock | ItableLock | FtableLock | LogLock | VdiskLock
  | PipeLock u64           \<comment> \<open>the lock in the pipe at this address\<close>
  | SleepLk sleeplockid    \<comment> \<open>the spin lock inside a sleep lock\<close>

record spinlock =
  locked :: u32
  lk_name :: string
  lk_cpu :: "nat option"   \<comment> \<open>\<^verbatim>\<open>struct cpu *cpu\<close>: index into \<^verbatim>\<open>cpus\<close>\<close>

record swtch_context =
  ctx_ra :: u64
  ctx_sp :: u64
  ctx_s :: "nat \<Rightarrow> u64"    \<comment> \<open>callee-saved \<^verbatim>\<open>s0\<close> to \<^verbatim>\<open>s11\<close>\<close>

record cpu =
  cpu_proc :: "nat option" \<comment> \<open>\<^verbatim>\<open>struct proc *proc\<close>: index into \<^verbatim>\<open>proc\<close>\<close>
  cpu_context :: swtch_context
  noff :: int
  intena :: bool

text \<open>
  The registers \<^verbatim>\<open>tp\<close> and \<^verbatim>\<open>sstatus\<close> of the hart that runs, the CPU table and
  the lock store.
\<close>

record lock_state =
  tp :: nat
  sstatus :: u64
  cpus :: "nat \<Rightarrow> cpu"
  locks :: "lockid \<Rightarrow> spinlock"

subsection \<open>riscv.h: the interrupt-enable bit\<close>

definition r_sstatus :: "('z lock_state_scheme, u64) kmon" where
  "r_sstatus = kget sstatus"

definition w_sstatus :: "u64 \<Rightarrow> ('z lock_state_scheme, unit) kmon" where
  "w_sstatus x = kmodify (\<lambda>s. s\<lparr>sstatus := x\<rparr>)"

definition intr_on :: "('z lock_state_scheme, unit) kmon" where
  "intr_on = kbind r_sstatus (\<lambda>x. w_sstatus (x OR SSTATUS_SIE))"

definition intr_off :: "('z lock_state_scheme, unit) kmon" where
  "intr_off = kbind r_sstatus (\<lambda>x. w_sstatus (x AND NOT SSTATUS_SIE))"

definition intr_get :: "('z lock_state_scheme, bool) kmon" where
  "intr_get = kbind r_sstatus (\<lambda>x. kret (x AND SSTATUS_SIE \<noteq> 0))"

subsection \<open>proc.c: which CPU is this\<close>

definition cpuid :: "('z lock_state_scheme, nat) kmon" where
  "cpuid = kget tp"

text \<open>\<^verbatim>\<open>mycpu\<close> gives a pointer; reading and writing through it is separate.\<close>

definition mycpu :: "('z lock_state_scheme, nat) kmon" where
  "mycpu = cpuid"

definition cpu_get :: "nat \<Rightarrow> ('z lock_state_scheme, cpu) kmon" where
  "cpu_get c = kget (\<lambda>s. cpus s c)"

definition cpu_set :: "nat \<Rightarrow> (cpu \<Rightarrow> cpu) \<Rightarrow> ('z lock_state_scheme, unit) kmon" where
  "cpu_set c f = kmodify (\<lambda>s. s\<lparr>cpus := (cpus s)(c := f (cpus s c))\<rparr>)"

definition lock_set :: "lockid \<Rightarrow> (spinlock \<Rightarrow> spinlock) \<Rightarrow> ('z lock_state_scheme, unit) kmon" where
  "lock_set lk f = kmodify (\<lambda>s. s\<lparr>locks := (locks s)(lk := f (locks s lk))\<rparr>)"

subsection \<open>spinlock.c\<close>

definition push_off :: "('z lock_state_scheme, unit) kmon" where
  "push_off =
     kbind intr_get (\<lambda>old.
     kbind intr_off (\<lambda>_.
     kbind mycpu (\<lambda>c.
     kbind (cpu_get c) (\<lambda>cp.
     kseq [
       kwhen (noff cp = 0) (cpu_set c (\<lambda>cp. cp\<lparr>intena := old\<rparr>)),
       c_inc (noff cp) (\<lambda>n. cpu_set c (\<lambda>cp. cp\<lparr>noff := n\<rparr>))]))))"

definition pop_off :: "('z lock_state_scheme, unit) kmon" where
  "pop_off =
     kbind mycpu (\<lambda>c.
     kbind intr_get (\<lambda>on.
     if on then kpanic ''pop_off - interruptible'' else
     kbind (cpu_get c) (\<lambda>cp.
     if noff cp < 1 then kpanic ''pop_off'' else
     kbind (cpu_set c (\<lambda>cp. cp\<lparr>noff := noff cp - 1\<rparr>)) (\<lambda>_.
     kbind (cpu_get c) (\<lambda>cp'.
     kwhen (noff cp' = 0 \<and> intena cp') intr_on)))))"

definition initlock :: "lockid \<Rightarrow> string \<Rightarrow> ('z lock_state_scheme, unit) kmon" where
  "initlock lk name = kseq [
     lock_set lk (\<lambda>l. l\<lparr>lk_name := name\<rparr>),
     lock_set lk (\<lambda>l. l\<lparr>locked := 0\<rparr>),
     lock_set lk (\<lambda>l. l\<lparr>lk_cpu := None\<rparr>)]"

text \<open>\<^verbatim>\<open>lk->locked && lk->cpu == mycpu()\<close>, for hart \<open>c\<close>.\<close>

definition holds_lock :: "spinlock \<Rightarrow> nat \<Rightarrow> bool" where
  "holds_lock l c \<longleftrightarrow> locked l \<noteq> 0 \<and> lk_cpu l = Some c"

definition holding :: "lockid \<Rightarrow> ('z lock_state_scheme, bool) kmon" where
  "holding lk = kbind mycpu (\<lambda>c. kget (\<lambda>s. holds_lock (locks s lk) c))"

text \<open>
  \<^verbatim>\<open>while(__sync_lock_test_and_set(&lk->locked, 1) != 0)\<close>: an atomic swap per
  round; a round that finds the lock taken lets the other harts go on.
\<close>

fun acquire_spin :: "lockid \<Rightarrow> ('z lock_state_scheme, unit) kmon" where
  "acquire_spin lk es s =
     (let old = locked (locks s lk);
          s' = s\<lparr>locks := (locks s)(lk := (locks s lk)\<lparr>locked := 1\<rparr>)\<rparr>
      in if old = 0 then Ret () es s'
         else (case es of [] \<Rightarrow> Blocked s' | e # es' \<Rightarrow> acquire_spin lk es' (e s')))"

definition acquire :: "lockid \<Rightarrow> ('z lock_state_scheme, unit) kmon" where
  "acquire lk =
     kbind push_off (\<lambda>_.
     kbind (holding lk) (\<lambda>h.
     if h then kpanic ''acquire'' else
     kbind (acquire_spin lk) (\<lambda>_.
     kbind mycpu (\<lambda>c.
     lock_set lk (\<lambda>l. l\<lparr>lk_cpu := Some c\<rparr>)))))"

definition release :: "lockid \<Rightarrow> ('z lock_state_scheme, unit) kmon" where
  "release lk =
     kbind (holding lk) (\<lambda>h.
     if \<not> h then kpanic ''release'' else kseq [
       lock_set lk (\<lambda>l. l\<lparr>lk_cpu := None\<rparr>),
       lock_set lk (\<lambda>l. l\<lparr>locked := 0\<rparr>),
       pop_off])"

declare acquire_spin.simps [simp del]

subsection \<open>What the operations do to the state\<close>

abbreviation mycpu_of :: "'z lock_state_scheme \<Rightarrow> cpu" where
  "mycpu_of s \<equiv> cpus s (tp s)"

definition intr_enabled :: "'z lock_state_scheme \<Rightarrow> bool" where
  "intr_enabled s \<longleftrightarrow> sstatus s AND SSTATUS_SIE \<noteq> 0"

definition pushed :: "'z lock_state_scheme \<Rightarrow> 'z lock_state_scheme" where
  "pushed s = s\<lparr>sstatus := sstatus s AND NOT SSTATUS_SIE,
     cpus := (cpus s)(tp s := (mycpu_of s)\<lparr>
       intena := if noff (mycpu_of s) = 0 then intr_enabled s else intena (mycpu_of s),
       noff := noff (mycpu_of s) + 1\<rparr>)\<rparr>"

definition popped :: "'z lock_state_scheme \<Rightarrow> 'z lock_state_scheme" where
  "popped s = s\<lparr>
     sstatus := if noff (mycpu_of s) = 1 \<and> intena (mycpu_of s)
                then sstatus s OR SSTATUS_SIE else sstatus s,
     cpus := (cpus s)(tp s := (mycpu_of s)\<lparr>noff := noff (mycpu_of s) - 1\<rparr>)\<rparr>"

definition entered :: "lockid \<Rightarrow> 'z lock_state_scheme \<Rightarrow> 'z lock_state_scheme" where
  "entered lk s = (pushed s)\<lparr>locks :=
     (locks s)(lk := (locks s lk)\<lparr>locked := 1, lk_cpu := Some (tp s)\<rparr>)\<rparr>"

definition left :: "lockid \<Rightarrow> 'z lock_state_scheme \<Rightarrow> 'z lock_state_scheme" where
  "left lk s = popped (s\<lparr>locks :=
     (locks s)(lk := (locks s lk)\<lparr>lk_cpu := None, locked := 0\<rparr>)\<rparr>)"

text \<open>
  The trace a balanced \<open>push_off\<close>/\<open>pop_off\<close> pair leaves: the outermost one
  records whether interrupts were on.
\<close>

definition intr_saved :: "'z lock_state_scheme \<Rightarrow> 'z lock_state_scheme" where
  "intr_saved s = s\<lparr>cpus := (cpus s)(tp s := (mycpu_of s)\<lparr>
     intena := if noff (mycpu_of s) = 0 then intr_enabled s else intena (mycpu_of s)\<rparr>)\<rparr>"

definition lock_free :: "lockid \<Rightarrow> 'z lock_state_scheme \<Rightarrow> bool" where
  "lock_free lk s \<longleftrightarrow>
     locked (locks s lk) = 0 \<and> lk_cpu (locks s lk) = None \<and> 0 \<le> noff (mycpu_of s) \<and> noff (mycpu_of s) < INT_MAX \<and>
     (intr_enabled s \<longrightarrow> noff (mycpu_of s) = 0)"

definition lock_mine :: "lockid \<Rightarrow> 'z lock_state_scheme \<Rightarrow> bool" where
  "lock_mine lk s \<longleftrightarrow>
     holds_lock (locks s lk) (tp s) \<and> \<not> intr_enabled s \<and> 1 \<le> noff (mycpu_of s)"

lemma intr_bit_off [simp]: "(x AND NOT SSTATUS_SIE) AND SSTATUS_SIE = 0"
  by (simp add: and.assoc)

lemma intr_bit_on: "x AND SSTATUS_SIE \<noteq> 0 \<Longrightarrow> x OR SSTATUS_SIE = x"
  unfolding SSTATUS_SIE_def
  by (intro bit_word_eqI) (auto simp: bit_simps bit_eq_iff [of _ 0])

lemma intr_bit_restore: "x AND SSTATUS_SIE \<noteq> 0 \<Longrightarrow> (x AND NOT SSTATUS_SIE) OR SSTATUS_SIE = x"
  unfolding SSTATUS_SIE_def
  by (intro bit_word_eqI) (auto simp: bit_simps bit_eq_iff [of _ 0])

lemma intr_bit_already_off: "x AND SSTATUS_SIE = 0 \<Longrightarrow> x AND NOT SSTATUS_SIE = x"
  unfolding SSTATUS_SIE_def
  by (intro bit_word_eqI) (auto simp: bit_simps bit_eq_iff [of _ 0])

lemmas cpu_op_defs = mycpu_def cpuid_def cpu_get_def cpu_set_def lock_set_def
  intr_get_def intr_on_def intr_off_def r_sstatus_def w_sstatus_def

lemma push_off_run: "noff (mycpu_of s) < INT_MAX \<Longrightarrow> push_off es s = Ret () es (pushed s)"
  by (cases s, cases "mycpu_of s") (simp add: push_off_def pushed_def intr_enabled_def cpu_op_defs c_inc_def)

lemma push_off_overflow: "noff (mycpu_of s) = INT_MAX \<Longrightarrow> \<exists>s'. push_off es s = Panic ''undefined behaviour'' s'"
  by (simp add: push_off_def cpu_op_defs c_inc_def)

lemma pop_off_run:
  "\<not> intr_enabled s \<Longrightarrow> 1 \<le> noff (mycpu_of s) \<Longrightarrow> pop_off es s = Ret () es (popped s)"
  by (cases s) (simp add: pop_off_def popped_def intr_enabled_def cpu_op_defs kwhen_def)

lemma holding_run [simp]: "holding lk es s = Ret (holds_lock (locks s lk) (tp s)) es s"
  by (simp add: holding_def cpu_op_defs)

lemma acquire_spin_free:
  "locked (locks s lk) = 0 \<Longrightarrow>
   acquire_spin lk es s = Ret () es (s\<lparr>locks := (locks s)(lk := (locks s lk)\<lparr>locked := 1\<rparr>)\<rparr>)"
  by (simp add: acquire_spin.simps)

lemma pushed_sel [simp]: "tp (pushed s) = tp s" "locks (pushed s) = locks s"
  by (simp_all add: pushed_def)

lemma acquire_run:
  "locked (locks s lk) = 0 \<Longrightarrow> noff (mycpu_of s) < INT_MAX \<Longrightarrow> acquire lk es s = Ret () es (entered lk s)"
  by (simp add: acquire_def push_off_run acquire_spin_free holds_lock_def entered_def cpu_op_defs)

lemma release_run:
  "lock_mine lk s \<Longrightarrow> release lk es s = Ret () es (left lk s)"
  by (simp add: release_def lock_mine_def left_def cpu_op_defs pop_off_run intr_enabled_def)

lemma lock_mine_entered:
  "lock_free lk s \<Longrightarrow> lock_mine lk (entered lk s)"
  by (simp add: lock_mine_def lock_free_def entered_def pushed_def holds_lock_def intr_enabled_def)

lemma left_entered:
  "lock_free lk s \<Longrightarrow> left lk (entered lk s) = intr_saved s"
  by (cases s) (auto simp: left_def entered_def pushed_def popped_def intr_saved_def lock_free_def
      intr_enabled_def intr_bit_restore intr_bit_already_off)

text \<open>
  The shape \<^verbatim>\<open>acquire(lk); ...; release(lk);\<close>: a body that runs under the lock and
  leaves the lock, this hart's registers and its \<^verbatim>\<open>struct cpu\<close> alone.
\<close>

definition same_lock_view :: "lockid \<Rightarrow> 'z lock_state_scheme \<Rightarrow> 'z lock_state_scheme \<Rightarrow> bool" where
  "same_lock_view lk s s' \<longleftrightarrow>
     tp s' = tp s \<and> sstatus s' = sstatus s \<and> cpus s' = cpus s \<and> locks s' lk = locks s lk"

lemma critical_section:
  assumes free: "lock_free lk s"
    and body: "body es (entered lk s) = Ret r es' s'"
    and view: "same_lock_view lk (entered lk s) s'"
  shows "kbind (acquire lk) (\<lambda>_. kbind body (\<lambda>r. kbind (release lk) (\<lambda>_. k r))) es s
         = k r es' (left lk s')"
proof -
  have "acquire lk es s = Ret () es (entered lk s)"
    using free by (simp add: acquire_run lock_free_def)
  moreover have "lock_mine lk s'"
    using lock_mine_entered [OF free] view
    by (simp add: lock_mine_def same_lock_view_def intr_enabled_def)
  ultimately show ?thesis using body by (simp add: release_run)
qed

text \<open>\<open>n\<close> nested \<open>push_off\<close>s undone by \<open>n\<close> \<open>pop_off\<close>s.\<close>

primrec krepeat :: "nat \<Rightarrow> ('s, unit) kmon \<Rightarrow> ('s, unit) kmon" where
  "krepeat 0 m = kret ()"
| "krepeat (Suc n) m = kbind m (\<lambda>_. krepeat n m)"

definition pushed_n :: "nat \<Rightarrow> 'z lock_state_scheme \<Rightarrow> 'z lock_state_scheme" where
  "pushed_n n s = (if n = 0 then s else
     s\<lparr>sstatus := sstatus s AND NOT SSTATUS_SIE,
       cpus := (cpus s)(tp s := (mycpu_of s)\<lparr>
         intena := if noff (mycpu_of s) = 0 then intr_enabled s else intena (mycpu_of s),
         noff := noff (mycpu_of s) + int n\<rparr>)\<rparr>)"

lemma pushed_pushed_n:
  assumes "0 \<le> noff (mycpu_of s)"
  shows "pushed (pushed_n n s) = pushed_n (Suc n) s"
  using assms
  by (cases s, cases "mycpu_of s") (auto simp: pushed_def pushed_n_def intr_enabled_def)

lemma krepeat_push_off:
  assumes "0 \<le> noff (mycpu_of s)" "noff (mycpu_of s) + int (k + n) \<le> INT_MAX"
  shows "krepeat n push_off es (pushed_n k s) = Ret () es (pushed_n (k + n) s)"
  using assms(2)
proof (induction n arbitrary: k)
  case 0
  then show ?case by simp
next
  case (Suc n)
  have "noff (mycpu_of (pushed_n k s)) < INT_MAX" using Suc.prems by (simp add: pushed_n_def)
  then show ?case using Suc.IH [of "Suc k"] Suc.prems assms(1)
    by (simp add: push_off_run pushed_pushed_n)
qed

lemma krepeat_plus: "krepeat m f es s = Ret () es' s' \<Longrightarrow> krepeat (m + n) f es s = krepeat n f es' s'"
  by (induction m arbitrary: es s) (auto split: outcome.splits)

lemma krepeat_push_off_overflow:
  assumes "0 \<le> noff (mycpu_of s)" "noff (mycpu_of s) \<le> INT_MAX" "\<not> noff (mycpu_of s) + int n \<le> INT_MAX"
  shows "\<exists>s1. krepeat n push_off es s = Panic ''undefined behaviour'' s1"
proof -
  define m where "m = nat (INT_MAX - noff (mycpu_of s))"
  have m: "noff (mycpu_of s) + int m = INT_MAX" "m < n" using assms by (simp_all add: m_def)
  then obtain k where n: "n = m + Suc k" using less_iff_Suc_add by auto
  have "krepeat m push_off es s = Ret () es (pushed_n m s)"
    using krepeat_push_off [OF assms(1), of 0 m es] m(1) by (simp add: pushed_n_def)
  moreover have "noff (mycpu_of (pushed_n m s)) = INT_MAX" using m(1) by (simp add: pushed_n_def)
  then obtain s1 where "push_off es (pushed_n m s) = Panic ''undefined behaviour'' s1" using push_off_overflow by blast
  ultimately show ?thesis by (simp add: n krepeat_plus del: add_Suc_right)
qed

lemma krepeat_pop_off:
  assumes "0 \<le> noff (mycpu_of s)" and "intr_enabled s \<longrightarrow> noff (mycpu_of s) = 0"
  shows "krepeat n pop_off es (pushed_n n s) = Ret () es (if n = 0 then s else intr_saved s)"
proof (induction n)
  case 0
  then show ?case by (simp add: pushed_n_def)
next
  case (Suc n)
  have ok: "\<not> intr_enabled (pushed_n (Suc n) s)" "1 \<le> noff (mycpu_of (pushed_n (Suc n) s))"
    using assms(1) by (simp_all add: pushed_n_def intr_enabled_def)
  have "popped (pushed_n (Suc n) s) = (if n = 0 then intr_saved s else pushed_n n s)"
    using assms
    by (cases s, cases "mycpu_of s")
      (auto simp: popped_def pushed_n_def intr_saved_def intr_enabled_def
        intr_bit_restore intr_bit_already_off)
  with Suc.IH show ?case by (auto simp: pop_off_run [OF ok])
qed

subsection \<open>Invariants that do not look at locks\<close>

definition lock_indep :: "('z lock_state_scheme \<Rightarrow> bool) \<Rightarrow> bool" where
  "lock_indep I \<longleftrightarrow> (\<forall>s a b c. I (s\<lparr>sstatus := a, cpus := b, locks := c\<rparr>) = I s)"

lemma lock_indep_sstatus: "lock_indep I \<Longrightarrow> I s \<Longrightarrow> I (s\<lparr>sstatus := a\<rparr>)"
  unfolding lock_indep_def
  by (drule spec [of _ s], drule spec [of _ a], drule spec [of _ "cpus s"],
      drule spec [of _ "locks s"]) (cases s, simp)

lemma lock_indep_cpus: "lock_indep I \<Longrightarrow> I s \<Longrightarrow> I (s\<lparr>cpus := b\<rparr>)"
  unfolding lock_indep_def
  by (drule spec [of _ s], drule spec [of _ "sstatus s"], drule spec [of _ b],
      drule spec [of _ "locks s"]) (cases s, simp)

lemma lock_indep_locks: "lock_indep I \<Longrightarrow> I s \<Longrightarrow> I (s\<lparr>locks := c\<rparr>)"
  unfolding lock_indep_def
  by (drule spec [of _ s], drule spec [of _ "sstatus s"], drule spec [of _ "cpus s"],
      drule spec [of _ c]) (cases s, simp)

lemmas lock_indep_rules = lock_indep_sstatus lock_indep_cpus lock_indep_locks

lemma kpres_cpu_ops:
  assumes "lock_indep I"
  shows "kpres I intr_on" "kpres I intr_off" "kpres I intr_get" "kpres I mycpu"
    "kpres I (cpu_get c)" "kpres I (cpu_set c f)" "kpres I (lock_set lk g)" "kpres I (holding lk)"
  unfolding cpu_op_defs holding_def
  by (rule kpres_intros kpres_kmodify lock_indep_rules [OF assms] | assumption)+

lemma kpres_push_off: "lock_indep I \<Longrightarrow> kpres I push_off"
  unfolding push_off_def by (auto intro!: kpres_intros kpres_cpu_ops)

lemma kpres_pop_off: "lock_indep I \<Longrightarrow> kpres I pop_off"
  unfolding pop_off_def
  by (auto intro!: kpres_intros kpres_cpu_ops)

lemma kpres_acquire_spin:
  assumes I: "lock_indep I"
  shows "kpres I (acquire_spin lk)"
  unfolding kpres_def
proof (intro allI impI)
  fix es s
  assume "I s" and "env_keeps I es"
  then show "case acquire_spin lk es s of Ret x es' s' \<Rightarrow> I s' \<and> set es' \<subseteq> set es
      | Panic msg s' \<Rightarrow> I s' | Blocked s' \<Rightarrow> I s' | Diverge s' \<Rightarrow> I s'"
  proof (induction es arbitrary: s)
    case Nil
    then show ?case
      using lock_indep_locks [OF I Nil.prems(1)] by (simp add: acquire_spin.simps Let_def)
  next
    case (Cons e es)
    let ?s = "s\<lparr>locks := (locks s)(lk := (locks s lk)\<lparr>locked := 1\<rparr>)\<rparr>"
    have "I ?s" using lock_indep_locks [OF I] Cons.prems(1) .
    then have "I (e ?s)" using Cons.prems(2) by simp
    then have "case acquire_spin lk es (e ?s) of Ret x es' s' \<Rightarrow> I s' \<and> set es' \<subseteq> set es
      | Panic msg s' \<Rightarrow> I s' | Blocked s' \<Rightarrow> I s' | Diverge s' \<Rightarrow> I s'"
      using Cons.prems(2) by (intro Cons.IH) simp_all
    then show ?case
      using \<open>I ?s\<close> by (subst acquire_spin.simps) (auto simp: Let_def split: outcome.splits)
  qed
qed

lemma kpres_acquire: "lock_indep I \<Longrightarrow> kpres I (acquire lk)"
  unfolding acquire_def
  by (auto intro!: kpres_intros kpres_cpu_ops kpres_push_off kpres_acquire_spin)

lemma kpres_release: "lock_indep I \<Longrightarrow> kpres I (release lk)"
  unfolding release_def
  by (auto intro!: kpres_intros kpres_cpu_ops kpres_pop_off)

subsection \<open>The lock interface\<close>

text \<open>
  What a client may rely on: from a state where the lock is available, taking it
  succeeds and makes the client its owner; an owner that takes it again panics;
  an owner can give it up.
\<close>

locale mutex =
  fixes acq :: "('s, unit) kmon"
    and rel :: "('s, unit) kmon"
    and avail :: "'s \<Rightarrow> bool"
    and own :: "'s \<Rightarrow> bool"
    and enter :: "'s \<Rightarrow> 's"
    and leave :: "'s \<Rightarrow> 's"
  assumes acq_avail: "avail s \<Longrightarrow> acq es s = Ret () es (enter s)"
    and own_enter: "avail s \<Longrightarrow> own (enter s)"
    and rel_own: "own s \<Longrightarrow> rel es s = Ret () es (leave s)"
begin

lemma section_update:
  assumes "avail s" and "own (f (enter s))"
  shows "kseq [acq, kmodify f, rel] es s = Ret () es (leave (f (enter s)))"
  using assms by (simp add: acq_avail rel_own)

lemma section_read:
  assumes "avail s"
  shows "kbind acq (\<lambda>_. kbind (kget g) (\<lambda>r. kbind rel (\<lambda>_. kret r))) es s
         = Ret (g (enter s)) es (leave (enter s))"
  using assms own_enter by (simp add: acq_avail rel_own)

lemma empty_section:
  assumes "avail s"
  shows "kseq [acq, rel] es s = Ret () es (leave (enter s))"
  using assms own_enter by (simp add: acq_avail rel_own)

end

interpretation spin: mutex "acquire lk" "release lk" "lock_free lk" "lock_mine lk"
  "entered lk" "left lk" for lk
  by unfold_locales (simp_all add: acquire_run lock_free_def lock_mine_entered release_run)

subsection \<open>Interleaving harts\<close>

text \<open>
  Where a hart is in \<open>acquire\<close> or \<open>release\<close> of one lock.  \<open>Swapped\<close>: its atomic
  swap found 0 but \<^verbatim>\<open>lk->cpu\<close> is not yet written; \<open>Cleared\<close>: it has cleared
  \<^verbatim>\<open>lk->cpu\<close> but not yet stored 0.
\<close>

datatype spin_pc = Outside | Spinning | Swapped | Inside | Cleared

record spin_sys =
  slock :: spinlock
  pcs :: "nat \<Rightarrow> spin_pc"

definition spin_init :: "string \<Rightarrow> spin_sys" where
  "spin_init name = \<lparr>slock = \<lparr>locked = 0, lk_name = name, lk_cpu = None\<rparr>, pcs = (\<lambda>_. Outside)\<rparr>"

inductive spin_step :: "spin_sys \<Rightarrow> spin_sys \<Rightarrow> bool" where
  enter: "pcs s i = Outside \<Longrightarrow> \<not> holds_lock (slock s) i \<Longrightarrow>
     spin_step s (s\<lparr>pcs := (pcs s)(i := Spinning)\<rparr>)"
| swap_busy: "pcs s i = Spinning \<Longrightarrow> locked (slock s) \<noteq> 0 \<Longrightarrow>
     spin_step s (s\<lparr>slock := (slock s)\<lparr>locked := 1\<rparr>\<rparr>)"
| swap_free: "pcs s i = Spinning \<Longrightarrow> locked (slock s) = 0 \<Longrightarrow>
     spin_step s (s\<lparr>slock := (slock s)\<lparr>locked := 1\<rparr>, pcs := (pcs s)(i := Swapped)\<rparr>)"
| record_cpu: "pcs s i = Swapped \<Longrightarrow>
     spin_step s (s\<lparr>slock := (slock s)\<lparr>lk_cpu := Some i\<rparr>, pcs := (pcs s)(i := Inside)\<rparr>)"
| clear_cpu: "pcs s i = Inside \<Longrightarrow> holds_lock (slock s) i \<Longrightarrow>
     spin_step s (s\<lparr>slock := (slock s)\<lparr>lk_cpu := None\<rparr>, pcs := (pcs s)(i := Cleared)\<rparr>)"
| unlock: "pcs s i = Cleared \<Longrightarrow>
     spin_step s (s\<lparr>slock := (slock s)\<lparr>locked := 0\<rparr>, pcs := (pcs s)(i := Outside)\<rparr>)"

inductive spin_reachable :: "string \<Rightarrow> spin_sys \<Rightarrow> bool" for name where
  start: "spin_reachable name (spin_init name)"
| step: "spin_reachable name s \<Longrightarrow> spin_step s t \<Longrightarrow> spin_reachable name t"

inductive_cases spin_stepE: "spin_step s t"

definition critical :: "spin_pc \<Rightarrow> bool" where
  "critical p \<longleftrightarrow> p = Swapped \<or> p = Inside \<or> p = Cleared"

lemma critical_simps [simp]:
  "critical Swapped" "critical Inside" "critical Cleared" "\<not> critical Outside" "\<not> critical Spinning"
  by (simp_all add: critical_def)

text \<open>At most one hart is past its swap, and the lock word and \<^verbatim>\<open>lk->cpu\<close> say which.\<close>

definition spin_inv :: "spin_sys \<Rightarrow> bool" where
  "spin_inv s \<longleftrightarrow>
     (\<forall>i j. critical (pcs s i) \<longrightarrow> critical (pcs s j) \<longrightarrow> i = j) \<and>
     (locked (slock s) = 0 \<longleftrightarrow> (\<forall>i. \<not> critical (pcs s i))) \<and>
     (\<forall>i. lk_cpu (slock s) = Some i \<longleftrightarrow> pcs s i = Inside)"

lemma spin_inv_init: "spin_inv (spin_init name)"
  by (simp add: spin_inv_def spin_init_def)

lemma spin_inv_alone:
  "spin_inv s \<Longrightarrow> critical (pcs s i) \<Longrightarrow> k \<noteq> i \<Longrightarrow> \<not> critical (pcs s k)"
  unfolding spin_inv_def by metis

lemma spin_inv_cpu: "spin_inv s \<Longrightarrow> (lk_cpu (slock s) = Some k) = (pcs s k = Inside)"
  by (simp add: spin_inv_def)

lemma spin_inv_free: "spin_inv s \<Longrightarrow> locked (slock s) = 0 \<Longrightarrow> \<not> critical (pcs s k)"
  by (simp add: spin_inv_def)

lemma spin_inv_taken: "spin_inv s \<Longrightarrow> critical (pcs s i) \<Longrightarrow> locked (slock s) \<noteq> 0"
  by (auto simp: spin_inv_def)

text \<open>When hart \<open>i\<close> is the only one past its swap, the invariant is about it alone.\<close>

lemma spin_invI_alone:
  assumes "\<And>k. k \<noteq> i \<Longrightarrow> \<not> critical (pcs t k)"
    and "locked (slock t) = 0 \<longleftrightarrow> \<not> critical (pcs t i)"
    and "\<And>k. lk_cpu (slock t) = Some k \<longleftrightarrow> k = i \<and> pcs t i = Inside"
  shows "spin_inv t"
proof -
  have "pcs t k = Inside \<longleftrightarrow> k = i \<and> pcs t i = Inside" for k
    using assms(1) [of k] by (cases "k = i") auto
  then have "\<forall>k. lk_cpu (slock t) = Some k \<longleftrightarrow> pcs t k = Inside" using assms(3) by metis
  moreover have "\<forall>k j. critical (pcs t k) \<longrightarrow> critical (pcs t j) \<longrightarrow> k = j"
    using assms(1) by metis
  moreover have "locked (slock t) = 0 \<longleftrightarrow> (\<forall>k. \<not> critical (pcs t k))"
    using assms(1,2) by metis
  ultimately show ?thesis by (simp add: spin_inv_def)
qed

lemma spin_inv_step:
  assumes "spin_step s t" and inv: "spin_inv s"
  shows "spin_inv t"
  using assms(1)
proof cases
  case (enter i)
  then have crit: "\<And>k. critical (pcs t k) = critical (pcs s k)" and
    ins: "\<And>k. (pcs t k = Inside) = (pcs s k = Inside)" by auto
  have "slock t = slock s" using enter by simp
  then show ?thesis using inv unfolding spin_inv_def crit ins by simp
next
  case (swap_busy i)
  then show ?thesis using inv by (simp add: spin_inv_def)
next
  case (swap_free i)
  have none: "\<not> critical (pcs s k)" for k using inv swap_free(3) by (rule spin_inv_free)
  have "pcs s k \<noteq> Inside" for k using none [of k] by auto
  then have "lk_cpu (slock s) \<noteq> Some k" for k using spin_inv_cpu [OF inv] by simp
  with none show ?thesis unfolding swap_free(1) by (intro spin_invI_alone [of i]) simp_all
next
  case (record_cpu i)
  then have i: "critical (pcs s i)" by simp
  show ?thesis unfolding record_cpu(1)
    using spin_inv_alone [OF inv i] spin_inv_taken [OF inv i]
    by (intro spin_invI_alone [of i]) auto
next
  case (clear_cpu i)
  then have i: "critical (pcs s i)" by simp
  show ?thesis unfolding clear_cpu(1)
    using spin_inv_alone [OF inv i] spin_inv_taken [OF inv i]
    by (intro spin_invI_alone [of i]) auto
next
  case (unlock i)
  then have i: "critical (pcs s i)" by simp
  have "lk_cpu (slock s) \<noteq> Some k" for k
    using spin_inv_alone [OF inv i, of k] spin_inv_cpu [OF inv, of k] unlock(2)
    by (cases "k = i") auto
  then show ?thesis unfolding unlock(1)
    using spin_inv_alone [OF inv i] by (intro spin_invI_alone [of i]) simp_all
qed

lemma spin_reachable_inv: "spin_reachable name s \<Longrightarrow> spin_inv s"
  by (induction rule: spin_reachable.induct) (auto intro: spin_inv_init spin_inv_step)

subsection \<open>Properties\<close>

text \<open>
  C2: On any number of harts running \<^verbatim>\<open>acquire\<close> and \<^verbatim>\<open>release\<close> on one spin lock in
  any interleaving of their instructions, at most one hart is between its
  successful atomic swap and the store that frees the lock; and \<^verbatim>\<open>holding\<close> is
  true exactly for the hart that is inside, so neither the panic of \<^verbatim>\<open>acquire\<close>
  (already holding) nor that of \<^verbatim>\<open>release\<close> (not holding) can fire.
\<close>

theorem spinlock_mutual_exclusion:
  assumes "spin_reachable name s"
  shows "(critical (pcs s i) \<and> critical (pcs s j) \<longrightarrow> i = j) \<and>
    (holds_lock (slock s) i \<longleftrightarrow> pcs s i = Inside)"
proof -
  have inv: "spin_inv s" using assms by (rule spin_reachable_inv)
  then have uniq: "critical (pcs s i) \<and> critical (pcs s j) \<longrightarrow> i = j"
    and word: "locked (slock s) = 0 \<Longrightarrow> \<not> critical (pcs s i)"
    and owner: "lk_cpu (slock s) = Some i \<longleftrightarrow> pcs s i = Inside"
    by (simp_all add: spin_inv_def)
  have "holds_lock (slock s) i \<longleftrightarrow> pcs s i = Inside"
    using word owner by (auto simp: holds_lock_def)
  with uniq show ?thesis by simp
qed

text \<open>A run in which hart 0 gets the lock while hart 1 spins.\<close>

lemma spin_run_example:
  "\<exists>s. spin_reachable ''kmem'' s \<and> pcs s 0 = Inside \<and> pcs s 1 = Spinning"
proof -
  let ?s0 = "spin_init ''kmem''"
  let ?s1 = "?s0\<lparr>pcs := (pcs ?s0)(0 := Spinning)\<rparr>"
  let ?s2 = "?s1\<lparr>pcs := (pcs ?s1)(1 := Spinning)\<rparr>"
  let ?s3 = "?s2\<lparr>slock := (slock ?s2)\<lparr>locked := 1\<rparr>, pcs := (pcs ?s2)(0 := Swapped)\<rparr>"
  let ?s4 = "?s3\<lparr>slock := (slock ?s3)\<lparr>lk_cpu := Some 0\<rparr>, pcs := (pcs ?s3)(0 := Inside)\<rparr>"
  have "spin_step ?s0 ?s1" by (rule spin_step.enter) (simp_all add: spin_init_def holds_lock_def)
  with spin_reachable.start have "spin_reachable ''kmem'' ?s1" by (rule spin_reachable.step)
  moreover have "spin_step ?s1 ?s2"
    by (rule spin_step.enter) (simp_all add: spin_init_def holds_lock_def)
  ultimately have "spin_reachable ''kmem'' ?s2" by (rule spin_reachable.step)
  moreover have "spin_step ?s2 ?s3" by (rule spin_step.swap_free) (simp_all add: spin_init_def)
  ultimately have "spin_reachable ''kmem'' ?s3" by (rule spin_reachable.step)
  moreover have "spin_step ?s3 ?s4" by (rule spin_step.record_cpu) simp
  ultimately have "spin_reachable ''kmem'' ?s4" by (rule spin_reachable.step)
  moreover have "pcs ?s4 0 = Inside" and "pcs ?s4 1 = Spinning" by simp_all
  ultimately show ?thesis by (intro exI conjI)
qed

theorem spinlock_mutual_exclusion_witness:
  "\<exists>s. spin_reachable ''kmem'' s \<and> pcs s 0 = Inside \<and> pcs s 1 = Spinning \<and>
     \<not> holds_lock (slock s) 1"
proof -
  obtain s where s: "spin_reachable ''kmem'' s" "pcs s 0 = Inside" "pcs s 1 = Spinning"
    using spin_run_example by blast
  moreover have "\<not> holds_lock (slock s) 1"
    using spinlock_mutual_exclusion [OF s(1), of 1 0] s(3) by simp
  ultimately show ?thesis by blast
qed

text \<open>
  C31: \<^verbatim>\<open>acquire\<close> of a free lock and the matching \<^verbatim>\<open>release\<close> succeed, whatever the
  other harts do, and restore the lock, the interrupt-enable bit and the nesting
  depth: only the saved \<^verbatim>\<open>intena\<close> of this CPU differs, and it records whether
  interrupts were on before.
\<close>

theorem acquire_release_restores:
  assumes "lock_free lk s"
  shows "kseq [acquire lk, release lk] es s = Ret () es (intr_saved s) \<and>
    locks (intr_saved s) = locks s \<and> sstatus (intr_saved s) = sstatus s \<and>
    noff (mycpu_of (intr_saved s)) = noff (mycpu_of s)"
  using assms by (simp only: spin.empty_section left_entered) (simp add: intr_saved_def)

definition boot_cpu :: cpu where
  "boot_cpu = \<lparr>cpu_proc = None,
     cpu_context = \<lparr>ctx_ra = 0, ctx_sp = 0, ctx_s = (\<lambda>_. 0)\<rparr>, noff = 0, intena = False\<rparr>"

definition boot_lock :: spinlock where
  "boot_lock = \<lparr>locked = 0, lk_name = [], lk_cpu = None\<rparr>"

definition boot_lock_state :: lock_state where
  "boot_lock_state = \<lparr>tp = 0, sstatus = SSTATUS_SIE, cpus = (\<lambda>_. boot_cpu), locks = (\<lambda>_. boot_lock)\<rparr>"

lemma lock_free_boot: "lock_free lk boot_lock_state"
  by (simp add: lock_free_def boot_lock_state_def boot_cpu_def boot_lock_def)

theorem acquire_release_restores_witness:
  "lock_free KmemLock boot_lock_state \<and>
   kseq [acquire KmemLock, release KmemLock] [] boot_lock_state
     = Ret () [] (intr_saved boot_lock_state) \<and>
   sstatus (intr_saved boot_lock_state) = SSTATUS_SIE"
  using acquire_release_restores [OF lock_free_boot [of KmemLock], of "[]"] lock_free_boot
  by (auto simp: boot_lock_state_def)

text \<open>
  C32: \<^verbatim>\<open>push_off\<close> and \<^verbatim>\<open>pop_off\<close> are matched: after \<open>n\<close> nested \<^verbatim>\<open>push_off\<close>s interrupts
  are off and \<open>n\<close> \<^verbatim>\<open>pop_off\<close>s bring the interrupt-enable bit and the depth back
  to what they were; none of the panics of \<^verbatim>\<open>pop_off\<close> fires.  This holds exactly as long as
  the 32-bit counter \<^verbatim>\<open>noff\<close> can count the depth: one \<^verbatim>\<open>push_off\<close> more than fits overflows it.
\<close>

theorem push_pop_nesting:
  assumes "0 \<le> noff (mycpu_of s)" and "noff (mycpu_of s) \<le> INT_MAX" and "intr_enabled s \<longrightarrow> noff (mycpu_of s) = 0" and "0 < n"
  shows "if noff (mycpu_of s) + int n \<le> INT_MAX
    then \<exists>s1. krepeat n push_off es s = Ret () es s1 \<and> \<not> intr_enabled s1 \<and>
      noff (mycpu_of s1) = noff (mycpu_of s) + int n \<and>
      krepeat n pop_off es s1 = Ret () es (intr_saved s) \<and>
      sstatus (intr_saved s) = sstatus s
    else \<exists>s1. krepeat n push_off es s = Panic ''undefined behaviour'' s1"
proof (cases "noff (mycpu_of s) + int n \<le> INT_MAX")
  case True
  have "krepeat n push_off es s = Ret () es (pushed_n n s)"
    using krepeat_push_off [OF assms(1), of 0 n es] True by (simp add: pushed_n_def)
  moreover have "krepeat n pop_off es (pushed_n n s) = Ret () es (intr_saved s)"
    using krepeat_pop_off [OF assms(1,3), of n es] assms(4) by simp
  moreover have "\<not> intr_enabled (pushed_n n s)" "noff (mycpu_of (pushed_n n s)) = noff (mycpu_of s) + int n"
      "sstatus (intr_saved s) = sstatus s"
    using assms(4) by (simp_all add: pushed_n_def intr_enabled_def intr_saved_def)
  ultimately show ?thesis unfolding if_P [OF True] by blast
next
  case False
  then show ?thesis using krepeat_push_off_overflow [OF assms(1,2), of n es] by (simp only: if_False) blast
qed

theorem push_pop_nesting_witness:
  "\<exists>s1. krepeat 3 push_off [] boot_lock_state = Ret () [] s1 \<and> \<not> intr_enabled s1 \<and>
     noff (mycpu_of s1) = 3 \<and>
     krepeat 3 pop_off [] s1 = Ret () [] (intr_saved boot_lock_state)"
proof -
  have "0 \<le> noff (mycpu_of boot_lock_state)" "noff (mycpu_of boot_lock_state) \<le> INT_MAX"
    and "intr_enabled boot_lock_state \<longrightarrow> noff (mycpu_of boot_lock_state) = 0"
    by (simp_all add: boot_lock_state_def boot_cpu_def)
  from push_pop_nesting [OF this, of 3 "[]"] show ?thesis
    by (auto simp: boot_lock_state_def boot_cpu_def)
qed

end
