(* ===== verification/KString.thy ===== *)
theory KString
  imports Riscv
begin

text \<open>
  \<^verbatim>\<open>kernel/string.c\<close>.  The \<open>mem\<close> functions work on physical memory.  The \<open>str\<close>
  functions work on character arrays: a pointer argument is the list of bytes
  from the address it holds to the end of the object, and an access beyond the
  end, which C leaves undefined, is \<open>None\<close>.
\<close>

type_synonym bytes = "u8 list"

subsection \<open>memset, memcmp, memmove\<close>

text \<open>\<^verbatim>\<open>for(i = 0; i < n; i++) cdst[i] = c;\<close>\<close>

primrec memset_loop :: "memory \<Rightarrow> u64 \<Rightarrow> u8 \<Rightarrow> nat \<Rightarrow> memory" where
  "memset_loop m dst c 0 = m"
| "memset_loop m dst c (Suc i) = (memset_loop m dst c i)(dst + of_nat i := c)"

definition memset :: "memory \<Rightarrow> u64 \<Rightarrow> u32 \<Rightarrow> u32 \<Rightarrow> memory" where
  "memset m dst c n = memset_loop m dst (ucast c) (unat n)"

primrec memcmp_loop :: "memory \<Rightarrow> u64 \<Rightarrow> u64 \<Rightarrow> nat \<Rightarrow> int" where
  "memcmp_loop m s1 s2 0 = 0"
| "memcmp_loop m s1 s2 (Suc n) =
     (if m s1 \<noteq> m s2 then uint (m s1) - uint (m s2) else memcmp_loop m (s1 + 1) (s2 + 1) n)"

definition memcmp :: "memory \<Rightarrow> u64 \<Rightarrow> u64 \<Rightarrow> u32 \<Rightarrow> int" where
  "memcmp m v1 v2 n = memcmp_loop m v1 v2 (unat n)"

primrec copy_up :: "memory \<Rightarrow> u64 \<Rightarrow> u64 \<Rightarrow> nat \<Rightarrow> memory" where
  "copy_up m d s 0 = m"
| "copy_up m d s (Suc n) = copy_up (m(d := m s)) (d + 1) (s + 1) n"

primrec copy_down :: "memory \<Rightarrow> u64 \<Rightarrow> u64 \<Rightarrow> nat \<Rightarrow> memory" where
  "copy_down m d s 0 = m"
| "copy_down m d s (Suc n) = copy_down (m(d - 1 := m (s - 1))) (d - 1) (s - 1) n"

definition memmove :: "memory \<Rightarrow> u64 \<Rightarrow> u64 \<Rightarrow> u32 \<Rightarrow> memory" where
  "memmove m dst src n =
     (if n = 0 then m
      else if src < dst \<and> src + ucast n > dst
      then copy_down m (dst + ucast n) (src + ucast n) (unat n)
      else copy_up m dst src (unat n))"

definition memcpy :: "memory \<Rightarrow> u64 \<Rightarrow> u64 \<Rightarrow> u32 \<Rightarrow> memory" where
  "memcpy m dst src n = memmove m dst src n"

subsection \<open>strncmp, strncpy, safestrcpy, strlen\<close>

fun strncmp :: "bytes \<Rightarrow> bytes \<Rightarrow> nat \<Rightarrow> int option" where
  "strncmp p q 0 = Some 0"
| "strncmp (a # p) (b # q) (Suc n) =
     (if a \<noteq> 0 \<and> a = b then strncmp p q n else Some (uint a - uint b))"
| "strncmp _ _ _ = None"

text \<open>\<^verbatim>\<open>s[i] = c\<close>\<close>

definition poke :: "bytes \<Rightarrow> nat \<Rightarrow> u8 \<Rightarrow> bytes option" where
  "poke s i c = (if i < length s then Some (s[i := c]) else None)"

text \<open>\<^verbatim>\<open>while(n-- > 0) *s++ = 0;\<close>\<close>

fun strncpy_pad :: "bytes \<Rightarrow> nat \<Rightarrow> nat \<Rightarrow> bytes option" where
  "strncpy_pad s i 0 = Some s"
| "strncpy_pad s i (Suc n) = Option.bind (poke s i 0) (\<lambda>s'. strncpy_pad s' (Suc i) n)"

text \<open>\<^verbatim>\<open>while(n-- > 0 && (*s++ = *t++) != 0);\<close> and then the padding.\<close>

fun strncpy_loop :: "bytes \<Rightarrow> nat \<Rightarrow> bytes \<Rightarrow> nat \<Rightarrow> bytes option" where
  "strncpy_loop s i t 0 = Some s"
| "strncpy_loop s i [] (Suc n) = None"
| "strncpy_loop s i (c # t) (Suc n) =
     Option.bind (poke s i c) (\<lambda>s'.
       if c \<noteq> 0 then strncpy_loop s' (Suc i) t n else strncpy_pad s' (Suc i) n)"

definition strncpy :: "bytes \<Rightarrow> bytes \<Rightarrow> int \<Rightarrow> bytes option" where
  "strncpy s t n = strncpy_loop s 0 t (nat n)"

text \<open>\<^verbatim>\<open>while(--n > 0 && (*s++ = *t++) != 0); *s = 0;\<close>, entered with \<open>n > 0\<close>.\<close>

fun safestrcpy_loop :: "bytes \<Rightarrow> nat \<Rightarrow> bytes \<Rightarrow> nat \<Rightarrow> bytes option" where
  "safestrcpy_loop s i t 0 = poke s i 0"
| "safestrcpy_loop s i t (Suc 0) = poke s i 0"
| "safestrcpy_loop s i [] (Suc (Suc n)) = None"
| "safestrcpy_loop s i (c # t) (Suc (Suc n)) =
     Option.bind (poke s i c) (\<lambda>s'.
       if c \<noteq> 0 then safestrcpy_loop s' (Suc i) t (Suc n) else poke s' (Suc i) 0)"

definition safestrcpy :: "bytes \<Rightarrow> bytes \<Rightarrow> int \<Rightarrow> bytes option" where
  "safestrcpy s t n = (if n \<le> 0 then Some s else safestrcpy_loop s 0 t (nat n))"

fun strlen :: "bytes \<Rightarrow> nat option" where
  "strlen [] = None"
| "strlen (c # s) = (if c \<noteq> 0 then map_option Suc (strlen s) else Some 0)"

subsection \<open>Blocks of memory\<close>

text \<open>Address \<open>x\<close> lies in the \<open>n\<close> bytes from \<open>a\<close> on.\<close>

definition in_block :: "u64 \<Rightarrow> nat \<Rightarrow> u64 \<Rightarrow> bool" where
  "in_block a n x \<longleftrightarrow> unat (x - a) < n"

lemma in_block_0 [simp]: "\<not> in_block a 0 x"
  by (simp add: in_block_def)

lemma memset_loop_eq:
  assumes "n \<le> 2 ^ 64"
  shows "memset_loop m dst c n = (\<lambda>x. if in_block dst n x then c else m x)"
  using assms
proof (induction n)
  case 0
  then show ?case by simp
next
  case (Suc n)
  have n: "unat (of_nat n :: u64) = n" using Suc.prems by (simp add: unat_of_nat)
  have "x = dst + of_nat n \<longleftrightarrow> unat (x - dst) = n" for x
  proof
    assume "unat (x - dst) = n"
    then have "x - dst = of_nat n" by (simp add: word_unat_eq_iff n)
    then show "x = dst + of_nat n" by (simp add: algebra_simps)
  qed (simp add: n)
  with Suc show ?case by (auto simp: fun_eq_iff in_block_def)
qed

lemma memset_eq:
  "memset m dst c n = (\<lambda>x. if in_block dst (unat n) x then ucast c else m x)"
proof -
  have "unat n \<le> 2 ^ 64"
    using unsigned_less [of n] by (intro less_imp_le order_less_le_trans [OF unsigned_less]) simp
  then show ?thesis by (simp add: memset_def memset_loop_eq)
qed

lemma copy_up_eq:
  assumes "unat s + n \<le> 2 ^ 64" and "unat d + n \<le> 2 ^ 64"
    and "unat d \<le> unat s \<or> unat s + n \<le> unat d"
  shows "copy_up m d s n = (\<lambda>x. if in_block d n x then m (s + (x - d)) else m x)"
  using assms
proof (induction n arbitrary: m d s)
  case 0
  then show ?case by simp
next
  case (Suc n)
  show ?case
  proof (cases "n = 0")
    case True
    then show ?thesis by (auto simp: in_block_def fun_eq_iff unat_eq_0)
  next
    case False
    have up: "unat (s + 1) = unat s + 1" "unat (d + 1) = unat d + 1"
      using Suc.prems False by (simp_all add: unat_plus_if')
    have IH: "copy_up (m(d := m s)) (d + 1) (s + 1) n =
      (\<lambda>x. if in_block (d + 1) n x then (m(d := m s)) (s + 1 + (x - (d + 1))) else (m(d := m s)) x)"
      using Suc.prems by (intro Suc.IH) (auto simp: up)
    show ?thesis
    proof
      fix x
      show "copy_up m d s (Suc n) x = (if in_block d (Suc n) x then m (s + (x - d)) else m x)"
      proof (cases "x = d")
        case True
        have "\<not> in_block (d + 1) n d"
          using Suc.prems(2) by (simp add: in_block_def unsigned_minus_1_eq_mask mask_eq_exp_minus_1)
        then show ?thesis using True by (simp add: IH) (simp add: in_block_def)
      next
        case ne: False
        then have pos: "unat (x - d) \<noteq> 0" by (simp add: unat_eq_0)
        have sub: "x - (d + 1) = x - d - 1" by simp
        have "unat (x - (d + 1)) = unat (x - d) - 1"
          unfolding sub using pos by (intro unat_minus_one) (simp add: unat_eq_0)
        then have blk: "in_block (d + 1) n x \<longleftrightarrow> in_block d (Suc n) x"
          using pos by (auto simp: in_block_def)
        have "s + (x - d) \<noteq> d" if "in_block d (Suc n) x"
        proof -
          have "unat s + unat (x - d) < 2 ^ 64" using that Suc.prems(1) by (simp add: in_block_def)
          then have "unat (s + (x - d)) = unat s + unat (x - d)" by (simp add: unat_plus_if')
          then show ?thesis
            using that pos Suc.prems(3) by (auto simp: in_block_def word_unat_eq_iff)
        qed
        then show ?thesis using ne blk by (simp add: IH)
      qed
    qed
  qed
qed

lemma copy_down_eq:
  assumes "unat s + n \<le> 2 ^ 64" and "unat d + n \<le> 2 ^ 64" and "unat s \<le> unat d"
  shows "copy_down m (d + of_nat n) (s + of_nat n) n =
    (\<lambda>x. if in_block d n x then m (s + (x - d)) else m x)"
  using assms
proof (induction n arbitrary: m)
  case 0
  then show ?case by simp
next
  case (Suc n)
  have n: "unat (of_nat n :: u64) = n" using Suc.prems by (simp add: unat_of_nat)
  let ?m = "m(d + of_nat n := m (s + of_nat n))"
  have IH: "copy_down ?m (d + of_nat n) (s + of_nat n) n =
    (\<lambda>x. if in_block d n x then ?m (s + (x - d)) else ?m x)"
    using Suc.prems by (intro Suc.IH) simp_all
  have step: "copy_down m (d + of_nat (Suc n)) (s + of_nat (Suc n)) (Suc n) =
    copy_down ?m (d + of_nat n) (s + of_nat n) n"
    by (simp add: algebra_simps)
  show ?case
  proof
    fix x
    have last: "x = d + of_nat n \<longleftrightarrow> unat (x - d) = n"
    proof
      assume "unat (x - d) = n"
      then have "x - d = of_nat n" by (simp add: word_unat_eq_iff n)
      then show "x = d + of_nat n" by (simp add: algebra_simps)
    qed (simp add: n)
    have "s + (x - d) \<noteq> d + of_nat n" if "in_block d n x"
    proof -
      have "unat s + unat (x - d) < 2 ^ 64" "unat d + n < 2 ^ 64"
        using that Suc.prems by (simp_all add: in_block_def)
      then have "unat (s + (x - d)) = unat s + unat (x - d)" "unat (d + of_nat n) = unat d + n"
        by (simp_all add: unat_plus_if' n)
      then show ?thesis using that Suc.prems(3) by (auto simp: in_block_def word_unat_eq_iff)
    qed
    moreover have "x = d + of_nat n \<Longrightarrow> s + of_nat n = s + (x - d)" by simp
    ultimately show "copy_down m (d + of_nat (Suc n)) (s + of_nat (Suc n)) (Suc n) x =
      (if in_block d (Suc n) x then m (s + (x - d)) else m x)"
      unfolding step IH using last by (auto simp: in_block_def)
  qed
qed

text \<open>A copy as if through a temporary buffer.\<close>

definition block_copy :: "memory \<Rightarrow> u64 \<Rightarrow> u64 \<Rightarrow> nat \<Rightarrow> memory" where
  "block_copy m dst src n = (\<lambda>x. if in_block dst n x then m (src + (x - dst)) else m x)"

lemma memmove_eq:
  assumes "unat src + unat n < 2 ^ 64" and "unat dst + unat n \<le> 2 ^ 64"
  shows "memmove m dst src n = block_copy m dst src (unat n)"
proof (cases "n = 0")
  case True
  then show ?thesis by (simp add: memmove_def block_copy_def)
next
  case False
  show ?thesis
  proof (cases "src < dst \<and> src + ucast n > dst")
    case True
    then have "unat src \<le> unat dst" by (simp add: word_less_nat_alt)
    with copy_down_eq [of src "unat n" dst m] True False assms show ?thesis
      by (simp add: memmove_def block_copy_def)
  next
    case up: False
    have "unat dst \<le> unat src \<or> unat src + unat n \<le> unat dst"
    proof (cases "src < dst")
      case True
      have "unat (src + ucast n) = unat src + unat n"
        using assms(1) by (simp add: unat_plus_if' unat_ucast_32_64)
      with up True show ?thesis by (auto simp: word_less_nat_alt not_less)
    qed (simp add: word_less_nat_alt not_less)
    with copy_up_eq [of src "unat n" dst m] up False assms show ?thesis
      by (auto simp: memmove_def block_copy_def)
  qed
qed

subsection \<open>C strings\<close>

definition cstr :: "bytes \<Rightarrow> bytes" where
  "cstr s = takeWhile (\<lambda>c. c \<noteq> 0) s"

lemma cstr_Nil [simp]: "cstr [] = []"
  by (simp add: cstr_def)

lemma cstr_Cons [simp]: "cstr (c # s) = (if c = 0 then [] else c # cstr s)"
  by (simp add: cstr_def)

lemma strlen_eq: "strlen s = (if 0 \<in> set s then Some (length (cstr s)) else None)"
  by (induction s) auto

lemma strncmp_total:
  assumes "0 \<in> set p \<or> n \<le> length p" and "0 \<in> set q \<or> n \<le> length q"
  shows "\<exists>r. strncmp p q n = Some r \<and> (r = 0 \<longleftrightarrow> take n (cstr p) = take n (cstr q))"
  using assms
proof (induction p q n rule: strncmp.induct)
  case (1 p q)
  then show ?case by simp
next
  case (2 a p b q n)
  show ?case
  proof (cases "a \<noteq> 0 \<and> a = b")
    case True
    with "2.prems" have "0 \<in> set p \<or> n \<le> length p" "0 \<in> set q \<or> n \<le> length q" by auto
    with True "2.IH" show ?thesis by auto
  next
    case False
    have "uint a - uint b = 0 \<longleftrightarrow> a = b" by (simp add: word_uint_eq_iff)
    with False show ?thesis by (auto simp: take_Cons')
  qed
qed simp_all

lemma poke_Some: "i < length s \<Longrightarrow> poke s i c = Some (s[i := c])"
  by (simp add: poke_def)

lemma nth_drop_Suc_update: "i < length s \<Longrightarrow> drop i (s[i := c]) = c # drop (Suc i) s"
  by (simp add: Cons_nth_drop_Suc [symmetric] drop_update_cancel)

text \<open>
  The copy never leaves the \<open>n\<close> bytes it was given, keeps what precedes the
  cursor and always ends in a NUL.
\<close>

lemma safestrcpy_loop_spec:
  assumes "0 < n" and "i + n \<le> length s" and "0 \<in> set t \<or> n - 1 \<le> length t"
  shows "\<exists>s'. safestrcpy_loop s i t n = Some s' \<and> length s' = length s \<and>
    take i s' = take i s \<and> drop (i + n) s' = drop (i + n) s \<and>
    cstr (drop i s') = take (n - 1) (cstr t) \<and> 0 \<in> set (take n (drop i s'))"
  using assms
proof (induction s i t n rule: safestrcpy_loop.induct)
  case (1 s i t)
  then show ?case by simp
next
  case (2 s i t)
  then show ?case by (simp add: poke_Some nth_drop_Suc_update)
next
  case (3 s i n)
  then show ?case by simp
next
  case (4 s i c t n)
  have i: "i < length s" using "4.prems" by simp
  show ?case
  proof (cases "c = 0")
    case True
    have "Suc i < length s" using "4.prems" by simp
    moreover have "s[i := 0, Suc i := 0] = (s[Suc i := 0])[i := 0]"
      by (rule list_update_swap) simp
    ultimately show ?thesis
      using True i by (simp add: poke_Some nth_drop_Suc_update)
  next
    case False
    let ?s = "s[i := c]"
    from "4.prems" False have pre: "Suc i + Suc n \<le> length ?s" "0 \<in> set t \<or> Suc n - 1 \<le> length t"
      by auto
    obtain s' where s': "safestrcpy_loop ?s (Suc i) t (Suc n) = Some s'" "length s' = length ?s"
      "take (Suc i) s' = take (Suc i) ?s" "drop (Suc i + Suc n) s' = drop (Suc i + Suc n) ?s"
      "cstr (drop (Suc i) s') = take (Suc n - 1) (cstr t)" "0 \<in> set (take (Suc n) (drop (Suc i) s'))"
      using "4.IH" [OF poke_Some [OF i] False _ pre] by auto
    have "take (Suc i) s' ! i = take (Suc i) ?s ! i" using s'(3) by simp
    then have hd: "s' ! i = c" using i by simp
    have dr: "drop i s' = c # drop (Suc i) s'"
      using i s'(2) hd by (simp add: Cons_nth_drop_Suc [symmetric])
    have "take i (take (Suc i) s') = take i (take (Suc i) ?s)" using s'(3) by simp
    then have "take i s' = take i s" by simp
    then show ?thesis
      using s' False i by (simp add: poke_Some dr)
  qed
qed

lemma strncpy_pad_eq:
  "i + n \<le> length s \<Longrightarrow> strncpy_pad s i n = Some (take i s @ replicate n 0 @ drop (i + n) s)"
proof (induction s i n rule: strncpy_pad.induct)
  case (2 s i n)
  have i: "i < length s" using "2.prems" by simp
  have "take (Suc i) (s[i := 0]) = take i s @ [0]"
    using i by (simp add: take_Suc_conv_app_nth)
  then show ?case using "2.IH" [OF poke_Some [OF i]] "2.prems" i by (simp add: poke_Some)
qed simp

text \<open>\<^verbatim>\<open>strncpy\<close> writes exactly \<open>n\<close> bytes: the string, padded with NULs, cut at \<open>n\<close>.\<close>

lemma strncpy_loop_eq:
  assumes "i + n \<le> length s" and "0 \<in> set t \<or> n \<le> length t"
  shows "strncpy_loop s i t n = Some (take i s @ take n (cstr t @ replicate n 0) @ drop (i + n) s)"
  using assms
proof (induction s i t n rule: strncpy_loop.induct)
  case (3 s i c t n)
  have i: "i < length s" using "3.prems" by simp
  have tk: "take (Suc i) (s[i := c]) = take i s @ [c]"
    using i by (simp add: take_Suc_conv_app_nth)
  show ?case
  proof (cases "c = 0")
    case True
    then show ?thesis
      using strncpy_pad_eq [of "Suc i" n "s[i := c]"] "3.prems"(1) i tk by (simp add: poke_Some)
  next
    case False
    then have pre: "Suc i + n \<le> length (s[i := c])" "0 \<in> set t \<or> n \<le> length t"
      using "3.prems" by auto
    have "take n (cstr t @ replicate n 0) = take n (cstr t @ 0 # replicate n 0)"
      by (simp add: take_Cons' replicate_append_same [symmetric])
    then show ?thesis
      using "3.IH" [OF poke_Some [OF i] False pre] False i tk by (simp add: poke_Some)
  qed
qed simp_all

lemma strncpy_eq:
  assumes "n \<le> length s" and "0 \<in> set t \<or> n \<le> length t"
  shows "strncpy s t (int n) = Some (take n (cstr t @ replicate n 0) @ drop n s)"
  using strncpy_loop_eq [of 0 n s t] assms by (simp add: strncpy_def)

subsection \<open>Properties\<close>

text \<open>
  C34: \<^verbatim>\<open>memmove\<close> copies as if through a temporary buffer, also when source and
  destination overlap, provided neither block runs past the end of the address
  space: byte \<open>i\<close> of the destination becomes what byte \<open>i\<close> of the source was, and
  no byte outside the destination changes.
\<close>

theorem memmove_handles_overlap:
  assumes "unat src + unat n < 2 ^ 64" and "unat dst + unat n \<le> 2 ^ 64"
  shows "memmove m dst src n x =
    (if unat (x - dst) < unat n then m (src + (x - dst)) else m x)"
  using memmove_eq [OF assms, of m] by (simp add: block_copy_def in_block_def)

theorem memmove_handles_overlap_witness:
  "memmove (\<lambda>a. ucast a) 1002 1000 8 1009 = (ucast (1007 :: u64) :: u8) \<and>
   memmove (\<lambda>a. ucast a) 1000 1002 8 1000 = (ucast (1002 :: u64) :: u8)"
  using memmove_handles_overlap [of 1000 8 1002 "\<lambda>a. ucast a" 1009]
    memmove_handles_overlap [of 1002 8 1000 "\<lambda>a. ucast a" 1000]
  by simp

text \<open>
  C37: \<^verbatim>\<open>safestrcpy(s, t, n)\<close> into a buffer of at least \<open>n > 0\<close> bytes stays in bounds,
  leaves the bytes from \<open>n\<close> on alone and always terminates: the buffer then holds
  the first \<open>n - 1\<close> characters of \<open>t\<close> as a C string.
\<close>

theorem safestrcpy_terminates:
  assumes "0 < n" and "nat n \<le> length s" and "0 \<in> set t \<or> nat n - 1 \<le> length t"
  shows "\<exists>s'. safestrcpy s t n = Some s' \<and> length s' = length s \<and>
    drop (nat n) s' = drop (nat n) s \<and> 0 \<in> set (take (nat n) s') \<and>
    cstr s' = take (nat n - 1) (cstr t)"
  using safestrcpy_loop_spec [of "nat n" 0 s t] assms by (auto simp: safestrcpy_def)

theorem safestrcpy_terminates_witness:
  "\<exists>s'. safestrcpy [9, 9, 9, 9, 9] [104, 101, 108, 108, 111, 0] 4 = Some s' \<and>
     cstr s' = [104, 101, 108] \<and> drop 4 s' = [9]"
  using safestrcpy_terminates [of 4 "[9, 9, 9, 9, 9]" "[104, 101, 108, 108, 111, 0]"] by auto

end
