(* ===== verification/Kalloc.thy ===== *)
theory Kalloc
  imports Spinlock KString
begin

text \<open>
  \<^verbatim>\<open>kernel/kalloc.c\<close>: the allocator of physical pages.  The free pages form a list
  threaded through their own first eight bytes (\<^verbatim>\<open>struct run\<close>).  The end of the
  kernel image (\<^verbatim>\<open>end[]\<close>, set by the linker) is the state component \<open>kend\<close>.
\<close>

record mem_state = lock_state +
  mem :: memory
  freelist :: u64      \<comment> \<open>\<^verbatim>\<open>kmem.freelist\<close>\<close>
  kend :: u64

subsection \<open>Operations\<close>

definition kfree :: "u64 \<Rightarrow> ('z mem_state_scheme, unit) kmon" where
  "kfree pa =
     kbind (kget kend) (\<lambda>kernend.
     if pa mod PGSIZE \<noteq> 0 \<or> pa < kernend \<or> pa \<ge> PHYSTOP then kpanic ''kfree'' else kseq [
       kmodify (\<lambda>s. s\<lparr>mem := memset (mem s) pa 1 (ucast PGSIZE)\<rparr>),
       acquire KmemLock,
       kmodify (\<lambda>s. s\<lparr>mem := st64 (mem s) pa (freelist s)\<rparr>),
       kmodify (\<lambda>s. s\<lparr>freelist := pa\<rparr>),
       release KmemLock])"

definition kalloc :: "('z mem_state_scheme, u64) kmon" where
  "kalloc =
     kbind (acquire KmemLock) (\<lambda>_.
     kbind (kget freelist) (\<lambda>r.
     kbind (kwhen (r \<noteq> 0) (kmodify (\<lambda>s. s\<lparr>freelist := ld64 (mem s) r\<rparr>))) (\<lambda>_.
     kbind (release KmemLock) (\<lambda>_.
     kbind (kwhen (r \<noteq> 0) (kmodify (\<lambda>s. s\<lparr>mem := memset (mem s) r 5 (ucast PGSIZE)\<rparr>))) (\<lambda>_.
     kret r)))))"

text \<open>
  \<^verbatim>\<open>for(; p + PGSIZE <= pa_end; p += PGSIZE) kfree(p);\<close> with fuel; \<open>freerange\<close> gives
  it one unit per page below \<^verbatim>\<open>pa_end\<close>, which is enough.
\<close>

primrec freerange_loop :: "nat \<Rightarrow> u64 \<Rightarrow> u64 \<Rightarrow> ('z mem_state_scheme, unit) kmon" where
  "freerange_loop 0 p pa_end = (if p + PGSIZE \<le> pa_end then kdiverge else kret ())"
| "freerange_loop (Suc n) p pa_end =
     (if p + PGSIZE \<le> pa_end
      then kbind (kfree p) (\<lambda>_. freerange_loop n (p + PGSIZE) pa_end)
      else kret ())"

definition freerange :: "u64 \<Rightarrow> u64 \<Rightarrow> ('z mem_state_scheme, unit) kmon" where
  "freerange pa_start pa_end =
     freerange_loop (unat pa_end div 4096) (PGROUNDUP pa_start) pa_end"

definition kinit :: "('z mem_state_scheme, unit) kmon" where
  "kinit = kbind (initlock KmemLock ''kmem'') (\<lambda>_.
     kbind (kget kend) (\<lambda>kernend. freerange kernend PHYSTOP))"

subsection \<open>The free list\<close>

primrec flist :: "memory \<Rightarrow> u64 \<Rightarrow> u64 list \<Rightarrow> bool" where
  "flist m p [] \<longleftrightarrow> p = 0"
| "flist m p (a # as) \<longleftrightarrow> p = a \<and> a \<noteq> 0 \<and> flist m (ld64 m a) as"

definition kernel_page :: "u64 \<Rightarrow> u64 \<Rightarrow> bool" where
  "kernel_page kernend p \<longleftrightarrow> page_aligned p \<and> kernend \<le> p \<and> p < PHYSTOP"

abbreviation in_page :: "u64 \<Rightarrow> u64 \<Rightarrow> bool" where
  "in_page p x \<equiv> in_block p 4096 x"

definition kmem_inv :: "'z mem_state_scheme \<Rightarrow> u64 list \<Rightarrow> bool" where
  "kmem_inv s ps \<longleftrightarrow>
     KERNBASE \<le> kend s \<and> flist (mem s) (freelist s) ps \<and> distinct ps \<and>
     (\<forall>p \<in> set ps. kernel_page (kend s) p)"

lemma in_page_disjoint:
  assumes "page_aligned p" and "page_aligned q" and "p \<noteq> q" and "in_page p x"
  shows "\<not> in_page q x"
proof -
  have "4096 \<le> unat (p + (x - p) - q)"
    using assms by (intro aligned_blocks_apart)
      (simp_all add: page_aligned_unat in_block_def)
  then show ?thesis by (simp add: in_block_def)
qed

lemma in_page_offset: "unat k < 4096 \<Longrightarrow> in_page p (p + k)"
  by (simp add: in_block_def)

text \<open>The next pointers of listed pages do not change when other pages are written.\<close>

lemma flist_cong:
  assumes "\<And>a x. a \<in> set ps \<Longrightarrow> in_page a x \<Longrightarrow> m' x = m x"
  shows "flist m' p ps = flist m p ps"
  using assms
proof (induction ps arbitrary: p)
  case Nil
  then show ?case by simp
next
  case (Cons a as)
  have "ld64 m' a = ld64 m a"
  proof (rule ld64_cong)
    fix k :: u64 assume "k < 8"
    then have "in_page a (a + k)" by (intro in_page_offset) (simp add: word_less_nat_alt)
    then show "m' (a + k) = m (a + k)" using Cons.prems [of a] by simp
  qed
  moreover have "flist m' q as = flist m q as" for q
    by (rule Cons.IH) (rule Cons.prems, simp_all)
  ultimately show ?case by simp
qed

lemma flist_unique: "flist m p ps \<Longrightarrow> flist m p qs \<Longrightarrow> ps = qs"
proof (induction ps arbitrary: p qs)
  case Nil
  then show ?case by (cases qs) auto
next
  case (Cons a as)
  then show ?case by (cases qs) auto
qed

lemma kernel_page_nonzero: "KERNBASE \<le> e \<Longrightarrow> kernel_page e p \<Longrightarrow> p \<noteq> 0"
  by (auto simp: kernel_page_def)

lemma st64_outside_page:
  assumes "page_aligned p" and "\<not> in_page p x"
  shows "st64 m p v x = m x"
  using assms by (simp add: st64_def in_block_def word_less_nat_alt)

subsection \<open>What the operations do\<close>

definition fill_page :: "u64 \<Rightarrow> u8 \<Rightarrow> memory \<Rightarrow> memory" where
  "fill_page p c m = (\<lambda>x. if in_page p x then c else m x)"

lemma fill_page_in [simp]: "in_page p x \<Longrightarrow> fill_page p c m x = c"
  by (simp add: fill_page_def)

lemma fill_page_out [simp]: "\<not> in_page p x \<Longrightarrow> fill_page p c m x = m x"
  by (simp add: fill_page_def)

lemma memset_page: "memset m p c 4096 = fill_page p (ucast c) m"
  by (simp add: memset_eq fill_page_def)

lemma ucast_fill [simp]: "(ucast (1 :: u32) :: u8) = 1" "(ucast (5 :: u32) :: u8) = 5"
  "(ucast (0 :: u32) :: u8) = 0"
  by (simp_all add: word_unat_eq_iff unsigned_ucast_eq)

definition freed :: "u64 \<Rightarrow> 'z mem_state_scheme \<Rightarrow> 'z mem_state_scheme" where
  "freed pa s = (intr_saved s)\<lparr>
     mem := st64 (fill_page pa 1 (mem s)) pa (freelist s), freelist := pa\<rparr>"

definition alloced :: "'z mem_state_scheme \<Rightarrow> 'z mem_state_scheme" where
  "alloced s = (if freelist s = 0 then intr_saved s else (intr_saved s)\<lparr>
     mem := fill_page (freelist s) 5 (mem s),
     freelist := ld64 (mem s) (freelist s)\<rparr>)"

lemmas lock_cycle_defs = left_def entered_def pushed_def popped_def intr_saved_def lock_free_def
  intr_enabled_def intr_bit_restore intr_bit_already_off

lemma kfree_run:
  assumes "lock_free KmemLock s" and "kernel_page (kend s) pa"
  shows "kfree pa es s = Ret () es (freed pa s)"
proof -
  let ?s = "s\<lparr>mem := memset (mem s) pa 1 (ucast PGSIZE)\<rparr>"
  have free: "lock_free KmemLock ?s" using assms(1) by (simp add: lock_free_def intr_enabled_def)
  let ?t = "(entered KmemLock ?s)\<lparr>mem := st64 (mem ?s) pa (freelist s), freelist := pa\<rparr>"
  have "lock_mine KmemLock ?t"
    using lock_mine_entered [OF free] by (simp add: lock_mine_def intr_enabled_def)
  moreover have "kseq [kmodify (\<lambda>s. s\<lparr>mem := memset (mem s) pa 1 (ucast PGSIZE)\<rparr>),
       acquire KmemLock,
       kmodify (\<lambda>s. s\<lparr>mem := st64 (mem s) pa (freelist s)\<rparr>),
       kmodify (\<lambda>s. s\<lparr>freelist := pa\<rparr>),
       release KmemLock] es s = release KmemLock es ?t"
    using free by (simp add: acquire_run lock_free_def entered_def pushed_def split: outcome.split)
  moreover have "left KmemLock ?t = freed pa s"
    using assms(1) by (cases s) (auto simp: lock_cycle_defs freed_def memset_page)
  ultimately show ?thesis
    using assms(2) by (simp add: kfree_def kernel_page_def page_aligned_def release_run not_less not_le
        del: kseq.simps)
qed

lemma kalloc_run:
  assumes "lock_free KmemLock s"
  shows "kalloc es s = Ret (freelist s) es (alloced s)"
proof -
  have acq: "acquire KmemLock es s = Ret () es (entered KmemLock s)"
    using assms by (simp add: acquire_run lock_free_def)
  have sel: "freelist (entered KmemLock s) = freelist s" "mem (entered KmemLock s) = mem s"
    by (simp_all add: entered_def pushed_def)
  show ?thesis
  proof (cases "freelist s = 0")
    case True
    then show ?thesis
      using release_run [OF lock_mine_entered [OF assms]] left_entered [OF assms]
      by (simp add: kalloc_def acq sel alloced_def)
  next
    case False
    let ?t = "(entered KmemLock s)\<lparr>freelist := ld64 (mem s) (freelist s)\<rparr>"
    have "lock_mine KmemLock ?t"
      using lock_mine_entered [OF assms] by (simp add: lock_mine_def intr_enabled_def)
    then have rel: "release KmemLock es ?t = Ret () es (left KmemLock ?t)" by (rule release_run)
    have lft: "left KmemLock ?t = (intr_saved s)\<lparr>freelist := ld64 (mem s) (freelist s)\<rparr>"
      using assms by (cases s) (auto simp: lock_cycle_defs)
    show ?thesis
      using False by (simp add: kalloc_def acq sel rel lft alloced_def memset_page)
        (cases s, simp add: intr_saved_def)
  qed
qed

lemma lock_free_intr_saved: "lock_free lk s \<Longrightarrow> lock_free lk (intr_saved s)"
  by (simp add: lock_free_def intr_saved_def intr_enabled_def)

lemma lock_free_alloced: "lock_free lk s \<Longrightarrow> lock_free lk (alloced s)"
  by (simp add: alloced_def lock_free_def intr_saved_def intr_enabled_def)

lemma lock_free_freed: "lock_free lk s \<Longrightarrow> lock_free lk (freed pa s)"
  by (simp add: freed_def lock_free_def intr_saved_def intr_enabled_def)

lemma kend_run [simp]: "kend (alloced s) = kend s" "kend (freed pa s) = kend s"
  by (simp_all add: alloced_def freed_def intr_saved_def)

lemma kmem_inv_freed:
  assumes inv: "kmem_inv s ps" and pg: "kernel_page (kend s) pa" and new: "pa \<notin> set ps"
  shows "kmem_inv (freed pa s) (pa # ps)"
proof -
  have "flist (mem (freed pa s)) (freelist s) ps = flist (mem s) (freelist s) ps"
  proof (rule flist_cong)
    fix a x assume a: "a \<in> set ps" and x: "in_page a x"
    have "page_aligned a" "page_aligned pa" "a \<noteq> pa"
      using a inv pg new by (auto simp: kmem_inv_def kernel_page_def)
    then have "\<not> in_page pa x" using x by (rule in_page_disjoint)
    then show "mem (freed pa s) x = mem s x"
      using pg by (simp add: freed_def st64_outside_page kernel_page_def)
  qed
  moreover have "pa \<noteq> 0" using inv pg kernel_page_nonzero [of "kend s" pa] by (simp add: kmem_inv_def)
  ultimately show ?thesis
    using inv pg new by (simp add: kmem_inv_def) (simp add: freed_def)
qed

lemma kmem_inv_alloced:
  assumes inv: "kmem_inv s (p # ps)"
  shows "kmem_inv (alloced s) ps"
proof -
  have p: "freelist s = p" "p \<noteq> 0" "flist (mem s) (ld64 (mem s) p) ps"
    using inv by (simp_all add: kmem_inv_def)
  have "flist (mem (alloced s)) (ld64 (mem s) p) ps = flist (mem s) (ld64 (mem s) p) ps"
  proof (rule flist_cong)
    fix a x assume a: "a \<in> set ps" and x: "in_page a x"
    have "page_aligned a" "page_aligned p" "a \<noteq> p"
      using a inv by (auto simp: kmem_inv_def kernel_page_def)
    then have "\<not> in_page p x" using x by (rule in_page_disjoint)
    then show "mem (alloced s) x = mem s x" using p by (simp add: alloced_def intr_saved_def)
  qed
  with p inv show ?thesis by (simp add: kmem_inv_def) (simp add: alloced_def)
qed

lemma kmem_inv_alloced_empty: "kmem_inv s [] \<Longrightarrow> kmem_inv (alloced s) []"
  by (simp add: kmem_inv_def alloced_def intr_saved_def)

lemma mem_alloced_other: "\<not> in_page (freelist s) x \<Longrightarrow> mem (alloced s) x = mem s x"
  by (simp add: alloced_def intr_saved_def)

lemma mem_freed_other:
  "page_aligned pa \<Longrightarrow> \<not> in_page pa x \<Longrightarrow> mem (freed pa s) x = mem s x"
  by (simp add: freed_def st64_outside_page)

subsection \<open>Initialisation\<close>

lemma multiples_apart:
  assumes "d dvd (a::nat)" and "d dvd b" and "a < b"
  shows "a + d \<le> b"
proof -
  have "d \<le> b - a" using assms by (intro dvd_imp_le dvd_diff_nat) auto
  then show ?thesis using assms(3) by simp
qed

lemma next_page_split:
  assumes "page_aligned p" and "p < PHYSTOP"
  shows "{q. page_aligned q \<and> p \<le> q \<and> q < PHYSTOP} =
    insert p {q. page_aligned q \<and> p + 4096 \<le> q \<and> q < PHYSTOP}"
proof -
  have up: "unat (p + 4096) = unat p + 4096"
    using assms(2) by (simp add: unat_plus_if' word_less_nat_alt)
  have "p + 4096 \<le> q" if "page_aligned q" "p \<le> q" "p \<noteq> q" for q
  proof -
    have "unat p < unat q" using that(2,3) by (metis word_less_nat_alt order_le_less)
    moreover have "4096 dvd unat p" "4096 dvd unat q"
      using assms(1) that(1) by (simp_all add: page_aligned_unat dvd_eq_mod_eq_0)
    ultimately have "unat p + 4096 \<le> unat q" by (intro multiples_apart)
    then show ?thesis by (simp add: word_le_nat_alt up)
  qed
  moreover have "p \<le> q" if "p + 4096 \<le> q" for q
    using that by (simp add: word_le_nat_alt up)
  ultimately show ?thesis using assms by auto
qed

lemma page_aligned_next: "page_aligned p \<Longrightarrow> p < PHYSTOP \<Longrightarrow> page_aligned (p + 4096)"
  by (simp add: page_aligned_unat unat_plus_if' word_less_nat_alt)

lemma next_page_fits:
  assumes "page_aligned p" and "p \<le> PHYSTOP"
  shows "p + 4096 \<le> PHYSTOP \<longleftrightarrow> p < PHYSTOP"
proof -
  have "unat (p + 4096) = unat p + 4096"
    using assms(2) by (simp add: unat_plus_if' word_le_nat_alt)
  moreover have "4096 dvd unat p" using assms(1) by (simp add: page_aligned_unat dvd_eq_mod_eq_0)
  then have "unat p < 2281701376 \<Longrightarrow> unat p + 4096 \<le> 2281701376"
    by (intro multiples_apart) simp_all
  ultimately show ?thesis by (auto simp: word_le_nat_alt word_less_nat_alt)
qed

lemma freerange_loop_run:
  assumes "lock_free KmemLock s" and "kmem_inv s ps"
    and "page_aligned p" and "kend s \<le> p" and "p \<le> PHYSTOP"
    and "\<forall>q \<in> set ps. q < p" and "unat PHYSTOP \<le> unat p + 4096 * n"
  shows "\<exists>s' ps'. freerange_loop n p PHYSTOP es s = Ret () es s' \<and> lock_free KmemLock s' \<and>
    kend s' = kend s \<and> kmem_inv s' ps' \<and>
    set ps' = set ps \<union> {q. page_aligned q \<and> p \<le> q \<and> q < PHYSTOP}"
  using assms
proof (induction n arbitrary: p s ps)
  case 0
  then have p: "p = PHYSTOP" by (simp add: word_le_nat_alt word_unat_eq_iff)
  have "{q. page_aligned q \<and> p \<le> q \<and> q < PHYSTOP} = {}"
    using p by auto
  with 0 p show ?case by auto
next
  case (Suc n)
  show ?case
  proof (cases "p < PHYSTOP")
    case False
    then have "p = PHYSTOP" using Suc.prems(5) by simp
    moreover from this have "{q. page_aligned q \<and> p \<le> q \<and> q < PHYSTOP} = {}" by auto
    ultimately show ?thesis using Suc.prems(1,2) by auto
  next
    case True
    have fits: "p + PGSIZE \<le> PHYSTOP"
      using next_page_fits [OF Suc.prems(3,5)] True by simp
    have up: "unat (p + 4096) = unat p + 4096"
      using True by (simp add: unat_plus_if' word_less_nat_alt)
    have kp: "kernel_page (kend s) p" using Suc.prems(3,4) True by (simp add: kernel_page_def)
    have "p \<notin> set ps" using Suc.prems(6) by auto
    then have inv: "kmem_inv (freed p s) (p # ps)"
      using Suc.prems(2) kp by (intro kmem_inv_freed)
    have "\<exists>s' ps'. freerange_loop n (p + 4096) PHYSTOP es (freed p s) = Ret () es s' \<and>
      lock_free KmemLock s' \<and> kend s' = kend (freed p s) \<and> kmem_inv s' ps' \<and>
      set ps' = set (p # ps) \<union> {q. page_aligned q \<and> p + 4096 \<le> q \<and> q < PHYSTOP}"
    proof (rule Suc.IH [OF lock_free_freed [OF Suc.prems(1)] inv])
      show "page_aligned (p + 4096)" using Suc.prems(3) True by (rule page_aligned_next)
      show "kend (freed p s) \<le> p + 4096" using Suc.prems(4) by (simp add: word_le_nat_alt up)
      show "p + 4096 \<le> PHYSTOP" using fits by simp
      show "\<forall>q \<in> set (p # ps). q < p + 4096"
        using Suc.prems(6) by (auto simp: word_less_nat_alt up)
      show "unat PHYSTOP \<le> unat (p + 4096) + 4096 * n" using Suc.prems(7) by (simp add: up)
    qed
    then show ?thesis
      using fits kfree_run [OF Suc.prems(1) kp, of es] next_page_split [OF Suc.prems(3) True]
      by auto
  qed
qed

subsection \<open>The allocator interface\<close>

text \<open>A client that allocates up to \<open>n\<close> pages and stops at the first failure.\<close>

primrec alloc_upto :: "('s, u64) kmon \<Rightarrow> nat \<Rightarrow> ('s, u64 list) kmon" where
  "alloc_upto alloc 0 = kret []"
| "alloc_upto alloc (Suc n) = kbind alloc (\<lambda>p. if p = 0 then kret [] else
     kbind (alloc_upto alloc n) (\<lambda>ps. kret (p # ps)))"

text \<open>
  A pool of pages as a set: allocation takes any member and fails exactly when
  the pool is empty, freeing puts a page back, and neither writes memory outside
  the page concerned.
\<close>

locale page_allocator =
  fixes alloc :: "('s, u64) kmon"
    and free :: "u64 \<Rightarrow> ('s, unit) kmon"
    and ready :: "'s \<Rightarrow> bool"
    and pool :: "'s \<Rightarrow> u64 set \<Rightarrow> bool"
    and managed :: "'s \<Rightarrow> u64 \<Rightarrow> bool"
    and content :: "'s \<Rightarrow> memory"
  assumes pool_finite: "pool s F \<Longrightarrow> finite F"
    and pool_managed: "pool s F \<Longrightarrow> p \<in> F \<Longrightarrow> managed s p"
    and managed_nonzero: "pool s F \<Longrightarrow> managed s p \<Longrightarrow> p \<noteq> 0"
    and alloc_empty: "ready s \<Longrightarrow> pool s {} \<Longrightarrow>
      \<exists>s'. alloc es s = Ret 0 es s' \<and> ready s' \<and> pool s' {} \<and> content s' = content s"
    and alloc_some: "ready s \<Longrightarrow> pool s F \<Longrightarrow> F \<noteq> {} \<Longrightarrow>
      \<exists>p s'. alloc es s = Ret p es s' \<and> p \<in> F \<and> ready s' \<and> pool s' (F - {p}) \<and>
        managed s' = managed s \<and> (\<forall>x. \<not> in_page p x \<longrightarrow> content s' x = content s x)"
    and free_page: "ready s \<Longrightarrow> pool s F \<Longrightarrow> managed s p \<Longrightarrow> p \<notin> F \<Longrightarrow>
      \<exists>s'. free p es s = Ret () es s' \<and> ready s' \<and> pool s' (insert p F) \<and>
        managed s' = managed s \<and> (\<forall>x. \<not> in_page p x \<longrightarrow> content s' x = content s x)"
begin

lemma alloc_upto_run:
  assumes "ready s" and "pool s F"
  shows "\<exists>ps s'. alloc_upto alloc n es s = Ret ps es s' \<and> ready s' \<and> pool s' (F - set ps) \<and>
    distinct ps \<and> set ps \<subseteq> F \<and> length ps = min n (card F)"
  using assms
proof (induction n arbitrary: s F)
  case 0
  then show ?case by simp
next
  case (Suc n)
  show ?case
  proof (cases "F = {}")
    case True
    then obtain s' where "alloc es s = Ret 0 es s'" "ready s'" "pool s' {}"
      using alloc_empty Suc.prems by blast
    with True show ?thesis by simp
  next
    case False
    then obtain p s1 where p: "alloc es s = Ret p es s1" "p \<in> F" "ready s1" "pool s1 (F - {p})"
      using alloc_some [OF Suc.prems False, of es] by blast
    have nz: "p \<noteq> 0" using managed_nonzero [OF Suc.prems(2) pool_managed [OF Suc.prems(2) p(2)]] .
    obtain ps s' where ps: "alloc_upto alloc n es s1 = Ret ps es s'" "ready s'"
      "pool s' (F - {p} - set ps)" "distinct ps" "set ps \<subseteq> F - {p}"
      "length ps = min n (card (F - {p}))"
      using Suc.IH [OF p(3,4)] by blast
    have "Suc (card (F - {p})) = card F"
      using p(2) pool_finite [OF Suc.prems(2)] by (metis card_Suc_Diff1)
    then have "length (p # ps) = min (Suc n) (card F)" using ps(6) by simp
    moreover have "F - {p} - set ps = F - set (p # ps)" by auto
    ultimately show ?thesis using p ps nz by auto
  qed
qed

lemma alloc_free_restores:
  assumes "ready s" and "pool s F" and "F \<noteq> {}"
  shows "\<exists>p s'. kbind alloc (\<lambda>p. kbind (free p) (\<lambda>_. kret p)) es s = Ret p es s' \<and>
    p \<in> F \<and> ready s' \<and> pool s' F"
proof -
  obtain p s1 where p: "alloc es s = Ret p es s1" "p \<in> F" "ready s1" "pool s1 (F - {p})"
    "managed s1 = managed s"
    using alloc_some [OF assms, of es] by blast
  have "managed s1 p" using p(2,5) pool_managed [OF assms(2)] by simp
  then obtain s' where "free p es s1 = Ret () es s'" "ready s'" "pool s' (insert p (F - {p}))"
    using free_page [OF p(3,4), of p es] by auto
  moreover have "insert p (F - {p}) = F" using p(2) by auto
  ultimately show ?thesis using p by auto
qed

end

definition free_pages :: "'z mem_state_scheme \<Rightarrow> u64 set \<Rightarrow> bool" where
  "free_pages s F \<longleftrightarrow> (\<exists>ps. kmem_inv s ps \<and> set ps = F)"

interpretation kmem: page_allocator kalloc kfree "lock_free KmemLock" free_pages
  "\<lambda>s p. kernel_page (kend s) p" mem
proof (unfold_locales, goal_cases)
  case (1 s F)
  then show ?case by (auto simp: free_pages_def)
next
  case (2 s F p)
  then show ?case by (auto simp: free_pages_def kmem_inv_def)
next
  case (3 s F p)
  then have "KERNBASE \<le> kend s" by (auto simp: free_pages_def kmem_inv_def)
  then show ?case using 3(2) kernel_page_nonzero by blast
next
  case (4 s es)
  then have inv: "kmem_inv s []" by (auto simp: free_pages_def)
  then have "freelist s = 0" by (simp add: kmem_inv_def)
  moreover from this have "mem (alloced s) = mem s" by (simp add: alloced_def intr_saved_def)
  ultimately show ?case
    using kalloc_run [OF 4(1)] lock_free_alloced [OF 4(1)] kmem_inv_alloced_empty [OF inv]
    by (auto simp: free_pages_def)
next
  case (5 s F es)
  then obtain ps where ps: "kmem_inv s ps" "set ps = F" by (auto simp: free_pages_def)
  with 5(3) obtain p qs where c: "ps = p # qs" by (cases ps) auto
  have "freelist s = p" "set qs = F - {p}"
    using ps c by (auto simp: kmem_inv_def)
  then show ?case
    using kalloc_run [OF 5(1)] lock_free_alloced [OF 5(1)] kmem_inv_alloced [of s p qs] ps c
      mem_alloced_other [of s]
    by (auto simp: free_pages_def intro!: exI [of _ p])
next
  case (6 s F p es)
  then obtain ps where ps: "kmem_inv s ps" "set ps = F" by (auto simp: free_pages_def)
  have "kmem_inv (freed p s) (p # ps)" using ps 6 by (intro kmem_inv_freed) auto
  moreover have "page_aligned p" using 6(3) by (simp add: kernel_page_def)
  ultimately show ?case
    using kfree_run [OF 6(1,3)] lock_free_freed [OF 6(1)] ps mem_freed_other [of p]
    by (auto simp: free_pages_def intro!: exI [of _ "p # ps"])
qed

subsection \<open>Properties\<close>

lemma PGROUNDUP_bounds:
  assumes "e \<le> PHYSTOP"
  shows "page_aligned (PGROUNDUP e)" and "e \<le> PGROUNDUP e" and "PGROUNDUP e \<le> PHYSTOP"
    and "page_aligned q \<Longrightarrow> e \<le> q \<Longrightarrow> PGROUNDUP e \<le> q"
proof -
  have e: "unat e \<le> 2281701376" using assms by (simp add: word_le_nat_alt)
  then have up: "unat (PGROUNDUP e) = (unat e + 4095) div 4096 * 4096"
    by (intro unat_PGROUNDUP) simp
  show "page_aligned (PGROUNDUP e)" by (rule page_aligned_PGROUNDUP)
  have "(unat e + 4095) mod 4096 < 4096" by simp
  then show "e \<le> PGROUNDUP e"
    unfolding word_le_nat_alt up using div_mult_mod_eq [of "unat e + 4095" 4096] by linarith
  have least: "(unat e + 4095) div 4096 * 4096 \<le> n" if n: "4096 dvd n" "unat e \<le> n" for n
  proof -
    obtain k where "n = 4096 * k" using n(1) by (auto elim: dvdE)
    moreover from this n(2) have "(unat e + 4095) div 4096 \<le> k" by simp
    ultimately show ?thesis by simp
  qed
  show "PGROUNDUP e \<le> PHYSTOP"
    using least [of 2281701376] e by (simp add: word_le_nat_alt up)
  show "PGROUNDUP e \<le> q" if "page_aligned q" "e \<le> q"
    using least [of "unat q"] that by (simp add: word_le_nat_alt up page_aligned_unat dvd_eq_mod_eq_0)
qed

text \<open>
  C25: \<^verbatim>\<open>kinit\<close>, run on a kernel whose free list is still empty, returns with every
  page-aligned page from the end of the kernel image to \<^verbatim>\<open>PHYSTOP\<close> on the free
  list exactly once (the list is duplicate free), nothing else on it, and the
  allocator's lock free.  The counter \<^verbatim>\<open>noff\<close> must have room for the one level it nests.
\<close>

theorem kinit_frees_every_page:
  assumes "0 \<le> noff (mycpu_of s) \<and> noff (mycpu_of s) < INT_MAX" and "intr_enabled s \<longrightarrow> noff (mycpu_of s) = 0"
    and "KERNBASE \<le> kend s" and "kend s \<le> PHYSTOP" and "freelist s = 0"
  shows "\<exists>s' ps. kinit es s = Ret () es s' \<and> lock_free KmemLock s' \<and> kend s' = kend s \<and>
    kmem_inv s' ps \<and> distinct ps \<and> set ps = {p. kernel_page (kend s) p}"
proof -
  define s1 where "s1 = s\<lparr>locks := (locks s)(KmemLock :=
    (locks s KmemLock)\<lparr>lk_name := ''kmem'', locked := 0, lk_cpu := None\<rparr>)\<rparr>"
  have init: "initlock KmemLock ''kmem'' es s = Ret () es s1"
    by (simp add: initlock_def lock_set_def s1_def)
  have ready: "lock_free KmemLock s1"
    using assms(1,2) by (simp add: s1_def lock_free_def intr_enabled_def)
  have same: "kend s1 = kend s" "freelist s1 = 0" using assms(5) by (simp_all add: s1_def)
  have inv: "kmem_inv s1 []" using assms(3) same by (simp add: kmem_inv_def)
  let ?p = "PGROUNDUP (kend s1)"
  have bounds: "page_aligned ?p" "kend s1 \<le> ?p" "?p \<le> PHYSTOP"
    using PGROUNDUP_bounds [of "kend s1"] assms(4) same by simp_all
  obtain s' ps where run: "freerange_loop (unat PHYSTOP div 4096) ?p PHYSTOP es s1 = Ret () es s'"
      "lock_free KmemLock s'" "kend s' = kend s1" "kmem_inv s' ps"
      "set ps = set [] \<union> {q. page_aligned q \<and> ?p \<le> q \<and> q < PHYSTOP}"
    using freerange_loop_run [OF ready inv bounds, of "unat PHYSTOP div 4096" es] by auto
  have "kinit es s = Ret () es s'"
    using run(1) by (simp add: kinit_def init freerange_def same)
  moreover have "set ps = {p. kernel_page (kend s) p}"
    using run(5) bounds(2) PGROUNDUP_bounds(4) [of "kend s1"] assms(4) same
    by (auto simp: kernel_page_def)
  ultimately show ?thesis
    using run(2,3,4) same by (auto simp: kmem_inv_def)
qed

definition boot_mem_state :: mem_state where
  "boot_mem_state = \<lparr>tp = 0, sstatus = SSTATUS_SIE, cpus = (\<lambda>_. boot_cpu), locks = (\<lambda>_. boot_lock),
     mem = (\<lambda>_. 0), freelist = 0, kend = 0x87FFD010\<rparr>"

lemma boot_mem_state_facts:
  "0 \<le> noff (mycpu_of boot_mem_state) \<and> noff (mycpu_of boot_mem_state) < INT_MAX"
  "intr_enabled boot_mem_state \<longrightarrow> noff (mycpu_of boot_mem_state) = 0"
  "KERNBASE \<le> kend boot_mem_state" "kend boot_mem_state \<le> PHYSTOP" "freelist boot_mem_state = 0"
  "kend boot_mem_state = 0x87FFD010"
  by (simp_all add: boot_mem_state_def boot_cpu_def)

theorem kinit_frees_every_page_witness:
  "\<exists>s' ps. kinit [] boot_mem_state = Ret () [] s' \<and> kmem_inv s' ps \<and>
     0x87FFE000 \<in> set ps \<and> 0x87FFD000 \<notin> set ps"
proof -
  obtain s' ps where "kinit [] boot_mem_state = Ret () [] s'" "kmem_inv s' ps"
      "set ps = {p. kernel_page (kend boot_mem_state) p}"
    using kinit_frees_every_page [OF boot_mem_state_facts(1-5), of "[]"] by blast
  then show ?thesis
    by (intro exI [of _ s'] exI [of _ ps])
      (simp add: kernel_page_def page_aligned_unat boot_mem_state_facts(6))
qed

text \<open>
  C4: \<open>n\<close> calls of \<^verbatim>\<open>kalloc\<close> from a state with free set \<open>F\<close> hand out \<open>min n |F|\<close>
  pairwise different pages of \<open>F\<close>, none of them null, and leave exactly the others
  free; so the allocator never hands out a page twice and returns null only when
  no page is left.
\<close>

theorem kalloc_hands_out_distinct_pages:
  assumes "lock_free KmemLock s" and "free_pages s F"
  shows "\<exists>ps s'. alloc_upto kalloc n es s = Ret ps es s' \<and> free_pages s' (F - set ps) \<and>
    distinct ps \<and> set ps \<subseteq> F \<and> length ps = min n (card F)"
  using kmem.alloc_upto_run [OF assms, of n es] by blast

lemma boot_mem_state_two_pages:
  "\<exists>s :: mem_state. lock_free KmemLock s \<and> free_pages s {0x87FFE000, 0x87FFF000}"
proof -
  have e: "free_pages boot_mem_state {}"
    by (auto simp: free_pages_def kmem_inv_def boot_mem_state_def)
  have l: "lock_free KmemLock boot_mem_state"
    by (simp add: lock_free_def boot_mem_state_def boot_cpu_def boot_lock_def)
  have k: "kernel_page (kend boot_mem_state) 0x87FFE000" "kernel_page (kend boot_mem_state) 0x87FFF000"
    by (simp_all add: kernel_page_def page_aligned_unat boot_mem_state_facts(6))
  obtain s1 :: mem_state where s1: "lock_free KmemLock s1" "free_pages s1 {0x87FFE000}"
    "kernel_page (kend s1) = kernel_page (kend boot_mem_state)"
    using kmem.free_page [OF l e k(1), of "[]"] by auto
  have "kernel_page (kend s1) 0x87FFF000" using s1(3) k(2) by simp
  from kmem.free_page [OF s1(1,2) this, where es = "[]"]
  have "\<exists>s2 :: mem_state. lock_free KmemLock s2 \<and> free_pages s2 (insert 0x87FFF000 {0x87FFE000})"
    by auto
  then show ?thesis by (simp add: insert_commute)
qed

theorem kalloc_hands_out_distinct_pages_witness:
  "\<exists>(s :: mem_state) ps s'. free_pages s {0x87FFE000, 0x87FFF000} \<and>
     alloc_upto kalloc 3 [] s = Ret ps [] s' \<and> set ps = {0x87FFE000, 0x87FFF000} \<and>
     free_pages s' {}"
proof -
  obtain s :: mem_state where s: "lock_free KmemLock s" "free_pages s {0x87FFE000, 0x87FFF000}"
    using boot_mem_state_two_pages by blast
  obtain ps s' where r: "alloc_upto kalloc 3 [] s = Ret ps [] s'"
      "free_pages s' ({0x87FFE000, 0x87FFF000} - set ps)" "distinct ps"
      "set ps \<subseteq> {0x87FFE000, 0x87FFF000}" "length ps = 2"
    using kalloc_hands_out_distinct_pages [OF s, of 3 "[]"] by auto
  have "card (set ps) = 2" using r(3,5) by (simp add: distinct_card)
  then have "set ps = {0x87FFE000, 0x87FFF000}"
    using r(4) by (intro card_subset_eq) auto
  with r s show ?thesis by auto
qed

text \<open>
  C35: \<^verbatim>\<open>kfree\<close> panics exactly on an address that is not page aligned, lies below the
  end of the kernel or not below \<^verbatim>\<open>PHYSTOP\<close>; on any other, with the lock free, the
  very next \<^verbatim>\<open>kalloc\<close> returns that page, filled with 5s throughout, and every byte
  outside the page and the rest of the free list are as before.
\<close>

theorem kfree_kalloc_round_trip:
  assumes "lock_free KmemLock s" and "kmem_inv s ps" and "pa \<notin> set ps"
  shows "if kernel_page (kend s) pa
    then \<exists>s'. kbind (kfree pa) (\<lambda>_. kalloc) es s = Ret pa es s' \<and> kmem_inv s' ps \<and>
      (\<forall>x. mem s' x = (if in_page pa x then 5 else mem s x))
    else kfree pa es s = Panic ''kfree'' s"
proof (cases "kernel_page (kend s) pa")
  case True
  let ?t = "freed pa s"
  have free: "lock_free KmemLock ?t" using assms(1) by (rule lock_free_freed)
  have inv: "kmem_inv ?t (pa # ps)" using assms(2) True assms(3) by (rule kmem_inv_freed)
  have al: "page_aligned pa" using True by (simp add: kernel_page_def)
  have fl: "freelist ?t = pa" "pa \<noteq> 0" using inv by (simp_all add: kmem_inv_def)
  have "mem (alloced ?t) x = (if in_page pa x then 5 else mem s x)" for x
    using fl al by (simp add: alloced_def mem_freed_other)
  then show ?thesis
    using True kfree_run [OF assms(1) True] kalloc_run [OF free] fl kmem_inv_alloced [OF inv] by auto
next
  case False
  then show ?thesis
    by (auto simp: kfree_def kernel_page_def page_aligned_def not_le)
qed

theorem kfree_kalloc_round_trip_witness:
  "(\<exists>s'. kbind (kfree 0x87FFF000) (\<lambda>_. kalloc) [] boot_mem_state = Ret 0x87FFF000 [] s' \<and>
     mem s' 0x87FFFFFF = 5 \<and> mem s' 0x87FFEFFF = 0) \<and>
   kfree 0x87FFF008 [] boot_mem_state = Panic ''kfree'' boot_mem_state \<and>
   kfree 0x87FFD000 [] boot_mem_state = Panic ''kfree'' boot_mem_state"
proof -
  have e: "kmem_inv boot_mem_state []"
    by (auto simp: kmem_inv_def boot_mem_state_def)
  have l: "lock_free KmemLock boot_mem_state"
    by (simp add: lock_free_def boot_mem_state_def boot_cpu_def boot_lock_def)
  have m: "mem boot_mem_state x = 0" for x by (simp add: boot_mem_state_def)
  note rt = kfree_kalloc_round_trip [OF l e, where es = "[]"]
  show ?thesis
    using rt [where pa = "0x87FFF000"] rt [where pa = "0x87FFF008"] rt [where pa = "0x87FFD000"]
    by (auto simp: kernel_page_def page_aligned_unat boot_mem_state_facts(6) in_block_def m
        unsigned_minus_1_eq_mask mask_eq_exp_minus_1)
qed

end
