(* ===== verification/Vm.thy ===== *)
theory Vm
  imports Kalloc
begin

text \<open>
  \<^verbatim>\<open>kernel/vm.c\<close>: Sv39 page tables in physical memory, and the copies between
  kernel and user space.

  Page tables and user pages live in the byte memory \<open>mem\<close>.  Buffers of the
  kernel itself (on a kernel stack or in a static struct) are byte lists:
  \<open>copyout\<close> takes the bytes at its source, \<open>copyin\<close> and \<open>copyinstr\<close> return the
  bytes stored at their destination next to the C result, also when they fail
  midway.  \<^verbatim>\<open>etext\<close> and \<^verbatim>\<open>trampoline\<close> are addresses chosen by the linker.
\<close>

record vm_state = mem_state +
  kernel_pagetable :: u64
  satp :: u64
  etext :: u64
  trampoline :: u64

subsection \<open>Memory access\<close>

definition pte_load :: "u64 \<Rightarrow> ('z mem_state_scheme, u64) kmon" where
  "pte_load a = kget (\<lambda>s. ld64 (mem s) a)"

definition pte_store :: "u64 \<Rightarrow> u64 \<Rightarrow> ('z mem_state_scheme, unit) kmon" where
  "pte_store a v = kmodify (\<lambda>s. s\<lparr>mem := st64 (mem s) a v\<rparr>)"

definition mem_fill :: "u64 \<Rightarrow> u32 \<Rightarrow> ('z mem_state_scheme, unit) kmon" where
  "mem_fill a c = kmodify (\<lambda>s. s\<lparr>mem := memset (mem s) a c (ucast PGSIZE)\<rparr>)"

text \<open>A byte list at an address, as a \<^verbatim>\<open>memmove\<close> to or from a kernel buffer moves it.\<close>

definition store_bytes :: "memory \<Rightarrow> u64 \<Rightarrow> bytes \<Rightarrow> memory" where
  "store_bytes m a bs = (\<lambda>x. if in_block a (length bs) x then bs ! unat (x - a) else m x)"

definition load_bytes :: "memory \<Rightarrow> u64 \<Rightarrow> nat \<Rightarrow> bytes" where
  "load_bytes m a n = map (\<lambda>i. m (a + of_nat i)) [0..<n]"

definition mem_put :: "u64 \<Rightarrow> bytes \<Rightarrow> ('z mem_state_scheme, unit) kmon" where
  "mem_put a bs = kmodify (\<lambda>s. s\<lparr>mem := store_bytes (mem s) a bs\<rparr>)"

definition mem_take :: "u64 \<Rightarrow> nat \<Rightarrow> ('z mem_state_scheme, bytes) kmon" where
  "mem_take a n = kget (\<lambda>s. load_bytes (mem s) a n)"

subsection \<open>Walking and mapping\<close>

text \<open>The loop of \<^verbatim>\<open>walk\<close> from the given level down to level 0.\<close>

primrec walk_level :: "nat \<Rightarrow> u64 \<Rightarrow> u64 \<Rightarrow> bool \<Rightarrow> ('z mem_state_scheme, u64) kmon" where
  "walk_level 0 pagetable va alloc = kret (pagetable + 8 * PX 0 va)"
| "walk_level (Suc l) pagetable va alloc =
     kbind (pte_load (pagetable + 8 * PX (Suc l) va)) (\<lambda>e.
     if e AND PTE_V \<noteq> 0 then walk_level l (PTE2PA e) va alloc
     else if \<not> alloc then kret 0
     else kbind kalloc (\<lambda>pg.
       if pg = 0 then kret 0
       else kbind (mem_fill pg 0) (\<lambda>_.
         kbind (pte_store (pagetable + 8 * PX (Suc l) va) (PA2PTE pg OR PTE_V)) (\<lambda>_.
         walk_level l pg va alloc))))"

definition walk :: "u64 \<Rightarrow> u64 \<Rightarrow> bool \<Rightarrow> ('z mem_state_scheme, u64) kmon" where
  "walk pagetable va alloc =
     (if va \<ge> MAXVA then kpanic ''walk'' else walk_level 2 pagetable va alloc)"

definition walkaddr :: "u64 \<Rightarrow> u64 \<Rightarrow> ('z mem_state_scheme, u64) kmon" where
  "walkaddr pagetable va =
     (if va \<ge> MAXVA then kret 0 else
      kbind (walk pagetable va False) (\<lambda>pte.
      if pte = 0 then kret 0 else
      kbind (pte_load pte) (\<lambda>e.
      if e AND PTE_V = 0 then kret 0
      else if e AND PTE_U = 0 then kret 0
      else kret (PTE2PA e))))"

text \<open>
  The endless loop of \<^verbatim>\<open>mappages\<close>; it is left when \<open>a\<close> reaches \<^verbatim>\<open>last\<close>, one page
  per round, so \<^verbatim>\<open>size / PGSIZE\<close> rounds are enough fuel.
\<close>

primrec mappages_loop :: "nat \<Rightarrow> u64 \<Rightarrow> u64 \<Rightarrow> u64 \<Rightarrow> u64 \<Rightarrow> u64 \<Rightarrow> ('z mem_state_scheme, int) kmon" where
  "mappages_loop 0 pagetable a lst pa perm = kdiverge"
| "mappages_loop (Suc n) pagetable a lst pa perm =
     kbind (walk pagetable a True) (\<lambda>pte.
     if pte = 0 then kret (-1) else
     kbind (pte_load pte) (\<lambda>e.
     if e AND PTE_V \<noteq> 0 then kpanic ''mappages: remap'' else
     kbind (pte_store pte (PA2PTE pa OR perm OR PTE_V)) (\<lambda>_.
     if a = lst then kret 0
     else mappages_loop n pagetable (a + PGSIZE) lst (pa + PGSIZE) perm)))"

definition mappages :: "u64 \<Rightarrow> u64 \<Rightarrow> u64 \<Rightarrow> u64 \<Rightarrow> u64 \<Rightarrow> ('z mem_state_scheme, int) kmon" where
  "mappages pagetable va sz pa perm =
     (if va mod PGSIZE \<noteq> 0 then kpanic ''mappages: va not aligned''
      else if sz mod PGSIZE \<noteq> 0 then kpanic ''mappages: size not aligned''
      else if sz = 0 then kpanic ''mappages: size''
      else mappages_loop (unat sz div 4096) pagetable va (va + sz - PGSIZE) pa perm)"

definition kvmmap :: "u64 \<Rightarrow> u64 \<Rightarrow> u64 \<Rightarrow> u64 \<Rightarrow> u64 \<Rightarrow> ('z mem_state_scheme, unit) kmon" where
  "kvmmap kpgtbl va pa sz perm =
     kbind (mappages kpgtbl va sz pa perm) (\<lambda>r. if r \<noteq> 0 then kpanic ''kvmmap'' else kret ())"

definition proc_mapstacks :: "u64 \<Rightarrow> ('z mem_state_scheme, unit) kmon" where
  "proc_mapstacks kpgtbl = kfor [0..<NPROC] (\<lambda>p.
     kbind kalloc (\<lambda>pa.
     if pa = 0 then kpanic ''kalloc''
     else kvmmap kpgtbl (KSTACK p) pa PGSIZE (PTE_R OR PTE_W)))"

definition kvmmake :: "('z vm_state_scheme, u64) kmon" where
  "kvmmake =
     kbind kalloc (\<lambda>kpgtbl.
     kbind (kget etext) (\<lambda>et.
     kbind (kget trampoline) (\<lambda>tr.
     kbind (kseq [
       mem_fill kpgtbl 0,
       kvmmap kpgtbl UART0 UART0 PGSIZE (PTE_R OR PTE_W),
       kvmmap kpgtbl VIRTIO0 VIRTIO0 PGSIZE (PTE_R OR PTE_W),
       kvmmap kpgtbl PLIC PLIC 0x4000000 (PTE_R OR PTE_W),
       kvmmap kpgtbl KERNBASE KERNBASE (et - KERNBASE) (PTE_R OR PTE_X),
       kvmmap kpgtbl et et (PHYSTOP - et) (PTE_R OR PTE_W),
       kvmmap kpgtbl TRAMPOLINE tr PGSIZE (PTE_R OR PTE_X),
       proc_mapstacks kpgtbl]) (\<lambda>_.
     kret kpgtbl))))"

definition kvminit :: "('z vm_state_scheme, unit) kmon" where
  "kvminit = kbind kvmmake (\<lambda>t. kmodify (\<lambda>s. s\<lparr>kernel_pagetable := t\<rparr>))"

text \<open>The two \<^verbatim>\<open>sfence_vma\<close> flush the TLB, which the model does not have.\<close>

definition kvminithart :: "('z vm_state_scheme, unit) kmon" where
  "kvminithart = kmodify (\<lambda>s. s\<lparr>satp := MAKE_SATP (kernel_pagetable s)\<rparr>)"

text \<open>
  \<^verbatim>\<open>for(a = va; a < va + npages*PGSIZE; a += PGSIZE)\<close>; one round per page between
  \<open>va\<close> and the bound, and one more test, is enough fuel.
\<close>

primrec uvmunmap_loop :: "nat \<Rightarrow> u64 \<Rightarrow> u64 \<Rightarrow> u64 \<Rightarrow> bool \<Rightarrow> ('z mem_state_scheme, unit) kmon" where
  "uvmunmap_loop 0 pagetable a bound do_free = kdiverge"
| "uvmunmap_loop (Suc n) pagetable a bound do_free =
     (if \<not> a < bound then kret () else
      kbind (walk pagetable a False) (\<lambda>pte.
      if pte = 0 then kpanic ''uvmunmap: walk'' else
      kbind (pte_load pte) (\<lambda>e.
      if e AND PTE_V = 0 then kpanic ''uvmunmap: not mapped''
      else if PTE_FLAGS e = PTE_V then kpanic ''uvmunmap: not a leaf''
      else kseq [
        kwhen do_free (kfree (PTE2PA e)),
        pte_store pte 0,
        uvmunmap_loop n pagetable (a + PGSIZE) bound do_free])))"

definition uvmunmap :: "u64 \<Rightarrow> u64 \<Rightarrow> u64 \<Rightarrow> bool \<Rightarrow> ('z mem_state_scheme, unit) kmon" where
  "uvmunmap pagetable va npages do_free =
     (if va mod PGSIZE \<noteq> 0 then kpanic ''uvmunmap: not aligned''
      else uvmunmap_loop (Suc (unat (npages * PGSIZE) div 4096)) pagetable va
             (va + npages * PGSIZE) do_free)"

definition uvmcreate :: "('z mem_state_scheme, u64) kmon" where
  "uvmcreate =
     kbind kalloc (\<lambda>pagetable.
     if pagetable = 0 then kret 0
     else kbind (mem_fill pagetable 0) (\<lambda>_. kret pagetable))"

definition uvmfirst :: "u64 \<Rightarrow> bytes \<Rightarrow> u32 \<Rightarrow> ('z mem_state_scheme, unit) kmon" where
  "uvmfirst pagetable src sz =
     (if ucast sz \<ge> PGSIZE then kpanic ''uvmfirst: more than a page'' else
      kbind kalloc (\<lambda>pg.
      kbind (mem_fill pg 0) (\<lambda>_.
      kbind (mappages pagetable 0 PGSIZE pg (PTE_W OR PTE_R OR PTE_X OR PTE_U)) (\<lambda>_.
      mem_put pg (take (unat sz) src)))))"

subsection \<open>Growing and shrinking user memory\<close>

text \<open>\<^verbatim>\<open>npages\<close> is an \<^verbatim>\<open>int\<close>: the page count is cut to 32 bits and sign-extended.\<close>

definition uvmdealloc :: "u64 \<Rightarrow> u64 \<Rightarrow> u64 \<Rightarrow> ('z mem_state_scheme, u64) kmon" where
  "uvmdealloc pagetable oldsz newsz =
     (if newsz \<ge> oldsz then kret oldsz else
      kbind (kwhen (PGROUNDUP newsz < PGROUNDUP oldsz)
        (let npages = (ucast ((PGROUNDUP oldsz - PGROUNDUP newsz) div PGSIZE) :: u32)
         in uvmunmap pagetable (PGROUNDUP newsz) (scast npages) True)) (\<lambda>_.
      kret newsz))"

primrec uvmalloc_loop :: "nat \<Rightarrow> u64 \<Rightarrow> u64 \<Rightarrow> u64 \<Rightarrow> u64 \<Rightarrow> u64 \<Rightarrow> ('z mem_state_scheme, u64) kmon" where
  "uvmalloc_loop 0 pagetable oldsz newsz a xperm = kdiverge"
| "uvmalloc_loop (Suc n) pagetable oldsz newsz a xperm =
     (if \<not> a < newsz then kret newsz else
      kbind kalloc (\<lambda>pg.
      if pg = 0 then kbind (uvmdealloc pagetable a oldsz) (\<lambda>_. kret 0) else
      kbind (mem_fill pg 0) (\<lambda>_.
      kbind (mappages pagetable a PGSIZE pg (PTE_R OR PTE_U OR xperm)) (\<lambda>r.
      if r \<noteq> 0 then
        kbind (kfree pg) (\<lambda>_. kbind (uvmdealloc pagetable a oldsz) (\<lambda>_. kret 0))
      else uvmalloc_loop n pagetable oldsz newsz (a + PGSIZE) xperm))))"

definition uvmalloc :: "u64 \<Rightarrow> u64 \<Rightarrow> u64 \<Rightarrow> u64 \<Rightarrow> ('z mem_state_scheme, u64) kmon" where
  "uvmalloc pagetable oldsz newsz xperm =
     (if newsz < oldsz then kret oldsz
      else uvmalloc_loop (Suc (Suc (unat newsz div 4096))) pagetable
             (PGROUNDUP oldsz) newsz (PGROUNDUP oldsz) xperm)"

text \<open>
  The recursion of \<^verbatim>\<open>freewalk\<close> follows valid non-leaf entries; \<open>depth\<close> bounds it.
  Tables built by \<open>walk\<close> have three levels, the depth its caller gives.
\<close>

primrec freewalk :: "nat \<Rightarrow> u64 \<Rightarrow> ('z mem_state_scheme, unit) kmon" where
  "freewalk 0 pagetable = kdiverge"
| "freewalk (Suc depth) pagetable = kseq [
     kfor [0..<512] (\<lambda>i.
       kbind (pte_load (pagetable + 8 * of_nat i)) (\<lambda>pte.
       if pte AND PTE_V \<noteq> 0 \<and> pte AND (PTE_R OR PTE_W OR PTE_X) = 0 then kseq [
         freewalk depth (PTE2PA pte),
         pte_store (pagetable + 8 * of_nat i) 0]
       else if pte AND PTE_V \<noteq> 0 then kpanic ''freewalk: leaf''
       else kret ())),
     kfree pagetable]"

definition uvmfree :: "u64 \<Rightarrow> u64 \<Rightarrow> ('z mem_state_scheme, unit) kmon" where
  "uvmfree pagetable sz = kseq [
     kwhen (sz > 0) (uvmunmap pagetable 0 (PGROUNDUP sz div PGSIZE) True),
     freewalk 3 pagetable]"

primrec uvmcopy_loop :: "nat \<Rightarrow> u64 \<Rightarrow> u64 \<Rightarrow> u64 \<Rightarrow> u64 \<Rightarrow> ('z mem_state_scheme, int) kmon" where
  "uvmcopy_loop 0 old new sz i = kdiverge"
| "uvmcopy_loop (Suc n) old new sz i =
     (if \<not> i < sz then kret 0 else
      kbind (walk old i False) (\<lambda>pte.
      if pte = 0 then kpanic ''uvmcopy: pte should exist'' else
      kbind (pte_load pte) (\<lambda>e.
      if e AND PTE_V = 0 then kpanic ''uvmcopy: page not present'' else
      kbind kalloc (\<lambda>pg.
      if pg = 0 then kbind (uvmunmap new 0 (i div PGSIZE) True) (\<lambda>_. kret (-1)) else
      kbind (kmodify (\<lambda>s. s\<lparr>mem := memmove (mem s) pg (PTE2PA e) (ucast PGSIZE)\<rparr>)) (\<lambda>_.
      kbind (mappages new i PGSIZE pg (PTE_FLAGS e)) (\<lambda>r.
      if r \<noteq> 0 then
        kbind (kfree pg) (\<lambda>_. kbind (uvmunmap new 0 (i div PGSIZE) True) (\<lambda>_. kret (-1)))
      else uvmcopy_loop n old new sz (i + PGSIZE)))))))"

definition uvmcopy :: "u64 \<Rightarrow> u64 \<Rightarrow> u64 \<Rightarrow> ('z mem_state_scheme, int) kmon" where
  "uvmcopy old new sz = uvmcopy_loop (Suc (Suc (unat sz div 4096))) old new sz 0"

definition uvmclear :: "u64 \<Rightarrow> u64 \<Rightarrow> ('z mem_state_scheme, unit) kmon" where
  "uvmclear pagetable va =
     kbind (walk pagetable va False) (\<lambda>pte.
     if pte = 0 then kpanic ''uvmclear''
     else kbind (pte_load pte) (\<lambda>e. pte_store pte (e AND NOT PTE_U)))"

subsection \<open>Copying between user and kernel\<close>

text \<open>
  Each round copies at least one byte, so the number of bytes is enough fuel;
  \<open>src\<close> are the bytes still to be copied.
\<close>

primrec copyout_loop :: "nat \<Rightarrow> u64 \<Rightarrow> u64 \<Rightarrow> bytes \<Rightarrow> u64 \<Rightarrow> ('z mem_state_scheme, int) kmon" where
  "copyout_loop 0 pagetable dstva src len = (if len > 0 then kdiverge else kret 0)"
| "copyout_loop (Suc k) pagetable dstva src len =
     (if \<not> len > 0 then kret 0 else
      let va0 = PGROUNDDOWN dstva in
      if va0 \<ge> MAXVA then kret (-1) else
      kbind (walk pagetable va0 False) (\<lambda>pte.
      if pte = 0 then kret (-1) else
      kbind (pte_load pte) (\<lambda>e.
      if e AND PTE_V = 0 \<or> e AND PTE_U = 0 \<or> e AND PTE_W = 0 then kret (-1) else
      let n = min (PGSIZE - (dstva - va0)) len in
      kbind (mem_put (PTE2PA e + (dstva - va0)) (take (unat n) src)) (\<lambda>_.
      copyout_loop k pagetable (va0 + PGSIZE) (drop (unat n) src) (len - n)))))"

definition copyout :: "u64 \<Rightarrow> u64 \<Rightarrow> bytes \<Rightarrow> u64 \<Rightarrow> ('z mem_state_scheme, int) kmon" where
  "copyout pagetable dstva src len = copyout_loop (unat len) pagetable dstva src len"

primrec copyin_loop :: "nat \<Rightarrow> u64 \<Rightarrow> bytes \<Rightarrow> u64 \<Rightarrow> u64 \<Rightarrow> ('z mem_state_scheme, int \<times> bytes) kmon" where
  "copyin_loop 0 pagetable dst srcva len = (if len > 0 then kdiverge else kret (0, dst))"
| "copyin_loop (Suc k) pagetable dst srcva len =
     (if \<not> len > 0 then kret (0, dst) else
      let va0 = PGROUNDDOWN srcva in
      kbind (walkaddr pagetable va0) (\<lambda>pa0.
      if pa0 = 0 then kret (-1, dst) else
      let n = min (PGSIZE - (srcva - va0)) len in
      kbind (mem_take (pa0 + (srcva - va0)) (unat n)) (\<lambda>bs.
      copyin_loop k pagetable (dst @ bs) (va0 + PGSIZE) (len - n))))"

definition copyin :: "u64 \<Rightarrow> u64 \<Rightarrow> u64 \<Rightarrow> ('z mem_state_scheme, int \<times> bytes) kmon" where
  "copyin pagetable srcva len = copyin_loop (unat len) pagetable [] srcva len"

text \<open>The inner loop: what it stores, and whether it met a NUL, in at most \<open>n\<close> bytes.\<close>

primrec copyinstr_page :: "nat \<Rightarrow> memory \<Rightarrow> u64 \<Rightarrow> bytes \<times> bool" where
  "copyinstr_page 0 m p = ([], False)"
| "copyinstr_page (Suc n) m p =
     (if m p = 0 then ([0], True)
      else (case copyinstr_page n m (p + 1) of (bs, got) \<Rightarrow> (m p # bs, got)))"

primrec copyinstr_loop :: "nat \<Rightarrow> u64 \<Rightarrow> bytes \<Rightarrow> u64 \<Rightarrow> u64 \<Rightarrow> ('z mem_state_scheme, int \<times> bytes) kmon" where
  "copyinstr_loop 0 pagetable dst srcva mx = (if mx > 0 then kdiverge else kret (-1, dst))"
| "copyinstr_loop (Suc k) pagetable dst srcva mx =
     (if \<not> mx > 0 then kret (-1, dst) else
      let va0 = PGROUNDDOWN srcva in
      kbind (walkaddr pagetable va0) (\<lambda>pa0.
      if pa0 = 0 then kret (-1, dst) else
      let n = min (PGSIZE - (srcva - va0)) mx in
      kbind (kget (\<lambda>s. copyinstr_page (unat n) (mem s) (pa0 + (srcva - va0)))) (\<lambda>r.
      case r of (bs, got_null) \<Rightarrow>
        if got_null then kret (0, dst @ bs)
        else copyinstr_loop k pagetable (dst @ bs) (va0 + PGSIZE) (mx - n))))"

definition copyinstr :: "u64 \<Rightarrow> u64 \<Rightarrow> u64 \<Rightarrow> ('z mem_state_scheme, int \<times> bytes) kmon" where
  "copyinstr pagetable srcva mx = copyinstr_loop (unat mx) pagetable [] srcva mx"

end
