(* ===== verification/Printf.thy ===== *)
theory Printf
  imports Vm
begin

text \<open>
  The polling side of \<^verbatim>\<open>kernel/uart.c\<close> and \<^verbatim>\<open>kernel/printf.c\<close>.

  The UART is a device: \<open>uart_in r k\<close> is what the \<open>k\<close>-th access finds in its
  register \<open>r\<close>, an arbitrary function that is never changed, and \<open>uart_writes\<close> is
  the log of the writes to it.  A hart that polls the line-status register in
  vain waits, as one that spins on a lock does.
\<close>

record uart_state = vm_state +
  uart_in :: "nat \<Rightarrow> nat \<Rightarrow> u8"
  uart_clock :: nat
  uart_writes :: "(nat \<times> u8) list"
  panicked :: bool
  pr_locking :: bool       \<comment> \<open>\<^verbatim>\<open>pr.locking\<close>\<close>

subsection \<open>uart.c: registers\<close>

definition RHR :: nat where [simp]: "RHR = 0"
definition THR :: nat where [simp]: "THR = 0"
definition IER :: nat where [simp]: "IER = 1"
definition FCR :: nat where [simp]: "FCR = 2"
definition ISR :: nat where [simp]: "ISR = 2"
definition LCR :: nat where [simp]: "LCR = 3"
definition LSR :: nat where [simp]: "LSR = 5"
definition IER_RX_ENABLE :: u8 where "IER_RX_ENABLE = push_bit 0 1"
definition IER_TX_ENABLE :: u8 where "IER_TX_ENABLE = push_bit 1 1"
definition FCR_FIFO_ENABLE :: u8 where "FCR_FIFO_ENABLE = push_bit 0 1"
definition FCR_FIFO_CLEAR :: u8 where "FCR_FIFO_CLEAR = push_bit 1 3"
definition LCR_EIGHT_BITS :: u8 where "LCR_EIGHT_BITS = push_bit 0 3"
definition LCR_BAUD_LATCH :: u8 where "LCR_BAUD_LATCH = push_bit 7 1"
definition LSR_TX_IDLE :: u8 where "LSR_TX_IDLE = push_bit 5 1"

definition ReadReg :: "nat \<Rightarrow> ('z uart_state_scheme, u8) kmon" where
  "ReadReg r =
     kbind (kget (\<lambda>s. uart_in s r (uart_clock s))) (\<lambda>v.
     kbind (kmodify (\<lambda>s. s\<lparr>uart_clock := Suc (uart_clock s)\<rparr>)) (\<lambda>_.
     kret v))"

definition WriteReg :: "nat \<Rightarrow> u8 \<Rightarrow> ('z uart_state_scheme, unit) kmon" where
  "WriteReg r v = kmodify (\<lambda>s. s\<lparr>uart_clock := Suc (uart_clock s), uart_writes := uart_writes s @ [(r, v)]\<rparr>)"

definition uartinit :: "('z uart_state_scheme, unit) kmon" where
  "uartinit = kseq [
     WriteReg IER 0x00,
     WriteReg LCR LCR_BAUD_LATCH,
     WriteReg 0 0x03,
     WriteReg 1 0x00,
     WriteReg LCR LCR_EIGHT_BITS,
     WriteReg FCR (FCR_FIFO_ENABLE OR FCR_FIFO_CLEAR),
     WriteReg IER (IER_TX_ENABLE OR IER_RX_ENABLE),
     initlock UartTxLock ''uart'']"

text \<open>\<^verbatim>\<open>while((ReadReg(LSR) & LSR_TX_IDLE) == 0);\<close>\<close>

fun uart_wait_idle :: "('z uart_state_scheme, unit) kmon" where
  "uart_wait_idle es s =
     (let v = uart_in s LSR (uart_clock s); s' = s\<lparr>uart_clock := Suc (uart_clock s)\<rparr>
      in if v AND LSR_TX_IDLE \<noteq> 0 then Ret () es s'
         else (case es of [] \<Rightarrow> Blocked s' | e # es' \<Rightarrow> uart_wait_idle es' (e s')))"

declare uart_wait_idle.simps [simp del]

definition uartputc_sync :: "u32 \<Rightarrow> ('z uart_state_scheme, unit) kmon" where
  "uartputc_sync c =
     kbind push_off (\<lambda>_.
     kbind (kget panicked) (\<lambda>p.
     if p then kdiverge else kseq [
       uart_wait_idle,
       WriteReg THR (ucast c),
       pop_off]))"

definition uartgetc :: "('z uart_state_scheme, int) kmon" where
  "uartgetc =
     kbind (ReadReg LSR) (\<lambda>v.
     if v AND 0x01 \<noteq> 0 then kbind (ReadReg RHR) (\<lambda>c. kret (uint c)) else kret (-1))"

subsection \<open>console.c: consputc\<close>

definition BACKSPACE :: u32 where "BACKSPACE = 0x100"

definition consputc :: "u32 \<Rightarrow> ('z uart_state_scheme, unit) kmon" where
  "consputc c =
     (if c = BACKSPACE then kseq [uartputc_sync 8, uartputc_sync 32, uartputc_sync 8]
      else uartputc_sync c)"

subsection \<open>printf.c\<close>

text \<open>An argument: a 64-bit slot, or a string pointer, which may be null.\<close>

datatype vararg = AWord u64 | AStr "bytes option"

definition chr :: "char \<Rightarrow> u32" where
  "chr c = of_char c"

definition digits :: string where
  "digits = ''0123456789abcdef''"

text \<open>
  The \<^verbatim>\<open>do\<close> loop of \<^verbatim>\<open>printint\<close>: the digits, the least significant first.  The
  buffer has 16 bytes, \<open>i\<close> of them used; a store beyond it is \<open>None\<close>.
\<close>

function printint_digits :: "nat \<Rightarrow> nat \<Rightarrow> nat \<Rightarrow> string option" where
  "printint_digits i x base =
     (if i \<ge> 16 \<or> base \<le> 1 \<or> base > 16 then None
      else if x div base \<noteq> 0
      then map_option ((#) (digits ! (x mod base))) (printint_digits (Suc i) (x div base) base)
      else Some [digits ! (x mod base)])"
  by pat_completeness auto
termination
  by (relation "measure (\<lambda>(i, x, base). x)") (auto intro!: div_less_dividend gr0I)

definition printint_buf :: "u64 \<Rightarrow> nat \<Rightarrow> bool \<Rightarrow> string option" where
  "printint_buf xx base sign =
     (let neg = (sign \<and> sint xx < 0);
          x = (if neg then - xx else xx)
      in case printint_digits 0 (unat x) base of
           None \<Rightarrow> None
         | Some buf \<Rightarrow>
             if \<not> neg then Some buf
             else if length buf < 16 then Some (buf @ [CHR ''-'']) else None)"

definition printint :: "u64 \<Rightarrow> nat \<Rightarrow> bool \<Rightarrow> ('z uart_state_scheme, unit) kmon" where
  "printint xx base sign =
     (case printint_buf xx base sign of
        None \<Rightarrow> kundef
      | Some buf \<Rightarrow> kfor (rev buf) (\<lambda>c. consputc (chr c)))"

definition printptr :: "u64 \<Rightarrow> ('z uart_state_scheme, unit) kmon" where
  "printptr x = kseq [
     consputc (chr CHR ''0''),
     consputc (chr CHR ''x''),
     kfor [0..<16] (\<lambda>i. consputc (chr (digits ! unat (drop_bit 60 (push_bit (4 * i) x)))))]"

text \<open>The slot read as an \<^verbatim>\<open>int\<close> and converted to \<^verbatim>\<open>long long\<close>.\<close>

definition va_int :: "u64 \<Rightarrow> u64" where
  "va_int w = scast (ucast w :: u32)"

definition printf_str :: "bytes option \<Rightarrow> ('z uart_state_scheme, unit) kmon" where
  "printf_str s =
     kfor (case s of None \<Rightarrow> map of_char ''(null)'' | Some b \<Rightarrow> takeWhile (\<lambda>c. c \<noteq> 0) b)
       (\<lambda>c. consputc (ucast c))"

definition va_word :: "vararg list \<Rightarrow> (u64 \<Rightarrow> ('z uart_state_scheme, unit) kmon) \<Rightarrow> ('z uart_state_scheme, unit) kmon" where
  "va_word ap f = (case ap of AWord w # _ \<Rightarrow> f w | _ \<Rightarrow> kundef)"

definition va_str :: "vararg list \<Rightarrow> (bytes option \<Rightarrow> ('z uart_state_scheme, unit) kmon) \<Rightarrow> ('z uart_state_scheme, unit) kmon" where
  "va_str ap f = (case ap of AStr s # _ \<Rightarrow> f s | _ \<Rightarrow> kundef)"

text \<open>
  The conversion after a \<^verbatim>\<open>%\<close>: how many further characters of the format it takes
  and what it prints.  \<open>c1\<close> and \<open>c2\<close> are NUL past the end of the format.
\<close>

definition printf_conv :: "char \<Rightarrow> char \<Rightarrow> char \<Rightarrow> vararg list \<Rightarrow> nat \<times> bool \<times> ('z uart_state_scheme, unit) kmon" where
  "printf_conv c0 c1 c2 ap =
     (if c0 = CHR ''d'' then (0, True, va_word ap (\<lambda>w. printint (va_int w) 10 True))
      else if c0 = CHR ''l'' \<and> c1 = CHR ''d'' then (1, True, va_word ap (\<lambda>w. printint w 10 True))
      else if c0 = CHR ''l'' \<and> c1 = CHR ''l'' \<and> c2 = CHR ''d'' then (2, True, va_word ap (\<lambda>w. printint w 10 True))
      else if c0 = CHR ''u'' then (0, True, va_word ap (\<lambda>w. printint (va_int w) 10 False))
      else if c0 = CHR ''l'' \<and> c1 = CHR ''u'' then (1, True, va_word ap (\<lambda>w. printint w 10 False))
      else if c0 = CHR ''l'' \<and> c1 = CHR ''l'' \<and> c2 = CHR ''u'' then (2, True, va_word ap (\<lambda>w. printint w 10 False))
      else if c0 = CHR ''x'' then (0, True, va_word ap (\<lambda>w. printint (va_int w) 16 False))
      else if c0 = CHR ''l'' \<and> c1 = CHR ''x'' then (1, True, va_word ap (\<lambda>w. printint w 16 False))
      else if c0 = CHR ''l'' \<and> c1 = CHR ''l'' \<and> c2 = CHR ''x'' then (2, True, va_word ap (\<lambda>w. printint w 16 False))
      else if c0 = CHR ''p'' then (0, True, va_word ap printptr)
      else if c0 = CHR ''s'' then (0, True, va_str ap printf_str)
      else if c0 = CHR ''%'' then (0, False, consputc (chr CHR ''%''))
      else (0, False, kseq [consputc (chr CHR ''%''), consputc (chr c0)]))"

definition fmt_at :: "string \<Rightarrow> nat \<Rightarrow> char" where
  "fmt_at fmt i = (if i < length fmt then fmt ! i else CHR 0x00)"

function printf_loop :: "string \<Rightarrow> vararg list \<Rightarrow> ('z uart_state_scheme, unit) kmon" where
  "printf_loop [] ap = kret ()"
| "printf_loop (cx # fmt) ap =
     (if cx \<noteq> CHR ''%'' then kbind (consputc (chr cx)) (\<lambda>_. printf_loop fmt ap)
      else if fmt = [] then kret ()
      else (case printf_conv (fmt_at fmt 0) (fmt_at fmt 1) (fmt_at fmt 2) ap of
        (skip, takes, act) \<Rightarrow>
          kbind act (\<lambda>_. printf_loop (drop (Suc skip) fmt) (if takes then tl ap else ap))))"
  by pat_completeness auto
termination
  by (relation "measure (\<lambda>(fmt, ap). length fmt)") auto

definition printf :: "string \<Rightarrow> vararg list \<Rightarrow> ('z uart_state_scheme, int) kmon" where
  "printf fmt ap =
     kbind (kget pr_locking) (\<lambda>locking.
     kbind (kwhen locking (acquire PrLock)) (\<lambda>_.
     kbind (printf_loop fmt ap) (\<lambda>_.
     kbind (kwhen locking (release PrLock)) (\<lambda>_.
     kret 0))))"

text \<open>
  \<^verbatim>\<open>panic\<close> itself; elsewhere in the model a call of \<^verbatim>\<open>panic\<close> is the outcome \<open>Panic\<close>,
  which names the message and stops.
\<close>

definition panic :: "string \<Rightarrow> ('z uart_state_scheme, unit) kmon" where
  "panic msg =
     kbind (kmodify (\<lambda>s. s\<lparr>pr_locking := False\<rparr>)) (\<lambda>_.
     kbind (printf ''panic: '' []) (\<lambda>_.
     kbind (printf (''%s'' @ [CHR 0x0A]) [AStr (Some (map of_char msg))]) (\<lambda>_.
     kbind (kmodify (\<lambda>s. s\<lparr>panicked := True\<rparr>)) (\<lambda>_.
     kdiverge))))"

definition printfinit :: "('z uart_state_scheme, unit) kmon" where
  "printfinit = kseq [initlock PrLock ''pr'', kmodify (\<lambda>s. s\<lparr>pr_locking := True\<rparr>)]"

end
