(* ===== verification/Pagetable.thy ===== *)
theory Pagetable
  imports Vm
begin

text \<open>
  Page tables as partial maps: \<open>pte_of\<close> reads the entry of a virtual page out of
  the table tree in memory, and every operation of \<^verbatim>\<open>vm.c\<close> on a tree is shown to
  be an update of that map which keeps the tree well formed and apart from the
  free pages.
\<close>

named_theorems pt_simps \<open>page-table arithmetic\<close>

subsection \<open>The tree\<close>

text \<open>The table reached from the table at \<open>p\<close> along a list of indices.\<close>

fun node :: "memory \<Rightarrow> u64 \<Rightarrow> u64 list \<Rightarrow> u64 option" where
  "node m p [] = Some p"
| "node m p (i # is) =
     (if ld64 m (p + 8 * i) AND PTE_V = 0 then None
      else node m (PTE2PA (ld64 m (p + 8 * i))) is)"

definition table_path :: "u64 list \<Rightarrow> bool" where
  "table_path is \<longleftrightarrow> length is \<le> 2 \<and> (\<forall>i \<in> set is. i < 512)"

definition tables :: "memory \<Rightarrow> u64 \<Rightarrow> u64 set" where
  "tables m root = {p. \<exists>is. table_path is \<and> node m root is = Some p}"

definition pt_ok :: "memory \<Rightarrow> u64 \<Rightarrow> u64 \<Rightarrow> bool" where
  "pt_ok m kernend root \<longleftrightarrow>
     (\<forall>p \<in> tables m root. kernel_page kernend p) \<and>
     (\<forall>is js p. table_path is \<and> table_path js \<and>
        node m root is = Some p \<and> node m root js = Some p \<longrightarrow> is = js)"

text \<open>The entry for a virtual address, 0 where a table is missing.\<close>

definition pte_of :: "memory \<Rightarrow> u64 \<Rightarrow> u64 \<Rightarrow> u64" where
  "pte_of m root va =
     (case node m root [PX 2 va, PX 1 va] of None \<Rightarrow> 0 | Some p \<Rightarrow> ld64 m (p + 8 * PX 0 va))"

lemma node_append:
  "node m p (is @ js) = Option.bind (node m p is) (\<lambda>q. node m q js)"
  by (induction m p "is" rule: node.induct) auto

lemma node_single [simp]:
  "node m p [i] =
     (if ld64 m (p + 8 * i) AND PTE_V = 0 then None else Some (PTE2PA (ld64 m (p + 8 * i))))"
  by simp

declare node.simps(2) [simp del]

lemma table_path_Nil [simp]: "table_path []"
  by (simp add: table_path_def)

lemma table_path_snoc: "table_path (is @ [i]) \<longleftrightarrow> length is \<le> 1 \<and> table_path is \<and> i < 512"
  by (auto simp: table_path_def)

lemma table_path_va: "table_path [PX k va]" "table_path [PX k va, PX l va]"
  by (simp_all add: table_path_def PX_less)

lemma tablesI: "node m root is = Some p \<Longrightarrow> table_path is \<Longrightarrow> p \<in> tables m root"
  by (auto simp: tables_def)

lemma pt_ok_page: "pt_ok m e root \<Longrightarrow> p \<in> tables m root \<Longrightarrow> kernel_page e p"
  by (simp add: pt_ok_def)

lemma pt_ok_inj:
  "pt_ok m e root \<Longrightarrow> table_path is \<Longrightarrow> table_path js \<Longrightarrow>
   node m root is = Some p \<Longrightarrow> node m root js = Some p \<Longrightarrow> is = js"
  unfolding pt_ok_def by blast

subsection \<open>Entries of a table page\<close>

lemma unat_entry:
  assumes "i < (512 :: u64)"
  shows "unat (8 * i) = 8 * unat i"
  using assms by (simp add: unat_word_ariths word_less_nat_alt)

lemma entry_in_page:
  assumes "i < (512 :: u64)" and "k < (8 :: u64)"
  shows "in_page p (p + 8 * i + k)"
proof -
  have "unat (8 * i) + unat k < 4096"
    using assms by (simp add: unat_entry word_less_nat_alt)
  then have "unat (8 * i + k) < 4096" by (simp add: unat_plus_if')
  then have "in_page p (p + (8 * i + k))" by (rule in_page_offset)
  then show ?thesis by (simp add: add.assoc)
qed

lemma ld64_entry_cong:
  assumes "\<And>x. in_page p x \<Longrightarrow> m' x = m x" and "i < 512"
  shows "ld64 m' (p + 8 * i) = ld64 m (p + 8 * i)"
  by (rule ld64_cong) (use assms entry_in_page in simp)

lemma entry_aligned:
  assumes "page_aligned p" and "i < (512 :: u64)"
  shows "unat (p + 8 * i) mod 8 = 0"
proof -
  have "(8 :: nat) dvd 4096" by simp
  moreover have "4096 dvd unat p" using assms(1) by (simp add: page_aligned_unat dvd_eq_mod_eq_0)
  ultimately have "8 dvd unat p" by (rule dvd_trans)
  then have "8 dvd unat p + 8 * unat i" by simp
  then have "8 dvd (unat p + 8 * unat i) mod 2 ^ 64" by (simp add: dvd_mod)
  moreover have "unat (p + 8 * i) = (unat p + 8 * unat i) mod 2 ^ 64"
    by (simp add: unat_word_ariths(1) unat_entry [OF assms(2)])
  ultimately show ?thesis by (simp add: dvd_eq_mod_eq_0)
qed

lemma entry_inj:
  assumes "i < (512 :: u64)" and "j < 512" and "p + 8 * i = p + 8 * j"
  shows "i = j"
proof -
  have "8 * i = 8 * j" using assms(3) by simp
  then have "unat (8 * i) = unat (8 * j)" by simp
  then show ?thesis using assms(1,2) by (simp add: unat_entry word_unat_eq_iff)
qed

lemma entry_page_inj:
  assumes "page_aligned p" "page_aligned q" "i < (512 :: u64)" "j < (512 :: u64)"
    and "p + 8 * i = q + 8 * j"
  shows "p = q \<and> i = j"
proof -
  have "in_page p (p + 8 * i)" "in_page q (q + 8 * j)"
    using entry_in_page [of i 0 p] entry_in_page [of j 0 q] assms(3,4) by simp_all
  then have "p = q" using in_page_disjoint [of p q "p + 8 * i"] assms(1,2,5) by auto
  with entry_inj assms show ?thesis by blast
qed

text \<open>Reading an entry after writing one.\<close>

lemma ld64_st64_entry:
  assumes "page_aligned p" "page_aligned q" "i < (512 :: u64)" "j < (512 :: u64)"
  shows "ld64 (st64 m (q + 8 * j) v) (p + 8 * i) =
    (if p = q \<and> i = j then v else ld64 m (p + 8 * i))"
proof (cases "p = q \<and> i = j")
  case False
  then have "p + 8 * i \<noteq> q + 8 * j" using entry_page_inj assms by blast
  then show ?thesis
    using False ld64_st64_other entry_aligned assms by auto
qed simp

lemma entry_nonzero:
  assumes "kernel_page e p" and "KERNBASE \<le> e" and "i < (512 :: u64)"
  shows "p + 8 * i \<noteq> 0"
proof -
  have "unat p < 2281701376" "2147483648 \<le> unat p"
    using assms(1,2) by (auto simp: kernel_page_def word_less_nat_alt word_le_nat_alt)
  then have "unat (p + 8 * i) = unat p + 8 * unat i"
    using assms(3) by (simp add: unat_plus_if' unat_entry word_less_nat_alt)
  with \<open>2147483648 \<le> unat p\<close> show ?thesis by (metis unat_0 add_is_0 not_numeral_le_zero)
qed

subsection \<open>What leaves the tree alone\<close>

lemma node_frame:
  assumes agree: "\<And>p x. p \<in> tables m root \<Longrightarrow> in_page p x \<Longrightarrow> m' x = m x"
    and "table_path is"
  shows "node m' root is = node m root is"
  using assms(2)
proof (induction "is" rule: rev_induct)
  case Nil
  then show ?case by simp
next
  case (snoc i js)
  then have i: "table_path js" "i < 512" by (simp_all add: table_path_snoc)
  show ?case
  proof (cases "node m root js")
    case None
    then show ?thesis using snoc.IH [OF i(1)] by (simp add: node_append)
  next
    case (Some q)
    then have "q \<in> tables m root" using i(1) by (intro tablesI)
    then have "ld64 m' (q + 8 * i) = ld64 m (q + 8 * i)"
      using agree i(2) by (intro ld64_entry_cong)
    then show ?thesis using Some snoc.IH [OF i(1)] by (simp add: node_append)
  qed
qed

lemma tables_frame:
  assumes "\<And>p x. p \<in> tables m root \<Longrightarrow> in_page p x \<Longrightarrow> m' x = m x"
  shows "tables m' root = tables m root"
proof -
  have "node m' root is = node m root is" if "table_path is" for "is"
    using assms that by (rule node_frame)
  then show ?thesis by (auto simp: tables_def)
qed

lemma pt_ok_frame:
  assumes "\<And>p x. p \<in> tables m root \<Longrightarrow> in_page p x \<Longrightarrow> m' x = m x" and "pt_ok m e root"
  shows "pt_ok m' e root"
proof -
  have n: "node m' root is = node m root is" if "table_path is" for "is"
    using assms(1) that by (rule node_frame)
  have "tables m' root = tables m root" using assms(1) by (rule tables_frame)
  then show ?thesis using assms(2) unfolding pt_ok_def by (metis n)
qed

lemma pte_of_frame:
  assumes "\<And>p x. p \<in> tables m root \<Longrightarrow> in_page p x \<Longrightarrow> m' x = m x"
  shows "pte_of m' root = pte_of m root"
proof
  fix va
  have n: "node m' root [PX 2 va, PX 1 va] = node m root [PX 2 va, PX 1 va]"
    using assms table_path_va(2) by (rule node_frame)
  have "ld64 m' (p + 8 * PX 0 va) = ld64 m (p + 8 * PX 0 va)"
    if "node m root [PX 2 va, PX 1 va] = Some p" for p
    using assms tablesI [OF that table_path_va(2)] PX_less by (intro ld64_entry_cong)
  with n show "pte_of m' root va = pte_of m root va"
    unfolding pte_of_def by (simp split: option.split)
qed

subsection \<open>Writing a leaf entry\<close>

lemma node_leaf_write:
  assumes ok: "pt_ok m e root" and q: "node m root ps = Some q"
    and len: "length ps = 2" and ps: "table_path ps" and j: "j < 512" and "table_path is"
  shows "node (st64 m (q + 8 * j) v) root is = node m root is"
  using assms(6)
proof (induction "is" rule: rev_induct)
  case Nil
  then show ?case by simp
next
  case (snoc i js)
  then have i: "table_path js" "i < 512" "length js \<le> 1" by (simp_all add: table_path_snoc)
  show ?case
  proof (cases "node m root js")
    case None
    then show ?thesis using snoc.IH [OF i(1)] by (simp add: node_append)
  next
    case (Some r)
    have "r \<noteq> q" using pt_ok_inj [OF ok i(1) ps] Some q i(3) len by auto
    moreover have "page_aligned r" "page_aligned q"
      using pt_ok_page [OF ok] tablesI [OF Some i(1)] tablesI [OF q ps] by (auto simp: kernel_page_def)
    ultimately show ?thesis
      using Some snoc.IH [OF i(1)] i(2) j by (simp add: node_append ld64_st64_entry)
  qed
qed

lemma tables_leaf_write:
  assumes "pt_ok m e root" "node m root ps = Some q" "length ps = 2" "table_path ps" "j < 512"
  shows "tables (st64 m (q + 8 * j) v) root = tables m root"
    and "pt_ok (st64 m (q + 8 * j) v) e root"
proof -
  have n: "node (st64 m (q + 8 * j) v) root is = node m root is" if "table_path is" for "is"
    using assms that by (rule node_leaf_write)
  then show t: "tables (st64 m (q + 8 * j) v) root = tables m root" by (auto simp: tables_def)
  then show "pt_ok (st64 m (q + 8 * j) v) e root"
    using assms(1) unfolding pt_ok_def by (metis n)
qed

lemma pte_of_leaf_write:
  assumes ok: "pt_ok m e root" and q: "node m root [PX 2 va, PX 1 va] = Some q"
    and "va < MAXVA" and "va' < MAXVA"
  shows "pte_of (st64 m (q + 8 * PX 0 va) v) root va' =
    (if PGROUNDDOWN va' = PGROUNDDOWN va then v else pte_of m root va')"
proof -
  let ?m = "st64 m (q + 8 * PX 0 va) v"
  have n: "node ?m root [PX 2 va', PX 1 va'] = node m root [PX 2 va', PX 1 va']"
    using ok q by (rule node_leaf_write) (simp_all add: table_path_va PX_less)
  show ?thesis
  proof (cases "node m root [PX 2 va', PX 1 va']")
    case None
    have "PGROUNDDOWN va' \<noteq> PGROUNDDOWN va"
    proof
      assume "PGROUNDDOWN va' = PGROUNDDOWN va"
      then have "PX 2 va' = PX 2 va" "PX 1 va' = PX 1 va" by (rule PX_PGROUNDDOWN)+
      with None q show False by simp
    qed
    then show ?thesis using None n by (simp add: pte_of_def)
  next
    case (Some r)
    have al: "page_aligned r" "page_aligned q"
      using pt_ok_page [OF ok] tablesI [OF Some table_path_va(2)] tablesI [OF q table_path_va(2)]
      by (auto simp: kernel_page_def)
    have "r = q \<and> PX 0 va' = PX 0 va \<longleftrightarrow> PGROUNDDOWN va' = PGROUNDDOWN va"
    proof
      assume h: "r = q \<and> PX 0 va' = PX 0 va"
      have "[PX 2 va', PX 1 va'] = [PX 2 va, PX 1 va]"
        using pt_ok_inj [OF ok table_path_va(2) table_path_va(2)] Some q h by blast
      with h show "PGROUNDDOWN va' = PGROUNDDOWN va" using assms(3,4) by (intro PX_inject) auto
    next
      assume "PGROUNDDOWN va' = PGROUNDDOWN va"
      then have "PX 2 va' = PX 2 va" "PX 1 va' = PX 1 va" "PX 0 va' = PX 0 va"
        by (rule PX_PGROUNDDOWN)+
      with Some q show "r = q \<and> PX 0 va' = PX 0 va" by simp
    qed
    then show ?thesis
      using Some n al by (simp add: pte_of_def ld64_st64_entry PX_less)
  qed
qed

subsection \<open>Linking a new table\<close>

lemma ld64_fill_zero: "i < 512 \<Longrightarrow> ld64 (fill_page p 0 m) (p + 8 * i) = 0"
  using ld64_entry_cong [of p "fill_page p 0 m" "\<lambda>_. 0" i]
  by (simp add: ld64_def)

lemma ld64_fill_other:
  assumes "page_aligned p" "page_aligned q" "p \<noteq> q" "i < 512"
  shows "ld64 (fill_page p c m) (q + 8 * i) = ld64 m (q + 8 * i)"
  using assms in_page_disjoint [of q p] by (intro ld64_entry_cong) auto

lemma PTE_V_nonzero [simp]: "PTE_V \<noteq> 0"
  by (simp add: PTE_V_def)

lemma PTE_V_less: "PTE_V < 0x400"
  by (simp add: PTE_V_def)

text \<open>
  \<open>m'\<close> is \<open>m\<close> after a zeroed page \<open>pg\<close> was entered at index \<open>j\<close> of the table \<open>q\<close>,
  which path \<open>ps\<close> leads to and which had no valid entry there.
\<close>

definition links :: "memory \<Rightarrow> u64 \<Rightarrow> u64 \<Rightarrow> u64 list \<Rightarrow> u64 \<Rightarrow> u64 \<Rightarrow> u64 \<Rightarrow> memory \<Rightarrow> bool" where
  "links m e root ps j q pg m' \<longleftrightarrow>
     pt_ok m e root \<and> node m root ps = Some q \<and> table_path (ps @ [j]) \<and>
     node m root (ps @ [j]) = None \<and> kernel_page e pg \<and> pg \<notin> tables m root \<and>
     m' = st64 (fill_page pg 0 m) (q + 8 * j) (PA2PTE pg OR PTE_V)"

lemma linksD:
  assumes "links m e root ps j q pg m'"
  shows "pt_ok m e root" "node m root ps = Some q" "table_path (ps @ [j])"
    "node m root (ps @ [j]) = None" "kernel_page e pg" "pg \<notin> tables m root"
    "m' = st64 (fill_page pg 0 m) (q + 8 * j) (PA2PTE pg OR PTE_V)"
  using assms by (simp_all add: links_def)

lemma link_facts:
  assumes l: "links m e root ps j q pg m'"
  shows "table_path ps" "j < 512" "length ps \<le> 1" "q \<in> tables m root" "page_aligned q"
  "page_aligned pg" "q \<noteq> pg"
proof -
  note ok = linksD(1) [OF l] and q = linksD(2) [OF l] and path = linksD(3) [OF l]
    and missing = linksD(4) [OF l] and pg = linksD(5,6) [OF l] and m' = linksD(7) [OF l]
  show 1: "table_path ps" "j < 512" "length ps \<le> 1" using path by (simp_all add: table_path_snoc)
  show 2: "q \<in> tables m root" using q 1(1) by (rule tablesI)
  show "page_aligned q" using pt_ok_page [OF ok 2] by (simp add: kernel_page_def)
  show "page_aligned pg" using pg(1) by (simp add: kernel_page_def)
  show "q \<noteq> pg" using 2 pg(2) by auto
qed

lemma link_entry:
  assumes l: "links m e root ps j q pg m'" and "page_aligned r" and "i < 512"
  shows "ld64 m' (r + 8 * i) =
    (if r = q \<and> i = j then PA2PTE pg OR PTE_V else if r = pg then 0 else ld64 m (r + 8 * i))"
  using assms(2,3) link_facts(2,5,6,7) [OF l]
  by (auto simp: linksD(7) [OF l] ld64_st64_entry ld64_fill_zero ld64_fill_other)

lemma node_link:
  assumes l: "links m e root ps j q pg m'" and "table_path is"
  shows "node m' root is = (if is = ps @ [j] then Some pg else node m root is)"
  using assms(2)
proof (induction "is" rule: rev_induct)
  case Nil
  then show ?case by simp
next
  case (snoc i js)
  note ok = linksD(1) [OF l] and q = linksD(2) [OF l] and path = linksD(3) [OF l]
    and missing = linksD(4) [OF l] and pg = linksD(5,6) [OF l] and m' = linksD(7) [OF l]
  note link_facts = link_facts [OF l] and link_entry = link_entry [OF l]
  from snoc.prems have i: "table_path js" "i < 512" by (simp_all add: table_path_snoc)
  have IH: "node m' root js = (if js = ps @ [j] then Some pg else node m root js)"
    using i(1) by (rule snoc.IH)
  show ?case
  proof (cases "js = ps @ [j]")
    case True
    have "node m root js = None" using missing True by (simp only:)
    then have before: "node m root (js @ [i]) = None" by (simp add: node_append)
    have "ld64 m' (pg + 8 * i) = 0" using link_entry [OF link_facts(6) i(2)] link_facts(7) by simp
    moreover have "node m' root js = Some pg" using IH True by simp
    ultimately have after: "node m' root (js @ [i]) = None" by (simp add: node_append)
    have "js @ [i] \<noteq> ps @ [j]" using True by simp
    then show ?thesis by (simp only: before after if_False)
  next
    case js: False
    show ?thesis
    proof (cases "node m root js")
      case None
      then have "js \<noteq> ps" using q by auto
      then show ?thesis using None IH js by (simp add: node_append)
    next
      case (Some r)
      have r: "r \<in> tables m root" using Some i(1) by (rule tablesI)
      have al: "page_aligned r" using pt_ok_page [OF ok r] by (simp add: kernel_page_def)
      have "r \<noteq> pg" using r pg(2) by auto
      moreover have "r = q \<longleftrightarrow> js = ps"
        using pt_ok_inj [OF ok i(1) link_facts(1)] Some q by auto
      ultimately show ?thesis
        using IH js Some link_entry [OF al i(2)] PTE2PA_PA2PTE [OF link_facts(6) PTE_V_less]
        by (auto simp: node_append)
    qed
  qed
qed

lemma tables_link:
  assumes l: "links m e root ps j q pg m'"
  shows "tables m' root = insert pg (tables m root)"
proof
  note ok = linksD(1) [OF l] and q = linksD(2) [OF l] and path = linksD(3) [OF l]
    and missing = linksD(4) [OF l] and pg = linksD(5,6) [OF l] and m' = linksD(7) [OF l]
  note node_link = node_link [OF l]
  show "tables m' root \<subseteq> insert pg (tables m root)"
    by (auto simp: tables_def node_link split: if_splits)
  show "insert pg (tables m root) \<subseteq> tables m' root"
  proof -
    have "pg \<in> tables m' root" using path by (intro tablesI [of _ _ "ps @ [j]"]) (simp_all add: node_link)
    moreover have "p \<in> tables m' root" if "p \<in> tables m root" for p
    proof -
      obtain "is" where is1: "table_path is" "node m root is = Some p"
        using \<open>p \<in> tables m root\<close> by (auto simp: tables_def)
      then have "is \<noteq> ps @ [j]" using missing by auto
      with is1 show ?thesis by (intro tablesI [of _ _ "is"]) (simp_all add: node_link)
    qed
    ultimately show ?thesis by auto
  qed
qed

lemma pt_ok_link:
  assumes l: "links m e root ps j q pg m'"
  shows "pt_ok m' e root"
  unfolding pt_ok_def
proof (intro conjI allI impI)
  note ok = linksD(1) [OF l] and q = linksD(2) [OF l] and path = linksD(3) [OF l]
    and missing = linksD(4) [OF l] and pg = linksD(5,6) [OF l] and m' = linksD(7) [OF l]
  note node_link = node_link [OF l] and tables_link = tables_link [OF l]
  show "\<forall>p \<in> tables m' root. kernel_page e p"
    using pg(1) pt_ok_page [OF ok] by (auto simp: tables_link)
  fix "is" js p
  assume h: "table_path is \<and> table_path js \<and> node m' root is = Some p \<and> node m' root js = Some p"
  have no: "node m root ks \<noteq> Some pg" if "table_path ks" for ks
    using that pg(2) tablesI by blast
  show "is = js"
    using h no [of "is"] no [of js] pt_ok_inj [OF ok, of "is" js p]
    by (auto simp: node_link split: if_splits)
qed

lemma pte_of_link:
  assumes l: "links m e root ps j q pg m'"
  shows "pte_of m' root va = pte_of m root va"
proof -
  note ok = linksD(1) [OF l] and q = linksD(2) [OF l] and path = linksD(3) [OF l]
    and missing = linksD(4) [OF l] and pg = linksD(5,6) [OF l] and m' = linksD(7) [OF l]
  note node_link = node_link [OF l] and link_facts = link_facts [OF l] and link_entry = link_entry [OF l]
  let ?is = "[PX 2 va, PX 1 va]"
  have p: "table_path ?is" by (rule table_path_va)
  show ?thesis
  proof (cases "?is = ps @ [j]")
    case True
    then have "node m root ?is = None" using missing by (simp only: True)
    moreover have "node m' root ?is = Some pg" using True node_link [OF p] by simp
    moreover have "ld64 m' (pg + 8 * PX 0 va) = 0"
      using link_entry [OF link_facts(6) PX_less] link_facts(7) by simp
    ultimately show ?thesis by (simp add: pte_of_def)
  next
    case False
    then have n: "node m' root ?is = node m root ?is" using node_link [OF p] by (simp only: if_False)
    show ?thesis
    proof (cases "node m root ?is")
      case None
      then show ?thesis using n by (simp add: pte_of_def)
    next
      case (Some r)
      have r: "r \<in> tables m root" using Some p by (rule tablesI)
      have al: "page_aligned r" using pt_ok_page [OF ok r] by (simp add: kernel_page_def)
      have "r \<noteq> pg" using r pg(2) by auto
      moreover have "r \<noteq> q"
      proof
        assume "r = q"
        then have "?is = ps" using pt_ok_inj [OF ok p link_facts(1)] Some q by auto
        then show False using link_facts(3) by auto
      qed
      ultimately show ?thesis
        using n Some link_entry [OF al PX_less] by (simp add: pte_of_def)
    qed
  qed
qed

end
