(* ===== verification/Addrspace.thy ===== *)
theory Addrspace
  imports Pagetable
begin

text \<open>
  The operations of \<^verbatim>\<open>vm.c\<close> against the map view of \<open>Pagetable\<close>: \<open>walk\<close> finds or
  makes the slot of a page, \<open>mappages\<close> and \<open>uvmunmap\<close> update the map on a range,
  \<open>copyout\<close> and \<open>copyin\<close> move bytes through it.
\<close>

subsection \<open>What a memory operation leaves alone\<close>

text \<open>
  The allocator's lock is taken and released inside these operations; apart from
  memory, the free list and the saved interrupt flag the state is unchanged.
\<close>

definition quiet :: "'z mem_state_scheme \<Rightarrow> 'z mem_state_scheme \<Rightarrow> bool" where
  "quiet s s' \<longleftrightarrow>
     mem_state.more s' = mem_state.more s \<and> kend s' = kend s \<and> tp s' = tp s \<and>
     sstatus s' = sstatus s \<and> locks s' = locks s \<and>
     (\<forall>c. noff (cpus s' c) = noff (cpus s c) \<and> cpu_proc (cpus s' c) = cpu_proc (cpus s c) \<and>
        cpu_context (cpus s' c) = cpu_context (cpus s c))"

lemma quiet_refl [simp]: "quiet s s"
  by (simp add: quiet_def)

lemma quiet_trans [trans]: "quiet s s' \<Longrightarrow> quiet s' s'' \<Longrightarrow> quiet s s''"
  by (simp add: quiet_def)

lemma quiet_mem [simp]: "quiet s (s\<lparr>mem := m\<rparr>)"
  by (simp add: quiet_def)

lemma quiet_alloced [simp]: "quiet s (alloced s)"
  by (simp add: quiet_def alloced_def intr_saved_def)

lemma quiet_freed [simp]: "quiet s (freed p s)"
  by (simp add: quiet_def freed_def intr_saved_def)

lemma quiet_kend: "quiet s s' \<Longrightarrow> kend s' = kend s"
  by (simp add: quiet_def)

lemma quiet_lock_free: "quiet s s' \<Longrightarrow> lock_free lk s' = lock_free lk s"
  by (simp add: quiet_def lock_free_def intr_enabled_def)

subsection \<open>A page table beside the free pages\<close>

definition pt_inv :: "'z mem_state_scheme \<Rightarrow> u64 \<Rightarrow> u64 set \<Rightarrow> bool" where
  "pt_inv s root F \<longleftrightarrow>
     lock_free KmemLock s \<and> free_pages s F \<and> pt_ok (mem s) (kend s) root \<and>
     tables (mem s) root \<inter> F = {}"

lemma pt_invD:
  assumes "pt_inv s root F"
  shows "lock_free KmemLock s" "free_pages s F" "pt_ok (mem s) (kend s) root"
    "tables (mem s) root \<inter> F = {}" "KERNBASE \<le> kend s"
  using assms by (auto simp: pt_inv_def free_pages_def kmem_inv_def)

lemma free_pages_mem:
  assumes "free_pages s F" and "\<And>p x. p \<in> F \<Longrightarrow> in_page p x \<Longrightarrow> m x = mem s x"
  shows "free_pages (s\<lparr>mem := m\<rparr>) F"
proof -
  obtain ps where ps: "kmem_inv s ps" "set ps = F" using assms(1) by (auto simp: free_pages_def)
  have "flist m (freelist s) ps = flist (mem s) (freelist s) ps"
    using assms(2) ps(2) by (intro flist_cong) auto
  with ps show ?thesis by (auto simp: free_pages_def kmem_inv_def)
qed

lemma free_pages_aligned: "free_pages s F \<Longrightarrow> p \<in> F \<Longrightarrow> kernel_page (kend s) p"
  using kmem.pool_managed by blast

lemma apart_pages:
  assumes "kernel_page e p" "kernel_page e q" "p \<noteq> q" "in_page p x"
  shows "\<not> in_page q x"
  using assms in_page_disjoint [of p q x] by (simp add: kernel_page_def)

text \<open>The slot of a virtual page, 0 where a table is missing.\<close>

definition pte_slot :: "memory \<Rightarrow> u64 \<Rightarrow> u64 \<Rightarrow> u64" where
  "pte_slot m root va =
     (case node m root [PX 2 va, PX 1 va] of None \<Rightarrow> 0 | Some p \<Rightarrow> p + 8 * PX 0 va)"

lemma walk_find:
  assumes "va < MAXVA"
  shows "walk root va False es s = Ret (pte_slot (mem s) root va) es s"
  using assms
  by (simp add: walk_def pte_slot_def numeral_2_eq_2 pte_load_def node.simps(2) not_le [symmetric])

lemma pte_slot_0:
  assumes "pt_ok m e root" and "KERNBASE \<le> e"
  shows "pte_slot m root va = 0 \<longleftrightarrow> node m root [PX 2 va, PX 1 va] = None"
proof (cases "node m root [PX 2 va, PX 1 va]")
  case (Some p)
  then have "kernel_page e p" using pt_ok_page [OF assms(1)] tablesI table_path_va(2) by blast
  then have "p + 8 * PX 0 va \<noteq> 0" using assms(2) PX_less by (rule entry_nonzero)
  with Some show ?thesis by (simp add: pte_slot_def)
qed (simp add: pte_slot_def)

lemma pte_of_slot: "pte_slot m root va \<noteq> 0 \<Longrightarrow> pte_of m root va = ld64 m (pte_slot m root va)"
  by (simp add: pte_of_def pte_slot_def split: option.splits)

lemma pte_of_no_slot:
  "pt_ok m e root \<Longrightarrow> KERNBASE \<le> e \<Longrightarrow> pte_slot m root va = 0 \<Longrightarrow> pte_of m root va = 0"
  by (simp add: pte_slot_0 pte_of_def)

subsection \<open>walk\<close>

definition walk_prefix :: "nat \<Rightarrow> u64 \<Rightarrow> u64 list" where
  "walk_prefix l va = (if l = 0 then [PX 2 va, PX 1 va] else if l = 1 then [PX 2 va] else [])"

lemma walk_prefix_Suc: "l \<le> 1 \<Longrightarrow> walk_prefix l va = walk_prefix (Suc l) va @ [PX (Suc l) va]"
  by (cases l) (auto simp: walk_prefix_def numeral_2_eq_2)

lemma table_path_prefix [simp]: "table_path (walk_prefix l va)"
  by (simp add: walk_prefix_def table_path_va)

text \<open>What a memory operation on a page table with these free pages may touch.\<close>

definition touches :: "'z mem_state_scheme \<Rightarrow> 'z mem_state_scheme \<Rightarrow> u64 \<Rightarrow> u64 set \<Rightarrow> u64 set \<Rightarrow> bool" where
  "touches s s' root F F' \<longleftrightarrow>
     quiet s s' \<and> F' \<subseteq> F \<and> pt_inv s' root F' \<and>
     tables (mem s') root = tables (mem s) root \<union> (F - F') \<and>
     (\<forall>p x. kernel_page (kend s) p \<longrightarrow> in_page p x \<longrightarrow> p \<notin> F \<longrightarrow>
        p \<notin> tables (mem s) root \<longrightarrow> mem s' x = mem s x)"

lemma touches_refl: "pt_inv s root F \<Longrightarrow> touches s s root F F"
  by (simp add: touches_def)

lemma touches_trans:
  assumes "touches s s1 root F F1" and "touches s1 s2 root F1 F2"
  shows "touches s s2 root F F2"
proof -
  have "mem s2 x = mem s x"
    if p: "kernel_page (kend s) p" "in_page p x" "p \<notin> F" "p \<notin> tables (mem s) root" for p x
  proof -
    have "kend s1 = kend s" using assms(1) quiet_kend unfolding touches_def by blast
    then have "p \<notin> F1" "p \<notin> tables (mem s1) root" "kernel_page (kend s1) p"
      using assms(1) p by (auto simp: touches_def)
    then have "mem s2 x = mem s1 x" using assms(2) p(2) unfolding touches_def by blast
    moreover have "mem s1 x = mem s x" using assms(1) p unfolding touches_def by blast
    ultimately show ?thesis by simp
  qed
  with assms show ?thesis unfolding touches_def by (auto dest: quiet_trans)
qed

lemma alloc_link:
  assumes inv: "pt_inv s root F" and f: "freelist s \<noteq> 0"
    and q: "node (mem s) root ps = Some q" and path: "table_path (ps @ [j])"
    and missing: "node (mem s) root (ps @ [j]) = None"
    and m': "m' = st64 (memset (mem (alloced s)) (freelist s) 0 4096) (q + 8 * j) (PA2PTE (freelist s) OR PTE_V)"
  shows "links (mem s) (kend s) root ps j q (freelist s) m'"
    and "freelist s \<in> F"
    and "touches s ((alloced s)\<lparr>mem := m'\<rparr>) root F (F - {freelist s})"
proof -
  note i = pt_invD [OF inv]
  obtain ps' where kps: "kmem_inv s ps'" "set ps' = F" using i(2) by (auto simp: free_pages_def)
  then obtain qs where c: "ps' = freelist s # qs" using f by (cases ps') (auto simp: kmem_inv_def)
  then show F: "freelist s \<in> F" using kps by auto
  have pg: "kernel_page (kend s) (freelist s)" using i(2) F by (rule free_pages_aligned)
  have nt: "freelist s \<notin> tables (mem s) root" using F i(4) by auto
  have "memset (mem (alloced s)) (freelist s) 0 4096 = fill_page (freelist s) 0 (mem s)"
    using f by (auto simp: memset_page alloced_def fun_eq_iff fill_page_def)
  then have m2: "m' = st64 (fill_page (freelist s) 0 (mem s)) (q + 8 * j) (PA2PTE (freelist s) OR PTE_V)"
    using m' by simp
  show l: "links (mem s) (kend s) root ps j q (freelist s) m'"
    unfolding links_def using i(3) q path missing pg nt m2 by blast
  have qt: "q \<in> tables (mem s) root" using link_facts(4) [OF l] .
  have qk: "kernel_page (kend s) q" using pt_ok_page [OF i(3) qt] .
  have outside: "m' x = mem s x" if "kernel_page (kend s) p" "in_page p x" "p \<noteq> freelist s" "p \<noteq> q" for p x
  proof -
    have "\<not> in_page (freelist s) x" "\<not> in_page q x"
      using apart_pages [OF that(1) pg] apart_pages [OF that(1) qk] that by auto
    moreover have "st64 m0 (q + 8 * j) v x = m0 x" if "\<not> in_page q x" for m0 v
    proof -
      have "\<not> x - (q + 8 * j) < 8"
      proof
        assume "x - (q + 8 * j) < 8"
        then have "in_page q (q + 8 * j + (x - (q + 8 * j)))"
          using link_facts(2) [OF l] by (intro entry_in_page)
        with that show False by simp
      qed
      then show ?thesis by (simp add: st64_def)
    qed
    ultimately show ?thesis by (simp add: m2)
  qed
  let ?s = "(alloced s)\<lparr>mem := m'\<rparr>"
  have "kmem_inv (alloced s) qs" using kps(1) c kmem_inv_alloced by blast
  then have fp: "free_pages (alloced s) (F - {freelist s})"
    using kps c by (auto simp: free_pages_def kmem_inv_def)
  have "free_pages ?s (F - {freelist s})"
  proof (rule free_pages_mem [OF fp])
    fix p x assume p: "p \<in> F - {freelist s}" "in_page p x"
    then have kp: "kernel_page (kend s) p" using free_pages_aligned [OF i(2)] by auto
    moreover have "p \<noteq> q" using p(1) qt i(4) by auto
    ultimately have "m' x = mem s x" using outside p by auto
    moreover have "mem (alloced s) x = mem s x"
      using apart_pages [OF kp pg _ p(2)] p(1) by (intro mem_alloced_other) auto
    ultimately show "m' x = mem (alloced s) x" by simp
  qed
  moreover have "lock_free KmemLock ?s"
    using i(1) quiet_lock_free [OF quiet_alloced] quiet_lock_free [OF quiet_mem] by blast
  moreover have "tables m' root = insert (freelist s) (tables (mem s) root)" using l by (rule tables_link)
  moreover have "pt_ok m' (kend s) root" using l by (rule pt_ok_link)
  moreover have "quiet s ?s" using quiet_trans [OF quiet_alloced quiet_mem] .
  moreover have "m' x = mem s x" if "kernel_page (kend s) p" "in_page p x" "p \<notin> F" "p \<notin> tables (mem s) root" for p x
    using outside that F qt by blast
  ultimately show "touches s ?s root F (F - {freelist s})"
    using i(4) F unfolding touches_def pt_inv_def by auto
qed

lemma walk_level_alloc:
  assumes "pt_inv s root F" and "l \<le> 2" and "node (mem s) root (walk_prefix l va) = Some q"
  shows "\<exists>r s' F'. walk_level l q va True es s = Ret r es s' \<and> touches s s' root F F' \<and>
    pte_of (mem s') root = pte_of (mem s) root \<and>
    (if r = 0 then F' = {} else r = pte_slot (mem s') root va)"
  using assms
proof (induction l arbitrary: s F q)
  case 0
  have n: "node (mem s) root [PX 2 va, PX 1 va] = Some q" using "0.prems"(3) by (simp add: walk_prefix_def)
  then have "pte_slot (mem s) root va = q + 8 * PX 0 va" by (simp add: pte_slot_def)
  moreover have "pte_slot (mem s) root va \<noteq> 0"
    using pte_slot_0 [OF pt_invD(3,5) [OF "0.prems"(1)]] n by simp
  ultimately show ?case using touches_refl [OF "0.prems"(1)] by auto
next
  case (Suc l)
  note inv = Suc.prems(1)
  let ?e = "ld64 (mem s) (q + 8 * PX (Suc l) va)"
  have l: "l \<le> 1" using Suc.prems(2) by simp
  note pre = walk_prefix_Suc [OF l, of va]
  show ?case
  proof (cases "?e AND PTE_V = 0")
    case False
    then have "node (mem s) root (walk_prefix l va) = Some (PTE2PA ?e)"
      unfolding pre using Suc.prems(3) by (simp add: node_append)
    from Suc.IH [OF inv _ this] l False show ?thesis by (simp add: pte_load_def)
  next
    case True
    then have missing: "node (mem s) root (walk_prefix (Suc l) va @ [PX (Suc l) va]) = None"
      using Suc.prems(3) by (simp add: node_append)
    note ka = kalloc_run [OF pt_invD(1) [OF inv], of es]
    show ?thesis
    proof (cases "freelist s = 0")
      case f: True
      obtain ps where "kmem_inv s ps" "set ps = F" using pt_invD(2) [OF inv] by (auto simp: free_pages_def)
      then have F: "F = {}" using f by (cases ps) (auto simp: kmem_inv_def)
      have m: "mem (alloced s) = mem s" using f by (simp add: alloced_def intr_saved_def)
      have "kmem_inv (alloced s) []"
        using pt_invD(2) [OF inv] F by (auto simp: free_pages_def intro: kmem_inv_alloced_empty)
      then have "pt_inv (alloced s) root F"
        using pt_invD [OF inv] F m by (auto simp: pt_inv_def free_pages_def lock_free_alloced)
      then have "touches s (alloced s) root F F" by (simp add: touches_def m)
      then show ?thesis using True ka f F m by (auto simp: pte_load_def)
    next
      case f: False
      define m' where "m' = st64 (memset (mem (alloced s)) (freelist s) 0 4096)
        (q + 8 * PX (Suc l) va) (PA2PTE (freelist s) OR PTE_V)"
      let ?s = "(alloced s)\<lparr>mem := m'\<rparr>"
      have path: "table_path (walk_prefix (Suc l) va @ [PX (Suc l) va])"
        using table_path_prefix [of l va] by (simp only: pre)
      note al = alloc_link [OF inv f Suc.prems(3) path missing m'_def]
      have inv': "pt_inv ?s root (F - {freelist s})" using al(3) by (simp add: touches_def)
      have "node (mem ?s) root (walk_prefix l va) = Some (freelist s)"
        using node_link [OF al(1) table_path_prefix [of l va]] by (simp add: pre)
      from Suc.IH [OF inv' _ this] l obtain r s' F' where
        w: "walk_level l (freelist s) va True es ?s = Ret r es s'"
          "touches ?s s' root (F - {freelist s}) F'"
          "pte_of (mem s') root = pte_of m' root" "if r = 0 then F' = {} else r = pte_slot (mem s') root va"
        by auto
      have "touches s s' root F F'" using touches_trans [OF al(3) w(2)] .
      moreover have "pte_of m' root = pte_of (mem s) root" using pte_of_link [OF al(1)] by auto
      moreover have "walk_level (Suc l) q va True es s = Ret r es s'"
        using True ka f w(1) by (simp add: pte_load_def pte_store_def mem_fill_def m'_def)
      ultimately show ?thesis using w(3,4) by auto
    qed
  qed
qed

lemma walk_alloc:
  assumes "pt_inv s root F" and "va < MAXVA"
  shows "\<exists>r s' F'. walk root va True es s = Ret r es s' \<and> touches s s' root F F' \<and>
    pte_of (mem s') root = pte_of (mem s) root \<and>
    (if r = 0 then F' = {} else r = pte_slot (mem s') root va)"
  using walk_level_alloc [OF assms(1), of 2 va root es] assms(2)
  by (simp add: walk_def walk_prefix_def not_le [symmetric])

subsection \<open>mappages\<close>

lemma PGROUNDDOWN_eq_iff:
  assumes "page_aligned a"
  shows "PGROUNDDOWN va = a \<longleftrightarrow> a \<le> va \<and> unat va < unat a + 4096"
proof
  assume "PGROUNDDOWN va = a"
  then have "unat a = unat va - unat va mod 4096" by (auto simp: unat_PGROUNDDOWN [symmetric])
  moreover have "unat va mod 4096 < 4096" by simp
  ultimately show "a \<le> va \<and> unat va < unat a + 4096" by (simp add: word_le_nat_alt)
next
  assume h: "a \<le> va \<and> unat va < unat a + 4096"
  obtain k where k: "unat a = 4096 * k"
    using assms by (auto simp: page_aligned_unat dvd_eq_mod_eq_0 [symmetric] elim: dvdE)
  obtain r where r: "unat va = 4096 * k + r" "r < 4096"
    using h k by (metis add_less_cancel_left le_Suc_ex word_le_nat_alt)
  have "unat (PGROUNDDOWN va) = unat a" using r k by (simp add: unat_PGROUNDDOWN)
  then show "PGROUNDDOWN va = a" by (simp add: word_unat_eq_iff)
qed

lemma pt_inv_store:
  assumes inv: "pt_inv s root F" and slot: "pte_slot (mem s) root va \<noteq> 0" and va: "va < MAXVA"
  shows "touches s (s\<lparr>mem := st64 (mem s) (pte_slot (mem s) root va) v\<rparr>) root F F"
    and "va' < MAXVA \<Longrightarrow> pte_of (st64 (mem s) (pte_slot (mem s) root va) v) root va' =
      (if PGROUNDDOWN va' = PGROUNDDOWN va then v else pte_of (mem s) root va')"
    and "tables (st64 (mem s) (pte_slot (mem s) root va) v) root = tables (mem s) root"
proof -
  note i = pt_invD [OF inv]
  obtain q where q: "node (mem s) root [PX 2 va, PX 1 va] = Some q"
    and sl: "pte_slot (mem s) root va = q + 8 * PX 0 va"
    using slot by (auto simp: pte_slot_def split: option.splits)
  let ?m = "st64 (mem s) (q + 8 * PX 0 va) v"
  have t: "tables ?m root = tables (mem s) root" "pt_ok ?m (kend s) root"
    using tables_leaf_write [OF i(3) q] by (simp_all add: table_path_va PX_less)
  have qt: "q \<in> tables (mem s) root" using q table_path_va(2) by (rule tablesI)
  have qk: "kernel_page (kend s) q" using pt_ok_page [OF i(3) qt] .
  have outside: "?m x = mem s x" if "kernel_page (kend s) p" "in_page p x" "p \<noteq> q" for p x
  proof -
    have "\<not> in_page q x" using apart_pages [OF that(1) qk] that by auto
    then have "\<not> x - (q + 8 * PX 0 va) < 8"
      using entry_in_page [OF PX_less, of "x - (q + 8 * PX 0 va)" q 0 va] by auto
    then show ?thesis by (simp add: st64_def)
  qed
  have "free_pages (s\<lparr>mem := ?m\<rparr>) F"
    using free_pages_mem [OF i(2), of ?m] outside free_pages_aligned [OF i(2)] qt i(4) by blast
  then show "touches s (s\<lparr>mem := st64 (mem s) (pte_slot (mem s) root va) v\<rparr>) root F F"
    unfolding sl touches_def pt_inv_def
    using i t qt outside quiet_lock_free [OF quiet_mem [of s ?m]] by auto
  show "va' < MAXVA \<Longrightarrow> pte_of (st64 (mem s) (pte_slot (mem s) root va) v) root va' =
      (if PGROUNDDOWN va' = PGROUNDDOWN va then v else pte_of (mem s) root va')"
    unfolding sl using i(3) q va by (intro pte_of_leaf_write)
  show "tables (st64 (mem s) (pte_slot (mem s) root va) v) root = tables (mem s) root"
    unfolding sl by (rule t)
qed

text \<open>The map with \<open>j\<close> pages from \<open>a\<close> on mapped to the pages from \<open>pa\<close> on.\<close>

definition map_range :: "(u64 \<Rightarrow> u64) \<Rightarrow> u64 \<Rightarrow> nat \<Rightarrow> u64 \<Rightarrow> u64 \<Rightarrow> u64 \<Rightarrow> u64" where
  "map_range f a j pa perm va =
     (if a \<le> va \<and> unat va < unat a + 4096 * j
      then PA2PTE (pa + (PGROUNDDOWN va - a)) OR perm OR PTE_V else f va)"

lemma map_range_step:
  assumes "page_aligned a" and "unat a + 4096 < 2 ^ 64"
  shows "map_range (\<lambda>va. if PGROUNDDOWN va = a then PA2PTE pa OR perm OR PTE_V else f va)
      (a + 4096) j (pa + 4096) perm va = map_range f a (Suc j) pa perm va"
proof -
  have up: "unat (a + 4096) = unat a + 4096" using assms(2) by (simp add: unat_plus_if')
  note pg = PGROUNDDOWN_eq_iff [OF assms(1), of va]
  show ?thesis
  proof (cases "PGROUNDDOWN va = a")
    case True
    then show ?thesis using pg by (simp add: map_range_def word_le_nat_alt up)
  next
    case False
    then show ?thesis using pg by (auto simp: map_range_def word_le_nat_alt up algebra_simps)
  qed
qed

lemma mappages_loop_spec:
  assumes "pt_inv s root F" and "page_aligned a" and "0 < n" and "unat a + 4096 * n \<le> unat MAXVA"
    and "\<forall>va. a \<le> va \<and> unat va < unat a + 4096 * n \<longrightarrow> pte_of (mem s) root va AND PTE_V = 0"
  shows "\<exists>r s' F' j. mappages_loop n root a (a + 4096 * of_nat (n - 1)) pa perm es s = Ret r es s' \<and>
    touches s s' root F F' \<and> (r = 0 \<and> j = n \<or> r = - 1 \<and> j < n \<and> F' = {}) \<and>
    (\<forall>va < MAXVA. pte_of (mem s') root va = map_range (pte_of (mem s) root) a j pa perm va)"
  using assms
proof (induction n arbitrary: a pa s F)
  case 0
  then show ?case by simp
next
  case (Suc n)
  note inv = Suc.prems(1)
  have a: "a < MAXVA" and a_up: "unat a + 4096 < 2 ^ 64"
    using Suc.prems(4) by (simp_all add: word_less_nat_alt MAXVA_eq)
  have rd: "PGROUNDDOWN a = a" using Suc.prems(2) by (rule PGROUNDDOWN_aligned)
  have self: "pte_of (mem s) root a AND PTE_V = 0" using Suc.prems(5) by simp
  obtain r s1 F1 where w: "walk root a True es s = Ret r es s1" "touches s s1 root F F1"
      "pte_of (mem s1) root = pte_of (mem s) root"
      "if r = 0 then F1 = {} else r = pte_slot (mem s1) root a"
    using walk_alloc [OF inv a, of es] by blast
  have inv1: "pt_inv s1 root F1" using w(2) by (simp add: touches_def)
  show ?case
  proof (cases "r = 0")
    case True
    then show ?thesis
      using w by (intro exI [of _ "-1"] exI [of _ s1] exI [of _ F1] exI [of _ 0])
        (simp add: map_range_def not_le [symmetric] word_le_nat_alt)
  next
    case False
    then have slot: "r = pte_slot (mem s1) root a" "pte_slot (mem s1) root a \<noteq> 0" using w(4) by auto
    let ?v = "PA2PTE pa OR perm OR PTE_V"
    let ?s = "s1\<lparr>mem := st64 (mem s1) r ?v\<rparr>"
    have ld: "ld64 (mem s1) r AND PTE_V = 0"
      using pte_of_slot [OF slot(2)] slot(1) w(3) self by simp
    have st: "touches s1 ?s root F1 F1"
      using pt_inv_store(1) [OF inv1 slot(2) a] slot(1) by simp
    have pte: "pte_of (mem ?s) root va = (if PGROUNDDOWN va = a then ?v else pte_of (mem s) root va)"
      if "va < MAXVA" for va
      using pt_inv_store(2) [OF inv1 slot(2) a that] slot(1) w(3) rd by simp
    have t: "touches s ?s root F F1" using w(2) st by (rule touches_trans)
    have go: "mappages_loop (Suc n) root a (a + 4096 * of_nat (Suc n - 1)) pa perm es s =
      (if a = a + 4096 * of_nat n then Ret 0 es ?s
       else mappages_loop n root (a + 4096) (a + 4096 * of_nat n) (pa + 4096) perm es ?s)"
      using w(1) False ld by (simp add: pte_load_def pte_store_def)
    show ?thesis
    proof (cases "n = 0")
      case True
      have "pte_of (mem ?s) root va = map_range (pte_of (mem s) root) a 1 pa perm va" if "va < MAXVA" for va
        using pte [OF that] PGROUNDDOWN_eq_iff [OF Suc.prems(2), of va]
        by (cases "PGROUNDDOWN va = a") (auto simp: map_range_def)
      with go t True show ?thesis
        by (intro exI [of _ 0] exI [of _ ?s] exI [of _ F1] exI [of _ 1]) simp
    next
      case n: False
      have "unat (4096 * of_nat n :: u64) = 4096 * n"
        using Suc.prems(4) by (simp add: unat_word_ariths unat_of_nat MAXVA_eq)
      then have ne: "a \<noteq> a + 4096 * of_nat n" using n by (metis add_cancel_right_right unat_0 mult_eq_0_iff zero_neq_numeral)
      have up: "unat (a + 4096) = unat a + 4096" using a_up by (simp add: unat_plus_if')
      have al: "page_aligned (a + 4096)" using Suc.prems(2) by (simp add: page_aligned_unat up)
      have top: "unat (a + 4096) + 4096 * n \<le> unat MAXVA" using Suc.prems(4) by (simp add: up)
      have free: "\<forall>va. a + 4096 \<le> va \<and> unat va < unat (a + 4096) + 4096 * n \<longrightarrow>
        pte_of (mem ?s) root va AND PTE_V = 0"
      proof (intro allI impI)
        fix va assume h: "a + 4096 \<le> va \<and> unat va < unat (a + 4096) + 4096 * n"
        then have "va < MAXVA" using top by (simp add: word_less_nat_alt)
        moreover have "PGROUNDDOWN va \<noteq> a" "a \<le> va" "unat va < unat a + 4096 * Suc n"
          using h PGROUNDDOWN_eq_iff [OF Suc.prems(2), of va] by (auto simp: word_le_nat_alt up)
        ultimately show "pte_of (mem ?s) root va AND PTE_V = 0" using pte Suc.prems(5) by simp
      qed
      have lst: "a + 4096 + 4096 * of_nat (n - 1) = a + 4096 * of_nat n"
        using n by (cases n) (simp_all add: algebra_simps)
      have invs: "pt_inv ?s root F1" using st by (simp add: touches_def)
      obtain r2 s2 F2 j where IH: "mappages_loop n root (a + 4096) (a + 4096 * of_nat n) (pa + 4096) perm es ?s = Ret r2 es s2"
          "touches ?s s2 root F1 F2" "r2 = 0 \<and> j = n \<or> r2 = - 1 \<and> j < n \<and> F2 = {}"
          "\<forall>va < MAXVA. pte_of (mem s2) root va = map_range (pte_of (mem ?s) root) (a + 4096) j (pa + 4096) perm va"
        using Suc.IH [OF invs al _ top free, of "pa + 4096"] n unfolding lst by blast
      have "pte_of (mem s2) root va = map_range (pte_of (mem s) root) a (Suc j) pa perm va" if va: "va < MAXVA" for va
      proof -
        have "pte_of (mem s2) root va = map_range (\<lambda>va. if PGROUNDDOWN va = a then ?v else pte_of (mem s) root va)
            (a + 4096) j (pa + 4096) perm va"
          using IH(4) va pte [OF va] by (simp add: map_range_def)
        then show ?thesis using map_range_step [OF Suc.prems(2) a_up] by simp
      qed
      moreover have "touches s s2 root F F2" using t IH(2) by (rule touches_trans)
      ultimately show ?thesis using go ne IH(1,3) by auto
    qed
  qed
qed

lemma mappages_spec:
  assumes "pt_inv s root F" and "page_aligned a" and "0 < n" and "unat a + 4096 * n \<le> unat MAXVA"
    and "\<forall>va. a \<le> va \<and> unat va < unat a + 4096 * n \<longrightarrow> pte_of (mem s) root va AND PTE_V = 0"
  shows "\<exists>r s' F' j. mappages root a (4096 * of_nat n) pa perm es s = Ret r es s' \<and>
    touches s s' root F F' \<and> (r = 0 \<and> j = n \<or> r = - 1 \<and> j < n \<and> F' = {}) \<and>
    (\<forall>va < MAXVA. pte_of (mem s') root va = map_range (pte_of (mem s) root) a j pa perm va)"
proof -
  have sz: "unat (4096 * of_nat n :: u64) = 4096 * n"
    using assms(4) by (simp add: unat_word_ariths unat_of_nat MAXVA_eq)
  then have nz: "(4096 * of_nat n :: u64) \<noteq> 0" using assms(3) by (metis unat_0 mult_eq_0_iff zero_neq_numeral less_irrefl)
  have al: "(4096 * of_nat n :: u64) mod 4096 = 0"
    by (simp add: word_unat_eq_iff unat_mod_distrib sz)
  have lst: "a + 4096 * of_nat n - 4096 = a + 4096 * of_nat (n - 1)"
    using assms(3) by (cases n) (simp_all add: algebra_simps)
  have "mappages root a (4096 * of_nat n) pa perm es s =
    mappages_loop n root a (a + 4096 * of_nat (n - 1)) pa perm es s"
    using assms(2) by (simp add: mappages_def page_aligned_def sz nz al lst)
  with mappages_loop_spec [OF assms, of pa perm es] show ?thesis by simp
qed

subsection \<open>User memory\<close>

definition pte_user :: "u64 \<Rightarrow> bool" where
  "pte_user e \<longleftrightarrow> e AND PTE_V \<noteq> 0 \<and> e AND PTE_U \<noteq> 0"

definition user_readable :: "memory \<Rightarrow> u64 \<Rightarrow> u64 \<Rightarrow> bool" where
  "user_readable m root va \<longleftrightarrow> va < MAXVA \<and> pte_user (pte_of m root va)"

definition user_writable :: "memory \<Rightarrow> u64 \<Rightarrow> u64 \<Rightarrow> bool" where
  "user_writable m root va \<longleftrightarrow> user_readable m root va \<and> pte_of m root va AND PTE_W \<noteq> 0"

text \<open>The physical address behind a user address, and the byte there.\<close>

definition user_pa :: "memory \<Rightarrow> u64 \<Rightarrow> u64 \<Rightarrow> u64" where
  "user_pa m root va = PTE2PA (pte_of m root va) + (va - PGROUNDDOWN va)"

definition user_byte :: "memory \<Rightarrow> u64 \<Rightarrow> u64 \<Rightarrow> u8" where
  "user_byte m root va = m (user_pa m root va)"

text \<open>
  The pages a process owns are those mapped below the trapframe; the trapframe and
  the trampoline above it are mapped too, but not for the user.  An address space is
  well formed if every page it owns is managed by the allocator, neither free nor a
  table, and mapped only once.
\<close>

definition mapped :: "memory \<Rightarrow> u64 \<Rightarrow> u64 \<Rightarrow> bool" where
  "mapped m root va \<longleftrightarrow> va < TRAPFRAME \<and> pte_of m root va AND PTE_V \<noteq> 0"

definition owned :: "memory \<Rightarrow> u64 \<Rightarrow> u64 set" where
  "owned m root = {PTE2PA (pte_of m root va) | va. mapped m root va}"

definition uvm_inv :: "'z mem_state_scheme \<Rightarrow> u64 \<Rightarrow> u64 set \<Rightarrow> bool" where
  "uvm_inv s root F \<longleftrightarrow> pt_inv s root F \<and>
     (\<forall>p \<in> owned (mem s) root. kernel_page (kend s) p \<and> p \<notin> F \<union> tables (mem s) root) \<and>
     (\<forall>va va'. mapped (mem s) root va \<and> mapped (mem s) root va' \<and>
        PTE2PA (pte_of (mem s) root va) = PTE2PA (pte_of (mem s) root va') \<longrightarrow>
        PGROUNDDOWN va = PGROUNDDOWN va') \<and>
     (\<forall>va. TRAPFRAME \<le> va \<longrightarrow> \<not> user_readable (mem s) root va)"

lemma uvm_inv_pt: "uvm_inv s root F \<Longrightarrow> pt_inv s root F"
  by (simp add: uvm_inv_def)

lemma ownedI: "mapped m root va \<Longrightarrow> PTE2PA (pte_of m root va) \<in> owned m root"
  by (auto simp: owned_def)

lemma user_readable_mapped:
  "uvm_inv s root F \<Longrightarrow> user_readable (mem s) root va \<Longrightarrow> mapped (mem s) root va"
  by (auto simp: uvm_inv_def mapped_def user_readable_def pte_user_def not_less [symmetric])

lemma uvm_inv_owned:
  assumes "uvm_inv s root F" and "p \<in> owned (mem s) root"
  shows "kernel_page (kend s) p" "p \<notin> F" "p \<notin> tables (mem s) root"
  using assms unfolding uvm_inv_def by blast+

lemma uvm_inv_page:
  assumes "uvm_inv s root F" and "user_readable (mem s) root va"
  shows "kernel_page (kend s) (PTE2PA (pte_of (mem s) root va))"
    "PTE2PA (pte_of (mem s) root va) \<notin> F" "PTE2PA (pte_of (mem s) root va) \<notin> tables (mem s) root"
  using uvm_inv_owned [OF assms(1)] ownedI user_readable_mapped [OF assms] by blast+

lemma uvm_inv_inj:
  "uvm_inv s root F \<Longrightarrow> mapped (mem s) root va \<Longrightarrow> mapped (mem s) root va' \<Longrightarrow>
   PTE2PA (pte_of (mem s) root va) = PTE2PA (pte_of (mem s) root va') \<Longrightarrow> PGROUNDDOWN va = PGROUNDDOWN va'"
  unfolding uvm_inv_def by blast

lemma pte_of_page: "PGROUNDDOWN va = PGROUNDDOWN va' \<Longrightarrow> pte_of m root va = pte_of m root va'"
  using PX_PGROUNDDOWN [of va va'] by (simp only: pte_of_def)

lemma PGROUNDDOWN_idem [simp]: "PGROUNDDOWN (PGROUNDDOWN va) = PGROUNDDOWN va"
  by (simp add: PGROUNDDOWN_aligned page_aligned_PGROUNDDOWN)

lemma PGROUNDDOWN_le: "PGROUNDDOWN va \<le> va"
  by (simp add: word_le_nat_alt unat_PGROUNDDOWN)

lemma unat_page_offset: "unat (va - PGROUNDDOWN va) = unat va mod 4096"
  using PGROUNDDOWN_le [of va] by (simp add: unat_sub unat_PGROUNDDOWN)

lemma PGROUNDDOWN_MAXVA: "PGROUNDDOWN va < MAXVA \<longleftrightarrow> va < MAXVA"
proof
  assume "PGROUNDDOWN va < MAXVA"
  then have "unat va - unat va mod 4096 < 2 ^ 38"
    by (simp add: word_less_nat_alt MAXVA_eq unat_PGROUNDDOWN)
  then have "unat va div 4096 * 4096 < 2 ^ 38" by (simp add: minus_mod_eq_div_mult)
  then have "unat va div 4096 < 2 ^ 26" by simp
  then have "unat va < 2 ^ 38" by (simp add: div_less_iff_less_mult)
  then show "va < MAXVA" by (simp add: word_less_nat_alt MAXVA_eq)
qed (metis PGROUNDDOWN_le le_less_trans)

lemma user_readable_page: "user_readable m root (PGROUNDDOWN va) = user_readable m root va"
  using pte_of_page [of "PGROUNDDOWN va" va] by (simp add: user_readable_def PGROUNDDOWN_MAXVA)

lemma walkaddr_run:
  assumes "pt_inv s root F"
  shows "walkaddr root va es s =
    Ret (if user_readable (mem s) root va then PTE2PA (pte_of (mem s) root va) else 0) es s"
proof (cases "va < MAXVA")
  case True
  then show ?thesis
    using pt_invD(3,5) [OF assms] pte_of_slot [of "mem s" root va] pte_of_no_slot [of "mem s" "kend s" root va]
    by (cases "pte_slot (mem s) root va = 0")
      (auto simp: walkaddr_def walk_find pte_load_def user_readable_def pte_user_def)
qed (auto simp: walkaddr_def user_readable_def)

subsection \<open>copyout\<close>

lemma user_pa_in_page:
  "in_page (PTE2PA (pte_of m root va)) (user_pa m root va)"
  unfolding user_pa_def by (rule in_page_offset) (simp add: unat_page_offset)

text \<open>Storing into a user page changes just the bytes stored.\<close>

lemma store_user_chunk:
  assumes inv: "uvm_inv s root F" and rd: "user_readable (mem s) root va"
    and fit: "unat (va - PGROUNDDOWN va) + length bs \<le> 4096"
    and m': "m' = store_bytes (mem s) (user_pa (mem s) root va) bs"
  shows "uvm_inv (s\<lparr>mem := m'\<rparr>) root F" and "pte_of m' root = pte_of (mem s) root"
    and "user_readable (mem s) root va' \<Longrightarrow> user_byte m' root va' =
      (if unat (va' - va) < length bs then bs ! unat (va' - va) else user_byte (mem s) root va')"
    and "kernel_page (kend s) p \<Longrightarrow> p \<noteq> PTE2PA (pte_of (mem s) root va) \<Longrightarrow> in_page p x \<Longrightarrow> m' x = mem s x"
proof -
  note pt = uvm_inv_pt [OF inv]
  let ?p = "PTE2PA (pte_of (mem s) root va)"
  note pg = uvm_inv_page [OF inv rd]
  have in_p: "in_page ?p x" if "in_block (user_pa (mem s) root va) (length bs) x" for x
  proof -
    have h: "unat (x - user_pa (mem s) root va) < length bs" using that by (simp add: in_block_def)
    let ?k = "(va - PGROUNDDOWN va) + (x - user_pa (mem s) root va)"
    have "unat (va - PGROUNDDOWN va) + unat (x - user_pa (mem s) root va) < 4096" using h fit by linarith
    then have "unat ?k < 4096" by (simp add: unat_plus_if')
    then have "in_page ?p (?p + ?k)" by (rule in_page_offset)
    moreover have "?p + ?k = x" by (simp add: user_pa_def)
    ultimately show ?thesis by simp
  qed
  show other: "m' x = mem s x" if "kernel_page (kend s) p" "p \<noteq> ?p" "in_page p x" for p x
    using in_p [of x] apart_pages [OF that(1) pg(1) that(2,3)] by (auto simp: m' store_bytes_def)
  have agree: "m' x = mem s x" if "p \<in> tables (mem s) root" "in_page p x" for p x
    using other that pt_ok_page [OF pt_invD(3) [OF pt] that(1)] pg(3) by blast
  show pte: "pte_of m' root = pte_of (mem s) root" using agree by (rule pte_of_frame)
  have t: "tables m' root = tables (mem s) root" using agree by (rule tables_frame)
  have "free_pages (s\<lparr>mem := m'\<rparr>) F"
  proof (rule free_pages_mem [OF pt_invD(2) [OF pt]])
    fix p x assume "p \<in> F" "in_page p x"
    then show "m' x = mem s x" using other free_pages_aligned [OF pt_invD(2) [OF pt]] pg(2) by blast
  qed
  moreover have "pt_ok m' (kend s) root" using agree pt_invD(3) [OF pt] by (rule pt_ok_frame)
  ultimately have "pt_inv (s\<lparr>mem := m'\<rparr>) root F"
    using pt_invD [OF pt] t quiet_lock_free [OF quiet_mem [of s m']] by (auto simp: pt_inv_def)
  then show "uvm_inv (s\<lparr>mem := m'\<rparr>) root F"
    using inv pte t by (simp add: uvm_inv_def user_readable_def owned_def mapped_def)
  assume rd': "user_readable (mem s) root va'"
  have pa': "user_pa m' root va' = user_pa (mem s) root va'" by (simp add: user_pa_def pte)
  have "in_block (user_pa (mem s) root va) (length bs) (user_pa (mem s) root va') \<longleftrightarrow> unat (va' - va) < length bs"
    and "unat (va' - va) < length bs \<Longrightarrow> user_pa (mem s) root va' - user_pa (mem s) root va = va' - va"
  proof -
    have same: "user_pa (mem s) root va' - user_pa (mem s) root va = va' - va"
      if "PGROUNDDOWN va' = PGROUNDDOWN va"
      using that pte_of_page [OF that, of "mem s" root] by (simp add: user_pa_def)
    have near: "PGROUNDDOWN va' = PGROUNDDOWN va" if "unat (va' - va) < length bs"
    proof -
      let ?b = "PGROUNDDOWN va"
      have k: "unat (va - ?b) + unat (va' - va) < 4096" using that fit by linarith
      have va': "va' = ?b + ((va - ?b) + (va' - va))" by simp
      have u: "unat ((va - ?b) + (va' - va)) = unat (va - ?b) + unat (va' - va)"
        using k by (intro unat_add_small) simp
      have bm: "unat ?b < 2 ^ 38" using rd PGROUNDDOWN_MAXVA [of va] by (simp add: user_readable_def word_less_nat_alt MAXVA_eq)
      have "unat va' = unat ?b + (unat (va - ?b) + unat (va' - va))"
        using unat_add_small [of ?b "(va - ?b) + (va' - va)"] va' u k bm by simp
      with k show ?thesis
        by (intro PGROUNDDOWN_eq_iff [THEN iffD2]) (auto simp: page_aligned_PGROUNDDOWN word_le_nat_alt)
    qed
    show "unat (va' - va) < length bs \<Longrightarrow> user_pa (mem s) root va' - user_pa (mem s) root va = va' - va"
      using same near by blast
    have "PGROUNDDOWN va' = PGROUNDDOWN va" if "in_block (user_pa (mem s) root va) (length bs) (user_pa (mem s) root va')"
    proof (rule uvm_inv_inj [OF inv user_readable_mapped [OF inv rd'] user_readable_mapped [OF inv rd]])
      have "in_page ?p (user_pa (mem s) root va')" using in_p that .
      then show "PTE2PA (pte_of (mem s) root va') = ?p"
        using apart_pages [OF uvm_inv_page(1) [OF inv rd'] pg(1)] user_pa_in_page by blast
    qed
    then show "in_block (user_pa (mem s) root va) (length bs) (user_pa (mem s) root va') \<longleftrightarrow> unat (va' - va) < length bs"
      using same near by (auto simp: in_block_def)
  qed
  then show "user_byte m' root va' =
      (if unat (va' - va) < length bs then bs ! unat (va' - va) else user_byte (mem s) root va')"
    unfolding user_byte_def pa' by (auto simp: m' store_bytes_def)
qed

lemma unat_shift_less:
  assumes "unat (n :: u64) + j < 2 ^ 64"
  shows "unat (w - n) < j \<longleftrightarrow> unat n \<le> unat w \<and> unat w < unat n + j"
  using assms unsigned_less [of w] by (auto simp: unat_sub_if')

lemma page_chunk:
  assumes "va < MAXVA" and "unat (va - PGROUNDDOWN va) + i < 4096"
  shows "PGROUNDDOWN (va + of_nat i) = PGROUNDDOWN va"
    and "unat (va + of_nat i) = unat va + i"
proof -
  have i: "unat (of_nat i :: u64) = i" using assms(2) by (simp add: unat_of_nat)
  have "unat va < 2 ^ 38" using assms(1) by (simp add: word_less_nat_alt MAXVA_eq)
  then show u: "unat (va + of_nat i) = unat va + i"
    using unat_add_small [of va "of_nat i"] i assms(2) by simp
  have "unat va mod 4096 + i < 4096" using assms(2) by (simp add: unat_page_offset)
  then have "PGROUNDDOWN va \<le> va + of_nat i" "unat (va + of_nat i) < unat (PGROUNDDOWN va) + 4096"
    using u by (auto simp: word_le_nat_alt unat_PGROUNDDOWN)
  then show "PGROUNDDOWN (va + of_nat i) = PGROUNDDOWN va"
    using PGROUNDDOWN_eq_iff page_aligned_PGROUNDDOWN by blast
qed

lemma user_access_page:
  assumes "va < MAXVA" and "unat (va - PGROUNDDOWN va) + i < 4096"
  shows "user_readable m root (va + of_nat i) = user_readable m root va"
    and "user_writable m root (va + of_nat i) = user_writable m root va"
    and "user_pa m root (va + of_nat i) = user_pa m root va + of_nat i"
proof -
  note pg = page_chunk(1) [OF assms]
  have e: "pte_of m root (va + of_nat i) = pte_of m root va" using pg by (rule pte_of_page)
  show r: "user_readable m root (va + of_nat i) = user_readable m root va"
    using pg user_readable_page [of m root va] user_readable_page [of m root "va + of_nat i"] by simp
  then show "user_writable m root (va + of_nat i) = user_writable m root va"
    by (simp add: user_writable_def e)
  show "user_pa m root (va + of_nat i) = user_pa m root va + of_nat i"
    by (simp add: user_pa_def e pg algebra_simps)
qed

text \<open>
  The size of the next chunk, and where the one after it starts: the arithmetic
  of both copy loops.
\<close>

definition chunk :: "u64 \<Rightarrow> u64 \<Rightarrow> u64" where
  "chunk va len = min (PGSIZE - (va - PGROUNDDOWN va)) len"

lemma unat_min: "unat (min a b) = min (unat a) (unat b)"
  by (simp add: min_def word_le_nat_alt)

lemma unat_chunk: "unat (chunk va len) = min (4096 - unat (va - PGROUNDDOWN va)) (unat len)"
proof -
  have "unat (va - PGROUNDDOWN va) < 4096" by (simp add: unat_page_offset)
  then have "unat (PGSIZE - (va - PGROUNDDOWN va)) = 4096 - unat (va - PGROUNDDOWN va)"
    by (simp add: unat_sub word_le_nat_alt)
  then show ?thesis by (simp add: chunk_def unat_min)
qed

lemma chunk_facts:
  assumes "len \<noteq> 0"
  shows "0 < unat (chunk va len)" "unat (chunk va len) \<le> unat len"
    "unat (va - PGROUNDDOWN va) + unat (chunk va len) \<le> 4096"
    "unat (len - chunk va len) = unat len - unat (chunk va len)"
    "len - chunk va len \<noteq> 0 \<Longrightarrow> PGROUNDDOWN va + 4096 = va + chunk va len"
proof -
  have o: "unat (va - PGROUNDDOWN va) < 4096" by (simp add: unat_page_offset)
  have l: "0 < unat len" using assms by (simp add: unat_gt_0)
  show "0 < unat (chunk va len)" "unat (chunk va len) \<le> unat len"
    "unat (va - PGROUNDDOWN va) + unat (chunk va len) \<le> 4096"
    using o l by (auto simp: unat_chunk)
  have le: "chunk va len \<le> len" by (simp add: word_le_nat_alt unat_chunk)
  then show "unat (len - chunk va len) = unat len - unat (chunk va len)" by (rule unat_sub)
  assume "len - chunk va len \<noteq> 0"
  then have "chunk va len \<noteq> len" by auto
  then have "chunk va len = PGSIZE - (va - PGROUNDDOWN va)" by (auto simp: chunk_def min_def)
  then show "PGROUNDDOWN va + 4096 = va + chunk va len" by (simp add: algebra_simps)
qed

lemma chunk_writable:
  assumes "va < MAXVA" and "len \<noteq> 0"
  shows "(\<forall>i < unat len. P (va + of_nat i)) \<longleftrightarrow>
    (\<forall>i < unat (chunk va len). P (va + of_nat i)) \<and>
    (\<forall>i < unat (len - chunk va len). P (PGROUNDDOWN va + 4096 + of_nat i))"
proof -
  note c = chunk_facts [OF assms(2), of va]
  have next': "P (PGROUNDDOWN va + 4096 + of_nat i) = P (va + of_nat (unat (chunk va len) + i))"
    if "i < unat (len - chunk va len)" for i
  proof -
    have "len - chunk va len \<noteq> 0" using that by auto
    then show ?thesis using c(5) by (simp add: add.assoc)
  qed
  have split: "(\<forall>i < a + b. Q i) \<longleftrightarrow> (\<forall>i < a. Q i) \<and> (\<forall>i < b. Q (a + i))" for a b :: nat and Q
    by (metis add_less_cancel_left le_add_diff_inverse not_le trans_less_add1)
  have "unat len = unat (chunk va len) + unat (len - chunk va len)" using c(2,4) by simp
  then show ?thesis using split [of "unat (chunk va len)" "unat (len - chunk va len)"] next' by simp
qed

text \<open>
  The outcome of a copy of \<open>len\<close> bytes to \<open>dstva\<close>: a prefix of \<open>j\<close> bytes was
  written, the whole of it just if every byte was writable, and nothing else
  that the user can see changed.
\<close>

definition copied_out :: "'z mem_state_scheme \<Rightarrow> 'z mem_state_scheme \<Rightarrow> u64 \<Rightarrow> u64 set \<Rightarrow> u64 \<Rightarrow> bytes \<Rightarrow> int \<Rightarrow> nat \<Rightarrow> bool" where
  "copied_out s s' root F dstva src r j \<longleftrightarrow>
     quiet s s' \<and> uvm_inv s' root F \<and> pte_of (mem s') root = pte_of (mem s) root \<and>
     j \<le> length src \<and> (r = 0 \<and> j = length src \<or> r = - 1) \<and>
     (r = 0 \<longleftrightarrow> (\<forall>i < length src. user_writable (mem s) root (dstva + of_nat i))) \<and>
     (\<forall>va. user_readable (mem s) root va \<longrightarrow> user_byte (mem s') root va =
        (if unat (va - dstva) < j then src ! unat (va - dstva) else user_byte (mem s) root va)) \<and>
     (\<forall>p x. kernel_page (kend s) p \<longrightarrow> in_page p x \<longrightarrow>
        (\<forall>va. user_readable (mem s) root va \<longrightarrow> PTE2PA (pte_of (mem s) root va) \<noteq> p) \<longrightarrow> mem s' x = mem s x)"

lemma copied_out_none:
  assumes "uvm_inv s root F" and "src = [] \<and> r = 0 \<or> \<not> user_writable (mem s) root dstva \<and> src \<noteq> [] \<and> r = - 1"
  shows "copied_out s s root F dstva src r 0"
  using assms(2)
proof
  assume "src = [] \<and> r = 0"
  then show ?thesis using assms(1) by (simp add: copied_out_def)
next
  assume h: "\<not> user_writable (mem s) root dstva \<and> src \<noteq> [] \<and> r = - 1"
  then have "\<exists>i < length src. \<not> user_writable (mem s) root (dstva + of_nat i)"
    by (intro exI [of _ 0]) simp
  then show ?thesis using assms(1) h by (auto simp: copied_out_def)
qed

lemma copied_out_chunk:
  assumes inv: "uvm_inv s root F" and wr: "user_writable (mem s) root dstva"
    and len: "length src = unat len" "len \<noteq> 0" and c: "c = chunk dstva len"
    and s1: "s1 = s\<lparr>mem := store_bytes (mem s) (user_pa (mem s) root dstva) (take (unat c) src)\<rparr>"
    and rest: "copied_out s1 s' root F (PGROUNDDOWN dstva + 4096) (drop (unat c) src) r j"
  shows "copied_out s s' root F dstva src r (unat c + j)"
proof -
  note cf = chunk_facts [OF len(2), of dstva, folded c]
  have rd: "user_readable (mem s) root dstva" and va: "dstva < MAXVA"
    using wr by (auto simp: user_writable_def user_readable_def)
  have lb: "length (take (unat c) src) = unat c" using cf(2) len(1) by simp
  have fit: "unat (dstva - PGROUNDDOWN dstva) + length (take (unat c) src) \<le> 4096" using cf(3) lb by simp
  have m1: "mem s1 = store_bytes (mem s) (user_pa (mem s) root dstva) (take (unat c) src)" by (simp add: s1)
  note st = store_user_chunk [OF inv rd fit m1]
  have k1: "kend s1 = kend s" and q1: "quiet s s1" by (simp_all add: s1)
  have acc: "user_readable (mem s1) root va = user_readable (mem s) root va"
    "user_writable (mem s1) root va = user_writable (mem s) root va" for va
    using st(2) by (simp_all add: user_readable_def user_writable_def)
  have dl: "length (drop (unat c) src) = unat (len - c)" using len(1) cf(2,4) by simp
  have all: "(\<forall>i < length src. user_writable (mem s) root (dstva + of_nat i)) \<longleftrightarrow>
    (\<forall>i < length (drop (unat c) src). user_writable (mem s1) root (PGROUNDDOWN dstva + 4096 + of_nat i))"
  proof -
    have "\<forall>i < unat c. user_writable (mem s) root (dstva + of_nat i)"
      using user_access_page(2) [OF va] cf(3) wr by auto
    with chunk_writable [OF va len(2), of "user_writable (mem s) root"] dl len(1) c acc(2)
    show ?thesis by simp
  qed
  have byte: "user_byte (mem s') root va =
      (if unat (va - dstva) < unat c + j then src ! unat (va - dstva) else user_byte (mem s) root va)"
    if r: "user_readable (mem s) root va" for va
  proof -
    have b1: "user_byte (mem s1) root va =
        (if unat (va - dstva) < unat c then src ! unat (va - dstva) else user_byte (mem s) root va)"
      using st(3) [OF r] lb cf(2) len(1) by simp
    have b2: "user_byte (mem s') root va =
        (if unat (va - (PGROUNDDOWN dstva + 4096)) < j
         then drop (unat c) src ! unat (va - (PGROUNDDOWN dstva + 4096)) else user_byte (mem s1) root va)"
      using rest r acc by (simp add: copied_out_def)
    have j: "j \<le> unat (len - c)" using rest dl by (simp add: copied_out_def)
    show ?thesis
    proof (cases "len - c = 0")
      case True
      then show ?thesis using b1 b2 j by simp
    next
      case False
      then have e: "va - (PGROUNDDOWN dstva + 4096) = (va - dstva) - c" using cf(5) by simp
      have "unat c + j < 2 ^ 64" using j cf(2,4) unat_u64_less [of len] by linarith
      then have iff: "unat ((va - dstva) - c) < j \<longleftrightarrow> unat c \<le> unat (va - dstva) \<and> unat (va - dstva) < unat c + j"
        by (rule unat_shift_less)
      have "unat ((va - dstva) - c) = unat (va - dstva) - unat c" if "unat c \<le> unat (va - dstva)"
        using that by (simp add: unat_sub word_le_nat_alt)
      then show ?thesis using b1 b2 iff cf(2) len(1) unfolding e by auto
    qed
  qed
  have other: "mem s' x = mem s x" if p: "kernel_page (kend s) p" "in_page p x"
    "\<forall>va. user_readable (mem s) root va \<longrightarrow> PTE2PA (pte_of (mem s) root va) \<noteq> p" for p x
  proof -
    have "mem s' x = mem s1 x" using rest p k1 acc(1) st(2) unfolding copied_out_def by auto
    moreover have "mem s1 x = mem s x" using st(4) [OF p(1) _ p(2)] p(3) rd by auto
    ultimately show ?thesis by simp
  qed
  show ?thesis
    unfolding copied_out_def
  proof (intro conjI)
    show "quiet s s'" using q1 rest by (auto simp: copied_out_def dest: quiet_trans)
    show "pte_of (mem s') root = pte_of (mem s) root" using rest st(2) by (simp add: copied_out_def)
    show "unat c + j \<le> length src" "r = 0 \<and> unat c + j = length src \<or> r = - 1"
      using rest dl len(1) cf(2,4) by (auto simp: copied_out_def)
    show "(r = 0) = (\<forall>i < length src. user_writable (mem s) root (dstva + of_nat i))"
      using rest all by (simp add: copied_out_def)
  qed (use rest byte other in \<open>auto simp: copied_out_def\<close>)
qed

lemma copyout_loop_spec:
  assumes "uvm_inv s root F" and "length src = unat len" and "unat len \<le> k"
  shows "\<exists>r s' j. copyout_loop k root dstva src len es s = Ret r es s' \<and> copied_out s s' root F dstva src r j"
  using assms
proof (induction k arbitrary: s dstva src len)
  case 0
  then have "len = 0" by (simp add: unat_eq_0)
  with 0 show ?case using copied_out_none [of s root F src 0] by auto
next
  case (Suc k)
  note inv = Suc.prems(1)
  note pt = pt_invD [OF uvm_inv_pt [OF inv]]
  show ?case
  proof (cases "len = 0")
    case True
    then show ?thesis using copied_out_none [OF inv, of src 0] Suc.prems(2) by auto
  next
    case len: False
    then have src: "src \<noteq> []" using Suc.prems(2) by (auto simp: unat_eq_0)
    let ?va0 = "PGROUNDDOWN dstva"
    have pe: "pte_of (mem s) root ?va0 = pte_of (mem s) root dstva" by (rule pte_of_page) simp
    show ?thesis
    proof (cases "user_writable (mem s) root dstva")
      case False
      then have "copyout_loop (Suc k) root dstva src len es s = Ret (- 1) es s"
        using len pe pte_of_slot [of "mem s" root ?va0] pte_of_no_slot [OF pt(3,5), of ?va0]
        by (cases "MAXVA \<le> ?va0")
          (auto simp: Let_def walk_find pte_load_def user_writable_def user_readable_def pte_user_def
            PGROUNDDOWN_MAXVA word_gt_0 not_le)
      then show ?thesis using copied_out_none [OF inv, of src "- 1"] False src by auto
    next
      case True
      then have va: "?va0 < MAXVA" by (simp add: user_writable_def user_readable_def PGROUNDDOWN_MAXVA)
      define c where "c = chunk dstva len"
      define s1 where "s1 = s\<lparr>mem := store_bytes (mem s) (user_pa (mem s) root dstva) (take (unat c) src)\<rparr>"
      note cf = chunk_facts [OF len, of dstva, folded c_def]
      have slot: "pte_slot (mem s) root ?va0 \<noteq> 0"
        using pte_of_no_slot [OF pt(3,5), of ?va0] pe True by (auto simp: user_writable_def user_readable_def pte_user_def)
      have step: "copyout_loop (Suc k) root dstva src len es s =
        copyout_loop k root (?va0 + 4096) (drop (unat c) src) (len - c) es s1"
        using len va slot pte_of_slot [OF slot] pe True
        by (auto simp: Let_def walk_find pte_load_def mem_put_def s1_def user_pa_def c_def chunk_def
            user_writable_def user_readable_def pte_user_def word_gt_0 not_le)
      have rd: "user_readable (mem s) root dstva" using True by (simp add: user_writable_def)
      have lb: "length (take (unat c) src) = unat c" using cf(2) Suc.prems(2) by simp
      have inv1: "uvm_inv s1 root F"
        unfolding s1_def using store_user_chunk(1) [OF inv rd _ refl] cf(3) lb by simp
      have "length (drop (unat c) src) = unat (len - c)" "unat (len - c) \<le> k"
        using Suc.prems(2,3) cf(1,2,4) by simp_all
      from Suc.IH [OF inv1 this, of "?va0 + 4096"] obtain r s' j where
        IH: "copyout_loop k root (?va0 + 4096) (drop (unat c) src) (len - c) es s1 = Ret r es s'"
          "copied_out s1 s' root F (?va0 + 4096) (drop (unat c) src) r j" by blast
      have "copied_out s s' root F dstva src r (unat c + j)"
        using inv True Suc.prems(2) len c_def s1_def IH(2) by (rule copied_out_chunk)
      then show ?thesis using step IH(1) by auto
    qed
  qed
qed

subsection \<open>copyin and copyinstr\<close>

definition user_bytes :: "memory \<Rightarrow> u64 \<Rightarrow> u64 \<Rightarrow> nat \<Rightarrow> bytes" where
  "user_bytes m root va n = map (\<lambda>i. user_byte m root (va + of_nat i)) [0..<n]"

lemma length_user_bytes [simp]: "length (user_bytes m root va n) = n"
  by (simp add: user_bytes_def)

lemma user_bytes_append:
  "user_bytes m root va (a + b) = user_bytes m root va a @ user_bytes m root (va + of_nat a) b"
  by (rule nth_equalityI) (auto simp: user_bytes_def nth_append algebra_simps)

lemma load_user_chunk:
  assumes "va < MAXVA" and "unat (va - PGROUNDDOWN va) + n \<le> 4096"
  shows "load_bytes m (user_pa m root va) n = user_bytes m root va n"
  using user_access_page(3) [OF assms(1)] assms(2)
  by (auto simp: load_bytes_def user_bytes_def user_byte_def)

lemma walkaddr_user:
  assumes "uvm_inv s root F"
  shows "walkaddr root (PGROUNDDOWN va) es s =
      Ret (if user_readable (mem s) root va then PTE2PA (pte_of (mem s) root va) else 0) es s"
    and "user_readable (mem s) root va \<Longrightarrow> PTE2PA (pte_of (mem s) root va) \<noteq> 0"
proof -
  have "pte_of (mem s) root (PGROUNDDOWN va) = pte_of (mem s) root va" by (rule pte_of_page) simp
  then show "walkaddr root (PGROUNDDOWN va) es s =
      Ret (if user_readable (mem s) root va then PTE2PA (pte_of (mem s) root va) else 0) es s"
    using walkaddr_run [OF uvm_inv_pt [OF assms], of "PGROUNDDOWN va" es]
    by (simp add: user_readable_page)
  show "user_readable (mem s) root va \<Longrightarrow> PTE2PA (pte_of (mem s) root va) \<noteq> 0"
    using uvm_inv_page(1) [OF assms] kernel_page_nonzero pt_invD(5) [OF uvm_inv_pt [OF assms]] by blast
qed

lemma copyin_loop_spec:
  assumes inv: "uvm_inv s root F" and "unat len \<le> k"
  shows "\<exists>r j. copyin_loop k root dst srcva len es s =
      Ret (r, dst @ user_bytes (mem s) root srcva j) es s \<and>
    j \<le> unat len \<and> (r = 0 \<and> j = unat len \<or> r = - 1) \<and>
    (r = 0 \<longleftrightarrow> (\<forall>i < unat len. user_readable (mem s) root (srcva + of_nat i)))"
  using assms(2)
proof (induction k arbitrary: dst srcva len)
  case 0
  then have "len = 0" by (simp add: unat_eq_0)
  then show ?case by (intro exI [of _ 0]) (simp add: user_bytes_def)
next
  case (Suc k)
  show ?case
  proof (cases "len = 0")
    case True
    then show ?thesis by (intro exI [of _ 0]) (simp add: user_bytes_def)
  next
    case len: False
    note wa = walkaddr_user [OF inv, of srcva]
    show ?thesis
    proof (cases "user_readable (mem s) root srcva")
      case False
      moreover have "0 < unat len" using len by (simp add: unat_gt_0)
      ultimately have "\<exists>i < unat len. \<not> user_readable (mem s) root (srcva + of_nat i)"
        by (intro exI [of _ 0]) simp
      moreover have "copyin_loop (Suc k) root dst srcva len es s = Ret (- 1, dst) es s"
        using len wa(1) False by (simp add: Let_def word_gt_0)
      ultimately show ?thesis
        by (intro exI [of _ "-1"] exI [of _ 0]) (simp add: user_bytes_def)
    next
      case True
      then have va: "srcva < MAXVA" by (simp add: user_readable_def)
      define c where "c = chunk srcva len"
      note cf = chunk_facts [OF len, of srcva, folded c_def]
      have step: "copyin_loop (Suc k) root dst srcva len es s =
        copyin_loop k root (dst @ user_bytes (mem s) root srcva (unat c)) (PGROUNDDOWN srcva + 4096) (len - c) es s"
        using len wa(1) wa(2) [OF True] True load_user_chunk [OF va cf(3), of "mem s" root]
        by (simp add: Let_def mem_take_def user_pa_def c_def chunk_def word_gt_0)
      have "unat (len - c) \<le> k" using Suc.prems cf(1,2,4) by simp
      from Suc.IH [OF this, of "dst @ user_bytes (mem s) root srcva (unat c)" "PGROUNDDOWN srcva + 4096"]
      obtain r j where IH: "copyin_loop k root (dst @ user_bytes (mem s) root srcva (unat c))
          (PGROUNDDOWN srcva + 4096) (len - c) es s =
          Ret (r, (dst @ user_bytes (mem s) root srcva (unat c)) @ user_bytes (mem s) root (PGROUNDDOWN srcva + 4096) j) es s"
        "j \<le> unat (len - c)" "r = 0 \<and> j = unat (len - c) \<or> r = - 1"
        "r = 0 \<longleftrightarrow> (\<forall>i < unat (len - c). user_readable (mem s) root (PGROUNDDOWN srcva + 4096 + of_nat i))"
        by blast
      have "user_bytes (mem s) root srcva (unat c) @ user_bytes (mem s) root (PGROUNDDOWN srcva + 4096) j =
          user_bytes (mem s) root srcva (unat c + j)"
      proof (cases "len - c = 0")
        case True
        then show ?thesis using IH(2) by (simp add: user_bytes_def)
      next
        case False
        then show ?thesis using cf(5) by (simp add: user_bytes_append)
      qed
      moreover have "\<forall>i < unat c. user_readable (mem s) root (srcva + of_nat i)"
        using user_access_page(1) [OF va] cf(3) True by auto
      ultimately have "copyin_loop (Suc k) root dst srcva len es s =
          Ret (r, dst @ user_bytes (mem s) root srcva (unat c + j)) es s"
        and "r = 0 \<longleftrightarrow> (\<forall>i < unat len. user_readable (mem s) root (srcva + of_nat i))"
        using step IH(1,4) chunk_writable [OF va len, of "user_readable (mem s) root", folded c_def]
        by (simp_all only: append_assoc) blast
      moreover have "unat c + j \<le> unat len" "r = 0 \<and> unat c + j = unat len \<or> r = - 1"
        using IH(2,3) cf(2,4) by auto
      ultimately show ?thesis by blast
    qed
  qed
qed

text \<open>A NUL-terminated user string of length \<open>n\<close>.\<close>

definition user_string :: "memory \<Rightarrow> u64 \<Rightarrow> u64 \<Rightarrow> nat \<Rightarrow> bool" where
  "user_string m root va n \<longleftrightarrow>
     (\<forall>i \<le> n. user_readable m root (va + of_nat i)) \<and>
     (\<forall>i < n. user_byte m root (va + of_nat i) \<noteq> 0) \<and> user_byte m root (va + of_nat n) = 0"

lemma copyinstr_page_spec:
  assumes "copyinstr_page n m p = (bs, got)"
  shows "if got then \<exists>t < n. (\<forall>i < t. m (p + of_nat i) \<noteq> 0) \<and> m (p + of_nat t) = 0 \<and>
      bs = map (\<lambda>i. m (p + of_nat i)) [0..<Suc t]
    else (\<forall>i < n. m (p + of_nat i) \<noteq> 0) \<and> bs = map (\<lambda>i. m (p + of_nat i)) [0..<n]"
  using assms
proof (induction n arbitrary: p bs)
  case 0
  then show ?case by simp
next
  case (Suc n)
  have up: "map (\<lambda>i. m (p + of_nat i)) [0..<Suc k] = m p # map (\<lambda>i. m (p + 1 + of_nat i)) [0..<k]" for k
    by (simp add: upt_conv_Cons map_Suc_upt [symmetric] comp_def algebra_simps del: upt_Suc map_Suc_upt)
  show ?case
  proof (cases "m p = 0")
    case True
    then show ?thesis using Suc.prems by auto
  next
    case False
    then obtain bs' where bs': "copyinstr_page n m (p + 1) = (bs', got)" "bs = m p # bs'"
      using Suc.prems by (auto split: prod.splits)
    from Suc.IH [OF bs'(1)] show ?thesis
    proof (cases got)
      case True
      then obtain t where t: "t < n" "\<forall>i < t. m (p + 1 + of_nat i) \<noteq> 0" "m (p + 1 + of_nat t) = 0"
          "bs' = map (\<lambda>i. m (p + 1 + of_nat i)) [0..<Suc t]"
        using Suc.IH [OF bs'(1)] by auto
      have "\<forall>i < Suc t. m (p + of_nat i) \<noteq> 0"
        using t(2) False by (simp add: All_less_Suc2 algebra_simps)
      moreover have "bs = map (\<lambda>i. m (p + of_nat i)) [0..<Suc (Suc t)]"
        unfolding up bs'(2) t(4) ..
      ultimately have "Suc t < Suc n \<and> (\<forall>i < Suc t. m (p + of_nat i) \<noteq> 0) \<and> m (p + of_nat (Suc t)) = 0 \<and>
          bs = map (\<lambda>i. m (p + of_nat i)) [0..<Suc (Suc t)]"
        using t(1,3) by (simp add: algebra_simps)
      with True show ?thesis by (simp only: if_True) blast
    next
      case got: False
      then have "\<forall>i < Suc n. m (p + of_nat i) \<noteq> 0"
        using Suc.IH [OF bs'(1)] False by (simp add: All_less_Suc2 algebra_simps)
      moreover have "bs = map (\<lambda>i. m (p + of_nat i)) [0..<Suc n]"
        using Suc.IH [OF bs'(1)] got unfolding up bs'(2) by simp
      ultimately show ?thesis using got by simp
    qed
  qed
qed

lemma user_string_shift:
  assumes "\<forall>i < a. user_readable m root (va + of_nat i) \<and> user_byte m root (va + of_nat i) \<noteq> 0"
  shows "user_string m root va (a + n) = user_string m root (va + of_nat a) n"
proof -
  have split: "(\<forall>i < a + b. Q i) \<longleftrightarrow> (\<forall>i < b. Q (a + i))" if "\<forall>i < a. Q i" for b :: nat and Q
    using that by (metis add_less_cancel_left le_add_diff_inverse not_le)
  have "(\<forall>i \<le> a + n. user_readable m root (va + of_nat i)) \<longleftrightarrow>
      (\<forall>i \<le> n. user_readable m root (va + of_nat a + of_nat i))"
    using split [of "\<lambda>i. user_readable m root (va + of_nat i)" "Suc n"] assms
    by (simp add: less_Suc_eq_le add.assoc)
  moreover have "(\<forall>i < a + n. user_byte m root (va + of_nat i) \<noteq> 0) \<longleftrightarrow>
      (\<forall>i < n. user_byte m root (va + of_nat a + of_nat i) \<noteq> 0)"
    using split [of "\<lambda>i. user_byte m root (va + of_nat i) \<noteq> 0" n] assms by (simp add: add.assoc)
  ultimately show ?thesis by (simp add: user_string_def add.assoc)
qed

lemma copyinstr_loop_spec:
  assumes inv: "uvm_inv s root F" and "unat mx \<le> k"
  shows "\<exists>r bs. copyinstr_loop k root dst srcva mx es s = Ret (r, dst @ bs) es s \<and>
    (r = 0 \<and> (\<exists>n < unat mx. user_string (mem s) root srcva n \<and> bs = user_bytes (mem s) root srcva (Suc n)) \<or>
     r = - 1 \<and> (\<forall>n < unat mx. \<not> user_string (mem s) root srcva n))"
  using assms(2)
proof (induction k arbitrary: dst srcva mx)
  case 0
  then have "mx = 0" by (simp add: unat_eq_0)
  then show ?case by simp
next
  case (Suc k)
  note wa = walkaddr_user [OF inv, of srcva]
  consider "mx = 0" | "mx \<noteq> 0" "\<not> user_readable (mem s) root srcva" | "mx \<noteq> 0" "user_readable (mem s) root srcva"
    by blast
  then show ?case
  proof cases
    case 1
    then show ?thesis by simp
  next
    case 2
    have "\<not> user_string (mem s) root srcva n" for n
      using 2(2) by (auto simp: user_string_def intro!: exI [of _ 0])
    moreover have "copyinstr_loop (Suc k) root dst srcva mx es s = Ret (- 1, dst) es s"
      using 2 wa(1) by (simp add: Let_def word_gt_0)
    ultimately show ?thesis by simp
  next
    case 3
    then have va: "srcva < MAXVA" by (simp add: user_readable_def)
    define c where "c = chunk srcva mx"
    note cf = chunk_facts [OF 3(1), of srcva, folded c_def]
    obtain bs got where pg: "copyinstr_page (unat c) (mem s) (user_pa (mem s) root srcva) = (bs, got)"
      by (cases "copyinstr_page (unat c) (mem s) (user_pa (mem s) root srcva)")
    have step: "copyinstr_loop (Suc k) root dst srcva mx es s = (if got then Ret (0, dst @ bs) es s
        else copyinstr_loop k root (dst @ bs) (PGROUNDDOWN srcva + 4096) (mx - c) es s)"
      using 3 wa(1) wa(2) [OF 3(2)] pg by (simp add: Let_def user_pa_def c_def chunk_def word_gt_0)
    have byte: "mem s (user_pa (mem s) root srcva + of_nat i) = user_byte (mem s) root (srcva + of_nat i)"
      if "i < unat c" for i
      using user_access_page(3) [OF va] cf(3) that by (simp add: user_byte_def)
    have rd: "user_readable (mem s) root (srcva + of_nat i)" if "i < unat c" for i
      using user_access_page(1) [OF va] cf(3) that 3(2) by simp
    show ?thesis
    proof (cases got)
      case True
      then obtain t where t: "t < unat c" "\<forall>i < t. user_byte (mem s) root (srcva + of_nat i) \<noteq> 0"
          "user_byte (mem s) root (srcva + of_nat t) = 0" "bs = user_bytes (mem s) root srcva (Suc t)"
        using copyinstr_page_spec [OF pg] byte by (auto simp: user_bytes_def)
      then have "user_string (mem s) root srcva t" using rd by (auto simp: user_string_def)
      moreover have "t < unat mx" using t(1) cf(2) by simp
      ultimately show ?thesis using step True t(4) by auto
    next
      case False
      then have nz: "\<forall>i < unat c. user_byte (mem s) root (srcva + of_nat i) \<noteq> 0"
        and bs: "bs = user_bytes (mem s) root srcva (unat c)"
        using copyinstr_page_spec [OF pg] byte by (auto simp: user_bytes_def)
      have long: "\<not> user_string (mem s) root srcva n" if "n < unat c" for n
        using nz that by (simp add: user_string_def)
      have shift: "user_string (mem s) root srcva (unat c + n) = user_string (mem s) root (PGROUNDDOWN srcva + 4096) n"
        if "n < unat (mx - c)" for n
      proof -
        have "mx - c \<noteq> 0" using that by auto
        then show ?thesis using user_string_shift [of "unat c" "mem s" root srcva n] nz rd cf(5) by simp
      qed
      have "unat (mx - c) \<le> k" using Suc.prems cf(1,2,4) by simp
      from Suc.IH [OF this, of "dst @ bs" "PGROUNDDOWN srcva + 4096"] obtain r bs' where
        IH: "copyinstr_loop k root (dst @ bs) (PGROUNDDOWN srcva + 4096) (mx - c) es s = Ret (r, (dst @ bs) @ bs') es s"
          "r = 0 \<and> (\<exists>n < unat (mx - c). user_string (mem s) root (PGROUNDDOWN srcva + 4096) n \<and>
              bs' = user_bytes (mem s) root (PGROUNDDOWN srcva + 4096) (Suc n)) \<or>
           r = - 1 \<and> (\<forall>n < unat (mx - c). \<not> user_string (mem s) root (PGROUNDDOWN srcva + 4096) n)"
        by blast
      from IH(2) show ?thesis
      proof (elim disjE conjE exE)
        fix n assume n: "r = 0" "n < unat (mx - c)" "user_string (mem s) root (PGROUNDDOWN srcva + 4096) n"
          "bs' = user_bytes (mem s) root (PGROUNDDOWN srcva + 4096) (Suc n)"
        have "mx - c \<noteq> 0" using n(2) by auto
        then have "bs @ bs' = user_bytes (mem s) root srcva (Suc (unat c + n))"
          using user_bytes_append [of "mem s" root srcva "unat c" "Suc n"] cf(5) bs n(4) by simp
        moreover have "unat c + n < unat mx" using n(2) cf(2,4) by simp
        ultimately show ?thesis using step False IH(1) n shift by (auto simp: append_assoc)
      next
        assume no: "r = - 1" "\<forall>n < unat (mx - c). \<not> user_string (mem s) root (PGROUNDDOWN srcva + 4096) n"
        have "\<not> user_string (mem s) root srcva n" if n: "n < unat mx" for n
        proof (cases "n < unat c")
          case False
          then have "n - unat c < unat (mx - c)" "n = unat c + (n - unat c)" using n cf(2,4) by auto
          then show ?thesis using no(2) shift by metis
        qed (rule long)
        then show ?thesis using step False IH(1) no(1) by simp
      qed
    qed
  qed
qed

end
