(* ===== verification/Uvm.thy ===== *)
theory Uvm
  imports Addrspace
begin

text \<open>
  Growing, shrinking and copying whole address spaces: \<open>uvmunmap\<close>, \<open>uvmalloc\<close>,
  \<open>uvmdealloc\<close> and \<open>uvmcopy\<close> keep the address space well formed and account for
  every page they take from or give to the allocator.
\<close>

subsection \<open>Framing an address space\<close>

text \<open>Every page that an address space uses.\<close>

definition space :: "memory \<Rightarrow> u64 \<Rightarrow> u64 set" where
  "space m root = tables m root \<union> owned m root"

lemma space_frame:
  assumes "\<And>p x. p \<in> space m root \<Longrightarrow> in_page p x \<Longrightarrow> m' x = m x"
  shows "pte_of m' root = pte_of m root" and "tables m' root = tables m root"
    and "owned m' root = owned m root" and "mapped m' root = mapped m root"
    and "user_readable m' root = user_readable m root"
    and "mapped m root va \<Longrightarrow> user_byte m' root va = user_byte m root va"
proof -
  have t: "m' x = m x" if "p \<in> tables m root" "in_page p x" for p x
    using assms [of p x] that by (simp add: space_def)
  show e: "pte_of m' root = pte_of m root" using t by (rule pte_of_frame)
  show "tables m' root = tables m root" using t by (rule tables_frame)
  show mp: "mapped m' root = mapped m root" by (simp add: mapped_def fun_eq_iff e)
  show "owned m' root = owned m root" by (simp add: owned_def e mp)
  show "user_readable m' root = user_readable m root" by (simp add: user_readable_def fun_eq_iff e)
  assume "mapped m root va"
  then have "PTE2PA (pte_of m root va) \<in> space m root" by (simp add: space_def ownedI)
  from assms [OF this user_pa_in_page] show "user_byte m' root va = user_byte m root va"
    by (simp add: user_byte_def user_pa_def e)
qed

lemma uvm_inv_frame:
  assumes inv: "uvm_inv s root F"
    and agree: "\<And>p x. p \<in> space (mem s) root \<Longrightarrow> in_page p x \<Longrightarrow> mem s' x = mem s x"
    and q: "quiet s s'" and free: "free_pages s' F'" and apart: "F' \<inter> space (mem s) root = {}"
  shows "uvm_inv s' root F'"
proof -
  have sf: "pte_of (mem s') root = pte_of (mem s) root" "tables (mem s') root = tables (mem s) root"
    "owned (mem s') root = owned (mem s) root" "mapped (mem s') root = mapped (mem s) root"
    "user_readable (mem s') root = user_readable (mem s) root"
    by (rule space_frame, erule agree, assumption)+
  have k: "kend s' = kend s" using q by (rule quiet_kend)
  have "pt_ok (mem s') (kend s') root"
    using pt_ok_frame [OF _ pt_invD(3) [OF uvm_inv_pt [OF inv]], of "mem s'"] agree k by (auto simp: space_def)
  moreover have "lock_free KmemLock s'"
    using quiet_lock_free [OF q] pt_invD(1) [OF uvm_inv_pt [OF inv]] by blast
  ultimately have "pt_inv s' root F'"
    using free apart sf(2) by (auto simp: pt_inv_def space_def)
  then show ?thesis
    using inv apart unfolding uvm_inv_def sf k by (auto simp: space_def)
qed

lemma space_kernel_page:
  "uvm_inv s root F \<Longrightarrow> p \<in> space (mem s) root \<Longrightarrow> kernel_page (kend s) p"
  using uvm_inv_owned(1) [of s root F] pt_ok_page [OF pt_invD(3) [OF uvm_inv_pt [of s root F]]]
  by (auto simp: space_def)

lemma space_not_free: "uvm_inv s root F \<Longrightarrow> space (mem s) root \<inter> F = {}"
  using uvm_inv_owned(2) [of s root F] pt_invD(4) [OF uvm_inv_pt [of s root F]]
  by (auto simp: space_def)

text \<open>A second address space is not affected by what happens in free pages and in the first.\<close>

definition elsewhere :: "'z mem_state_scheme \<Rightarrow> 'z mem_state_scheme \<Rightarrow> u64 set \<Rightarrow> bool" where
  "elsewhere s s' P \<longleftrightarrow>
     (\<forall>p x. kernel_page (kend s) p \<longrightarrow> in_page p x \<longrightarrow> p \<notin> P \<longrightarrow> mem s' x = mem s x)"

lemma elsewhere_refl [simp]: "elsewhere s s P"
  by (simp add: elsewhere_def)

lemma elsewhere_trans:
  "elsewhere s s1 P \<Longrightarrow> elsewhere s1 s2 P' \<Longrightarrow> kend s1 = kend s \<Longrightarrow> P' \<subseteq> P \<Longrightarrow> elsewhere s s2 P"
  unfolding elsewhere_def by (metis subsetD)

lemma touches_elsewhere: "touches s s' root F F' \<Longrightarrow> elsewhere s s' (F \<union> tables (mem s) root)"
  by (simp add: touches_def elsewhere_def)

subsection \<open>Unmapping and freeing\<close>

lemma unmap_page:
  assumes inv: "uvm_inv s root F" and mp: "mapped (mem s) root va"
  defines "p \<equiv> PTE2PA (pte_of (mem s) root va)"
  defines "s' \<equiv> (freed p s)\<lparr>mem := st64 (mem (freed p s)) (pte_slot (mem s) root va) 0\<rparr>"
  shows "pte_slot (mem s) root va \<noteq> 0"
    and "kfree p es s = Ret () es (freed p s)"
    and "uvm_inv s' root (insert p F)" and "quiet s s'"
    and "va' < MAXVA \<Longrightarrow> pte_of (mem s') root va' =
      (if PGROUNDDOWN va' = PGROUNDDOWN va then 0 else pte_of (mem s) root va')"
    and "tables (mem s') root = tables (mem s) root"
    and "elsewhere s s' (insert p (tables (mem s) root))"
    and "mapped (mem s') root va' \<Longrightarrow> user_byte (mem s') root va' = user_byte (mem s) root va'"
    and "insert p (owned (mem s') root) = owned (mem s) root"
proof -
  note pt = pt_invD [OF uvm_inv_pt [OF inv]]
  have own: "p \<in> owned (mem s) root" using ownedI [OF mp] by (simp add: p_def)
  note po = uvm_inv_owned [OF inv own]
  have al: "page_aligned p" using po(1) by (simp add: kernel_page_def)
  have va: "va < MAXVA" using mp by (simp add: mapped_def TRAPFRAME_def TRAMPOLINE_def MAXVA_eq word_less_nat_alt)
  show slot: "pte_slot (mem s) root va \<noteq> 0"
    using pte_of_no_slot [OF pt(3,5), of va] mp by (auto simp: mapped_def)
  show "kfree p es s = Ret () es (freed p s)" using pt(1) po(1) by (rule kfree_run)
  let ?t = "freed p s"
  have out: "mem ?t x = mem s x" if "kernel_page (kend s) r" "in_page r x" "r \<noteq> p" for r x
    using mem_freed_other [OF al, of x s] apart_pages [OF that(1) po(1) that(3,2)] by simp
  have tagree: "mem ?t x = mem s x" if "r \<in> tables (mem s) root" "in_page r x" for r x
    using out pt_ok_page [OF pt(3) that(1)] that po(3) by blast
  have node1: "node (mem ?t) root [PX 2 va, PX 1 va] = node (mem s) root [PX 2 va, PX 1 va]"
    using tagree table_path_va(2) by (rule node_frame)
  have slot1: "pte_slot (mem ?t) root va = pte_slot (mem s) root va" by (simp only: pte_slot_def node1)
  have pte1: "pte_of (mem ?t) root = pte_of (mem s) root" using tagree by (rule pte_of_frame)
  have tab1: "tables (mem ?t) root = tables (mem s) root" using tagree by (rule tables_frame)
  obtain ps where ps: "kmem_inv s ps" "set ps = F" using pt(2) by (auto simp: free_pages_def)
  have "kmem_inv ?t (p # ps)" using ps po by (intro kmem_inv_freed) auto
  then have free1: "free_pages ?t (insert p F)" using ps(2) by (auto simp: free_pages_def intro!: exI [of _ "p # ps"])
  have pt_ok1: "pt_ok (mem ?t) (kend s) root" using tagree pt(3) by (rule pt_ok_frame)
  have inv1: "pt_inv ?t root (insert p F)"
    using pt free1 tab1 po(3) pt_ok1 lock_free_freed [OF pt(1)] by (auto simp: pt_inv_def)
  have slot1': "pte_slot (mem ?t) root va \<noteq> 0" using slot slot1 by simp
  note st = pt_inv_store [OF inv1 slot1' va, where v = 0, unfolded slot1, folded s'_def]
  show "quiet s s'" using quiet_trans [OF quiet_freed quiet_mem] by (simp add: s'_def)
  show pte: "pte_of (mem s') root va' =
      (if PGROUNDDOWN va' = PGROUNDDOWN va then 0 else pte_of (mem s) root va')" if "va' < MAXVA" for va'
    using st(2) [OF that] pte1 by (simp add: s'_def)
  show tab: "tables (mem s') root = tables (mem s) root" using st(3) tab1 by (simp add: s'_def)
  have t: "touches ?t s' root (insert p F) (insert p F)" using st(1) by simp
  have below: "v < MAXVA" if "v < TRAPFRAME" for v
    using that by (simp add: TRAPFRAME_def TRAMPOLINE_def MAXVA_eq word_less_nat_alt)
  have mp': "mapped (mem s') root v \<longleftrightarrow> mapped (mem s) root v \<and> PGROUNDDOWN v \<noteq> PGROUNDDOWN va" for v
  proof (cases "v < TRAPFRAME")
    case True
    then show ?thesis using pte [OF below [OF True]] by (simp add: mapped_def)
  qed (simp add: mapped_def)
  have pte': "pte_of (mem s') root v = pte_of (mem s) root v" if "mapped (mem s') root v" for v
  proof -
    have "v < TRAPFRAME" "PGROUNDDOWN v \<noteq> PGROUNDDOWN va" using that mp' [of v] by (simp_all add: mapped_def)
    then show ?thesis using pte [OF below] by simp
  qed
  have ne: "PTE2PA (pte_of (mem s) root v) \<noteq> p" if "mapped (mem s') root v" for v
    using uvm_inv_inj [OF inv _ mp, of v] mp' that by (auto simp: p_def)
  have own': "owned (mem s') root = owned (mem s) root - {p}"
  proof
    show "owned (mem s') root \<subseteq> owned (mem s) root - {p}"
    proof
      fix r assume "r \<in> owned (mem s') root"
      then obtain v where v: "mapped (mem s') root v" "r = PTE2PA (pte_of (mem s') root v)"
        by (auto simp: owned_def)
      then have "r = PTE2PA (pte_of (mem s) root v)" "mapped (mem s) root v" using pte' mp' by auto
      then show "r \<in> owned (mem s) root - {p}" using ownedI ne [OF v(1)] by auto
    qed
    show "owned (mem s) root - {p} \<subseteq> owned (mem s') root"
    proof
      fix r assume "r \<in> owned (mem s) root - {p}"
      then obtain v where v: "mapped (mem s) root v" "r = PTE2PA (pte_of (mem s) root v)" "r \<noteq> p"
        by (auto simp: owned_def)
      have "PGROUNDDOWN v \<noteq> PGROUNDDOWN va"
        using v(2,3) pte_of_page [of v va "mem s" root] by (auto simp: p_def)
      then have "mapped (mem s') root v" using v(1) mp' by blast
      then show "r \<in> owned (mem s') root" using ownedI pte' v(2) by metis
    qed
  qed
  then show "insert p (owned (mem s') root) = owned (mem s) root" using own by auto
  have rd': "user_readable (mem s') root v \<Longrightarrow> user_readable (mem s) root v" for v
    using pte [of v] by (cases "PGROUNDDOWN v = PGROUNDDOWN va") (auto simp: user_readable_def pte_user_def)
  have "pt_inv s' root (insert p F)" using t by (simp add: touches_def)
  moreover have k: "kend s' = kend s" by (simp add: s'_def)
  moreover have "\<forall>r \<in> owned (mem s') root. kernel_page (kend s) r \<and> r \<notin> insert p F \<union> tables (mem s) root"
    unfolding own' using uvm_inv_owned [OF inv] by blast
  moreover have "PGROUNDDOWN v = PGROUNDDOWN v'"
    if "mapped (mem s') root v" "mapped (mem s') root v'"
      "PTE2PA (pte_of (mem s') root v) = PTE2PA (pte_of (mem s') root v')" for v v'
    using uvm_inv_inj [OF inv, of v v'] that pte' [OF that(1)] pte' [OF that(2)] mp' [of v] mp' [of v'] by simp
  moreover have "\<not> user_readable (mem s') root v" if "TRAPFRAME \<le> v" for v
    using rd' [of v] inv that unfolding uvm_inv_def by blast
  ultimately show "uvm_inv s' root (insert p F)" unfolding uvm_inv_def tab k by blast
  show "elsewhere s s' (insert p (tables (mem s) root))"
    unfolding elsewhere_def
  proof (intro allI impI)
    fix r x assume r: "kernel_page (kend s) r" "in_page r x" "r \<notin> insert p (tables (mem s) root)"
    obtain q where q: "q \<in> tables (mem s) root" "in_page q (pte_slot (mem s) root va + k)" if "k < 8" for k
    proof -
      obtain q where n: "node (mem s) root [PX 2 va, PX 1 va] = Some q" "pte_slot (mem s) root va = q + 8 * PX 0 va"
        using slot by (auto simp: pte_slot_def split: option.splits)
      then have "q \<in> tables (mem s) root" using tablesI table_path_va(2) by blast
      then show thesis using that [of q] entry_in_page [OF PX_less] n(2) by simp
    qed
    have "\<not> x - pte_slot (mem s) root va < 8"
    proof
      assume h: "x - pte_slot (mem s) root va < 8"
      then have "in_page q x" using q(2) [OF h] by simp
      moreover have "q \<in> tables (mem s) root" using q(1) [OF h] .
      ultimately show False
        using apart_pages [OF r(1) pt_ok_page [OF pt(3)] _ r(2)] r(3) by auto
    qed
    then show "mem s' x = mem s x" using out [OF r(1,2)] r(3) by (simp add: s'_def st64_def)
  qed
  then show "user_byte (mem s') root va' = user_byte (mem s) root va'" if m: "mapped (mem s') root va'"
  proof -
    let ?r = "PTE2PA (pte_of (mem s) root va')"
    have "?r \<in> owned (mem s) root" using m mp' ownedI by blast
    note ro = uvm_inv_owned [OF inv this]
    have "user_pa (mem s') root va' = user_pa (mem s) root va'" using pte' [OF m] by (simp add: user_pa_def)
    moreover have "mem s' (user_pa (mem s) root va') = mem s (user_pa (mem s) root va')"
      using \<open>elsewhere s s' (insert p (tables (mem s) root))\<close> ro ne [OF m] user_pa_in_page
      unfolding elsewhere_def by blast
    ultimately show ?thesis by (simp add: user_byte_def)
  qed
qed

definition in_range :: "u64 \<Rightarrow> nat \<Rightarrow> u64 \<Rightarrow> bool" where
  "in_range a n va \<longleftrightarrow> a \<le> va \<and> unat va < unat a + 4096 * n"

lemma in_range_0 [simp]: "\<not> in_range a 0 va"
  by (auto simp: in_range_def word_le_nat_alt)

lemma in_range_Suc:
  assumes "page_aligned a" and "unat a + 4096 < 2 ^ 64"
  shows "in_range a (Suc n) va \<longleftrightarrow> PGROUNDDOWN va = a \<or> in_range (a + 4096) n va"
proof -
  have "unat (a + 4096) = unat a + 4096" using assms(2) by (simp add: unat_plus_if')
  then show ?thesis
    using PGROUNDDOWN_eq_iff [OF assms(1), of va] by (auto simp: in_range_def word_le_nat_alt)
qed

lemma unat_pages: "4096 * n < 2 ^ 64 \<Longrightarrow> unat (4096 * of_nat n :: u64) = 4096 * n"
  by (simp add: unat_word_ariths unat_of_nat)

lemma below_TRAPFRAME: "va < TRAPFRAME \<Longrightarrow> va < MAXVA"
  by (simp add: TRAPFRAME_def TRAMPOLINE_def MAXVA_eq word_less_nat_alt)

lemma unat_TRAPFRAME: "unat TRAPFRAME = 2 ^ 38 - 8192"
  by (simp add: TRAPFRAME_def TRAMPOLINE_def MAXVA_eq)

definition pte_leaf :: "u64 \<Rightarrow> bool" where
  "pte_leaf e \<longleftrightarrow> e AND PTE_V \<noteq> 0 \<and> PTE_FLAGS e \<noteq> PTE_V"

text \<open>
  The state \<open>s'\<close> after the \<open>n\<close> pages from \<open>a\<close> on have been unmapped and freed: the
  pages left and the free pages together are what they were.
\<close>

definition unmapped :: "'z mem_state_scheme \<Rightarrow> 'z mem_state_scheme \<Rightarrow> u64 \<Rightarrow> u64 set \<Rightarrow> u64 set \<Rightarrow> u64 \<Rightarrow> nat \<Rightarrow> bool" where
  "unmapped s s' root F F' a n \<longleftrightarrow>
     quiet s s' \<and> uvm_inv s' root F' \<and> F \<subseteq> F' \<and>
     F' \<union> owned (mem s') root = F \<union> owned (mem s) root \<and>
     tables (mem s') root = tables (mem s) root \<and>
     elsewhere s s' (space (mem s) root) \<and>
     (\<forall>va < MAXVA. pte_of (mem s') root va = (if in_range a n va then 0 else pte_of (mem s) root va)) \<and>
     (\<forall>va. mapped (mem s') root va \<longrightarrow> user_byte (mem s') root va = user_byte (mem s) root va)"

lemma unmapped_step:
  assumes inv: "uvm_inv s root F" and al: "page_aligned a" and mp: "mapped (mem s) root a"
    and up: "unat a + 4096 < 2 ^ 64"
    and s1: "s1 = (freed p s)\<lparr>mem := st64 (mem (freed p s)) (pte_slot (mem s) root a) 0\<rparr>"
    and p: "p = PTE2PA (pte_of (mem s) root a)"
    and rest: "unmapped s1 s' root (insert p F) F' (a + 4096) n"
  shows "unmapped s s' root F F' a (Suc n)"
proof -
  note up1 = unmap_page [OF inv mp, folded p, folded s1]
  have rd: "PGROUNDDOWN a = a" using al by (rule PGROUNDDOWN_aligned)
  have k: "kend s1 = kend s" using up1(4) by (rule quiet_kend)
  have pown: "p \<in> owned (mem s) root" using up1(9) by blast
  have sub: "owned (mem s1) root \<subseteq> owned (mem s) root" using up1(9) by blast
  have "pte_of (mem s') root va = (if in_range a (Suc n) va then 0 else pte_of (mem s) root va)"
    if "va < MAXVA" for va
    using rest that up1(5) [OF that] in_range_Suc [OF al up, of n va] rd by (auto simp: unmapped_def)
  moreover have "user_byte (mem s') root va = user_byte (mem s) root va" if m: "mapped (mem s') root va" for va
  proof -
    have v: "va < MAXVA" using m below_TRAPFRAME by (simp add: mapped_def)
    have "pte_of (mem s') root va = pte_of (mem s1) root va"
      using rest v m by (auto simp: unmapped_def mapped_def split: if_splits)
    then have "mapped (mem s1) root va" using m by (simp add: mapped_def)
    then show ?thesis using rest m up1(8) by (simp add: unmapped_def)
  qed
  moreover have "elsewhere s s' (space (mem s) root)"
  proof (rule elsewhere_trans [OF _ _ k])
    show "elsewhere s s1 (space (mem s) root)"
      using up1(7) pown by (auto simp: elsewhere_def space_def)
    show "elsewhere s1 s' (space (mem s1) root)" using rest by (simp add: unmapped_def)
    show "space (mem s1) root \<subseteq> space (mem s) root" using up1(6) sub by (auto simp: space_def)
  qed
  moreover have "F' \<union> owned (mem s') root = F \<union> owned (mem s) root"
    using rest up1(9) by (auto simp: unmapped_def)
  ultimately show ?thesis
    using rest up1(4,6) quiet_trans [OF up1(4)] by (auto simp: unmapped_def)
qed

lemma uvmunmap_loop_spec:
  assumes "uvm_inv s root F" and "page_aligned a" and "unat a + 4096 * n \<le> unat TRAPFRAME"
    and "\<forall>va. in_range a n va \<longrightarrow> pte_leaf (pte_of (mem s) root va)" and "n < k"
  shows "\<exists>s' F'. uvmunmap_loop k root a (a + 4096 * of_nat n) True es s = Ret () es s' \<and>
    unmapped s s' root F F' a n"
  using assms
proof (induction n arbitrary: a s F k)
  case 0
  then obtain k' where "k = Suc k'" by (cases k) auto
  then show ?case using 0 by (auto simp: unmapped_def)
next
  case (Suc n)
  obtain k' where k: "k = Suc k'" "n < k'" using Suc.prems(5) by (cases k) auto
  note inv = Suc.prems(1) and al = Suc.prems(2)
  have at: "a < TRAPFRAME" and up: "unat a + 4096 < 2 ^ 64"
    using Suc.prems(3) by (simp_all add: word_less_nat_alt unat_TRAPFRAME)
  have self: "in_range a (Suc n) a" by (simp add: in_range_def)
  have lf: "pte_leaf (pte_of (mem s) root a)" using Suc.prems(4) self by blast
  then have mp: "mapped (mem s) root a" using at by (simp add: mapped_def pte_leaf_def)
  define p where "p = PTE2PA (pte_of (mem s) root a)"
  define s1 where "s1 = (freed p s)\<lparr>mem := st64 (mem (freed p s)) (pte_slot (mem s) root a) 0\<rparr>"
  note up1 = unmap_page [OF inv mp, folded p_def, folded s1_def]
  have bound: "unat (4096 * of_nat (Suc n) :: u64) = 4096 * Suc n"
    using Suc.prems(3) by (intro unat_pages) (simp add: unat_TRAPFRAME)
  have lt: "a < a + 4096 * of_nat (Suc n)"
    using unat_add_small [of a "4096 * of_nat (Suc n)"] bound Suc.prems(3)
    by (simp add: word_less_nat_alt unat_TRAPFRAME del: of_nat_Suc)
  have nx: "unat (a + 4096) = unat a + 4096" using up by (simp add: unat_plus_if')
  have eqb: "a + 4096 * of_nat (Suc n) = a + 4096 + 4096 * of_nat n" by (simp add: algebra_simps)
  have go: "uvmunmap_loop k root a (a + 4096 * of_nat (Suc n)) True es s =
      uvmunmap_loop k' root (a + 4096) (a + 4096 + 4096 * of_nat n) True es s1"
    using up1(2) [of es] lt lf at below_TRAPFRAME up1(1) pte_of_slot [OF up1(1)]
    unfolding k(1) eqb [symmetric]
    by (simp add: walk_find pte_load_def pte_store_def pte_leaf_def p_def s1_def)
  have "page_aligned (a + 4096)" using al by (simp add: page_aligned_unat nx)
  moreover have "unat (a + 4096) + 4096 * n \<le> unat TRAPFRAME" using Suc.prems(3) by (simp add: nx)
  moreover have "\<forall>va. in_range (a + 4096) n va \<longrightarrow> pte_leaf (pte_of (mem s1) root va)"
  proof (intro allI impI)
    fix va assume r: "in_range (a + 4096) n va"
    then have "va < TRAPFRAME" using Suc.prems(3) nx by (simp add: in_range_def word_less_nat_alt)
    moreover have "PGROUNDDOWN va \<noteq> PGROUNDDOWN a"
      using r PGROUNDDOWN_eq_iff [OF al, of va] PGROUNDDOWN_aligned [OF al]
      by (simp add: in_range_def word_le_nat_alt nx)
    moreover have "in_range a (Suc n) va" using r in_range_Suc [OF al up] by simp
    ultimately show "pte_leaf (pte_of (mem s1) root va)"
      using up1(5) below_TRAPFRAME Suc.prems(4) by simp
  qed
  ultimately obtain s' F' where
    IH: "uvmunmap_loop k' root (a + 4096) (a + 4096 + 4096 * of_nat n) True es s1 = Ret () es s'"
      "unmapped s1 s' root (insert p F) F' (a + 4096) n"
    using Suc.IH [OF up1(3), of "a + 4096" k'] k(2) by blast
  have "unmapped s s' root F F' a (Suc n)"
    using inv al mp up s1_def p_def IH(2) by (rule unmapped_step)
  then show ?case using go IH(1) by auto
qed

lemma scast_ucast_small:
  assumes "m < 2 ^ 31"
  shows "(scast (ucast (of_nat m :: u64) :: u32) :: u64) = of_nat m"
proof -
  have "(ucast (of_nat m :: u64) :: u32) = of_nat m"
    by (rule bit_word_eqI) (simp add: bit_simps)
  moreover have "(scast (of_nat m :: u32) :: u64) = of_nat m"
    using assms by transfer (simp add: signed_take_bit_int_eq_self)
  ultimately show ?thesis by simp
qed

lemma page_aligned_add:
  assumes "page_aligned a" and "unat a + 4096 * m < 2 ^ 64"
  shows "page_aligned (a + 4096 * of_nat m)" and "unat (a + 4096 * of_nat m) = unat a + 4096 * m"
proof -
  have "unat (4096 * of_nat m :: u64) = 4096 * m" using assms(2) by (intro unat_pages) simp
  then show u: "unat (a + 4096 * of_nat m) = unat a + 4096 * m"
    using unat_add_small [of a "4096 * of_nat m"] assms(2) by simp
  show "page_aligned (a + 4096 * of_nat m)" using assms(1) by (simp add: page_aligned_unat u)
qed

lemma PGROUNDUP_aligned:
  assumes "page_aligned a" and "a \<le> MAXVA"
  shows "PGROUNDUP a = a"
proof -
  obtain k where k: "unat a = 4096 * k"
    using assms(1) by (auto simp: page_aligned_unat dvd_eq_mod_eq_0 [symmetric] elim: dvdE)
  have "unat a + 4095 < 2 ^ 64" using assms(2) by (simp add: word_le_nat_alt MAXVA_eq)
  then have "unat (PGROUNDUP a) = (unat a + 4095) div 4096 * 4096" by (rule unat_PGROUNDUP)
  then have "unat (PGROUNDUP a) = unat a" by (simp add: k)
  then show ?thesis by (simp add: word_unat_eq_iff)
qed

lemma uvmunmap_spec:
  assumes "uvm_inv s root F" and "page_aligned a" and "unat a + 4096 * n \<le> unat TRAPFRAME"
    and "\<forall>va. in_range a n va \<longrightarrow> pte_leaf (pte_of (mem s) root va)"
  shows "\<exists>s' F'. uvmunmap root a (of_nat n) True es s = Ret () es s' \<and> unmapped s s' root F F' a n"
proof -
  have n: "unat (4096 * of_nat n :: u64) = 4096 * n"
    using assms(3) by (intro unat_pages) (simp add: unat_TRAPFRAME)
  have "uvmunmap root a (of_nat n) True es s =
      uvmunmap_loop (Suc n) root a (a + 4096 * of_nat n) True es s"
    using assms(2) n by (simp add: uvmunmap_def page_aligned_def mult.commute [of _ 4096] del: uvmunmap_loop.simps)
  then show ?thesis using uvmunmap_loop_spec [OF assms, of "Suc n" es] by simp
qed

text \<open>Giving back the \<open>m\<close> pages from \<open>a\<close> on.\<close>

lemma uvmdealloc_spec:
  assumes "uvm_inv s root F" and "page_aligned a" and "unat a + 4096 * m \<le> unat TRAPFRAME"
    and "\<forall>va. in_range a m va \<longrightarrow> pte_leaf (pte_of (mem s) root va)"
  shows "\<exists>r s' F'. uvmdealloc root (a + 4096 * of_nat m) a es s = Ret r es s' \<and> unmapped s s' root F F' a m"
proof (cases "m = 0")
  case True
  then show ?thesis using assms(1) by (auto simp: uvmdealloc_def unmapped_def)
next
  case False
  let ?b = "a + 4096 * of_nat m :: u64"
  have small: "unat a + 4096 * m < 2 ^ 64" using assms(3) by (simp add: unat_TRAPFRAME)
  note b = page_aligned_add [OF assms(2) small]
  have lt: "a < ?b" using b(2) False by (simp add: word_less_nat_alt)
  have ru: "PGROUNDUP a = a" "PGROUNDUP ?b = ?b"
    using assms(2,3) b by (auto intro!: PGROUNDUP_aligned simp: word_le_nat_alt MAXVA_eq unat_TRAPFRAME)
  have "(?b - a) div 4096 = of_nat m"
    using unat_pages [of m] small
    by (simp add: word_unat_eq_iff unat_div_distrib unat_of_nat)
  then have np: "(scast (ucast ((?b - a) div 4096) :: u32) :: u64) = of_nat m"
    using scast_ucast_small [of m] assms(3) by (simp add: unat_TRAPFRAME)
  have "uvmdealloc root ?b a es s = kbind (uvmunmap root a (of_nat m) True) (\<lambda>_. kret a) es s"
    using lt lt [folded not_le] ru np by (simp add: uvmdealloc_def)
  then show ?thesis using uvmunmap_spec [OF assms, of es] by auto
qed

subsection \<open>Taking and mapping a page\<close>

lemma free_pages_alloced:
  assumes "free_pages s F" and "freelist s \<noteq> 0"
  shows "freelist s \<in> F" and "free_pages (alloced s) (F - {freelist s})"
proof -
  obtain ps where ps: "kmem_inv s ps" "set ps = F" using assms(1) by (auto simp: free_pages_def)
  then obtain qs where c: "ps = freelist s # qs" using assms(2) by (cases ps) (auto simp: kmem_inv_def)
  then show "freelist s \<in> F" using ps by auto
  have "kmem_inv (alloced s) qs" using ps(1) c kmem_inv_alloced by blast
  then show "free_pages (alloced s) (F - {freelist s})"
    using ps c by (auto simp: free_pages_def kmem_inv_def)
qed

lemma free_pages_exhausted:
  assumes "free_pages s F" and "freelist s = 0"
  shows "F = {}" and "free_pages (alloced s) {}" and "mem (alloced s) = mem s"
proof -
  obtain ps where ps: "kmem_inv s ps" "set ps = F" using assms(1) by (auto simp: free_pages_def)
  then have "ps = []" using assms(2) by (cases ps) (auto simp: kmem_inv_def)
  then show "F = {}" "free_pages (alloced s) {}"
    using ps kmem_inv_alloced_empty by (auto simp: free_pages_def)
  show "mem (alloced s) = mem s" using assms(2) by (simp add: alloced_def intr_saved_def)
qed

text \<open>A page taken from the allocator, with any contents, belongs to nobody yet.\<close>

lemma take_page:
  assumes inv: "uvm_inv s root F" and f: "freelist s \<noteq> 0"
    and m2: "\<And>x. \<not> in_page (freelist s) x \<Longrightarrow> m2 x = mem s x"
  defines "s2 \<equiv> (alloced s)\<lparr>mem := m2\<rparr>"
  shows "uvm_inv s2 root (F - {freelist s})" and "freelist s \<in> F"
    and "kernel_page (kend s) (freelist s)" and "freelist s \<notin> space (mem s) root"
    and "quiet s s2" and "elsewhere s s2 {freelist s}"
    and "pte_of m2 root = pte_of (mem s) root" and "space m2 root = space (mem s) root"
    and "tables m2 root = tables (mem s) root" and "owned m2 root = owned (mem s) root"
    and "mapped m2 root = mapped (mem s) root"
    and "mapped (mem s) root va \<Longrightarrow> user_byte m2 root va = user_byte (mem s) root va"
proof -
  note fp = pt_invD(2) [OF uvm_inv_pt [OF inv]]
  note al = free_pages_alloced [OF fp f]
  show F: "freelist s \<in> F" by (rule al(1))
  show kp: "kernel_page (kend s) (freelist s)" using fp F by (rule free_pages_aligned)
  show nsp: "freelist s \<notin> space (mem s) root" using space_not_free [OF inv] F by blast
  show q: "quiet s s2" unfolding s2_def using quiet_trans [OF quiet_alloced quiet_mem] .
  have out: "m2 x = mem s x" if "kernel_page (kend s) p" "in_page p x" "p \<noteq> freelist s" for p x
    using m2 apart_pages [OF that(1) kp that(3,2)] by blast
  then show "elsewhere s s2 {freelist s}" by (auto simp: elsewhere_def s2_def)
  have agree: "m2 x = mem s x" if "p \<in> space (mem s) root" "in_page p x" for p x
    using out space_kernel_page [OF inv that(1)] that nsp by blast
  show sf: "pte_of m2 root = pte_of (mem s) root" "tables m2 root = tables (mem s) root"
    "owned m2 root = owned (mem s) root" "mapped m2 root = mapped (mem s) root"
    by (rule space_frame, erule agree, assumption)+
  show "space m2 root = space (mem s) root" by (simp add: space_def sf)
  show "mapped (mem s) root va \<Longrightarrow> user_byte m2 root va = user_byte (mem s) root va"
    by (rule space_frame(6), erule agree, assumption)
  have "free_pages s2 (F - {freelist s})"
    unfolding s2_def
  proof (rule free_pages_mem [OF al(2)])
    fix p x assume p: "p \<in> F - {freelist s}" "in_page p x"
    then have k: "kernel_page (kend s) p" using free_pages_aligned [OF fp] by blast
    have "\<not> in_page (freelist s) x" using apart_pages [OF k kp _ p(2)] p(1) by blast
    then show "m2 x = mem (alloced s) x" using m2 mem_alloced_other [of s x] by simp
  qed
  then show "uvm_inv s2 root (F - {freelist s})"
    using uvm_inv_frame [OF inv _ q] agree space_not_free [OF inv] by (simp add: s2_def) blast
qed

lemma flags_or:
  assumes "f < (0x400 :: u64)" and "g < 0x400"
  shows "f OR g < 0x400"
proof -
  have tb: "x < 0x400 \<longleftrightarrow> take_bit 10 x = x" for x :: u64
    by (simp add: take_bit_eq_mod word_less_nat_alt word_unat_eq_iff unat_mod_distrib)
      (metis mod_less mod_less_divisor zero_less_numeral)
  show ?thesis using assms unfolding tb by (simp add: take_bit_or)
qed

lemma PTE2PA_new:
  "page_aligned pg \<Longrightarrow> perm < 0x400 \<Longrightarrow> PTE2PA (PA2PTE pg OR perm OR PTE_V) = pg"
  using PTE2PA_PA2PTE [of pg "perm OR PTE_V"] flags_or [OF _ PTE_V_less] by (simp add: or.assoc)

definition page_mapped :: "'z mem_state_scheme \<Rightarrow> 'z mem_state_scheme \<Rightarrow> u64 \<Rightarrow> u64 \<Rightarrow> u64 \<Rightarrow> bool" where
  "page_mapped s s' root a e \<longleftrightarrow>
     (\<forall>va < MAXVA. pte_of (mem s') root va = (if PGROUNDDOWN va = a then e else pte_of (mem s) root va))"

lemma uvm_inv_page_mapped:
  assumes inv: "uvm_inv s root F" and t: "touches s s' root F F'"
    and pg: "kernel_page (kend s) pg" "pg \<notin> F" "pg \<notin> space (mem s) root"
    and a: "page_aligned a" "a < TRAPFRAME" "\<not> mapped (mem s) root a" and perm: "perm < 0x400"
    and pm: "page_mapped s s' root a (PA2PTE pg OR perm OR PTE_V)"
  shows "uvm_inv s' root F'" and "owned (mem s') root = insert pg (owned (mem s) root)"
    and "mapped (mem s) root va \<Longrightarrow> user_byte (mem s') root va = user_byte (mem s) root va"
proof -
  let ?e = "PA2PTE pg OR perm OR PTE_V"
  have pa: "PTE2PA ?e = pg" using pg(1) perm by (intro PTE2PA_new) (simp add: kernel_page_def)
  have V: "?e AND PTE_V \<noteq> 0" by (simp add: or.assoc [symmetric])
  have k: "kend s' = kend s" using t quiet_kend by (auto simp: touches_def)
  have tab: "tables (mem s') root = tables (mem s) root \<union> (F - F')" "F' \<subseteq> F" "pt_inv s' root F'"
    using t by (simp_all add: touches_def)
  have pte: "pte_of (mem s') root va = (if PGROUNDDOWN va = a then ?e else pte_of (mem s) root va)"
    if "va < MAXVA" for va using pm that by (simp add: page_mapped_def)
  have frame_page: "va < TRAPFRAME" if "PGROUNDDOWN va = a" for va
  proof -
    have "unat va < unat a + 4096" using PGROUNDDOWN_eq_iff [OF a(1)] that by blast
    moreover have "unat a + 4096 \<le> 2 ^ 38 - 8192"
      using a(1,2) by (intro multiples_apart)
        (auto simp: page_aligned_unat dvd_eq_mod_eq_0 word_less_nat_alt unat_TRAPFRAME)
    ultimately show ?thesis by (simp add: word_less_nat_alt unat_TRAPFRAME)
  qed
  have mp: "mapped (mem s') root va \<longleftrightarrow> PGROUNDDOWN va = a \<or> mapped (mem s) root va" for va
    using pte [of va] below_TRAPFRAME [of va] frame_page [of va] V
    by (cases "PGROUNDDOWN va = a") (auto simp: mapped_def)
  have not_a: "PGROUNDDOWN va \<noteq> a" if "mapped (mem s) root va" for va
  proof
    assume "PGROUNDDOWN va = a"
    then have "pte_of (mem s) root va = pte_of (mem s) root a"
      using PGROUNDDOWN_aligned [OF a(1)] by (intro pte_of_page) simp
    then show False using that a(2,3) by (simp add: mapped_def)
  qed
  have pte_old: "pte_of (mem s') root va = pte_of (mem s) root va" if "mapped (mem s) root va" for va
    using pte not_a [OF that] that below_TRAPFRAME by (auto simp: mapped_def)
  have pte_new: "PTE2PA (pte_of (mem s') root va) = pg" if "PGROUNDDOWN va = a" for va
    using pte below_TRAPFRAME [OF frame_page [OF that]] that pa by simp
  show own: "owned (mem s') root = insert pg (owned (mem s) root)"
  proof
    show "owned (mem s') root \<subseteq> insert pg (owned (mem s) root)"
    proof
      fix p assume "p \<in> owned (mem s') root"
      then obtain va where "mapped (mem s') root va" "p = PTE2PA (pte_of (mem s') root va)"
        by (auto simp: owned_def)
      then show "p \<in> insert pg (owned (mem s) root)"
        using mp [of va] pte_new [of va] pte_old [of va] ownedI [of "mem s" root va] by auto
    qed
    have "PGROUNDDOWN a = a" using a(1) by (rule PGROUNDDOWN_aligned)
    then have "pg \<in> owned (mem s') root" using mp [of a] pte_new [of a] ownedI [of "mem s'" root a] by simp
    moreover have "p \<in> owned (mem s') root" if "p \<in> owned (mem s) root" for p
    proof -
      obtain va where "mapped (mem s) root va" "p = PTE2PA (pte_of (mem s) root va)"
        using \<open>p \<in> owned (mem s) root\<close> by (auto simp: owned_def)
      then show ?thesis using mp [of va] pte_old [of va] ownedI [of "mem s'" root va] by simp
    qed
    ultimately show "insert pg (owned (mem s) root) \<subseteq> owned (mem s') root" by auto
  qed
  have pages: "\<forall>p \<in> owned (mem s') root. kernel_page (kend s') p \<and> p \<notin> F' \<union> tables (mem s') root"
    using uvm_inv_owned [OF inv] pg tab unfolding own k by (auto simp: space_def)
  have inj: "PGROUNDDOWN va = PGROUNDDOWN va'"
    if "mapped (mem s') root va" "mapped (mem s') root va'"
      "PTE2PA (pte_of (mem s') root va) = PTE2PA (pte_of (mem s') root va')" for va va'
  proof -
    have old: "PTE2PA (pte_of (mem s) root v) \<noteq> pg" if "mapped (mem s) root v" for v
      using ownedI [OF that] pg(3) by (auto simp: space_def)
    show ?thesis
      using mp [of va] mp [of va'] that pte_new [of va] pte_new [of va'] pte_old [of va] pte_old [of va']
        old [of va] old [of va'] uvm_inv_inj [OF inv, of va va'] by auto
  qed
  have top: "\<not> user_readable (mem s') root va" if "TRAPFRAME \<le> va" for va
  proof
    assume r: "user_readable (mem s') root va"
    have "PGROUNDDOWN va \<noteq> a" using frame_page [of va] that by auto
    then have "user_readable (mem s) root va" using r pte [of va] by (simp add: user_readable_def)
    then show False using inv that unfolding uvm_inv_def by blast
  qed
  show "uvm_inv s' root F'" using tab(3) pages inj top unfolding uvm_inv_def by blast
  assume m: "mapped (mem s) root va"
  note po = uvm_inv_owned [OF inv ownedI [OF m]]
  have "mem s' (user_pa (mem s) root va) = mem s (user_pa (mem s) root va)"
    using t po user_pa_in_page unfolding touches_def by blast
  then show "user_byte (mem s') root va = user_byte (mem s) root va"
    by (simp add: user_byte_def user_pa_def pte_old [OF m])
qed

text \<open>Mapping a page that belongs to nobody: it works, or the allocator is exhausted.\<close>

lemma map_fresh_page:
  assumes inv: "uvm_inv s root F"
    and pg: "kernel_page (kend s) pg" "pg \<notin> F" "pg \<notin> space (mem s) root"
    and a: "page_aligned a" "a < TRAPFRAME" "pte_of (mem s) root a = 0" and perm: "perm < 0x400"
  shows "\<exists>r s' F'. mappages root a 4096 pg perm es s = Ret r es s' \<and> touches s s' root F F' \<and>
    uvm_inv s' root F' \<and> (\<forall>va. mapped (mem s) root va \<longrightarrow> user_byte (mem s') root va = user_byte (mem s) root va) \<and>
    (r = 0 \<and> page_mapped s s' root a (PA2PTE pg OR perm OR PTE_V) \<and>
       owned (mem s') root = insert pg (owned (mem s) root) \<or>
     r = - 1 \<and> F' = {} \<and> page_mapped s s' root a 0 \<and> owned (mem s') root = owned (mem s) root)"
proof -
  have range: "a \<le> va \<and> unat va < unat a + 4096 \<longleftrightarrow> PGROUNDDOWN va = a" for va
    using PGROUNDDOWN_eq_iff [OF a(1)] by blast
  have zero: "pte_of (mem s) root va = 0" if "PGROUNDDOWN va = a" for va
    using pte_of_page [of va a "mem s" root] that a(3) PGROUNDDOWN_aligned [OF a(1)] by simp
  have top: "unat a + 4096 * 1 \<le> unat MAXVA"
    using a(2) by (simp add: word_less_nat_alt unat_TRAPFRAME MAXVA_eq)
  have none: "\<forall>va. a \<le> va \<and> unat va < unat a + 4096 * 1 \<longrightarrow> pte_of (mem s) root va AND PTE_V = 0"
    using zero range by simp
  have one: "(4096 :: u64) * of_nat 1 = 4096" by simp
  obtain r s' F' j where m: "mappages root a 4096 pg perm es s = Ret r es s'"
      "touches s s' root F F'" "r = 0 \<and> j = 1 \<or> r = - 1 \<and> j < 1 \<and> F' = {}"
      "\<forall>va < MAXVA. pte_of (mem s') root va = map_range (pte_of (mem s) root) a j pg perm va"
    using mappages_spec [OF uvm_inv_pt [OF inv] a(1) zero_less_one top none, of pg perm es]
    unfolding one by blast
  show ?thesis
  proof (cases "r = 0")
    case True
    then have "j = 1" using m(3) by auto
    have "pte_of (mem s') root va = (if PGROUNDDOWN va = a then PA2PTE pg OR perm OR PTE_V else pte_of (mem s) root va)"
      if "va < MAXVA" for va
      using m(4) that range [of va] \<open>j = 1\<close> by (cases "PGROUNDDOWN va = a") (auto simp: map_range_def)
    then have pm: "page_mapped s s' root a (PA2PTE pg OR perm OR PTE_V)" by (simp add: page_mapped_def)
    have "\<not> mapped (mem s) root a" using a(3) by (simp add: mapped_def)
    note r = uvm_inv_page_mapped [OF inv m(2) pg a(1,2) this perm pm]
    show ?thesis using m(1,2) True pm r by auto
  next
    case False
    then have j: "j = 0" "r = - 1" "F' = {}" using m(3) by auto
    have pte: "pte_of (mem s') root va = pte_of (mem s) root va" if "va < MAXVA" for va
      using m(4) that j(1) by (auto simp: map_range_def word_le_nat_alt)
    have pm: "page_mapped s s' root a 0" using pte zero by (simp add: page_mapped_def)
    have mp: "mapped (mem s') root = mapped (mem s) root"
      using pte below_TRAPFRAME by (auto simp: mapped_def fun_eq_iff)
    have pte': "pte_of (mem s') root va = pte_of (mem s) root va" if "mapped (mem s) root va" for va
      using pte that below_TRAPFRAME by (simp add: mapped_def)
    have own: "owned (mem s') root = owned (mem s) root"
      using pte' by (auto simp: owned_def mp) metis
    have rd: "user_readable (mem s') root = user_readable (mem s) root"
      using pte by (auto simp: user_readable_def fun_eq_iff)
    have k: "kend s' = kend s" using m(2) quiet_kend by (auto simp: touches_def)
    have tab: "tables (mem s') root = tables (mem s) root \<union> (F - F')" "F' \<subseteq> F" "pt_inv s' root F'"
      using m(2) by (simp_all add: touches_def)
    have "\<forall>p \<in> owned (mem s) root. kernel_page (kend s) p \<and> p \<notin> F' \<union> tables (mem s') root"
      using uvm_inv_owned [OF inv] tab by blast
    moreover have "PGROUNDDOWN va = PGROUNDDOWN va'"
      if "mapped (mem s) root va" "mapped (mem s) root va'"
        "PTE2PA (pte_of (mem s') root va) = PTE2PA (pte_of (mem s') root va')" for va va'
      using uvm_inv_inj [OF inv that(1,2)] that(3) pte' [OF that(1)] pte' [OF that(2)] by simp
    moreover have "\<forall>va. TRAPFRAME \<le> va \<longrightarrow> \<not> user_readable (mem s) root va"
      using inv unfolding uvm_inv_def by blast
    ultimately have "uvm_inv s' root F'" using tab(3) unfolding uvm_inv_def own mp k rd by blast
    moreover have "user_byte (mem s') root va = user_byte (mem s) root va" if "mapped (mem s) root va" for va
    proof -
      note po = uvm_inv_owned [OF inv ownedI [OF that]]
      have "mem s' (user_pa (mem s) root va) = mem s (user_pa (mem s) root va)"
        using m(2) po user_pa_in_page unfolding touches_def by blast
      then show ?thesis by (simp add: user_byte_def user_pa_def pte' [OF that])
    qed
    ultimately show ?thesis using m(1,2) j pm own by auto
  qed
qed

lemma give_back_page:
  assumes inv: "uvm_inv s root F"
    and pg: "kernel_page (kend s) pg" "pg \<notin> F" "pg \<notin> space (mem s) root"
  shows "kfree pg es s = Ret () es (freed pg s)"
    and "uvm_inv (freed pg s) root (insert pg F)"
    and "pte_of (mem (freed pg s)) root = pte_of (mem s) root"
    and "space (mem (freed pg s)) root = space (mem s) root"
    and "mapped (mem s) root va \<Longrightarrow> user_byte (mem (freed pg s)) root va = user_byte (mem s) root va"
    and "elsewhere s (freed pg s) {pg}"
proof -
  note pt = pt_invD [OF uvm_inv_pt [OF inv]]
  show "kfree pg es s = Ret () es (freed pg s)" using pt(1) pg(1) by (rule kfree_run)
  have out: "mem (freed pg s) x = mem s x" if "kernel_page (kend s) p" "in_page p x" "p \<noteq> pg" for p x
    using mem_freed_other [of pg x s] apart_pages [OF that(1) pg(1) that(3,2)] pg(1) by (simp add: kernel_page_def)
  then show "elsewhere s (freed pg s) {pg}" by (auto simp: elsewhere_def)
  have agree: "mem (freed pg s) x = mem s x" if "p \<in> space (mem s) root" "in_page p x" for p x
    using out space_kernel_page [OF inv that(1)] that pg(3) by blast
  show "pte_of (mem (freed pg s)) root = pte_of (mem s) root"
    by (rule space_frame, erule agree, assumption)
  have "tables (mem (freed pg s)) root = tables (mem s) root" "owned (mem (freed pg s)) root = owned (mem s) root"
    by (rule space_frame, erule agree, assumption)+
  then show "space (mem (freed pg s)) root = space (mem s) root" by (simp add: space_def)
  show "mapped (mem s) root va \<Longrightarrow> user_byte (mem (freed pg s)) root va = user_byte (mem s) root va"
    by (rule space_frame(6), erule agree, assumption)
  obtain ps where ps: "kmem_inv s ps" "set ps = F" using pt(2) by (auto simp: free_pages_def)
  have "kmem_inv (freed pg s) (pg # ps)" using ps pg by (intro kmem_inv_freed) auto
  then have "free_pages (freed pg s) (insert pg F)"
    using ps(2) by (auto simp: free_pages_def intro!: exI [of _ "pg # ps"])
  then show "uvm_inv (freed pg s) root (insert pg F)"
    using uvm_inv_frame [OF inv _ quiet_freed, of pg "insert pg F"] agree pg(3) space_not_free [OF inv] by blast
qed

subsection \<open>uvmalloc\<close>

definition grown :: "'z mem_state_scheme \<Rightarrow> 'z mem_state_scheme \<Rightarrow> u64 \<Rightarrow> u64 set \<Rightarrow> u64 set \<Rightarrow> u64 \<Rightarrow> nat \<Rightarrow> u64 \<Rightarrow> bool" where
  "grown s s' root F F' a n perm \<longleftrightarrow>
     quiet s s' \<and> uvm_inv s' root F' \<and> F' \<subseteq> F \<and>
     F' \<union> space (mem s') root = F \<union> space (mem s) root \<and>
     elsewhere s s' (F \<union> space (mem s) root) \<and>
     (\<forall>va < MAXVA. \<not> in_range a n va \<longrightarrow> pte_of (mem s') root va = pte_of (mem s) root va) \<and>
     (\<forall>va. in_range a n va \<longrightarrow> (\<exists>p \<in> F. pte_of (mem s') root va = PA2PTE p OR perm OR PTE_V) \<and>
        user_byte (mem s') root va = 0) \<and>
     (\<forall>va. mapped (mem s) root va \<longrightarrow> user_byte (mem s') root va = user_byte (mem s) root va)"

definition undone :: "'z mem_state_scheme \<Rightarrow> 'z mem_state_scheme \<Rightarrow> u64 \<Rightarrow> u64 set \<Rightarrow> u64 set \<Rightarrow> u64 \<Rightarrow> nat \<Rightarrow> bool" where
  "undone s s' root F F' base m \<longleftrightarrow>
     quiet s s' \<and> uvm_inv s' root F' \<and>
     F' \<union> space (mem s') root = F \<union> space (mem s) root \<and>
     elsewhere s s' (F \<union> space (mem s) root) \<and>
     (\<forall>va < MAXVA. pte_of (mem s') root va = (if in_range base m va then 0 else pte_of (mem s) root va)) \<and>
     (\<forall>va. mapped (mem s') root va \<longrightarrow> user_byte (mem s') root va = user_byte (mem s) root va)"

lemma unmapped_undone: "unmapped s s' root F F' a n \<Longrightarrow> undone s s' root F F' a n"
  unfolding unmapped_def undone_def elsewhere_def space_def by blast

lemma undone_0: "undone s s' root F F' base 0 \<Longrightarrow> va < MAXVA \<Longrightarrow> pte_of (mem s') root va = pte_of (mem s) root va"
  by (simp add: undone_def)

text \<open>Work that leaves the map as it was, followed by an undoing.\<close>

lemma undone_after:
  assumes "quiet s s1" and "elsewhere s s1 (F \<union> space (mem s) root)"
    and "F1 \<union> space (mem s1) root = F \<union> space (mem s) root"
    and "\<forall>va < MAXVA. \<not> in_range base m va \<longrightarrow> pte_of (mem s1) root va = pte_of (mem s) root va"
    and "\<forall>va. mapped (mem s) root va \<longrightarrow> user_byte (mem s1) root va = user_byte (mem s) root va"
    and u: "undone s1 s' root F1 F' base m"
  shows "undone s s' root F F' base m"
proof -
  have k: "kend s1 = kend s" using assms(1) by (rule quiet_kend)
  have e1: "elsewhere s1 s' (F1 \<union> space (mem s1) root)" using u by (simp add: undone_def)
  have "elsewhere s s' (F \<union> space (mem s) root)"
    using elsewhere_trans [OF assms(2) e1 k] assms(3) by simp
  moreover have pte: "pte_of (mem s') root va = (if in_range base m va then 0 else pte_of (mem s) root va)"
    if "va < MAXVA" for va
    using u that assms(4) by (simp add: undone_def)
  moreover have "user_byte (mem s') root va = user_byte (mem s) root va" if m: "mapped (mem s') root va" for va
  proof -
    have v: "va < MAXVA" using m below_TRAPFRAME by (simp add: mapped_def)
    have "\<not> in_range base m va" using pte [OF v] m by (auto simp: mapped_def)
    then have "mapped (mem s) root va" using pte [OF v] m by (simp add: mapped_def)
    then show ?thesis using u m assms(5) by (simp add: undone_def)
  qed
  ultimately show ?thesis
    using u assms(3) quiet_trans [OF assms(1)] by (simp add: undone_def)
qed

lemma grown_step:
  assumes al: "page_aligned a" and up: "unat a + 4096 < 2 ^ 64" and top: "unat a + 4096 * Suc n \<le> unat TRAPFRAME"
    and perm: "perm < 0x400" and pgF: "pg \<in> F" and fl: "page_aligned pg"
    and g1: "quiet s s1" "F1 \<subseteq> F" "F1 \<union> space (mem s1) root = F \<union> space (mem s) root"
      "elsewhere s s1 (F \<union> space (mem s) root)" "page_mapped s s1 root a (PA2PTE pg OR perm OR PTE_V)"
      "\<forall>va. mapped (mem s) root va \<longrightarrow> user_byte (mem s1) root va = user_byte (mem s) root va"
      "\<forall>x. in_page pg x \<longrightarrow> mem s1 x = 0" and un: "pte_of (mem s) root a = 0"
    and g2: "grown s1 s' root F1 F' (a + 4096) n perm"
  shows "grown s s' root F F' a (Suc n) perm"
proof -
  let ?e = "PA2PTE pg OR perm OR PTE_V"
  have V: "?e AND PTE_V \<noteq> 0" by (simp add: or.assoc [symmetric])
  have k: "kend s1 = kend s" using g1(1) by (rule quiet_kend)
  have e2: "elsewhere s1 s' (F1 \<union> space (mem s1) root)" using g2 by (simp add: grown_def)
  have el: "elsewhere s s' (F \<union> space (mem s) root)"
    using elsewhere_trans [OF g1(4) e2 k] g1(3) by simp
  note rng = in_range_Suc [OF al up, of n]
  have low: "va < MAXVA" if "in_range a (Suc n) va" for va
    using that top by (simp add: in_range_def word_less_nat_alt MAXVA_eq unat_TRAPFRAME)
  have apart: "\<not> in_range (a + 4096) n va" if "PGROUNDDOWN va = a" for va
  proof -
    have "unat (a + 4096) = unat a + 4096" using up by (simp add: unat_plus_if')
    then show ?thesis
      using that PGROUNDDOWN_eq_iff [OF al, of va] by (simp add: in_range_def word_le_nat_alt)
  qed
  have old: "pte_of (mem s') root va = pte_of (mem s) root va"
    if "va < MAXVA" "\<not> in_range a (Suc n) va" for va
    using that g1(5) g2 rng [of va] by (simp add: grown_def page_mapped_def)
  have new: "(\<exists>p \<in> F. pte_of (mem s') root va = PA2PTE p OR perm OR PTE_V) \<and> user_byte (mem s') root va = 0"
    if r: "in_range a (Suc n) va" for va
  proof (cases "PGROUNDDOWN va = a")
    case True
    have pte1: "pte_of (mem s1) root va = ?e" using g1(5) low [OF r] True by (simp add: page_mapped_def)
    moreover have "pte_of (mem s') root va = pte_of (mem s1) root va"
      using g2 low [OF r] apart [OF True] by (simp add: grown_def)
    moreover have "user_byte (mem s') root va = user_byte (mem s1) root va"
    proof -
      have "va < TRAPFRAME" using r top by (simp add: in_range_def word_less_nat_alt)
      then have "mapped (mem s1) root va" using pte1 V by (simp add: mapped_def)
      then show ?thesis using g2 by (simp add: grown_def)
    qed
    moreover have "user_byte (mem s1) root va = 0"
    proof -
      have "PTE2PA (pte_of (mem s1) root va) = pg" using pte1 PTE2PA_new [OF fl perm] by simp
      then have "in_page pg (user_pa (mem s1) root va)" using user_pa_in_page [of "mem s1" root va] by simp
      then show ?thesis using g1(7) by (simp add: user_byte_def)
    qed
    ultimately show ?thesis using pgF by auto
  next
    case False
    then have "in_range (a + 4096) n va" using r rng by blast
    then show ?thesis using g2 g1(2) unfolding grown_def by blast
  qed
  have bytes: "user_byte (mem s') root va = user_byte (mem s) root va" if m: "mapped (mem s) root va" for va
  proof -
    have "PGROUNDDOWN va \<noteq> a"
    proof
      assume "PGROUNDDOWN va = a"
      then have "pte_of (mem s) root va = pte_of (mem s) root a"
        using PGROUNDDOWN_aligned [OF al] by (intro pte_of_page) simp
      then show False using m un by (simp add: mapped_def)
    qed
    then have "mapped (mem s1) root va" using g1(5) m below_TRAPFRAME by (simp add: mapped_def page_mapped_def)
    then show ?thesis using g2 g1(6) m by (simp add: grown_def)
  qed
  show ?thesis
    unfolding grown_def
    using g2 g1(1,2,3) el old new bytes quiet_trans [OF g1(1)] by (auto simp: grown_def)
qed

text \<open>One round of the loop: a zeroed page taken and mapped, or given back.\<close>

lemma uvmalloc_page:
  assumes inv: "uvm_inv s root F" and f: "freelist s \<noteq> 0" and a: "page_aligned a" "a < TRAPFRAME"
    "pte_of (mem s) root a = 0" and perm: "perm < 0x400"
  defines "pg \<equiv> freelist s"
  shows "\<exists>r s1 F1.
    kbind kalloc (\<lambda>pg. kbind (mem_fill pg 0) (\<lambda>_. mappages root a 4096 pg perm)) es s = Ret r es s1 \<and>
    uvm_inv s1 root F1 \<and> quiet s s1 \<and> F1 \<subseteq> F - {pg} \<and> pg \<in> F \<and>
    kernel_page (kend s) pg \<and>
    elsewhere s s1 (F \<union> space (mem s) root) \<and>
    (\<forall>va. mapped (mem s) root va \<longrightarrow> user_byte (mem s1) root va = user_byte (mem s) root va) \<and>
    insert pg (F1 \<union> space (mem s1) root) = F \<union> space (mem s) root \<and>
    (r = 0 \<and> page_mapped s s1 root a (PA2PTE pg OR perm OR PTE_V) \<and> pg \<in> space (mem s1) root \<and>
       (\<forall>x. in_page pg x \<longrightarrow> mem s1 x = 0) \<or>
     r = - 1 \<and> page_mapped s s1 root a 0 \<and> pg \<notin> space (mem s1) root)"
proof -
  define m2 where "m2 = fill_page pg 0 (mem s)"
  define s2 where "s2 = (alloced s)\<lparr>mem := m2\<rparr>"
  have same: "m2 x = mem s x" if "\<not> in_page (freelist s) x" for x using that by (simp add: m2_def pg_def)
  note tp = take_page [OF inv f same, folded s2_def, folded pg_def]
  have k: "kend s2 = kend s" using tp(5) by (rule quiet_kend)
  have fill: "mem_fill pg 0 es (alloced s) = Ret () es s2"
    using f by (auto simp: mem_fill_def memset_page s2_def m2_def pg_def alloced_def fun_eq_iff fill_page_def)
  have m2s: "mem s2 = m2" by (simp add: s2_def)
  have pg2: "kernel_page (kend s2) pg" "pg \<notin> F - {pg}" "pg \<notin> space (mem s2) root"
    using tp(3,4,8) k by (simp_all add: m2s)
  have a2: "pte_of (mem s2) root a = 0" using a(3) tp(7) by (simp add: m2s)
  obtain r s1 F1 where mp: "mappages root a 4096 pg perm es s2 = Ret r es s1"
      "touches s2 s1 root (F - {pg}) F1" "uvm_inv s1 root F1"
      "\<forall>va. mapped (mem s2) root va \<longrightarrow> user_byte (mem s1) root va = user_byte (mem s2) root va"
      "r = 0 \<and> page_mapped s2 s1 root a (PA2PTE pg OR perm OR PTE_V) \<and>
         owned (mem s1) root = insert pg (owned (mem s2) root) \<or>
       r = - 1 \<and> F1 = {} \<and> page_mapped s2 s1 root a 0 \<and> owned (mem s1) root = owned (mem s2) root"
    using map_fresh_page [OF tp(1) pg2 a(1,2) a2 perm, of es] by blast
  have tab: "tables (mem s1) root = tables (mem s) root \<union> (F - {pg} - F1)" "F1 \<subseteq> F - {pg}" "quiet s2 s1"
    using mp(2) tp(9) by (auto simp: touches_def m2s)
  have zero: "mem s1 x = 0" if "in_page pg x" for x
  proof -
    have "mem s1 x = mem s2 x"
      using mp(2) that pg2 unfolding touches_def space_def by blast
    then show ?thesis using that by (simp add: m2s m2_def)
  qed
  have run: "kbind kalloc (\<lambda>pg. kbind (mem_fill pg 0) (\<lambda>_. mappages root a 4096 pg perm)) es s = Ret r es s1"
    using kalloc_run [OF pt_invD(1) [OF uvm_inv_pt [OF inv]], of es] fill mp(1) by (simp add: pg_def)
  have el: "elsewhere s s1 (F \<union> space (mem s) root)"
    using elsewhere_trans [OF _ touches_elsewhere [OF mp(2)] k, of "F \<union> space (mem s) root"] tp(2,6,9)
    by (auto simp: elsewhere_def space_def m2s)
  have bytes: "\<forall>va. mapped (mem s) root va \<longrightarrow> user_byte (mem s1) root va = user_byte (mem s) root va"
    using mp(4) tp(11,12) by (simp add: m2s)
  have all: "insert pg (F1 \<union> space (mem s1) root) = F \<union> space (mem s) root"
    using mp(5) tab tp(2,10) by (auto simp: space_def m2s)
  have notin: "pg \<notin> tables (mem s1) root" using tab(1) tp(4) by (auto simp: space_def)
  have pm: "page_mapped s s1 root a e = page_mapped s2 s1 root a e" for e
    using tp(7) by (simp add: page_mapped_def m2s)
  have last: "r = 0 \<and> page_mapped s s1 root a (PA2PTE pg OR perm OR PTE_V) \<and> pg \<in> space (mem s1) root \<or>
     r = - 1 \<and> page_mapped s s1 root a 0 \<and> pg \<notin> space (mem s1) root"
    using mp(5) notin pm tp(4,10) by (auto simp: space_def m2s)
  show ?thesis
    using run mp(3) quiet_trans [OF tp(5) tab(3)] tab(2) tp(2,3) el bytes all last zero by blast
qed

lemma pte_leaf_user: "perm AND PTE_U \<noteq> 0 \<Longrightarrow> perm < 0x400 \<Longrightarrow> pte_leaf (PA2PTE p OR perm OR PTE_V)"
proof -
  assume u: "perm AND PTE_U \<noteq> 0" and l: "perm < 0x400"
  have fl: "PTE_FLAGS (PA2PTE p OR perm OR PTE_V) = perm OR PTE_V"
    using PTE_FLAGS_PA2PTE [of "perm OR PTE_V" p] flags_or [OF l PTE_V_less] by (simp add: or.assoc)
  have "bit perm 4" using u unfolding PTE_U_def by (rule bit_iff_and_push_bit_not_eq_0 [THEN iffD2])
  then have "bit (perm OR PTE_V) 4" by (simp add: bit_simps)
  moreover have "\<not> bit PTE_V 4" by (simp add: PTE_V_def bit_simps)
  ultimately have "perm OR PTE_V \<noteq> PTE_V" by metis
  moreover have "(PA2PTE p OR perm OR PTE_V) AND PTE_V \<noteq> 0" by (simp add: or.assoc [symmetric])
  ultimately show ?thesis by (simp add: pte_leaf_def fl)
qed

text \<open>
  The loop with \<open>m\<close> pages already mapped and \<open>n\<close> to go: it maps them all, or undoes
  everything from \<open>base\<close> on.
\<close>

lemma uvmalloc_loop_spec:
  assumes "uvm_inv s root F" and base: "page_aligned base"
    and "a = base + 4096 * of_nat m" and "unat base + 4096 * (m + n) \<le> unat TRAPFRAME"
    and "\<forall>va. in_range base m va \<longrightarrow> pte_leaf (pte_of (mem s) root va)"
    and "\<forall>va. in_range a n va \<longrightarrow> pte_of (mem s) root va = 0"
    and "unat newsz \<le> unat a + 4096 * n" and "0 < n \<Longrightarrow> unat a + 4096 * (n - 1) < unat newsz"
    and "n < k" and perm: "perm = PTE_R OR PTE_U OR xperm" "perm < 0x400" "perm AND PTE_U \<noteq> 0"
  shows "\<exists>r s' F'. uvmalloc_loop k root base newsz a xperm es s = Ret r es s' \<and>
    (r = newsz \<and> grown s s' root F F' a n perm \<or> r = 0 \<and> undone s s' root F F' base m)"
  using assms(1,3-9)
proof (induction n arbitrary: s F a m k)
  case 0
  obtain k' where "k = Suc k'" using "0.prems"(8) by (cases k) auto
  moreover have "\<not> a < newsz" using "0.prems"(6) by (simp add: word_less_nat_alt)
  ultimately show ?case using "0.prems"(1) by (auto simp: grown_def)
next
  case (Suc n)
  obtain k' where k: "k = Suc k'" "n < k'" using Suc.prems(8) by (cases k) auto
  note inv = Suc.prems(1)
  have small: "unat base + 4096 * m < 2 ^ 64" using Suc.prems(3) by (simp add: unat_TRAPFRAME)
  note al = page_aligned_add [OF base small, folded Suc.prems(2)]
  have top: "unat a + 4096 * Suc n \<le> unat TRAPFRAME" using Suc.prems(3) al(2) by simp
  have at: "a < TRAPFRAME" and up: "unat a + 4096 < 2 ^ 64"
    using top by (simp_all add: word_less_nat_alt unat_TRAPFRAME)
  have lt: "a < newsz" using Suc.prems(7) by (simp add: word_less_nat_alt)
  have za: "pte_of (mem s) root a = 0" using Suc.prems(5) by (simp add: in_range_def)
  have low: "unat base + 4096 * m \<le> unat TRAPFRAME" using Suc.prems(3) by simp
  note ka = kalloc_run [OF pt_invD(1) [OF uvm_inv_pt [OF inv]], of es]
  show ?case
  proof (cases "freelist s = 0")
    case f: True
    note ex = free_pages_exhausted [OF pt_invD(2) [OF uvm_inv_pt [OF inv]] f]
    have inv1: "uvm_inv (alloced s) root {}"
      using uvm_inv_frame [OF inv _ quiet_alloced ex(2)] ex(3) by simp
    have lf: "\<forall>va. in_range base m va \<longrightarrow> pte_leaf (pte_of (mem (alloced s)) root va)"
      using Suc.prems(4) ex(3) by simp
    obtain r s' F' where d: "uvmdealloc root a base es (alloced s) = Ret r es s'"
        "unmapped (alloced s) s' root {} F' base m"
      using uvmdealloc_spec [OF inv1 base low lf, of es] unfolding Suc.prems(2) by blast
    have "undone s s' root F F' base m"
      by (rule undone_after [OF quiet_alloced _ _ _ _ unmapped_undone [OF d(2)]])
        (simp_all only: ex(1,3) elsewhere_def, simp_all)
    moreover have "uvmalloc_loop k root base newsz a xperm es s = Ret 0 es s'"
      using k(1) lt ka f d(1) by simp
    ultimately show ?thesis by blast
  next
    case f: False
    let ?pg = "freelist s"
    obtain r s1 F1 where p: "kbind kalloc (\<lambda>pg. kbind (mem_fill pg 0) (\<lambda>_. mappages root a 4096 pg perm)) es s = Ret r es s1"
        "uvm_inv s1 root F1" "quiet s s1" "F1 \<subseteq> F - {?pg}" "?pg \<in> F" "kernel_page (kend s) ?pg"
        "elsewhere s s1 (F \<union> space (mem s) root)"
        "\<forall>va. mapped (mem s) root va \<longrightarrow> user_byte (mem s1) root va = user_byte (mem s) root va"
        "insert ?pg (F1 \<union> space (mem s1) root) = F \<union> space (mem s) root"
        "r = 0 \<and> page_mapped s s1 root a (PA2PTE ?pg OR perm OR PTE_V) \<and> ?pg \<in> space (mem s1) root \<and>
           (\<forall>x. in_page ?pg x \<longrightarrow> mem s1 x = 0) \<or>
         r = - 1 \<and> page_mapped s s1 root a 0 \<and> ?pg \<notin> space (mem s1) root"
      using uvmalloc_page [OF inv f al(1) at za perm(2), of es] by (elim exE conjE) (rule that)
    have pte1: "pte_of (mem s1) root va = pte_of (mem s) root va" if "va < MAXVA" "PGROUNDDOWN va \<noteq> a" for va
      using p(10) that by (auto simp: page_mapped_def)
    have before: "va < MAXVA \<and> PGROUNDDOWN va \<noteq> a" if "in_range base m va" for va
      using that low PGROUNDDOWN_eq_iff [OF al(1), of va] al(2)
      by (auto simp: in_range_def word_less_nat_alt word_le_nat_alt MAXVA_eq unat_TRAPFRAME)
    have lf1: "\<forall>va. in_range base m va \<longrightarrow> pte_leaf (pte_of (mem s1) root va)"
      using before pte1 Suc.prems(4) by simp
    have go: "uvmalloc_loop k root base newsz a xperm es s = (if r \<noteq> 0
        then kbind (kfree ?pg) (\<lambda>_. kbind (uvmdealloc root a base) (\<lambda>_. kret 0)) es s1
        else uvmalloc_loop k' root base newsz (a + 4096) xperm es s1)"
      using k(1) lt ka f p(1) perm(1) by (auto simp: or.assoc split: outcome.splits)
    show ?thesis
    proof (cases "r = 0")
      case r: False
      then have fail: "page_mapped s s1 root a 0" "?pg \<notin> space (mem s1) root" using p(10) by auto
      have k1: "kernel_page (kend s1) ?pg" using p(6) quiet_kend [OF p(3)] by simp
      have "?pg \<notin> F1" using p(4) by blast
      note gb = give_back_page [OF p(2) k1 this fail(2)]
      let ?s2 = "freed ?pg s1"
      have same2: "pte_of (mem ?s2) root va = pte_of (mem s) root va" if "va < MAXVA" for va
      proof (cases "PGROUNDDOWN va = a")
        case True
        then have "in_range a (Suc n) va" using in_range_Suc [OF al(1) up] by blast
        then show ?thesis using True that gb(3) fail(1) Suc.prems(5) by (simp add: page_mapped_def)
      qed (use that gb(3) pte1 in simp)
      have lf2: "\<forall>va. in_range base m va \<longrightarrow> pte_leaf (pte_of (mem ?s2) root va)"
        using lf1 gb(3) by simp
      obtain r' s' F' where d: "uvmdealloc root a base es ?s2 = Ret r' es s'"
          "unmapped ?s2 s' root (insert ?pg F1) F' base m"
        using uvmdealloc_spec [OF gb(2) base low lf2, of es] unfolding Suc.prems(2) by blast
      have el: "elsewhere s ?s2 (F \<union> space (mem s) root)"
        using elsewhere_trans [OF p(7) gb(6) quiet_kend [OF p(3)]] p(5) by simp
      have cons: "insert ?pg F1 \<union> space (mem ?s2) root = F \<union> space (mem s) root"
        using p(9) gb(4) by simp
      have mp1: "mapped (mem s1) root va" if "mapped (mem s) root va" for va
        using that same2 gb(3) below_TRAPFRAME by (simp add: mapped_def)
      have "undone s s' root F F' base m"
        using undone_after [OF quiet_trans [OF p(3) quiet_freed] el cons _ _ unmapped_undone [OF d(2)]]
          same2 p(8) gb(5) mp1 by simp
      then show ?thesis using go r gb(1) d(1) by auto
    next
      case True
      then have ok: "page_mapped s s1 root a (PA2PTE ?pg OR perm OR PTE_V)" "?pg \<in> space (mem s1) root"
          "\<forall>x. in_page ?pg x \<longrightarrow> mem s1 x = 0" using p(10) by auto
      have nx: "unat (a + 4096) = unat a + 4096" using up by (simp add: unat_plus_if')
      have eqa: "a + 4096 = base + 4096 * of_nat (Suc m)" using Suc.prems(2) by (simp add: algebra_simps)
      have "\<forall>va. in_range base (Suc m) va \<longrightarrow> pte_leaf (pte_of (mem s1) root va)"
      proof (intro allI impI)
        fix va assume h: "in_range base (Suc m) va"
        show "pte_leaf (pte_of (mem s1) root va)"
        proof (cases "in_range base m va")
          case True
          then show ?thesis using lf1 by blast
        next
          case False
          then have "PGROUNDDOWN va = a"
            using h PGROUNDDOWN_eq_iff [OF al(1), of va] al(2) by (auto simp: in_range_def word_le_nat_alt)
          moreover have "va < MAXVA"
            using h Suc.prems(3) by (simp add: in_range_def word_less_nat_alt MAXVA_eq unat_TRAPFRAME)
          ultimately show ?thesis using ok(1) pte_leaf_user [OF perm(3,2)] by (simp add: page_mapped_def)
        qed
      qed
      moreover have "\<forall>va. in_range (a + 4096) n va \<longrightarrow> pte_of (mem s1) root va = 0"
      proof (intro allI impI)
        fix va assume h: "in_range (a + 4096) n va"
        then have "in_range a (Suc n) va" using in_range_Suc [OF al(1) up] by blast
        moreover have "PGROUNDDOWN va \<noteq> a"
          using h PGROUNDDOWN_eq_iff [OF al(1), of va] nx by (auto simp: in_range_def word_le_nat_alt)
        moreover have "va < MAXVA"
          using h top nx by (simp add: in_range_def word_less_nat_alt MAXVA_eq unat_TRAPFRAME)
        ultimately show "pte_of (mem s1) root va = 0" using pte1 Suc.prems(5) by simp
      qed
      moreover have "unat base + 4096 * (Suc m + n) \<le> unat TRAPFRAME" using Suc.prems(3) by simp
      moreover have "unat newsz \<le> unat (a + 4096) + 4096 * n" using Suc.prems(6) nx by simp
      moreover have "0 < n \<Longrightarrow> unat (a + 4096) + 4096 * (n - 1) < unat newsz"
        using Suc.prems(7) nx by (cases n) simp_all
      ultimately obtain r' s' F' where IH: "uvmalloc_loop k' root base newsz (a + 4096) xperm es s1 = Ret r' es s'"
          "r' = newsz \<and> grown s1 s' root F1 F' (a + 4096) n perm \<or> r' = 0 \<and> undone s1 s' root F1 F' base (Suc m)"
        using Suc.IH [OF p(2) eqa _ _ _ _ _ k(2)] by blast
      have fl: "page_aligned ?pg" using p(6) by (simp add: kernel_page_def)
      have cons: "F1 \<union> space (mem s1) root = F \<union> space (mem s) root" using p(9) ok(2) insert_absorb [of ?pg "F1 \<union> space (mem s1) root"] by simp
      show ?thesis
      proof (cases "r' = newsz \<and> grown s1 s' root F1 F' (a + 4096) n perm")
        case True
        have "grown s s' root F F' a (Suc n) perm"
          using grown_step [OF al(1) up top perm(2) p(5) fl p(3) _ cons p(7) ok(1) p(8) ok(3) za] True p(4) by blast
        then show ?thesis using True go \<open>r = 0\<close> IH(1) by auto
      next
        case False
        then have u: "r' = 0" "undone s1 s' root F1 F' base (Suc m)" using IH(2) by auto
        have inr: "in_range base (Suc m) va \<longleftrightarrow> in_range base m va \<or> PGROUNDDOWN va = a" for va
          using PGROUNDDOWN_eq_iff [OF al(1), of va] al(2) by (auto simp: in_range_def word_le_nat_alt)
        have "undone s s' root F F' base (Suc m)"
          using undone_after [OF p(3,7) cons _ p(8) u(2)] pte1 inr by blast
        moreover have "pte_of (mem s) root va = 0" if "PGROUNDDOWN va = a" for va
          using that za pte_of_page [of va a "mem s" root] PGROUNDDOWN_aligned [OF al(1)] by simp
        ultimately have "undone s s' root F F' base m" using inr unfolding undone_def by auto
        then show ?thesis using go \<open>r = 0\<close> IH(1) u(1) by auto
      qed
    qed
  qed
qed

subsection \<open>A small address space\<close>

text \<open>One user page at virtual address 0, three table pages and no free page.\<close>

definition ex_flags :: u64 where
  "ex_flags = PTE_W OR PTE_R OR PTE_X OR PTE_U"

definition ex_mem1 :: memory where
  "ex_mem1 = st64 (fill_page 0x87FFE000 0 (\<lambda>_. 0)) (0x87FFF000 + 8 * 0) (PA2PTE 0x87FFE000 OR PTE_V)"

definition ex_mem2 :: memory where
  "ex_mem2 = st64 (fill_page 0x87FFD000 0 ex_mem1) (0x87FFE000 + 8 * 0) (PA2PTE 0x87FFD000 OR PTE_V)"

definition ex_mem :: memory where
  "ex_mem = st64 ex_mem2 (0x87FFD000 + 8 * PX 0 0) (PA2PTE 0x87FFC000 OR ex_flags OR PTE_V)"

definition ex_state :: mem_state where
  "ex_state = \<lparr>tp = 0, sstatus = SSTATUS_SIE, cpus = (\<lambda>_. boot_cpu), locks = (\<lambda>_. boot_lock),
     mem = ex_mem, freelist = 0, kend = 0x80021000\<rparr>"

lemma ld64_zero [simp]: "ld64 (\<lambda>_. 0) a = 0"
  by (simp add: ld64_def)

lemma node_zero: "node (\<lambda>_. 0) p is = (if is = [] then Some p else None)"
  by (cases "is") (simp_all add: node.simps(2))

lemma tables_zero: "tables (\<lambda>_. 0) p = {p}"
  by (auto simp: tables_def node_zero split: if_splits intro: exI [of _ "[]"])

lemma ex_pages:
  "kernel_page 0x80021000 0x87FFF000" "kernel_page 0x80021000 0x87FFE000"
  "kernel_page 0x80021000 0x87FFD000" "kernel_page 0x80021000 0x87FFC000"
  by (simp_all add: kernel_page_def page_aligned_unat)

lemma pt_ok_zero: "pt_ok (\<lambda>_. 0) 0x80021000 0x87FFF000"
  using ex_pages(1) by (auto simp: pt_ok_def tables_zero node_zero split: if_splits)

lemma ex_links1: "links (\<lambda>_. 0) 0x80021000 0x87FFF000 [] 0 0x87FFF000 0x87FFE000 ex_mem1"
  unfolding links_def using pt_ok_zero ex_pages
  by (simp add: table_path_def node_zero tables_zero ex_mem1_def)

lemma ex_links2: "links ex_mem1 0x80021000 0x87FFF000 [0] 0 0x87FFE000 0x87FFD000 ex_mem2"
proof -
  have n: "node ex_mem1 0x87FFF000 is = (if is = [0] then Some 0x87FFE000 else if is = [] then Some 0x87FFF000 else None)"
    if "table_path is" for "is"
    using node_link [OF ex_links1 that] by (simp add: node_zero)
  have "table_path [0]" "table_path [0, 0]" by (simp_all add: table_path_def)
  then show ?thesis
    unfolding links_def using pt_ok_link [OF ex_links1] ex_pages n [of "[0]"] n [of "[0, 0]"] tables_link [OF ex_links1]
    by (simp add: tables_zero ex_mem2_def)
qed

lemma ex_node: "node ex_mem2 0x87FFF000 [PX 2 0, PX 1 0] = Some 0x87FFD000"
  using node_link [OF ex_links2, of "[0, 0]"] by (simp add: table_path_def PX_def)

lemma ex_pt:
  "pt_ok ex_mem 0x80021000 0x87FFF000"
  "tables ex_mem 0x87FFF000 = {0x87FFF000, 0x87FFE000, 0x87FFD000}"
  "va < MAXVA \<Longrightarrow> pte_of ex_mem 0x87FFF000 va =
     (if PGROUNDDOWN va = 0 then PA2PTE 0x87FFC000 OR ex_flags OR PTE_V else 0)"
proof -
  note ok = pt_ok_link [OF ex_links2]
  note lw = tables_leaf_write [OF ok ex_node, of "PX 0 0"]
  show "pt_ok ex_mem 0x80021000 0x87FFF000"
    using lw(2) by (simp add: ex_mem_def table_path_va PX_less)
  show "tables ex_mem 0x87FFF000 = {0x87FFF000, 0x87FFE000, 0x87FFD000}"
    using lw(1) tables_link [OF ex_links2] tables_link [OF ex_links1]
    by (auto simp: ex_mem_def table_path_va PX_less tables_zero)
  have zero: "pte_of ex_mem2 0x87FFF000 va = 0" for va
    using pte_of_link [OF ex_links2] pte_of_link [OF ex_links1] by (simp add: pte_of_def node_zero)
  have "PGROUNDDOWN 0 = 0" by (simp add: PGROUNDDOWN_def)
  then show "va < MAXVA \<Longrightarrow> pte_of ex_mem 0x87FFF000 va =
     (if PGROUNDDOWN va = 0 then PA2PTE 0x87FFC000 OR ex_flags OR PTE_V else 0)"
    using pte_of_leaf_write [OF ok ex_node, of va] zero by (simp add: ex_mem_def MAXVA_eq)
qed

lemma ex_flags_facts: "ex_flags < 0x400" "PTE2PA (PA2PTE 0x87FFC000 OR ex_flags OR PTE_V) = 0x87FFC000"
  "(PA2PTE p OR ex_flags OR PTE_V) AND PTE_V \<noteq> 0" "(PA2PTE p OR ex_flags OR PTE_V) AND PTE_U \<noteq> 0"
  "(PA2PTE p OR ex_flags OR PTE_V) AND PTE_W \<noteq> 0"
proof -
  show l: "ex_flags < 0x400" by (simp add: ex_flags_def pte_bit_defs)
  show "PTE2PA (PA2PTE 0x87FFC000 OR ex_flags OR PTE_V) = 0x87FFC000"
    using l by (intro PTE2PA_new) (simp_all add: page_aligned_unat)
  have b: "bit ex_flags 4" "bit ex_flags 2" by (simp_all add: ex_flags_def pte_bit_defs bit_simps)
  show "(PA2PTE p OR ex_flags OR PTE_V) AND PTE_V \<noteq> 0" by (simp add: or.assoc [symmetric])
  show "(PA2PTE p OR ex_flags OR PTE_V) AND PTE_U \<noteq> 0" unfolding PTE_U_def
    by (rule bit_iff_and_push_bit_not_eq_0 [THEN iffD1]) (simp add: bit_simps b)
  show "(PA2PTE p OR ex_flags OR PTE_V) AND PTE_W \<noteq> 0" unfolding PTE_W_def
    by (rule bit_iff_and_push_bit_not_eq_0 [THEN iffD1]) (simp add: bit_simps b)
qed

lemma ex_mapped:
  "mapped ex_mem 0x87FFF000 va \<longleftrightarrow> va < 4096" "owned ex_mem 0x87FFF000 = {0x87FFC000}"
  "TRAPFRAME \<le> va \<Longrightarrow> \<not> user_readable ex_mem 0x87FFF000 va"
proof -
  have z: "PGROUNDDOWN va = 0 \<longleftrightarrow> va < 4096" for va
    using PGROUNDDOWN_eq_iff [of 0 va] by (simp add: page_aligned_unat word_less_nat_alt)
  have pte: "pte_of ex_mem 0x87FFF000 va = (if va < 4096 then PA2PTE 0x87FFC000 OR ex_flags OR PTE_V else 0)"
    if "va < MAXVA" for va using ex_pt(3) [OF that] z by simp
  have mp: "mapped ex_mem 0x87FFF000 va \<longleftrightarrow> va < 4096" for va
    using pte [of va] below_TRAPFRAME [of va] ex_flags_facts(3)
    by (cases "va < 4096") (auto simp: mapped_def word_less_nat_alt unat_TRAPFRAME)
  then show "mapped ex_mem 0x87FFF000 va \<longleftrightarrow> va < 4096" .
  show "owned ex_mem 0x87FFF000 = {0x87FFC000}"
    using mp pte ex_flags_facts(2) by (auto simp: owned_def MAXVA_eq word_less_nat_alt intro!: exI [of _ 0])
  show "\<not> user_readable ex_mem 0x87FFF000 va" if "TRAPFRAME \<le> va" for va
    using pte [of va] that by (auto simp: user_readable_def pte_user_def word_less_nat_alt word_le_nat_alt unat_TRAPFRAME)
qed

text \<open>The address space is well formed with any free pages but its own.\<close>

lemma ex_uvm_free:
  assumes "free_pages (ex_state\<lparr>freelist := f\<rparr>) F" "F \<inter> {0x87FFF000, 0x87FFE000, 0x87FFD000, 0x87FFC000} = {}"
  shows "uvm_inv (ex_state\<lparr>freelist := f\<rparr>) 0x87FFF000 F"
proof -
  let ?s = "ex_state\<lparr>freelist := f\<rparr>"
  have st: "mem ?s = ex_mem" "kend ?s = 0x80021000" by (simp_all add: ex_state_def)
  have "lock_free KmemLock ?s" by (simp add: lock_free_def ex_state_def boot_cpu_def boot_lock_def)
  then have "pt_inv ?s 0x87FFF000 F" using ex_pt(1,2) assms by (auto simp: pt_inv_def st)
  moreover have "\<forall>p \<in> owned ex_mem 0x87FFF000. kernel_page 0x80021000 p \<and> p \<notin> F \<union> tables ex_mem 0x87FFF000"
    using ex_mapped(2) ex_pt(2) ex_pages assms(2) by auto
  moreover have "PGROUNDDOWN va = PGROUNDDOWN va'" if "mapped ex_mem 0x87FFF000 va" "mapped ex_mem 0x87FFF000 va'" for va va'
    using that PGROUNDDOWN_eq_iff [of 0 va] PGROUNDDOWN_eq_iff [of 0 va']
    by (simp add: ex_mapped page_aligned_unat word_less_nat_alt)
  ultimately show ?thesis using ex_mapped(3) unfolding uvm_inv_def st by blast
qed

lemma ex_uvm_inv: "uvm_inv ex_state 0x87FFF000 {}"
proof -
  have s: "ex_state\<lparr>freelist := 0\<rparr> = ex_state" by (simp add: ex_state_def)
  have "free_pages ex_state {}" by (auto simp: free_pages_def kmem_inv_def ex_state_def)
  then show ?thesis using ex_uvm_free [of 0 "{}"] unfolding s by simp
qed

lemma mappages_there:
  assumes "page_aligned va" "va < MAXVA" "node (mem s) root [PX 2 va, PX 1 va] = Some q" "q + 8 * PX 0 va \<noteq> 0"
    "ld64 (mem s) (q + 8 * PX 0 va) AND PTE_V = 0"
  shows "\<exists>s'. mappages root va 4096 pa perm es s = Ret 0 es s'"
proof -
  have w: "walk root va True es s = Ret (q + 8 * PX 0 va) es s"
    using assms(2,3)
    by (simp add: walk_def numeral_2_eq_2 pte_load_def node.simps(2) not_le [symmetric] split: if_splits)
  have "va mod PGSIZE = 0" using assms(1) by (simp add: page_aligned_def)
  then show ?thesis
    using w assms(4,5) by (simp add: mappages_def pte_load_def pte_store_def)
qed

lemma ex_slot: "node ex_mem 0x87FFF000 [PX 2 4096, PX 1 4096] = Some 0x87FFD000"
  "ld64 ex_mem (0x87FFD000 + 8 * PX 0 4096) = 0" "0x87FFD000 + 8 * PX 0 4096 \<noteq> 0"
proof -
  have "PX 2 4096 = PX 2 0" "PX 1 4096 = PX 1 0" by (simp_all add: PX_def PXSHIFT_def)
  then show n: "node ex_mem 0x87FFF000 [PX 2 4096, PX 1 4096] = Some 0x87FFD000"
    using node_leaf_write [OF pt_ok_link [OF ex_links2] ex_node, of "PX 0 0" "[PX 2 0, PX 1 0]"] ex_node
    by (simp add: ex_mem_def table_path_va PX_less)
  have "PGROUNDDOWN 4096 \<noteq> 0" by (simp add: PGROUNDDOWN_def)
  then have "pte_of ex_mem 0x87FFF000 4096 = 0" using ex_pt(3) [of 4096] by (simp add: MAXVA_eq)
  then show "ld64 ex_mem (0x87FFD000 + 8 * PX 0 4096) = 0" using n by (simp add: pte_of_def)
  show "0x87FFD000 + 8 * PX 0 4096 \<noteq> 0" by (simp add: PX_def PXSHIFT_def)
qed


text \<open>The same address space with one free page.\<close>

definition ex_room :: mem_state where
  "ex_room = ex_state\<lparr>freelist := 0x87FFB000\<rparr>"

lemma ex_room_inv: "uvm_inv ex_room 0x87FFF000 {0x87FFB000}"
proof -
  have "kernel_page 0x80021000 0x87FFB000" by (simp add: kernel_page_def page_aligned_unat)
  moreover have "ld64 ex_mem (0x87FFB000 + 8 * 0) = 0"
    unfolding ex_mem_def ex_mem2_def ex_mem1_def
    by (simp add: ld64_st64_entry ld64_fill_other page_aligned_unat PX_less del: mult_zero_right add_0_right)
  ultimately have "free_pages ex_room {0x87FFB000}"
    unfolding free_pages_def kmem_inv_def by (intro exI [of _ "[0x87FFB000]"]) (simp add: ex_room_def ex_state_def)
  then show ?thesis unfolding ex_room_def by (rule ex_uvm_free) simp
qed

lemma uvmalloc_room: "\<exists>s'. uvmalloc 0x87FFF000 4096 5000 PTE_W [] ex_room = Ret 5000 [] s'"
proof -
  have f: "freelist ex_room = 0x87FFB000" "mem ex_room = ex_mem" by (simp_all add: ex_room_def ex_state_def)
  have ka: "kalloc [] ex_room = Ret 0x87FFB000 [] (alloced ex_room)"
    using kalloc_run [OF pt_invD(1) [OF uvm_inv_pt [OF ex_room_inv]], of "[]"] by (simp add: f)
  define s1 where "s1 = (alloced ex_room)\<lparr>mem := memset (mem (alloced ex_room)) 0x87FFB000 0 (ucast PGSIZE)\<rparr>"
  have same: "mem s1 x = ex_mem x" if "\<not> in_page 0x87FFB000 x" for x
    using that by (simp add: s1_def alloced_def f memset_page)
  have pg: "\<not> in_page 0x87FFB000 x" if "p \<in> tables ex_mem 0x87FFF000" "in_page p x" for p x
    using that ex_pt(2) in_page_disjoint [of p "0x87FFB000" x] by (auto simp: page_aligned_unat)
  have tp: "table_path [PX 2 4096, PX 1 4096]" by (simp add: table_path_va)
  have n: "node (mem s1) 0x87FFF000 [PX 2 4096, PX 1 4096] = Some 0x87FFD000"
    using node_frame [where m = ex_mem and m' = "mem s1" and root = "0x87FFF000", OF _ tp] same pg ex_slot(1) by simp
  have "ld64 (mem s1) (0x87FFD000 + 8 * PX 0 4096) = ld64 ex_mem (0x87FFD000 + 8 * PX 0 4096)"
    using same pg [of "0x87FFD000"] ex_pt(2) by (intro ld64_entry_cong) (simp_all add: PX_less)
  then obtain s2 where map: "mappages 0x87FFF000 4096 4096 0x87FFB000 (PTE_R OR PTE_U OR PTE_W) [] s1 = Ret 0 [] s2"
    using mappages_there [OF _ _ n, of "0x87FFB000" "PTE_R OR PTE_U OR PTE_W" "[]"] ex_slot(2,3)
    by (auto simp: page_aligned_unat MAXVA_eq)
  have fill: "mem_fill 0x87FFB000 0 [] (alloced ex_room) = Ret () [] s1" by (simp add: mem_fill_def s1_def)
  have last: "uvmalloc_loop (Suc k) 0x87FFF000 4096 5000 8192 PTE_W [] s2 = Ret 5000 [] s2" for k by simp
  have "uvmalloc_loop (Suc (Suc k)) 0x87FFF000 4096 5000 4096 PTE_W [] ex_room = Ret 5000 [] s2" for k
    unfolding uvmalloc_loop.simps(2) [of "Suc k"] using last [of k] by (simp add: ka fill map del: uvmalloc_loop.simps)
  moreover have "PGROUNDUP 4096 = (4096 :: u64)" by (simp add: PGROUNDUP_def)
  ultimately show ?thesis unfolding uvmalloc_def by (simp del: uvmalloc_loop.simps)
qed
lemma ex_unmapped: "in_range 4096 1 va \<Longrightarrow> pte_of ex_mem 0x87FFF000 va = 0"
  using PGROUNDDOWN_eq_iff [of 0 va] ex_pt(3) [of va]
  by (auto simp: in_range_def page_aligned_unat word_le_nat_alt word_less_nat_alt MAXVA_eq)

subsection \<open>Properties\<close>

text \<open>
  C5: Mapping a range of unmapped pages with \<^verbatim>\<open>mappages\<close> updates the page table, seen as
  a map from virtual addresses to entries, at exactly those pages: with result 0
  all \<open>n\<close> pages are mapped to consecutive physical pages with the given
  permissions; with result -1, which needs the allocator to have run dry, a proper
  prefix is; every other entry is unchanged, the tree stays well formed, and each
  page the allocator lost became a table of this tree.
\<close>

theorem mappages_updates_range:
  assumes "pt_inv s root F" and "page_aligned a" and "0 < n" and "unat a + 4096 * n \<le> unat MAXVA"
    and "\<forall>va. in_range a n va \<longrightarrow> pte_of (mem s) root va AND PTE_V = 0"
  shows "\<exists>r s' F' j. mappages root a (4096 * of_nat n) pa perm es s = Ret r es s' \<and>
    pt_inv s' root F' \<and> tables (mem s') root = tables (mem s) root \<union> (F - F') \<and>
    (r = 0 \<and> j = n \<or> r = - 1 \<and> j < n \<and> F' = {}) \<and>
    (\<forall>va < MAXVA. pte_of (mem s') root va =
       (if in_range a j va then PA2PTE (pa + (PGROUNDDOWN va - a)) OR perm OR PTE_V
        else pte_of (mem s) root va))"
  using mappages_spec [OF assms(1-4), of pa perm es] assms(5)
  unfolding touches_def map_range_def in_range_def by blast

theorem mappages_updates_range_witness:
  "\<exists>s'. mappages 0x87FFF000 4096 (4096 * of_nat 1) 0x80000000 (PTE_R OR PTE_X) [] ex_state = Ret 0 [] s' \<and>
     pte_of (mem s') 0x87FFF000 4096 = PA2PTE 0x80000000 OR (PTE_R OR PTE_X) OR PTE_V \<and>
     pte_of (mem s') 0x87FFF000 0 = PA2PTE 0x87FFC000 OR ex_flags OR PTE_V"
proof -
  have st: "mem ex_state = ex_mem" by (simp add: ex_state_def)
  have un: "\<forall>va. in_range 4096 1 va \<longrightarrow> pte_of (mem ex_state) 0x87FFF000 va AND PTE_V = 0"
    using ex_unmapped by (simp add: st)
  have al: "page_aligned (4096 :: u64)" and top: "unat (4096 :: u64) + 4096 * 1 \<le> unat MAXVA"
    by (simp_all add: page_aligned_unat MAXVA_eq)
  have rg: "in_range 4096 1 4096" "\<not> in_range 4096 1 0" by (simp_all add: in_range_def)
  have z: "pte_of (mem ex_state) 0x87FFF000 0 = PA2PTE 0x87FFC000 OR ex_flags OR PTE_V"
    using ex_pt(3) [of 0] by (simp add: st MAXVA_eq PGROUNDDOWN_def)
  obtain s1 where run: "mappages 0x87FFF000 4096 4096 0x80000000 (PTE_R OR PTE_X) [] ex_state = Ret 0 [] s1"
    using mappages_there [OF al _ ex_slot(1) [folded st] ex_slot(3), of "0x80000000" "PTE_R OR PTE_X" "[]"] ex_slot(2) by (auto simp: st MAXVA_eq)
  obtain r s' F' j where s': "mappages 0x87FFF000 4096 (4096 * of_nat 1) 0x80000000 (PTE_R OR PTE_X) [] ex_state = Ret r [] s'"
      "r = 0 \<and> j = 1 \<or> r = - 1 \<and> j < (1 :: nat) \<and> F' = {}"
      "\<forall>va < MAXVA. pte_of (mem s') 0x87FFF000 va = (if in_range 4096 j va
         then PA2PTE (0x80000000 + (PGROUNDDOWN va - 4096)) OR (PTE_R OR PTE_X) OR PTE_V else pte_of (mem ex_state) 0x87FFF000 va)"
    using mappages_updates_range [OF uvm_inv_pt [OF ex_uvm_inv] al zero_less_one top un, of "0x80000000" "PTE_R OR PTE_X" "[]"]
    by blast
  then have "r = 0" "j = 1" using run by auto
  then show ?thesis using s'(1) s'(3) [rule_format, of 4096] s'(3) [rule_format, of 0] rg z
    by (intro exI [of _ s']) (simp add: MAXVA_eq PGROUNDDOWN_def)
qed

text \<open>
  C8: \<^verbatim>\<open>copyout\<close> returns 0 just if every byte of the target range is mapped for the
  user and writable, and -1 otherwise, and never panics; when it returns 0, a \<^verbatim>\<open>copyin\<close>
  from the same address gives back exactly the bytes written, and every user byte
  outside the range is unchanged.
\<close>

theorem copyout_copyin_round_trip:
  assumes "uvm_inv s root F" and "length src = unat len"
  shows "\<exists>r s'. copyout root va src len es s = Ret r es s' \<and> uvm_inv s' root F \<and>
    r = (if \<forall>i < unat len. user_writable (mem s) root (va + of_nat i) then 0 else - 1) \<and>
    (r = 0 \<longrightarrow> copyin root va len es s' = Ret (0, src) es s' \<and>
      (\<forall>va'. user_readable (mem s) root va' \<and> \<not> unat (va' - va) < unat len \<longrightarrow>
        user_byte (mem s') root va' = user_byte (mem s) root va'))"
proof -
  obtain r s' j where co: "copyout root va src len es s = Ret r es s'" "copied_out s s' root F va src r j"
    using copyout_loop_spec [OF assms order_refl, of va es] by (auto simp: copyout_def)
  have inv': "uvm_inv s' root F" and pte: "pte_of (mem s') root = pte_of (mem s) root"
    using co(2) by (simp_all add: copied_out_def)
  have r: "r = (if \<forall>i < unat len. user_writable (mem s) root (va + of_nat i) then 0 else - 1)"
    using co(2) assms(2) by (auto simp: copied_out_def)
  have again: "copyin root va len es s' = Ret (0, src) es s'" if r0: "r = 0"
  proof -
    have wr: "user_writable (mem s) root (va + of_nat i)" if "i < unat len" for i
      using r r0 that by (auto split: if_splits)
    have rd: "user_readable (mem s') root (va + of_nat i)" if "i < unat len" for i
      using wr [OF that] by (simp add: user_writable_def user_readable_def pte)
    obtain r2 j2 where ci: "copyin root va len es s' = Ret (r2, user_bytes (mem s') root va j2) es s'"
        "r2 = 0 \<and> j2 = unat len \<or> r2 = - 1"
        "r2 = 0 \<longleftrightarrow> (\<forall>i < unat len. user_readable (mem s') root (va + of_nat i))"
      using copyin_loop_spec [OF inv' order_refl, of len "[]" va es] by (auto simp: copyin_def)
    have "user_bytes (mem s') root va (unat len) = src"
    proof (rule nth_equalityI)
      fix i assume i: "i < length (user_bytes (mem s') root va (unat len))"
      then have il: "i < unat len" by simp
      have u: "unat (of_nat i :: u64) = i" using il unat_u64_less [of len] by (simp add: unat_of_nat)
      have "user_readable (mem s) root (va + of_nat i)" using wr [OF il] by (simp add: user_writable_def)
      moreover have "j = length src" using co(2) r0 by (simp add: copied_out_def)
      ultimately have "user_byte (mem s') root (va + of_nat i) = src ! i"
        using co(2) il assms(2) u by (simp add: copied_out_def)
      then show "user_bytes (mem s') root va (unat len) ! i = src ! i" using il by (simp add: user_bytes_def)
    qed (simp add: assms(2))
    then show ?thesis using ci rd by auto
  qed
  have "user_byte (mem s') root va' = user_byte (mem s) root va'"
    if "user_readable (mem s) root va'" "\<not> unat (va' - va) < unat len" for va'
  proof -
    have "j \<le> unat len" using co(2) assms(2) by (simp add: copied_out_def)
    then have "\<not> unat (va' - va) < j" using that(2) by simp
    then show ?thesis using co(2) that(1) by (simp add: copied_out_def)
  qed
  with co(1) inv' r again show ?thesis by blast
qed

lemma ex_writable: "va < 4096 \<Longrightarrow> user_writable ex_mem 0x87FFF000 va"
proof -
  assume va: "va < 4096"
  then have "PGROUNDDOWN va = 0"
    using PGROUNDDOWN_eq_iff [of 0 va] by (simp add: page_aligned_unat word_less_nat_alt)
  moreover have "va < MAXVA" using va by (simp add: word_less_nat_alt MAXVA_eq)
  ultimately show ?thesis
    using ex_pt(3) ex_flags_facts by (simp add: user_writable_def user_readable_def pte_user_def)
qed

theorem copyout_copyin_round_trip_witness:
  "\<exists>s'. copyout 0x87FFF000 4090 [1, 2, 3] 3 [] ex_state = Ret 0 [] s' \<and>
     copyin 0x87FFF000 4090 3 [] s' = Ret (0, [1, 2, 3]) [] s'"
proof -
  have w: "\<forall>i < unat (3 :: u64). user_writable (mem ex_state) 0x87FFF000 (4090 + of_nat i)"
    using ex_writable by (auto simp: ex_state_def word_less_nat_alt unat_word_ariths unat_of_nat)
  show ?thesis
    using copyout_copyin_round_trip [OF ex_uvm_inv, of "[1, 2, 3]" 3 4090 "[]"] w by auto
qed

text \<open>
  C30: \<^verbatim>\<open>copyinstr\<close> returns 0 just if a NUL-terminated string of readable user bytes
  starts at the address and ends within \<open>max\<close> bytes; it then has stored the string
  with its NUL, and in every other case it returns -1.
\<close>

theorem copyinstr_fetches_string:
  assumes "uvm_inv s root F"
  shows "\<exists>r bs. copyinstr root va mx es s = Ret (r, bs) es s \<and>
    (r = 0 \<and> (\<exists>n < unat mx. user_string (mem s) root va n \<and> bs = user_bytes (mem s) root va (Suc n)) \<or>
     r = - 1 \<and> (\<forall>n < unat mx. \<not> user_string (mem s) root va n))"
  using copyinstr_loop_spec [OF assms order_refl, of mx "[]" va es] by (simp add: copyinstr_def)

theorem copyinstr_fetches_string_witness:
  "copyinstr 0x87FFF000 100 8 [] ex_state = Ret (0, [0]) [] ex_state"
proof -
  have u: "user_readable ex_mem 0x87FFF000 100" using ex_writable [of 100] by (simp add: user_writable_def)
  have st: "mem ex_state = ex_mem" by (simp add: ex_state_def)
  have b: "user_byte ex_mem 0x87FFF000 100 = 0"
  proof -
    have "PGROUNDDOWN 100 = 0" by (simp add: PGROUNDDOWN_def)
    then have "user_pa ex_mem 0x87FFF000 100 = 0x87FFC064"
      using ex_pt(3) [of 100] ex_flags_facts(2) by (simp add: user_pa_def MAXVA_eq)
    then show ?thesis
      by (simp add: user_byte_def ex_mem_def ex_mem2_def ex_mem1_def st64_def fill_page_def PX_def)
  qed
  have s0: "user_string ex_mem 0x87FFF000 100 0" using u b by (simp add: user_string_def)
  have only: "n = 0" if "user_string ex_mem 0x87FFF000 100 n" for n
    using that b by (cases n) (auto simp: user_string_def dest: spec [of _ 0])
  have "user_bytes ex_mem 0x87FFF000 100 (Suc 0) = [0]" using b by (simp add: user_bytes_def)
  then show ?thesis
    using copyinstr_fetches_string [OF ex_uvm_inv, of 100 8 "[]"] s0 unfolding st
    by (elim exE conjE disjE) (auto dest: only)
qed

text \<open>
  C17: Growing a process with \<^verbatim>\<open>uvmalloc\<close> either maps the \<open>n\<close> missing pages, each to a page
  that was free, readable as zero bytes and with the requested permissions, and
  returns the new size, or returns 0 with every page-table entry as before; in both
  cases the address space stays well formed, existing user bytes keep their
  values, and no page is lost: the free pages and the pages of this address space
  together are the same as before.
\<close>

theorem uvmalloc_all_or_nothing:
  assumes "uvm_inv s root F" and "page_aligned (PGROUNDUP oldsz)" and "oldsz \<le> newsz"
    and "unat (PGROUNDUP oldsz) + 4096 * n \<le> unat TRAPFRAME"
    and "unat newsz \<le> unat (PGROUNDUP oldsz) + 4096 * n"
    and "0 < n \<longrightarrow> unat (PGROUNDUP oldsz) + 4096 * (n - 1) < unat newsz"
    and "\<forall>va. in_range (PGROUNDUP oldsz) n va \<longrightarrow> pte_of (mem s) root va = 0"
    and "xperm = 0 \<or> xperm = PTE_W \<or> xperm = PTE_X \<or> xperm = PTE_W OR PTE_X"
  shows "\<exists>r s' F'. uvmalloc root oldsz newsz xperm es s = Ret r es s' \<and> uvm_inv s' root F' \<and>
    F' \<union> space (mem s') root = F \<union> space (mem s) root \<and>
    (r = newsz \<and>
       (\<forall>va. in_range (PGROUNDUP oldsz) n va \<longrightarrow>
          (\<exists>p \<in> F. pte_of (mem s') root va = PA2PTE p OR (PTE_R OR PTE_U OR xperm) OR PTE_V) \<and>
          user_byte (mem s') root va = 0) \<and>
       (\<forall>va < MAXVA. \<not> in_range (PGROUNDUP oldsz) n va \<longrightarrow> pte_of (mem s') root va = pte_of (mem s) root va)
     \<or> r = 0 \<and> (\<forall>va < MAXVA. pte_of (mem s') root va = pte_of (mem s) root va)) \<and>
    (\<forall>va. mapped (mem s) root va \<longrightarrow> user_byte (mem s') root va = user_byte (mem s) root va)"
proof -
  let ?perm = "PTE_R OR PTE_U OR xperm" and ?a = "PGROUNDUP oldsz"
  have lt: "?perm < 0x400" using assms(8) by (auto simp: pte_bit_defs)
  have u: "?perm AND PTE_U \<noteq> 0"
    using assms(8) by (auto simp: pte_bit_defs)
  have n: "n < Suc (Suc (unat newsz div 4096))"
  proof (cases n)
    case (Suc k)
    then have "4096 * k < unat newsz" using assms(6) by simp
    then have "k \<le> unat newsz div 4096" by (simp add: div_le_mono [of "4096 * k" "unat newsz" 4096, simplified])
    then show ?thesis using Suc by simp
  qed simp
  have e0: "?a = ?a + 4096 * of_nat 0" and t: "unat ?a + 4096 * (0 + n) \<le> unat TRAPFRAME"
    and rng: "\<forall>va. in_range ?a 0 va \<longrightarrow> pte_leaf (pte_of (mem s) root va)"
    and pos: "0 < n \<Longrightarrow> unat ?a + 4096 * (n - 1) < unat newsz"
    using assms(4,6) by simp_all
  obtain r s' F' where go: "uvmalloc_loop (Suc (Suc (unat newsz div 4096))) root ?a newsz ?a xperm es s = Ret r es s'"
      "r = newsz \<and> grown s s' root F F' ?a n ?perm \<or> r = 0 \<and> undone s s' root F F' ?a 0"
    using uvmalloc_loop_spec [OF assms(1,2) e0 t rng assms(7,5) pos n refl lt u, of es] by blast
  have run: "uvmalloc root oldsz newsz xperm es s = Ret r es s'"
    using go(1) assms(3) by (simp add: uvmalloc_def not_less [symmetric] del: uvmalloc_loop.simps)
  from go(2) show ?thesis
  proof
    assume "r = newsz \<and> grown s s' root F F' ?a n ?perm"
    then show ?thesis using run unfolding grown_def by blast
  next
    assume h: "r = 0 \<and> undone s s' root F F' ?a 0"
    then have pte: "\<forall>va < MAXVA. pte_of (mem s') root va = pte_of (mem s) root va" using undone_0 by blast
    then have "mapped (mem s') root va" if "mapped (mem s) root va" for va
      using that below_TRAPFRAME by (simp add: mapped_def)
    then show ?thesis using h run pte unfolding undone_def by auto
  qed
qed

theorem uvmalloc_all_or_nothing_witness:
  "\<exists>s'. uvmalloc 0x87FFF000 4096 5000 PTE_W [] ex_room = Ret 5000 [] s' \<and>
     pte_of (mem s') 0x87FFF000 4096 = PA2PTE 0x87FFB000 OR (PTE_R OR PTE_U OR PTE_W) OR PTE_V \<and>
     user_byte (mem s') 0x87FFF000 4096 = 0"
proof -
  have up: "PGROUNDUP 4096 = (4096 :: u64)" by (simp add: PGROUNDUP_def)
  have un: "\<forall>va. in_range 4096 1 va \<longrightarrow> pte_of (mem ex_room) 0x87FFF000 va = 0"
    using ex_unmapped by (simp add: ex_room_def ex_state_def)
  have al: "page_aligned (4096 :: u64)" by (simp add: page_aligned_unat)
  have le: "(4096 :: u64) \<le> 5000" by simp
  have t: "unat (4096 :: u64) + 4096 * 1 \<le> unat TRAPFRAME" by (simp add: unat_TRAPFRAME)
  have n: "unat (5000 :: u64) \<le> unat (4096 :: u64) + 4096 * 1"
    "0 < (1 :: nat) \<longrightarrow> unat (4096 :: u64) + 4096 * (1 - 1) < unat (5000 :: u64)" by simp_all
  have rg: "in_range 4096 1 4096" by (simp add: in_range_def)
  obtain s1 where run: "uvmalloc 0x87FFF000 4096 5000 PTE_W [] ex_room = Ret 5000 [] s1" using uvmalloc_room by blast
  obtain r s' F' where s': "uvmalloc 0x87FFF000 4096 5000 PTE_W [] ex_room = Ret r [] s'"
      "r = 5000 \<and> (\<forall>va. in_range 4096 1 va \<longrightarrow>
          (\<exists>p \<in> {0x87FFB000}. pte_of (mem s') 0x87FFF000 va = PA2PTE p OR (PTE_R OR PTE_U OR PTE_W) OR PTE_V) \<and>
          user_byte (mem s') 0x87FFF000 va = 0) \<or> r = 0"
    using uvmalloc_all_or_nothing [OF ex_room_inv, of 4096 5000 1 PTE_W "[]", unfolded up, OF al le t n un] by blast
  then show ?thesis using run rg by auto
qed

end
