(* ===== verification/Proc.thy ===== *)
theory Proc
  imports Printf Uvm
begin

text \<open>
  \<^verbatim>\<open>kernel/proc.h\<close> and the part of \<^verbatim>\<open>kernel/proc.c\<close> below the file system: the
  process table, allocation and release of processes, the scheduler, sleep and
  wakeup, kill, wait, and the per-priority process lists.

  A pointer to a process is an index into the table, \<open>None\<close> for null; following a
  null pointer is \<open>kundef\<close>.  \<^verbatim>\<open>swtch\<close> gives the processor away: the hart waits, and
  what runs meanwhile is the environment.  The trapframe page is in memory.
\<close>

subsection \<open>proc.h\<close>

datatype procstate = UNUSED | USED | SLEEPING | RUNNABLE | RUNNING | ZOMBIE

text \<open>Every address that serves as a sleep channel.\<close>

datatype chan =
    ChanProc nat           \<comment> \<open>\<^verbatim>\<open>sleep(p, ..)\<close> in \<^verbatim>\<open>wait\<close>\<close>
  | ChanTicks              \<comment> \<open>\<^verbatim>\<open>&ticks\<close>\<close>
  | ChanConsR              \<comment> \<open>\<^verbatim>\<open>&cons.r\<close>\<close>
  | ChanUartTxR            \<comment> \<open>\<^verbatim>\<open>&uart_tx_r\<close>\<close>
  | ChanPipeRead u64 | ChanPipeWrite u64
  | ChanSleep sleeplockid
  | ChanLog                \<comment> \<open>\<^verbatim>\<open>&log\<close>\<close>
  | ChanDiskFree           \<comment> \<open>\<^verbatim>\<open>&disk.free[0]\<close>\<close>
  | ChanBuf nat            \<comment> \<open>the buffer \<^verbatim>\<open>b\<close> in \<^verbatim>\<open>virtio_disk_rw\<close>\<close>

record proc =
  pstate :: procstate
  pchan :: "chan option"
  pkilled :: bool
  xstate :: u32
  pid :: int
  parent :: "nat option"
  kstack :: u64
  psz :: u64
  pagetable :: u64
  trapframe :: u64
  pcontext :: swtch_context
  ofile :: "nat \<Rightarrow> nat option"
  cwd :: "nat option"
  pname :: bytes
  priority :: nat
  next_p_priority :: "nat option"

record priorities_control =
  present :: "nat \<Rightarrow> u32"
  head_priority :: "nat \<Rightarrow> nat option"
  current_priority :: "nat \<Rightarrow> nat option"

text \<open>Offsets in \<^verbatim>\<open>struct trapframe\<close>.\<close>

definition TF_kernel_satp :: u64 where [simp]: "TF_kernel_satp = 0"
definition TF_kernel_sp :: u64 where [simp]: "TF_kernel_sp = 8"
definition TF_kernel_trap :: u64 where [simp]: "TF_kernel_trap = 16"
definition TF_epc :: u64 where [simp]: "TF_epc = 24"
definition TF_kernel_hartid :: u64 where [simp]: "TF_kernel_hartid = 32"
definition TF_sp :: u64 where [simp]: "TF_sp = 48"
definition TF_a0 :: u64 where [simp]: "TF_a0 = 112"
definition TF_a1 :: u64 where [simp]: "TF_a1 = 120"
definition TF_a7 :: u64 where [simp]: "TF_a7 = 168"
definition TF_size :: nat where [simp]: "TF_size = 288"

record proc_state = uart_state +
  procs :: "nat \<Rightarrow> proc"
  initproc :: "nat option"
  nextpid :: int
  p_control :: priorities_control
  forkret_addr :: u64      \<comment> \<open>the address of \<^verbatim>\<open>forkret\<close>\<close>

subsection \<open>Access\<close>

definition pget :: "nat \<Rightarrow> (proc \<Rightarrow> 'a) \<Rightarrow> ('z proc_state_scheme, 'a) kmon" where
  "pget p f = kget (\<lambda>s. f (procs s p))"

definition pset :: "nat \<Rightarrow> (proc \<Rightarrow> proc) \<Rightarrow> ('z proc_state_scheme, unit) kmon" where
  "pset p f = kmodify (\<lambda>s. s\<lparr>procs := (procs s)(p := f (procs s p))\<rparr>)"

definition pcset :: "(priorities_control \<Rightarrow> priorities_control) \<Rightarrow> ('z proc_state_scheme, unit) kmon" where
  "pcset f = kmodify (\<lambda>s. s\<lparr>p_control := f (p_control s)\<rparr>)"

definition deref :: "'p option \<Rightarrow> ('p \<Rightarrow> ('s, 'a) kmon) \<Rightarrow> ('s, 'a) kmon" where
  "deref p f = (case p of None \<Rightarrow> kundef | Some i \<Rightarrow> f i)"

definition le32 :: "u32 \<Rightarrow> bytes" where
  "le32 w = [ucast w, ucast (drop_bit 8 w), ucast (drop_bit 16 w), ucast (drop_bit 24 w)]"

subsection \<open>Initialisation\<close>

definition procinit :: "('z proc_state_scheme, unit) kmon" where
  "procinit = kseq [
     initlock PidLock ''nextpid'',
     initlock WaitLock ''wait_lock'',
     kfor [0..<NPROC] (\<lambda>p. kseq [
       initlock (ProcLock p) ''proc'',
       pset p (\<lambda>r. r\<lparr>pstate := UNUSED\<rparr>),
       pset p (\<lambda>r. r\<lparr>kstack := KSTACK p\<rparr>),
       pset p (\<lambda>r. r\<lparr>priority := 1\<rparr>),
       pset p (\<lambda>r. r\<lparr>next_p_priority := None\<rparr>)])]"

definition myproc :: "('z lock_state_scheme, nat option) kmon" where
  "myproc =
     kbind push_off (\<lambda>_.
     kbind mycpu (\<lambda>c.
     kbind (cpu_get c) (\<lambda>cp.
     kbind pop_off (\<lambda>_.
     kret (cpu_proc cp)))))"

definition allocpid :: "('z proc_state_scheme, int) kmon" where
  "allocpid =
     kbind (acquire PidLock) (\<lambda>_.
     kbind (kget nextpid) (\<lambda>p.
     kbind (c_inc p (\<lambda>n. kmodify (\<lambda>s. s\<lparr>nextpid := n\<rparr>))) (\<lambda>_.
     kbind (release PidLock) (\<lambda>_.
     kret p))))"

subsection \<open>Priority lists\<close>

definition init_priority_control :: "('z proc_state_scheme, unit) kmon" where
  "init_priority_control = kseq [
     initlock PriorityLock ''priority_lock'',
     kfor [0..<MAXPRIORITY] (\<lambda>i. kseq [
       pcset (\<lambda>c. c\<lparr>head_priority := (head_priority c)(i := None)\<rparr>),
       pcset (\<lambda>c. c\<lparr>present := (present c)(i := 0)\<rparr>),
       pcset (\<lambda>c. c\<lparr>current_priority := (current_priority c)(i := None)\<rparr>)])]"

definition set_priority :: "int \<Rightarrow> nat \<Rightarrow> ('z proc_state_scheme, unit) kmon" where
  "set_priority prio p =
     (if prio > int MAXPRIORITY \<or> prio < 0 then kpanic ''Priority nos alowed''
      else pset p (\<lambda>r. r\<lparr>priority := nat prio\<rparr>))"

text \<open>
  \<^verbatim>\<open>while(aux_p->next_p_priority != NULL) aux_p = aux_p->next_p_priority;\<close>  There are
  \<^const>\<open>NPROC\<close> processes, so a walk that has not ended after \<^const>\<open>NPROC\<close> steps goes
  in a circle.
\<close>

primrec list_last :: "nat \<Rightarrow> nat \<Rightarrow> ('z proc_state_scheme, nat) kmon" where
  "list_last 0 aux = kdiverge"
| "list_last (Suc n) aux =
     kbind (pget aux next_p_priority) (\<lambda>nx. case nx of None \<Rightarrow> kret aux | Some a \<Rightarrow> list_last n a)"

definition add_process_priority :: "nat \<Rightarrow> nat \<Rightarrow> ('z proc_state_scheme, unit) kmon" where
  "add_process_priority p prio =
     (if prio \<ge> MAXPRIORITY then kundef else
      kbind (kget (\<lambda>s. head_priority (p_control s) prio)) (\<lambda>hd.
      case hd of
        None \<Rightarrow> pcset (\<lambda>c. c\<lparr>head_priority := (head_priority c)(prio := Some p)\<rparr>)
      | Some h \<Rightarrow> kbind (list_last NPROC h) (\<lambda>aux.
          pset aux (\<lambda>r. r\<lparr>next_p_priority := Some p\<rparr>))))"

text \<open>\<^verbatim>\<open>while(p_aux->next_p_priority != p) p_aux = p_aux->next_p_priority;\<close>\<close>

primrec list_pred :: "nat \<Rightarrow> nat \<Rightarrow> nat option \<Rightarrow> ('z proc_state_scheme, nat) kmon" where
  "list_pred 0 p aux = kdiverge"
| "list_pred (Suc n) p aux =
     deref aux (\<lambda>a.
     kbind (pget a next_p_priority) (\<lambda>nx. if nx = Some p then kret a else list_pred n p nx))"

definition free_process_priority :: "nat \<Rightarrow> ('z proc_state_scheme, int) kmon" where
  "free_process_priority p =
     kbind (pget p priority) (\<lambda>prio.
     if prio \<ge> MAXPRIORITY then kundef else
     kbind (kget (\<lambda>s. head_priority (p_control s) prio)) (\<lambda>p_aux.
     kbind (pget p next_p_priority) (\<lambda>nx.
     kbind
       (if p_aux = Some p then
          (if nx = None then kseq [
             pcset (\<lambda>c. c\<lparr>present := (present c)(prio := 0)\<rparr>),
             pcset (\<lambda>c. c\<lparr>head_priority := (head_priority c)(prio := None)\<rparr>)]
           else kseq [
             pcset (\<lambda>c. c\<lparr>head_priority := (head_priority c)(prio := nx)\<rparr>),
             pset p (\<lambda>r. r\<lparr>next_p_priority := None\<rparr>)])
        else
          kbind (list_pred (Suc NPROC) p p_aux) (\<lambda>a. kseq [
            kbind (pget p next_p_priority) (\<lambda>nx'. pset a (\<lambda>r. r\<lparr>next_p_priority := nx'\<rparr>)),
            pset p (\<lambda>r. r\<lparr>next_p_priority := None\<rparr>)])) (\<lambda>_.
     kret 0))))"

subsection \<open>Page tables of processes\<close>

definition proc_pagetable :: "nat \<Rightarrow> ('z proc_state_scheme, u64) kmon" where
  "proc_pagetable p =
     kbind uvmcreate (\<lambda>pt.
     if pt = 0 then kret 0 else
     kbind (kget trampoline) (\<lambda>tr.
     kbind (mappages pt TRAMPOLINE PGSIZE tr (PTE_R OR PTE_X)) (\<lambda>r.
     if r < 0 then kbind (uvmfree pt 0) (\<lambda>_. kret 0) else
     kbind (pget p trapframe) (\<lambda>tf.
     kbind (mappages pt TRAPFRAME PGSIZE tf (PTE_R OR PTE_W)) (\<lambda>r2.
     if r2 < 0 then
       kbind (uvmunmap pt TRAMPOLINE 1 False) (\<lambda>_.
       kbind (uvmfree pt 0) (\<lambda>_. kret 0))
     else kret pt)))))"

definition proc_freepagetable :: "u64 \<Rightarrow> u64 \<Rightarrow> ('z mem_state_scheme, unit) kmon" where
  "proc_freepagetable pt sz = kseq [
     uvmunmap pt TRAMPOLINE 1 False,
     uvmunmap pt TRAPFRAME 1 False,
     uvmfree pt sz]"

subsection \<open>Allocating and freeing a process\<close>

definition freeproc :: "nat \<Rightarrow> ('z proc_state_scheme, unit) kmon" where
  "freeproc p =
     kbind (pget p trapframe) (\<lambda>tf.
     kbind (kwhen (tf \<noteq> 0) (kfree tf)) (\<lambda>_.
     kbind (pset p (\<lambda>r. r\<lparr>trapframe := 0\<rparr>)) (\<lambda>_.
     kbind (pget p pagetable) (\<lambda>pt.
     kbind (pget p psz) (\<lambda>sz.
     kseq [
       kwhen (pt \<noteq> 0) (proc_freepagetable pt sz),
       pset p (\<lambda>r. r\<lparr>pagetable := 0\<rparr>),
       pset p (\<lambda>r. r\<lparr>psz := 0\<rparr>),
       pset p (\<lambda>r. r\<lparr>pid := 0\<rparr>),
       pset p (\<lambda>r. r\<lparr>parent := None\<rparr>),
       pset p (\<lambda>r. r\<lparr>pname := (pname r)[0 := 0]\<rparr>),
       pset p (\<lambda>r. r\<lparr>pchan := None\<rparr>),
       pset p (\<lambda>r. r\<lparr>pkilled := False\<rparr>),
       pset p (\<lambda>r. r\<lparr>xstate := 0\<rparr>),
       pset p (\<lambda>r. r\<lparr>pstate := UNUSED\<rparr>)])))))"

text \<open>The search loop of \<^verbatim>\<open>allocproc\<close>, which leaves with the lock of the slot held.\<close>

definition allocproc_find :: "('z proc_state_scheme, nat option) kmon" where
  "allocproc_find = kfind [0..<NPROC] (\<lambda>p.
     kbind (acquire (ProcLock p)) (\<lambda>_.
     kbind (pget p pstate) (\<lambda>st.
     if st = UNUSED then kret (Some p)
     else kbind (release (ProcLock p)) (\<lambda>_. kret None))))"

definition zero_context :: swtch_context where
  "zero_context = \<lparr>ctx_ra = 0, ctx_sp = 0, ctx_s = (\<lambda>_. 0)\<rparr>"

definition allocproc :: "nat \<Rightarrow> ('z proc_state_scheme, nat option) kmon" where
  "allocproc prio =
     kbind allocproc_find (\<lambda>found.
     case found of None \<Rightarrow> kret None | Some p \<Rightarrow>
     kbind allocpid (\<lambda>np.
     kbind (pset p (\<lambda>r. r\<lparr>pid := np\<rparr>)) (\<lambda>_.
     kbind (pset p (\<lambda>r. r\<lparr>pstate := USED\<rparr>)) (\<lambda>_.
     kbind kalloc (\<lambda>tf.
     kbind (pset p (\<lambda>r. r\<lparr>trapframe := tf\<rparr>)) (\<lambda>_.
     if tf = 0 then
       kbind (freeproc p) (\<lambda>_. kbind (release (ProcLock p)) (\<lambda>_. kret None))
     else
     kbind (proc_pagetable p) (\<lambda>pt.
     kbind (pset p (\<lambda>r. r\<lparr>pagetable := pt\<rparr>)) (\<lambda>_.
     if pt = 0 then
       kbind (freeproc p) (\<lambda>_. kbind (release (ProcLock p)) (\<lambda>_. kret None))
     else
     kbind (kget forkret_addr) (\<lambda>fr.
     kbind (kseq [
       pset p (\<lambda>r. r\<lparr>priority := prio\<rparr>),
       acquire PriorityLock,
       if prio \<ge> MAXPRIORITY then kundef
       else pcset (\<lambda>c. c\<lparr>present := (present c)(prio := 1)\<rparr>),
       add_process_priority p prio,
       release PriorityLock,
       pset p (\<lambda>r. r\<lparr>pcontext := zero_context\<rparr>),
       pset p (\<lambda>r. r\<lparr>pcontext := (pcontext r)\<lparr>ctx_ra := fr\<rparr>\<rparr>),
       pset p (\<lambda>r. r\<lparr>pcontext := (pcontext r)\<lparr>ctx_sp := kstack r + PGSIZE\<rparr>\<rparr>)]) (\<lambda>_.
     kret (Some p)))))))))))"

definition growproc :: "u32 \<Rightarrow> ('z proc_state_scheme, int) kmon" where
  "growproc n =
     kbind myproc (\<lambda>mp. deref mp (\<lambda>p.
     kbind (pget p psz) (\<lambda>sz.
     kbind (pget p pagetable) (\<lambda>pt.
     if sint n > 0 then
       kbind (uvmalloc pt sz (sz + scast n) PTE_W) (\<lambda>sz'.
       if sz' = 0 then kret (-1)
       else kbind (pset p (\<lambda>r. r\<lparr>psz := sz'\<rparr>)) (\<lambda>_. kret 0))
     else if sint n < 0 then
       kbind (uvmdealloc pt sz (sz + scast n)) (\<lambda>sz'.
       kbind (pset p (\<lambda>r. r\<lparr>psz := sz'\<rparr>)) (\<lambda>_. kret 0))
     else kbind (pset p (\<lambda>r. r\<lparr>psz := sz\<rparr>)) (\<lambda>_. kret 0)))))"

subsection \<open>The scheduler\<close>

text \<open>\<^verbatim>\<open>swtch\<close> away from this thread, until it is switched to again.\<close>

definition swtch :: "('s, unit) kmon" where
  "swtch = kwait"

definition sched :: "('z proc_state_scheme, unit) kmon" where
  "sched =
     kbind myproc (\<lambda>mp. deref mp (\<lambda>p.
     kbind (holding (ProcLock p)) (\<lambda>h.
     if \<not> h then kpanic ''sched p->lock'' else
     kbind mycpu (\<lambda>c.
     kbind (cpu_get c) (\<lambda>cp.
     if noff cp \<noteq> 1 then kpanic ''sched locks'' else
     kbind (pget p pstate) (\<lambda>st.
     if st = RUNNING then kpanic ''sched running'' else
     kbind intr_get (\<lambda>on.
     if on then kpanic ''sched interruptible'' else
     kbind swtch (\<lambda>_.
     kbind mycpu (\<lambda>c'.
     cpu_set c' (\<lambda>q. q\<lparr>intena := intena cp\<rparr>))))))))))"

definition yield :: "('z proc_state_scheme, unit) kmon" where
  "yield =
     kbind myproc (\<lambda>mp. deref mp (\<lambda>p. kseq [
       acquire (ProcLock p),
       pset p (\<lambda>r. r\<lparr>pstate := RUNNABLE\<rparr>),
       sched,
       release (ProcLock p)]))"

text \<open>One process of the scheduler's loop over the table; the result is \<^verbatim>\<open>found\<close>.\<close>

definition scheduler_visit :: "nat \<Rightarrow> nat \<Rightarrow> ('z proc_state_scheme, bool) kmon" where
  "scheduler_visit c p =
     kbind (acquire (ProcLock p)) (\<lambda>_.
     kbind (pget p pstate) (\<lambda>st.
     kbind
       (if st \<noteq> RUNNABLE then kret False else
        kbind (pget p pname) (\<lambda>nm.
        kbind (pget p priority) (\<lambda>prio.
        kbind (printf (''The process is %s and the priority is %d'' @ [CHR 0x0A])
                 [AStr (Some nm), AWord (of_nat prio)]) (\<lambda>_.
        kbind (pget p next_p_priority) (\<lambda>nx.
        kbind (case nx of None \<Rightarrow> kret () | Some q \<Rightarrow>
          kbind (pget q pname) (\<lambda>nm2.
          kbind (printf (''The next process of priority is %s '' @ [CHR 0x0A]) [AStr (Some nm2)]) (\<lambda>_.
          kbind (printf [CHR 0x0A] []) (\<lambda>_.
          kret ())))) (\<lambda>_.
        kbind (kseq [
          pset p (\<lambda>r. r\<lparr>pstate := RUNNING\<rparr>),
          cpu_set c (\<lambda>q. q\<lparr>cpu_proc := Some p\<rparr>),
          swtch,
          cpu_set c (\<lambda>q. q\<lparr>cpu_proc := None\<rparr>)]) (\<lambda>_.
        kret True))))))) (\<lambda>found.
     kbind (release (ProcLock p)) (\<lambda>_.
     kret found))))"

primrec scheduler_scan :: "nat list \<Rightarrow> nat \<Rightarrow> bool \<Rightarrow> ('z proc_state_scheme, bool) kmon" where
  "scheduler_scan [] c found = kret found"
| "scheduler_scan (p # ps) c found =
     kbind (scheduler_visit c p) (\<lambda>f. scheduler_scan ps c (found \<or> f))"

text \<open>
  The endless loop of the scheduler, cut after \<open>n\<close> rounds; \<^verbatim>\<open>wfi\<close> waits.
\<close>

primrec scheduler_loop :: "nat \<Rightarrow> nat \<Rightarrow> ('z proc_state_scheme, unit) kmon" where
  "scheduler_loop 0 c = kdiverge"
| "scheduler_loop (Suc n) c =
     kbind intr_on (\<lambda>_.
     kbind (scheduler_scan [0..<NPROC] c False) (\<lambda>found.
     kbind (if found then kret () else kseq [intr_on, kwait]) (\<lambda>_.
     scheduler_loop n c)))"

definition scheduler :: "nat \<Rightarrow> ('z proc_state_scheme, unit) kmon" where
  "scheduler n =
     kbind mycpu (\<lambda>c.
     kbind (cpu_set c (\<lambda>q. q\<lparr>cpu_proc := None\<rparr>)) (\<lambda>_.
     scheduler_loop n c))"

subsection \<open>Sleep, wakeup and kill\<close>

definition sleep :: "chan option \<Rightarrow> lockid \<Rightarrow> ('z proc_state_scheme, unit) kmon" where
  "sleep ch lk =
     kbind myproc (\<lambda>mp. deref mp (\<lambda>p. kseq [
       acquire (ProcLock p),
       release lk,
       pset p (\<lambda>r. r\<lparr>pchan := ch\<rparr>),
       pset p (\<lambda>r. r\<lparr>pstate := SLEEPING\<rparr>),
       sched,
       pset p (\<lambda>r. r\<lparr>pchan := None\<rparr>),
       release (ProcLock p),
       acquire lk]))"

definition wakeup :: "chan option \<Rightarrow> ('z proc_state_scheme, unit) kmon" where
  "wakeup ch = kfor [0..<NPROC] (\<lambda>p.
     kbind myproc (\<lambda>mp.
     kwhen (mp \<noteq> Some p) (kseq [
       acquire (ProcLock p),
       kbind (kget (\<lambda>s. procs s p)) (\<lambda>r.
         kwhen (pstate r = SLEEPING \<and> pchan r = ch) (pset p (\<lambda>r. r\<lparr>pstate := RUNNABLE\<rparr>))),
       release (ProcLock p)])))"

definition kill :: "int \<Rightarrow> ('z proc_state_scheme, int) kmon" where
  "kill kpid =
     kbind (kfind [0..<NPROC] (\<lambda>p.
       kbind (acquire (ProcLock p)) (\<lambda>_.
       kbind (pget p pid) (\<lambda>i.
       if i = kpid then
         kbind (kseq [
           pset p (\<lambda>r. r\<lparr>pkilled := True\<rparr>),
           kbind (pget p pstate) (\<lambda>st.
             kwhen (st = SLEEPING) (pset p (\<lambda>r. r\<lparr>pstate := RUNNABLE\<rparr>))),
           release (ProcLock p)]) (\<lambda>_. kret (Some (0 :: int)))
       else kbind (release (ProcLock p)) (\<lambda>_. kret None))))) (\<lambda>r.
     kret (case r of None \<Rightarrow> - 1 | Some v \<Rightarrow> v))"

definition setkilled :: "nat \<Rightarrow> ('z proc_state_scheme, unit) kmon" where
  "setkilled p = kseq [
     acquire (ProcLock p),
     pset p (\<lambda>r. r\<lparr>pkilled := True\<rparr>),
     release (ProcLock p)]"

definition killed :: "nat \<Rightarrow> ('z proc_state_scheme, bool) kmon" where
  "killed p =
     kbind (acquire (ProcLock p)) (\<lambda>_.
     kbind (pget p pkilled) (\<lambda>k.
     kbind (release (ProcLock p)) (\<lambda>_.
     kret k)))"

subsection \<open>Children\<close>

definition reparent :: "nat \<Rightarrow> ('z proc_state_scheme, unit) kmon" where
  "reparent p = kfor [0..<NPROC] (\<lambda>pp.
     kbind (pget pp parent) (\<lambda>par.
     kwhen (par = Some p) (kbind (kget initproc) (\<lambda>ip. kseq [
       pset pp (\<lambda>r. r\<lparr>parent := ip\<rparr>),
       wakeup (map_option ChanProc ip)]))))"

text \<open>
  The scan of \<^verbatim>\<open>wait\<close> over the table: \<open>Inl r\<close> if it returns \<open>r\<close>, otherwise \<^verbatim>\<open>havekids\<close>.
\<close>

primrec wait_scan :: "nat list \<Rightarrow> nat \<Rightarrow> u64 \<Rightarrow> bool \<Rightarrow> ('z proc_state_scheme, int + bool) kmon" where
  "wait_scan [] p addr havekids = kret (Inr havekids)"
| "wait_scan (pp # pps) p addr havekids =
     kbind (pget pp parent) (\<lambda>par.
     if par \<noteq> Some p then wait_scan pps p addr havekids else
     kbind (acquire (ProcLock pp)) (\<lambda>_.
     kbind (kget (\<lambda>s. procs s pp)) (\<lambda>r.
     if pstate r \<noteq> ZOMBIE then
       kbind (release (ProcLock pp)) (\<lambda>_. wait_scan pps p addr True)
     else
       kbind (pget p pagetable) (\<lambda>pt.
       kbind (if addr \<noteq> 0 then copyout pt addr (le32 (xstate r)) 4 else kret 0) (\<lambda>c.
       if addr \<noteq> 0 \<and> c < 0 then
         kbind (kseq [release (ProcLock pp), release WaitLock]) (\<lambda>_. kret (Inl (- 1)))
       else
         kbind (kseq [freeproc pp, release (ProcLock pp), release WaitLock]) (\<lambda>_.
         kret (Inl (pid r))))))))"

definition wait :: "u64 \<Rightarrow> ('z proc_state_scheme, int) kmon" where
  "wait addr =
     kbind myproc (\<lambda>mp. deref mp (\<lambda>p.
     kbind (acquire WaitLock) (\<lambda>_.
     kwaitloop (
       kbind (wait_scan [0..<NPROC] p addr False) (\<lambda>r.
       case r of
         Inl v \<Rightarrow> kret (Some v)
       | Inr havekids \<Rightarrow>
           kbind (if havekids then killed p else kret True) (\<lambda>stop.
           if stop then kbind (release WaitLock) (\<lambda>_. kret (Some (- 1)))
           else kbind (sleep (Some (ChanProc p)) WaitLock) (\<lambda>_. kret None)))))))"

subsection \<open>Copies between a kernel buffer and the user or the kernel\<close>

text \<open>
  The destination of \<^verbatim>\<open>either_copyout\<close>: a user address, an address of kernel memory,
  or a variable on the kernel stack, whose new contents the caller keeps.
\<close>

datatype dest = UserDst u64 | KernDst u64 | LocalDst

datatype source = UserSrc u64 | KernSrc u64 | LocalSrc bytes

definition either_copyout :: "dest \<Rightarrow> bytes \<Rightarrow> u64 \<Rightarrow> ('z proc_state_scheme, int) kmon" where
  "either_copyout dst src len =
     kbind myproc (\<lambda>mp.
     case dst of
       UserDst va \<Rightarrow> deref mp (\<lambda>p. kbind (pget p pagetable) (\<lambda>pt. copyout pt va src len))
     | KernDst a \<Rightarrow> kbind (mem_put a (take (unat len) src)) (\<lambda>_. kret 0)
     | LocalDst \<Rightarrow> kret 0)"

definition either_copyin :: "source \<Rightarrow> u64 \<Rightarrow> ('z proc_state_scheme, int \<times> bytes) kmon" where
  "either_copyin src len =
     kbind myproc (\<lambda>mp.
     case src of
       UserSrc va \<Rightarrow> deref mp (\<lambda>p. kbind (pget p pagetable) (\<lambda>pt. copyin pt va len))
     | KernSrc a \<Rightarrow> kbind (mem_take a (unat len)) (\<lambda>bs. kret (0, bs))
     | LocalSrc bs \<Rightarrow> kret (0, take (unat len) bs))"

definition dest_add :: "dest \<Rightarrow> u64 \<Rightarrow> dest" where
  "dest_add d k = (case d of UserDst a \<Rightarrow> UserDst (a + k) | KernDst a \<Rightarrow> KernDst (a + k) | LocalDst \<Rightarrow> LocalDst)"

definition source_add :: "source \<Rightarrow> u64 \<Rightarrow> source" where
  "source_add d k = (case d of UserSrc a \<Rightarrow> UserSrc (a + k) | KernSrc a \<Rightarrow> KernSrc (a + k)
     | LocalSrc bs \<Rightarrow> LocalSrc (drop (unat k) bs))"

subsection \<open>procdump\<close>

definition state_name :: "procstate \<Rightarrow> string" where
  "state_name st = (case st of UNUSED \<Rightarrow> ''unused'' | USED \<Rightarrow> ''used'' | SLEEPING \<Rightarrow> ''sleep ''
     | RUNNABLE \<Rightarrow> ''runble'' | RUNNING \<Rightarrow> ''run   '' | ZOMBIE \<Rightarrow> ''zombie'')"

definition procdump :: "('z proc_state_scheme, unit) kmon" where
  "procdump =
     kbind (printf [CHR 0x0A] []) (\<lambda>_.
     kfor [0..<NPROC] (\<lambda>p.
       kbind (kget (\<lambda>s. procs s p)) (\<lambda>r.
       if pstate r = UNUSED then kret () else
       kbind (printf ''%d %s %s'' [AWord (of_int (pid r)), AStr (Some (map of_char (state_name (pstate r)))),
                AStr (Some (pname r))]) (\<lambda>_.
       kbind (printf [CHR 0x0A] []) (\<lambda>_.
       kret ())))))"

end
