(* ===== verification/Proc_Correct.thy ===== *)
theory Proc_Correct
  imports Proc
begin

text \<open>
  What the operations of \<^verbatim>\<open>kernel/proc.c\<close> do: the current process, wakeup and kill,
  the checks of \<^verbatim>\<open>sched\<close>, the priority lists.  The run lemmas are for a hart whose
  locks are free when it asks for them; then nothing waits.
\<close>

subsection \<open>Short critical sections\<close>

definition cpu_ok :: "'z lock_state_scheme \<Rightarrow> bool" where
  "cpu_ok s \<longleftrightarrow> 0 \<le> noff (mycpu_of s) \<and> noff (mycpu_of s) < INT_MAX \<and> (intr_enabled s \<longrightarrow> noff (mycpu_of s) = 0)"

text \<open>The process that this hart runs.\<close>

abbreviation cur :: "'z lock_state_scheme \<Rightarrow> nat option" where
  "cur s \<equiv> cpu_proc (mycpu_of s)"

lemma lock_free_cpu_ok: "lock_free lk s \<Longrightarrow> cpu_ok s"
  by (simp add: lock_free_def cpu_ok_def)

lemma intr_saved_sel [simp]:
  "tp (intr_saved s) = tp s" "sstatus (intr_saved s) = sstatus s" "locks (intr_saved s) = locks s"
  "noff (cpus (intr_saved s) c) = noff (cpus s c)"
  "cpu_proc (cpus (intr_saved s) c) = cpu_proc (cpus s c)"
  by (simp_all add: intr_saved_def)

lemma intr_enabled_intr_saved [simp]: "intr_enabled (intr_saved s) = intr_enabled s"
  by (simp add: intr_enabled_def)

lemma intr_saved_idem [simp]: "intr_saved (intr_saved s) = intr_saved s"
  by (cases s) (auto simp: intr_saved_def intr_enabled_def)

lemma lock_free_saved [simp]: "lock_free lk (intr_saved s) = lock_free lk s"
  by (simp add: lock_free_def)

lemma cpu_ok_intr_saved [simp]: "cpu_ok (intr_saved s) = cpu_ok s"
  by (simp add: cpu_ok_def)

lemma popped_pushed:
  "cpu_ok s \<Longrightarrow> popped (pushed s) = intr_saved s"
  by (cases s) (auto simp: popped_def pushed_def intr_saved_def cpu_ok_def
      intr_enabled_def intr_bit_restore intr_bit_already_off)

lemma myproc_any:
  assumes "0 \<le> noff (mycpu_of s)" "noff (mycpu_of s) < INT_MAX"
  shows "myproc es s = Ret (cur s) es (popped (pushed s))"
proof -
  have "pop_off es (pushed s) = Ret () es (popped (pushed s))"
    using assms by (intro pop_off_run) (simp_all add: pushed_def intr_enabled_def)
  then show ?thesis
    using assms(2) by (simp add: myproc_def push_off_run cpu_op_defs) (simp add: pushed_def)
qed

lemma myproc_run: "cpu_ok s \<Longrightarrow> myproc es s = Ret (cur s) es (intr_saved s)"
  using myproc_any [of s es] popped_pushed [of s] by (simp add: cpu_ok_def)

subsection \<open>Updates of the process table under a lock\<close>

lemma intr_saved_procs [simp]:
  "procs (intr_saved s) = procs s" "intr_saved (s\<lparr>procs := f\<rparr>) = (intr_saved s)\<lparr>procs := f\<rparr>"
  by (simp_all add: intr_saved_def intr_enabled_def)

lemma lock_free_procs [simp]: "lock_free lk (s\<lparr>procs := f\<rparr>) = lock_free lk s"
  by (simp add: lock_free_def intr_enabled_def)

lemma entered_procs [simp]: "procs (entered lk s) = procs s"
  by (simp add: entered_def pushed_def)

lemma procs_same [simp]: "s\<lparr>procs := procs s\<rparr> = s" "(entered lk s)\<lparr>procs := procs s\<rparr> = entered lk s"
  by (cases s; simp add: entered_def pushed_def)+

lemma left_entered_procs:
  "lock_free lk s \<Longrightarrow> left lk ((entered lk s)\<lparr>procs := f\<rparr>) = (intr_saved s)\<lparr>procs := f\<rparr>"
  by (cases s) (auto simp: left_def entered_def pushed_def popped_def intr_saved_def lock_free_def
      intr_enabled_def intr_bit_restore intr_bit_already_off)

lemma locked_update:
  assumes "lock_free lk s"
  shows "kseq [acquire lk, kmodify (\<lambda>s. s\<lparr>procs := f (procs s)\<rparr>), release lk] es s =
    Ret () es ((intr_saved s)\<lparr>procs := f (procs s)\<rparr>)"
proof -
  have "lock_mine lk ((entered lk s)\<lparr>procs := f (procs (entered lk s))\<rparr>)"
    using lock_mine_entered [OF assms] by (simp add: lock_mine_def intr_enabled_def)
  then show ?thesis
    using spin.section_update [OF assms] left_entered_procs [OF assms] by simp
qed

text \<open>
  \<open>visit\<close>: lock a process, look at its record and change it accordingly.
\<close>

lemma locked_visit:
  assumes "lock_free (ProcLock p) s"
  shows "kseq [acquire (ProcLock p),
      kbind (kget (\<lambda>s. procs s p)) (\<lambda>r. kwhen (P r) (pset p g)),
      release (ProcLock p)] es s =
    Ret () es ((intr_saved s)\<lparr>procs := (procs s)(p := (if P (procs s p) then g (procs s p) else procs s p))\<rparr>)"
  (is "?m es s = _")
proof -
  have "?m es s = kseq [acquire (ProcLock p),
      kmodify (\<lambda>s. s\<lparr>procs := (procs s)(p := (if P (procs s p) then g (procs s p) else procs s p))\<rparr>),
      release (ProcLock p)] es s"
    using assms by (auto simp: acquire_run lock_free_def pset_def kwhen_def)
  also have "\<dots> = Ret () es ((intr_saved s)\<lparr>procs := (procs s)(p := (if P (procs s p) then g (procs s p) else procs s p))\<rparr>)"
    using locked_update [OF assms, of "\<lambda>f. f(p := (if P (f p) then g (f p) else f p))"] by simp
  finally show ?thesis .
qed

subsection \<open>Wakeup\<close>

definition wakes :: "chan option \<Rightarrow> proc \<Rightarrow> bool" where
  "wakes ch r \<longleftrightarrow> pstate r = SLEEPING \<and> pchan r = ch"

text \<open>The process table after \<^verbatim>\<open>wakeup(ch)\<close> by the process \<open>me\<close>, the first \<open>n\<close> entries visited.\<close>

definition woken :: "nat \<Rightarrow> chan option \<Rightarrow> nat option \<Rightarrow> (nat \<Rightarrow> proc) \<Rightarrow> nat \<Rightarrow> proc" where
  "woken n ch me f = (\<lambda>p. if p < n \<and> me \<noteq> Some p \<and> wakes ch (f p) then (f p)\<lparr>pstate := RUNNABLE\<rparr> else f p)"

lemma woken_self: "woken (Suc n) ch (Some n) f = woken n ch (Some n) f"
  by (auto simp: woken_def fun_eq_iff less_Suc_eq)

lemma woken_Suc:
  "me \<noteq> Some n \<Longrightarrow> woken (Suc n) ch me f =
     (woken n ch me f)(n := (if wakes ch (f n) then (f n)\<lparr>pstate := RUNNABLE\<rparr> else f n))"
  by (auto simp: woken_def fun_eq_iff less_Suc_eq)

definition others_free :: "nat option \<Rightarrow> 'z lock_state_scheme \<Rightarrow> bool" where
  "others_free me s \<longleftrightarrow> cpu_ok s \<and> (\<forall>p < NPROC. me \<noteq> Some p \<longrightarrow> lock_free (ProcLock p) s)"

lemma others_free_simps [simp]:
  "others_free me (intr_saved s) = others_free me s"
  "others_free me (s\<lparr>procs := f\<rparr>) = others_free me s"
  by (simp_all add: others_free_def cpu_ok_def intr_enabled_def)

lemma wakeup_run:
  assumes free: "others_free (cur s) s"
  shows "wakeup ch es s = Ret () es ((intr_saved s)\<lparr>procs := woken NPROC ch (cur s) (procs s)\<rparr>)"
proof -
  let ?S = "\<lambda>n. if n = 0 then s else (intr_saved s)\<lparr>procs := woken n ch (cur s) (procs s)\<rparr>"
  let ?t = "\<lambda>n. (intr_saved s)\<lparr>procs := woken n ch (cur s) (procs s)\<rparr>"
  have w0: "woken 0 ch (cur s) (procs s) = procs s" by (simp add: woken_def)
  have my: "myproc es (?S n) = Ret (cur s) es (?t n)" for n
    using free myproc_run [of "?S n" es] by (auto simp: others_free_def w0 cpu_ok_def intr_enabled_def)
  have "wakeup ch es (?S 0) = Ret () es (?S NPROC)"
    unfolding wakeup_def
  proof (rule kfor_states)
    fix n assume n: "n < NPROC"
    have wn: "woken n ch (cur s) (procs s) n = procs s n" by (simp add: woken_def)
    show "kbind myproc (\<lambda>mp. kwhen (mp \<noteq> Some n) (kseq [
         acquire (ProcLock n),
         kbind (kget (\<lambda>s. procs s n)) (\<lambda>r.
           kwhen (pstate r = SLEEPING \<and> pchan r = ch) (pset n (\<lambda>r. r\<lparr>pstate := RUNNABLE\<rparr>))),
         release (ProcLock n)])) es (?S n) = Ret () es (?S (Suc n))"
    proof (cases "cur s = Some n")
      case True
      then show ?thesis using my [of n] by (simp add: woken_self)
    next
      case False
      then have "lock_free (ProcLock n) (?t n)" using free n by (simp add: others_free_def)
      note visit = locked_visit [OF this, where P = "\<lambda>r. pstate r = SLEEPING \<and> pchan r = ch"
        and g = "\<lambda>r. r\<lparr>pstate := RUNNABLE\<rparr>" and es = es]
      have "?S (Suc n) = (intr_saved (?t n))\<lparr>procs := (procs (?t n))(n :=
          (if pstate (procs (?t n) n) = SLEEPING \<and> pchan (procs (?t n) n) = ch
           then (procs (?t n) n)\<lparr>pstate := RUNNABLE\<rparr> else procs (?t n) n))\<rparr>"
        using False by (simp add: woken_Suc wn wakes_def)
      with visit my [of n] False show ?thesis by (simp only: kbind_apply outcome.case kwhen_True simp_thms)
    qed
  qed
  then show ?thesis by simp
qed

text \<open>
  C22: With the locks of the other processes free, \<^verbatim>\<open>wakeup(ch)\<close> returns and makes
  runnable exactly the processes other than the caller that sleep on \<open>ch\<close>; every
  other process record, and everything else in the state but the saved interrupt
  flag of this CPU, is as before.
\<close>

theorem wakeup_wakes_exactly:
  assumes "others_free (cur s) s"
  shows "\<exists>f. wakeup ch es s = Ret () es ((intr_saved s)\<lparr>procs := f\<rparr>) \<and>
    (\<forall>p. if p < NPROC \<and> cur s \<noteq> Some p \<and> pstate (procs s p) = SLEEPING \<and> pchan (procs s p) = ch
         then f p = (procs s p)\<lparr>pstate := RUNNABLE\<rparr> else f p = procs s p)"
  using wakeup_run [OF assms, of ch es] by (auto simp: woken_def wakes_def)

text \<open>
  Inside a critical section: this hart holds \<open>lk\<close>, interrupts are off, and the locks
  of the processes are free.  There \<^verbatim>\<open>myproc\<close>, \<^verbatim>\<open>killed\<close> and \<^verbatim>\<open>wakeup\<close> leave no trace in
  the state of the CPU.
\<close>

definition in_section :: "lockid \<Rightarrow> 'z lock_state_scheme \<Rightarrow> bool" where
  "in_section lk s \<longleftrightarrow> lock_mine lk s \<and> (\<forall>p < NPROC. lock_free (ProcLock p) s)"

lemma section_saved:
  assumes "in_section lk s"
  shows "intr_saved s = s" "cpu_ok s" "others_free me s"
proof -
  have "noff (mycpu_of s) \<noteq> 0" "\<not> intr_enabled s" "0 \<le> noff (mycpu_of s)"
    using assms by (auto simp: in_section_def lock_mine_def)
  moreover have "noff (mycpu_of s) < INT_MAX"
    using assms by (auto simp: in_section_def lock_free_def dest: spec [of _ 0])
  ultimately show "intr_saved s = s" "cpu_ok s" by (cases s; simp add: intr_saved_def cpu_ok_def)+
  then show "others_free me s" using assms by (simp add: others_free_def in_section_def)
qed

lemma in_section_entered:
  assumes "lock_free lk s" "\<forall>p < NPROC. lock_free (ProcLock p) s" "\<And>p. lk \<noteq> ProcLock p"
    "noff (mycpu_of s) + 1 < INT_MAX"
  shows "in_section lk (entered lk s)"
  using assms lock_mine_entered [OF assms(1)]
  by (auto simp: in_section_def lock_free_def entered_def pushed_def intr_enabled_def)

lemma lock_mine_frame:
  "tp s' = tp s \<Longrightarrow> sstatus s' = sstatus s \<Longrightarrow> locks s' = locks s \<Longrightarrow>
   noff (mycpu_of s') = noff (mycpu_of s) \<Longrightarrow> lock_mine lk s' = lock_mine lk s"
  "tp s' = tp s \<Longrightarrow> sstatus s' = sstatus s \<Longrightarrow> locks s' = locks s \<Longrightarrow>
   noff (mycpu_of s') = noff (mycpu_of s) \<Longrightarrow> lock_free lk s' = lock_free lk s"
  by (simp_all add: lock_mine_def lock_free_def intr_enabled_def)

lemma in_section_frame:
  "tp s' = tp s \<Longrightarrow> sstatus s' = sstatus s \<Longrightarrow> locks s' = locks s \<Longrightarrow>
   noff (mycpu_of s') = noff (mycpu_of s) \<Longrightarrow> in_section lk s' = in_section lk s"
  using lock_mine_frame [of s' s] by (simp add: in_section_def)

lemma in_section_procs [simp]: "in_section lk (s\<lparr>procs := f\<rparr>) = in_section lk s"
  by (rule in_section_frame) simp_all

lemma myproc_section: "in_section lk s \<Longrightarrow> myproc es s = Ret (cur s) es s"
  using myproc_run [of s es] section_saved [of lk s] by simp

lemma wakeup_section:
  "in_section lk s \<Longrightarrow> wakeup ch es s = Ret () es (s\<lparr>procs := woken NPROC ch (cur s) (procs s)\<rparr>)"
  using wakeup_run [of s ch es] section_saved [of lk s] by simp

lemma killed_section:
  assumes "in_section lk s" "p < NPROC"
  shows "killed p es s = Ret (pkilled (procs s p)) es s"
proof -
  have free: "lock_free (ProcLock p) s" using assms by (simp add: in_section_def)
  show ?thesis
    using spin.section_read [OF free, of "\<lambda>s. pkilled (procs s p)" es] section_saved(1) [OF assms(1)]
    by (simp add: killed_def pget_def left_entered [OF free])
qed

lemma release_section: "in_section lk s \<Longrightarrow> release lk es s = Ret () es (left lk s)"
  by (simp add: in_section_def release_run)

text \<open>An idle machine; witnesses start from it.\<close>

definition ex_proc :: proc where
  "ex_proc = \<lparr>pstate = UNUSED, pchan = None, pkilled = False, xstate = 0, pid = 0, parent = None,
     kstack = 0, psz = 0, pagetable = 0, trapframe = 0, pcontext = zero_context, ofile = (\<lambda>_. None),
     cwd = None, pname = replicate 16 0, priority = 1, next_p_priority = None\<rparr>"

definition ex_proc_state :: proc_state where
  "ex_proc_state = \<lparr>tp = 0, sstatus = SSTATUS_SIE, cpus = (\<lambda>_. boot_cpu), locks = (\<lambda>_. boot_lock),
     mem = (\<lambda>_. 0), freelist = 0, kend = 0x80021000, kernel_pagetable = 0, satp = 0, etext = 0x80008000,
     trampoline = 0x80007000, uart_in = (\<lambda>_ _. LSR_TX_IDLE), uart_clock = 0, uart_writes = [],
     panicked = False, pr_locking = True, procs = (\<lambda>_. ex_proc), initproc = None, nextpid = 1,
     p_control = \<lparr>present = (\<lambda>_. 0), head_priority = (\<lambda>_. None), current_priority = (\<lambda>_. None)\<rparr>,
     forkret_addr = 0x80001000\<rparr>"

lemma lock_free_ex [simp]: "lock_free lk ex_proc_state"
  by (simp add: lock_free_def ex_proc_state_def boot_cpu_def boot_lock_def)

lemma ex_proc_state_free [simp]: "others_free me ex_proc_state"
  by (auto simp: others_free_def intro: lock_free_cpu_ok [OF lock_free_ex])

lemma ex_sleeper_procs:
  "procs ex_proc_state = (\<lambda>_. ex_proc)" "cur ex_proc_state = None"
  by (simp_all add: ex_proc_state_def boot_cpu_def)

definition ex_sleeper :: proc_state where
  "ex_sleeper = ex_proc_state\<lparr>procs := (\<lambda>_. ex_proc)
     (3 := ex_proc\<lparr>pid := 7, pstate := SLEEPING, pchan := Some ChanTicks\<rparr>)\<rparr>"

lemma ex_sleeper_sel:
  "procs ex_sleeper p = (if p = 3 then ex_proc\<lparr>pid := 7, pstate := SLEEPING, pchan := Some ChanTicks\<rparr> else ex_proc)"
  "cur ex_sleeper = None" "pstate ex_proc = UNUSED" "pid ex_proc = 0"
  by (simp_all add: ex_sleeper_def ex_sleeper_procs ex_proc_def)

theorem wakeup_wakes_exactly_witness:
  "\<exists>f. wakeup (Some ChanTicks) [] ex_sleeper = Ret () [] ((intr_saved ex_sleeper)\<lparr>procs := f\<rparr>) \<and>
     pstate (f 3) = RUNNABLE \<and> f 4 = ex_proc"
proof -
  have "others_free (cur ex_sleeper) ex_sleeper" by (simp add: ex_sleeper_def)
  from wakeup_wakes_exactly [OF this, of "Some ChanTicks" "[]"]
  obtain f where f: "wakeup (Some ChanTicks) [] ex_sleeper = Ret () [] ((intr_saved ex_sleeper)\<lparr>procs := f\<rparr>)"
    and eq: "if p < NPROC \<and> cur ex_sleeper \<noteq> Some p \<and> pstate (procs ex_sleeper p) = SLEEPING \<and>
        pchan (procs ex_sleeper p) = Some ChanTicks
      then f p = (procs ex_sleeper p)\<lparr>pstate := RUNNABLE\<rparr> else f p = procs ex_sleeper p" for p
    by auto
  have "pstate (f 3) = RUNNABLE" "f 4 = ex_proc"
    using eq [of 3] eq [of 4] by (simp_all add: ex_sleeper_sel)
  with f show ?thesis by (intro exI [of _ f]) simp
qed

subsection \<open>Kill\<close>

definition first_pid :: "int \<Rightarrow> (nat \<Rightarrow> proc) \<Rightarrow> nat option" where
  "first_pid k f = find (\<lambda>p. pid (f p) = k) [0..<NPROC]"

definition all_free :: "'z lock_state_scheme \<Rightarrow> bool" where
  "all_free s \<longleftrightarrow> (\<forall>p < NPROC. lock_free (ProcLock p) s)"

lemma all_free_simps [simp]:
  "all_free (intr_saved s) = all_free s" "all_free (s\<lparr>procs := f\<rparr>) = all_free s"
  by (simp_all add: all_free_def)

definition killed_proc :: "proc \<Rightarrow> proc" where
  "killed_proc r = r\<lparr>pkilled := True, pstate := (if pstate r = SLEEPING then RUNNABLE else pstate r)\<rparr>"

definition kill_visit :: "int \<Rightarrow> nat \<Rightarrow> ('z proc_state_scheme, int option) kmon" where
  "kill_visit kpid p =
       kbind (acquire (ProcLock p)) (\<lambda>_.
       kbind (pget p pid) (\<lambda>i.
       if i = kpid then
         kbind (kseq [
           pset p (\<lambda>r. r\<lparr>pkilled := True\<rparr>),
           kbind (pget p pstate) (\<lambda>st.
             kwhen (st = SLEEPING) (pset p (\<lambda>r. r\<lparr>pstate := RUNNABLE\<rparr>))),
           release (ProcLock p)]) (\<lambda>_. kret (Some (0 :: int)))
       else kbind (release (ProcLock p)) (\<lambda>_. kret None)))"

lemma kill_visit_run:
  assumes free: "lock_free (ProcLock p) s"
  shows "kill_visit k p es s =
    (if pid (procs s p) = k
     then Ret (Some 0) es ((intr_saved s)\<lparr>procs := (procs s)(p := killed_proc (procs s p))\<rparr>)
     else Ret None es (intr_saved s))"
proof -
  have acq: "acquire (ProcLock p) es s = Ret () es (entered (ProcLock p) s)"
    using free by (simp add: acquire_run lock_free_def)
  have rel: "release (ProcLock p) es ((entered (ProcLock p) s)\<lparr>procs := f\<rparr>) =
      Ret () es ((intr_saved s)\<lparr>procs := f\<rparr>)" for f
  proof -
    have "lock_mine (ProcLock p) ((entered (ProcLock p) s)\<lparr>procs := f\<rparr>)"
      using lock_mine_entered [OF free] by (simp add: lock_mine_def intr_enabled_def)
    then show ?thesis by (simp add: release_run left_entered_procs [OF free])
  qed
  have rel0: "release (ProcLock p) es (entered (ProcLock p) s) = Ret () es (intr_saved s)"
    using rel [of "procs s"] procs_same(1) [of "intr_saved s"] by simp
  show ?thesis
    by (auto simp: kill_visit_def acq pget_def pset_def rel rel0 killed_proc_def kwhen_def)
qed

lemma kill_run:
  assumes "all_free s"
  shows "kill k es s =
    (case first_pid k (procs s) of
       None \<Rightarrow> Ret (- 1) es (intr_saved s)
     | Some p \<Rightarrow> Ret 0 es ((intr_saved s)\<lparr>procs := (procs s)(p := killed_proc (procs s p))\<rparr>))"
proof -
  have find: "kfind ps (kill_visit k) es t =
      (case find (\<lambda>p. pid (procs t p) = k) ps of
         None \<Rightarrow> Ret None es (if ps = [] then t else intr_saved t)
       | Some p \<Rightarrow> Ret (Some 0) es ((intr_saved t)\<lparr>procs := (procs t)(p := killed_proc (procs t p))\<rparr>))"
    if "\<forall>p \<in> set ps. lock_free (ProcLock p) t" for ps t
    using that
    by (induction ps arbitrary: t) (auto simp: kill_visit_run split: option.splits)
  have "kill k es s = kbind (kfind [0..<NPROC] (kill_visit k)) (\<lambda>r. kret (case r of None \<Rightarrow> - 1 | Some v \<Rightarrow> v)) es s"
    unfolding kill_def kill_visit_def [abs_def] ..
  then show ?thesis
    using assms by (auto simp: find first_pid_def all_free_def split: option.splits)
qed

text \<open>
  C36: \<^verbatim>\<open>kill(pid)\<close> marks the first process with that id as killed, makes it runnable
  if it sleeps, and returns 0; it returns -1 and changes no process if there is none.
\<close>

theorem kill_marks_the_process:
  assumes "all_free s"
  shows "(\<forall>p < NPROC. pid (procs s p) \<noteq> k) \<and> kill k es s = Ret (- 1) es (intr_saved s) \<or>
    (\<exists>p < NPROC. pid (procs s p) = k \<and> (\<forall>q < p. pid (procs s q) \<noteq> k) \<and>
      kill k es s = Ret 0 es ((intr_saved s)\<lparr>procs := (procs s)(p := (procs s p)\<lparr>pkilled := True,
        pstate := (if pstate (procs s p) = SLEEPING then RUNNABLE else pstate (procs s p))\<rparr>)\<rparr>))"
proof (cases "first_pid k (procs s)")
  case None
  then have "\<forall>p < NPROC. pid (procs s p) \<noteq> k"
    by (auto simp: first_pid_def find_None_iff)
  with None kill_run [OF assms, of k es] show ?thesis by simp
next
  case (Some p)
  then have "p < NPROC" "pid (procs s p) = k" "\<forall>q < p. pid (procs s q) \<noteq> k"
    by (auto simp: first_pid_def find_Some_iff simp del: upt_rec_numeral)
  with Some kill_run [OF assms, of k es] show ?thesis by (auto simp: killed_proc_def)
qed

theorem kill_marks_the_process_witness:
  "kill 7 [] ex_sleeper = Ret 0 [] ((intr_saved ex_sleeper)\<lparr>procs := (procs ex_sleeper)
     (3 := (procs ex_sleeper 3)\<lparr>pkilled := True, pstate := RUNNABLE\<rparr>)\<rparr>)"
proof -
  have "all_free ex_sleeper" by (simp add: all_free_def ex_sleeper_def)
  then consider "\<forall>p < NPROC. pid (procs ex_sleeper p) \<noteq> 7"
    | p where "pid (procs ex_sleeper p) = 7" "kill 7 [] ex_sleeper = Ret 0 [] ((intr_saved ex_sleeper)\<lparr>procs :=
        (procs ex_sleeper)(p := (procs ex_sleeper p)\<lparr>pkilled := True,
        pstate := (if pstate (procs ex_sleeper p) = SLEEPING then RUNNABLE else pstate (procs ex_sleeper p))\<rparr>)\<rparr>)"
    using kill_marks_the_process [of ex_sleeper 7 "[]"] by blast
  then show ?thesis
  proof cases
    case 1
    then have "pid (procs ex_sleeper 3) \<noteq> 7" by (rule allE [of _ 3]) simp
    then show ?thesis by (simp add: ex_sleeper_sel)
  next
    case 2
    then have "p = 3" by (auto simp: ex_sleeper_sel split: if_splits)
    with 2 show ?thesis by (simp add: ex_sleeper_sel)
  qed
qed

subsection \<open>The checks of sched\<close>

lemma popped_pushed_sel [simp]:
  "tp (popped (pushed s)) = tp s" "locks (popped (pushed s)) = locks s"
  "procs (popped (pushed s')) = procs s'"
  "noff (cpus (popped (pushed s)) c) = noff (cpus s c)"
  by (simp_all add: popped_def pushed_def)

lemma popped_pushed_locked:
  assumes "0 < noff (mycpu_of s)"
  shows "\<not> intr_enabled (popped (pushed s))" "intena (mycpu_of (popped (pushed s))) = intena (mycpu_of s)"
    "\<not> intr_enabled s \<Longrightarrow> popped (pushed s) = s"
  using assms by (cases s; cases "mycpu_of s"; auto simp: popped_def pushed_def intr_enabled_def intr_bit_already_off)+

lemma sched_run:
  assumes "cur s = Some p" "0 \<le> noff (mycpu_of s)" "noff (mycpu_of s) < INT_MAX"
    and "t = popped (pushed s)"
  shows "sched es s =
    (if \<not> holds_lock (locks s (ProcLock p)) (tp s) then Panic ''sched p->lock'' t
     else if noff (mycpu_of s) \<noteq> 1 then Panic ''sched locks'' t
     else if pstate (procs s p) = RUNNING then Panic ''sched running'' t
     else case es of [] \<Rightarrow> Blocked t
       | e # es' \<Rightarrow> Ret () es' ((e t)\<lparr>cpus := (cpus (e t))
           (tp (e t) := (mycpu_of (e t))\<lparr>intena := intena (mycpu_of s)\<rparr>)\<rparr>))"
proof -
  have "\<not> intr_enabled (popped (pushed s))" "intena (mycpu_of (popped (pushed s))) = intena (mycpu_of s)"
    if "noff (mycpu_of s) = 1" using popped_pushed_locked [of s] that by simp_all
  then show ?thesis unfolding assms(4)
    by (simp add: sched_def myproc_any [OF assms(2,3)] assms(1) deref_def cpu_op_defs pget_def swtch_def
        intr_enabled_def split: list.split)
qed

text \<open>
  C38: Called with room in \<^verbatim>\<open>noff\<close> for one more level, \<^verbatim>\<open>sched\<close> gives the processor away
  only when the process holds its own lock, the depth is one (so it holds no other lock),
  and the process is no longer marked as running; otherwise it panics, each time with the
  message of the first of these checks that fails.  The checks look at the state that \<^verbatim>\<open>myproc\<close>
  leaves, and at depth one that state has interrupts off, however \<^verbatim>\<open>sched\<close> was called:
  the fourth check never fires, and the switch happens with interrupts off.  What comes
  back gets the interrupt flag that this thread had.
\<close>

theorem sched_checks:
  assumes "cur s = Some p" "0 \<le> noff (mycpu_of s)" "noff (mycpu_of s) < INT_MAX"
    and "t = popped (pushed s)"
  shows "(\<not> holds_lock (locks s (ProcLock p)) (tp s) \<longrightarrow> sched es s = Panic ''sched p->lock'' t) \<and>
    (holds_lock (locks s (ProcLock p)) (tp s) \<and> noff (mycpu_of s) \<noteq> 1 \<longrightarrow>
      sched es s = Panic ''sched locks'' t) \<and>
    (holds_lock (locks s (ProcLock p)) (tp s) \<and> noff (mycpu_of s) = 1 \<and> pstate (procs s p) = RUNNING \<longrightarrow>
      sched es s = Panic ''sched running'' t) \<and>
    (holds_lock (locks s (ProcLock p)) (tp s) \<and> noff (mycpu_of s) = 1 \<and> pstate (procs s p) \<noteq> RUNNING \<longrightarrow>
      \<not> intr_enabled t \<and> (\<not> intr_enabled s \<longrightarrow> t = s) \<and>
      (\<forall>e es'. es = e # es' \<longrightarrow> sched es s = Ret () es' ((e t)\<lparr>cpus := (cpus (e t))
         (tp (e t) := (mycpu_of (e t))\<lparr>intena := intena (mycpu_of s)\<rparr>)\<rparr>)))"
  using popped_pushed_locked [of s] by (simp add: sched_run [OF assms] assms(4) del: popped_pushed_sel)

definition ex_running :: proc_state where
  "ex_running = (entered (ProcLock 3) (ex_sleeper\<lparr>cpus := (\<lambda>_. boot_cpu\<lparr>cpu_proc := Some 3\<rparr>)\<rparr>))"

theorem sched_checks_witness:
  "sched [\<lambda>s. s] ex_running = Ret () [] ex_running \<and>
   sched [] (ex_running\<lparr>procs := (\<lambda>_. ex_proc\<lparr>pstate := RUNNING\<rparr>)\<rparr>) =
     Panic ''sched running'' (ex_running\<lparr>procs := (\<lambda>_. ex_proc\<lparr>pstate := RUNNING\<rparr>)\<rparr>)"
proof -
  have held: "cur ex_running = Some 3" "0 \<le> noff (mycpu_of ex_running)" "noff (mycpu_of ex_running) < INT_MAX"
    "holds_lock (locks ex_running (ProcLock 3)) (tp ex_running)" "noff (mycpu_of ex_running) = 1"
    "pstate (procs ex_running 3) = SLEEPING" "\<not> intr_enabled ex_running"
    by (simp_all add: ex_running_def ex_sleeper_def ex_proc_state_def entered_def pushed_def holds_lock_def
        boot_cpu_def intr_enabled_def)
  have same: "ex_running\<lparr>cpus := (cpus ex_running)(tp ex_running :=
      (mycpu_of ex_running)\<lparr>intena := intena (mycpu_of ex_running)\<rparr>)\<rparr> = ex_running"
    by (cases ex_running) simp
  let ?r = "ex_running\<lparr>procs := (\<lambda>_. ex_proc\<lparr>pstate := RUNNING\<rparr>)\<rparr>"
  have r: "popped (pushed ?r) = ?r" using held by (intro popped_pushed_locked) (simp_all add: intr_enabled_def)
  have "sched [\<lambda>s. s] ex_running = Ret () [] ex_running"
    using sched_checks [OF held(1-3) refl, of "[\<lambda>s. s]"] held same by auto
  moreover have "sched [] ?r = Panic ''sched running'' ?r"
    using sched_checks [of ?r 3, OF _ _ _ refl, of "[]"] held r by simp
  ultimately show ?thesis by simp
qed

end
