(* ===== verification/Priority_Correct.thy ===== *)
theory Priority_Correct
  imports Proc_Correct
begin

text \<open>
  The per-priority lists of \<^verbatim>\<open>kernel/proc.c\<close>, linked through \<^verbatim>\<open>next_p_priority\<close>:
  \<^verbatim>\<open>add_process_priority\<close> and \<^verbatim>\<open>free_process_priority\<close> implement appending to and
  removing from a family of disjoint lists.
\<close>

subsection \<open>Chains\<close>

fun chain :: "(nat \<Rightarrow> nat option) \<Rightarrow> nat option \<Rightarrow> nat list \<Rightarrow> bool" where
  "chain nx h [] \<longleftrightarrow> h = None"
| "chain nx h (x # xs) \<longleftrightarrow> h = Some x \<and> chain nx (nx x) xs"

lemma chain_None [simp]: "chain nx None xs \<longleftrightarrow> xs = []"
  by (cases xs) auto

lemma chain_cong:
  "(\<And>x. x \<in> set xs \<Longrightarrow> nx' x = nx x) \<Longrightarrow> chain nx' h xs = chain nx h xs"
  by (induction xs arbitrary: h) auto

lemma chain_update [simp]: "p \<notin> set xs \<Longrightarrow> chain (nx(p := v)) h xs = chain nx h xs"
  by (rule chain_cong) auto

lemma chain_append:
  "chain nx h (xs @ [a]) \<Longrightarrow> a \<notin> set xs \<Longrightarrow> p \<notin> set xs \<Longrightarrow> p \<noteq> a \<Longrightarrow> nx p = None \<Longrightarrow>
   chain (nx(a := Some p)) h (xs @ [a, p])"
  by (induction xs arbitrary: h) auto

lemma chain_remove:
  "chain nx h (xs @ a # p # ys) \<Longrightarrow> distinct (xs @ a # p # ys) \<Longrightarrow>
   chain (nx(a := nx p, p := None)) h (xs @ a # ys)"
  by (induction xs arbitrary: h) auto

lemma chain_nx: "chain nx h (xs @ a # p # ys) \<Longrightarrow> nx a = Some p"
  by (induction xs arbitrary: h) auto

lemma chain_last: "chain nx h (xs @ [a]) \<Longrightarrow> nx a = None"
  by (induction xs arbitrary: h) auto

text \<open>The links as a function, and the walks of the C code along it.\<close>

definition links_of :: "'z proc_state_scheme \<Rightarrow> nat \<Rightarrow> nat option" where
  "links_of s = (\<lambda>p. next_p_priority (procs s p))"

lemma list_last_run:
  "chain (links_of s) (Some h) (xs @ [a]) \<Longrightarrow> length xs < n \<Longrightarrow> list_last n h es s = Ret a es s"
proof (induction n arbitrary: h xs)
  case 0
  then show ?case by simp
next
  case (Suc n)
  then show ?case
    by (cases xs) (auto simp: pget_def links_of_def split: option.splits)
qed

lemma list_pred_run:
  "chain (links_of s) h (xs @ a # p # ys) \<Longrightarrow> distinct (xs @ a # p # ys) \<Longrightarrow> length xs < n \<Longrightarrow>
   list_pred n p h es s = Ret a es s"
proof (induction n arbitrary: h xs)
  case 0
  then show ?case by simp
next
  case (Suc n)
  show ?case
  proof (cases xs)
    case Nil
    with Suc.prems show ?thesis by (auto simp: deref_def pget_def links_of_def)
  next
    case (Cons x xs')
    have "links_of s x \<noteq> Some p"
      using Suc.prems Cons by (cases xs') (auto dest: chain_nx)
    with Suc.prems Cons Suc.IH [of "links_of s x" xs'] show ?thesis
      by (auto simp: deref_def pget_def links_of_def)
  qed
qed

subsection \<open>The lists\<close>

text \<open>
  \<open>prio_lists s L\<close>: for every priority \<open>k\<close> the list that starts at
  \<^verbatim>\<open>p_control.head_priority[k]\<close> is \<open>L k\<close>, without repetitions; \<^verbatim>\<open>present[k]\<close> says whether
  it is empty; its members have that priority; a process in no list has no successor.
\<close>

definition prio_lists :: "'z proc_state_scheme \<Rightarrow> (nat \<Rightarrow> nat list) \<Rightarrow> bool" where
  "prio_lists s L \<longleftrightarrow>
     (\<forall>k < MAXPRIORITY. chain (links_of s) (head_priority (p_control s) k) (L k) \<and> distinct (L k) \<and>
        (\<forall>p \<in> set (L k). p < NPROC \<and> priority (procs s p) = k) \<and>
        (present (p_control s) k = 0 \<longleftrightarrow> L k = [])) \<and>
     (\<forall>p. (\<forall>k < MAXPRIORITY. p \<notin> set (L k)) \<longrightarrow> links_of s p = None)"

definition listed :: "(nat \<Rightarrow> nat list) \<Rightarrow> nat \<Rightarrow> bool" where
  "listed L p \<longleftrightarrow> (\<exists>k < MAXPRIORITY. p \<in> set (L k))"

lemma prio_listsD:
  assumes "prio_lists s L" "k < MAXPRIORITY"
  shows "chain (links_of s) (head_priority (p_control s) k) (L k)" "distinct (L k)"
    "p \<in> set (L k) \<Longrightarrow> p < NPROC" "p \<in> set (L k) \<Longrightarrow> priority (procs s p) = k"
    "present (p_control s) k = 0 \<longleftrightarrow> L k = []"
  using assms unfolding prio_lists_def by blast+

lemma unlisted_link: "prio_lists s L \<Longrightarrow> \<not> listed L p \<Longrightarrow> links_of s p = None"
  unfolding prio_lists_def listed_def by blast

lemma prio_lists_length:
  assumes "prio_lists s L" "k < MAXPRIORITY"
  shows "length (L k) \<le> NPROC"
proof -
  have "set (L k) \<subseteq> {..<NPROC}" using prio_listsD(3) [OF assms] by auto
  then have "card (set (L k)) \<le> card {..<NPROC}" by (intro card_mono) simp_all
  then show ?thesis using distinct_card [OF prio_listsD(2) [OF assms]] by simp
qed

text \<open>Appending \<open>p\<close>: the successor of the last member, or the head of an empty list.\<close>

definition appended :: "nat \<Rightarrow> nat list \<Rightarrow> nat \<Rightarrow> 'z proc_state_scheme \<Rightarrow> 'z proc_state_scheme" where
  "appended k xs p s =
     (if xs = [] then s\<lparr>p_control := (p_control s)\<lparr>head_priority := (head_priority (p_control s))(k := Some p)\<rparr>\<rparr>
      else s\<lparr>procs := (procs s)(last xs := (procs s (last xs))\<lparr>next_p_priority := Some p\<rparr>)\<rparr>)"

lemma add_process_priority_run:
  assumes c: "chain (links_of s) (head_priority (p_control s) k) xs" and "k < MAXPRIORITY" "length xs \<le> NPROC"
  shows "add_process_priority p k es s = Ret () es (appended k xs p s)"
proof (cases xs rule: rev_cases)
  case Nil
  with assms show ?thesis by (simp add: add_process_priority_def appended_def pcset_def)
next
  case (snoc ys a)
  then obtain h where h: "head_priority (p_control s) k = Some h"
    using c by (cases ys) auto
  have "list_last NPROC h es s = Ret a es s"
    using c snoc h assms(3) by (intro list_last_run [of s h ys]) auto
  with snoc h assms show ?thesis by (simp add: add_process_priority_def appended_def pset_def)
qed

lemma links_of_simps [simp]:
  "links_of (s\<lparr>p_control := c\<rparr>) = links_of s"
  "links_of (s\<lparr>procs := (procs s)(a := (procs s a)\<lparr>next_p_priority := v\<rparr>)\<rparr>) = (links_of s)(a := v)"
  by (auto simp: links_of_def)


lemma prio_listsI:
  assumes "\<And>k. k < MAXPRIORITY \<Longrightarrow> chain (links_of s) (head_priority (p_control s) k) (L k)"
    and "\<And>k. k < MAXPRIORITY \<Longrightarrow> distinct (L k)"
    and "\<And>k p. k < MAXPRIORITY \<Longrightarrow> p \<in> set (L k) \<Longrightarrow> p < NPROC \<and> priority (procs s p) = k"
    and "\<And>k. k < MAXPRIORITY \<Longrightarrow> present (p_control s) k = 0 \<longleftrightarrow> L k = []"
    and "\<And>p. \<not> listed L p \<Longrightarrow> links_of s p = None"
  shows "prio_lists s L"
  using assms unfolding prio_lists_def listed_def by blast

lemma listed_update:
  "k < MAXPRIORITY \<Longrightarrow> listed (L(k := xs)) q \<longleftrightarrow> q \<in> set xs \<or> (\<exists>j < MAXPRIORITY. j \<noteq> k \<and> q \<in> set (L j))"
  unfolding listed_def by (auto simp: fun_upd_def)

lemma appended_lists:
  assumes inv: "prio_lists s L" and k: "k < MAXPRIORITY" and new: "\<not> listed L p" "p < NPROC" "priority (procs s p) = k"
  shows "prio_lists ((appended k (L k) p s)\<lparr>p_control := (p_control (appended k (L k) p s))
      \<lparr>present := (present (p_control s))(k := 1)\<rparr>\<rparr>) (L(k := L k @ [p]))"
proof -
  define t where "t = (appended k (L k) p s)\<lparr>p_control := (p_control (appended k (L k) p s))
      \<lparr>present := (present (p_control s))(k := 1)\<rparr>\<rparr>"
  have none: "links_of s p = None" using unlisted_link [OF inv new(1)] .
  have pL: "p \<notin> set (L j)" if "j < MAXPRIORITY" for j using new(1) that by (auto simp: listed_def)
  have hd: "head_priority (p_control t) j =
      (if j = k \<and> L k = [] then Some p else head_priority (p_control s) j)" for j
    by (simp add: t_def appended_def)
  have lk: "links_of t = (if L k = [] then links_of s else (links_of s)(last (L k) := Some p))"
    by (simp add: t_def appended_def)
  have pr: "priority (procs t q) = priority (procs s q)" for q
    by (simp add: t_def appended_def)
  have prs: "present (p_control t) = (present (p_control s))(k := 1)"
    by (simp add: t_def)
  have "prio_lists t (L(k := L k @ [p]))"
  proof (rule prio_listsI)
  fix j assume j: "j < MAXPRIORITY"
  show "chain (links_of t) (head_priority (p_control t) j) ((L(k := L k @ [p])) j)"
  proof (cases "L k" rule: rev_cases)
    case Nil
    then show ?thesis using prio_listsD(1) [OF inv j] none by (simp add: hd lk)
  next
    case (snoc xs a)
    have c: "chain (links_of s) (head_priority (p_control s) k) (xs @ [a])" "distinct (xs @ [a])"
      using prio_listsD(1,2) [OF inv k] snoc by simp_all
    show ?thesis
    proof (cases "j = k")
      case True
      have "chain ((links_of s)(a := Some p)) (head_priority (p_control s) k) (xs @ [a, p])"
        using c pL [OF k] none snoc by (intro chain_append) auto
      then show ?thesis using True snoc by (simp add: hd lk)
    next
      case False
      have "a \<notin> set (L j)"
        using prio_listsD(4) [OF inv k, of a] prio_listsD(4) [OF inv j, of a] False snoc by auto
      then show ?thesis using False snoc prio_listsD(1) [OF inv j] by (simp add: hd lk)
    qed
  qed
  show "distinct ((L(k := L k @ [p])) j)"
    using prio_listsD(2) [OF inv j] pL [OF k] by (cases "j = k") simp_all
  show "q < NPROC \<and> priority (procs t q) = j" if "q \<in> set ((L(k := L k @ [p])) j)" for q
    using that prio_listsD(3,4) [OF inv j, of q] new(2,3) by (auto simp: pr split: if_splits)
  show "present (p_control t) j = 0 \<longleftrightarrow> (L(k := L k @ [p])) j = []"
    using prio_listsD(5) [OF inv j] by (simp add: prs)
next
  fix q assume q: "\<not> listed (L(k := L k @ [p])) q"
  then have "\<not> listed L q" "q \<notin> set (L k)"
    unfolding listed_update [OF k] unfolding listed_def by auto
  moreover from this have "L k \<noteq> [] \<longrightarrow> q \<noteq> last (L k)" by auto
  ultimately show "links_of t q = None"
    using unlisted_link [OF inv, of q] by (simp add: t_def appended_def)
  qed
  then show ?thesis by (simp only: t_def)
qed

subsection \<open>Removing\<close>

text \<open>
  Changes of the links and of the heads only: the new links are \<open>nx\<close>.
\<close>

definition relinked :: "'z proc_state_scheme \<Rightarrow> (nat \<Rightarrow> nat option) \<Rightarrow> priorities_control \<Rightarrow> 'z proc_state_scheme" where
  "relinked s nx c = s\<lparr>procs := (\<lambda>q. (procs s q)\<lparr>next_p_priority := nx q\<rparr>), p_control := c\<rparr>"

lemma relinked_sel [simp]:
  "links_of (relinked s nx c) = nx" "p_control (relinked s nx c) = c"
  "priority (procs (relinked s nx c) q) = priority (procs s q)"
  by (simp_all add: relinked_def links_of_def)

lemma relink_one:
  "s\<lparr>procs := (procs s)(a := (procs s a)\<lparr>next_p_priority := v\<rparr>)\<rparr> =
   relinked s ((links_of s)(a := v)) (p_control s)"
  by (cases s) (auto simp: relinked_def links_of_def fun_eq_iff)

lemma relinked_relinked [simp]: "relinked (relinked s nx c) nx' c' = relinked s nx' c'"
  by (simp add: relinked_def)

lemma relinked_control: "(relinked s nx c)\<lparr>p_control := c'\<rparr> = relinked s nx c'"
  "s\<lparr>p_control := c'\<rparr> = relinked s (links_of s) c'"
  by (cases s; simp add: relinked_def links_of_def)+

definition removed_head :: "nat \<Rightarrow> nat option \<Rightarrow> priorities_control \<Rightarrow> priorities_control" where
  "removed_head k nx c = (case nx of
     None \<Rightarrow> c\<lparr>present := (present c)(k := 0), head_priority := (head_priority c)(k := None)\<rparr>
   | Some q \<Rightarrow> c\<lparr>head_priority := (head_priority c)(k := Some q)\<rparr>)"

lemma free_head_run:
  assumes "head_priority (p_control s) k = Some p" "priority (procs s p) = k" "k < MAXPRIORITY"
  shows "free_process_priority p es s =
    Ret 0 es (relinked s ((links_of s)(p := None)) (removed_head k (links_of s p) (p_control s)))"
proof (cases "links_of s p")
  case None
  then have "(links_of s)(p := None) = links_of s" by auto
  with None assms show ?thesis
    by (simp add: free_process_priority_def pget_def pcset_def removed_head_def relinked_control)
      (simp add: links_of_def relinked_def)
next
  case (Some q)
  then show ?thesis
    using assms by (simp add: free_process_priority_def pget_def pcset_def pset_def removed_head_def
        relink_one relinked_control(2)) (simp add: links_of_def)
qed

lemma free_inner_run:
  assumes c: "chain (links_of s) (head_priority (p_control s) k) (xs @ a # p # ys)"
    and d: "distinct (xs @ a # p # ys)" and "priority (procs s p) = k" "k < MAXPRIORITY"
    and "length (xs @ a # p # ys) \<le> NPROC"
  shows "free_process_priority p es s =
    Ret 0 es (relinked s ((links_of s)(a := links_of s p, p := None)) (p_control s))"
proof -
  have "list_pred (Suc NPROC) p (head_priority (p_control s) k) es s = Ret a es s"
    using assms by (intro list_pred_run [OF c d]) simp
  moreover have "head_priority (p_control s) k \<noteq> Some p"
    using c d by (cases xs) auto
  moreover have "a \<noteq> p" using d by simp
  ultimately show ?thesis
    using assms by (simp add: free_process_priority_def pget_def pset_def relink_one del: list_pred.simps)
      (simp add: links_of_def)
qed

lemma relinked_lists:
  assumes inv: "prio_lists s L" and k: "k < MAXPRIORITY"
    and ys: "chain nx (head_priority c k) ys" "distinct ys" "set ys \<subseteq> set (L k)" "present c k = 0 \<longleftrightarrow> ys = []"
    and nx: "\<And>q. q \<notin> set (L k) \<Longrightarrow> nx q = links_of s q" "\<And>q. q \<in> set (L k) \<Longrightarrow> q \<notin> set ys \<Longrightarrow> nx q = None"
    and c: "\<And>j. j \<noteq> k \<Longrightarrow> head_priority c j = head_priority (p_control s) j"
      "\<And>j. j \<noteq> k \<Longrightarrow> present c j = present (p_control s) j"
  shows "prio_lists (relinked s nx c) (L(k := ys))"
proof (rule prio_listsI)
  fix j assume j: "j < MAXPRIORITY"
  have disj: "q \<notin> set (L k)" if "q \<in> set (L j)" "j \<noteq> k" for q
    using that prio_listsD(4) [OF inv k, of q] prio_listsD(4) [OF inv j, of q] by auto
  show "chain (links_of (relinked s nx c)) (head_priority (p_control (relinked s nx c)) j) ((L(k := ys)) j)"
  proof (cases "j = k")
    case False
    have "chain nx (head_priority c j) (L j) = chain (links_of s) (head_priority c j) (L j)"
      using disj False nx(1) by (intro chain_cong) auto
    with False c(1) [OF False] prio_listsD(1) [OF inv j] show ?thesis by simp
  qed (simp add: ys)
  show "distinct ((L(k := ys)) j)" using ys(2) prio_listsD(2) [OF inv j] by (cases "j = k") simp_all
  show "present (p_control (relinked s nx c)) j = 0 \<longleftrightarrow> (L(k := ys)) j = []"
    using ys(4) c(2) [of j] prio_listsD(5) [OF inv j] by (cases "j = k") simp_all
  show "q < NPROC \<and> priority (procs (relinked s nx c) q) = j" if "q \<in> set ((L(k := ys)) j)" for q
    using that ys(3) prio_listsD(3,4) [OF inv j, of q] by (cases "j = k") auto
next
  fix q assume "\<not> listed (L(k := ys)) q"
  then have q: "q \<notin> set ys" "\<And>j. j < MAXPRIORITY \<Longrightarrow> j \<noteq> k \<Longrightarrow> q \<notin> set (L j)"
    unfolding listed_update [OF k] by auto
  show "links_of (relinked s nx c) q = None"
  proof (cases "q \<in> set (L k)")
    case False
    then have "\<not> listed L q" using q(2) unfolding listed_def by auto
    then show ?thesis using False nx(1) unlisted_link [OF inv] by simp
  qed (simp add: nx(2) q(1))
qed

lemma free_process_priority_run:
  assumes inv: "prio_lists s L" and p: "p \<in> set (L k)" and k: "k < MAXPRIORITY"
  shows "\<exists>nx c. free_process_priority p es s = Ret 0 es (relinked s nx c) \<and>
    prio_lists (relinked s nx c) (L(k := remove1 p (L k)))"
proof -
  note chain = prio_listsD(1) [OF inv k] and dist = prio_listsD(2) [OF inv k]
  have prio: "priority (procs s p) = k" using prio_listsD(4) [OF inv k p] .
  obtain xs ys where L: "L k = xs @ p # ys" using p by (meson split_list)
  show ?thesis
  proof (cases xs rule: rev_cases)
    case Nil
    then have hd: "head_priority (p_control s) k = Some p" and tl: "chain (links_of s) (links_of s p) ys"
      using chain L by simp_all
    let ?c = "removed_head k (links_of s p) (p_control s)"
    have "prio_lists (relinked s ((links_of s)(p := None)) ?c) (L(k := ys))"
    proof (rule relinked_lists [OF inv k])
      show "chain ((links_of s)(p := None)) (head_priority ?c k) ys"
        using tl dist L Nil by (cases ys) (auto simp: removed_head_def)
      show "present ?c k = 0 \<longleftrightarrow> ys = []"
        using tl prio_listsD(5) [OF inv k] L by (cases ys) (auto simp: removed_head_def)
    qed (use dist L Nil in \<open>auto simp: removed_head_def split: option.splits\<close>)
    then show ?thesis using free_head_run [OF hd prio k] L Nil by auto
  next
    case (snoc zs a)
    then have c: "chain (links_of s) (head_priority (p_control s) k) (zs @ a # p # ys)"
      and d: "distinct (zs @ a # p # ys)" using chain dist L by simp_all
    have "prio_lists (relinked s ((links_of s)(a := links_of s p, p := None)) (p_control s)) (L(k := zs @ a # ys))"
    proof (rule relinked_lists [OF inv k])
      show "chain ((links_of s)(a := links_of s p, p := None)) (head_priority (p_control s) k) (zs @ a # ys)"
        by (rule chain_remove [OF c d])
      show "present (p_control s) k = 0 \<longleftrightarrow> zs @ a # ys = []"
        using prio_listsD(5) [OF inv k] L by simp
    qed (use d L snoc in auto)
    moreover have "remove1 p (L k) = zs @ a # ys" using d L snoc by (simp add: remove1_append)
    moreover have "length (zs @ a # p # ys) \<le> NPROC" using prio_lists_length [OF inv k] L snoc by simp
    ultimately show ?thesis using free_inner_run [OF c d prio k] by auto
  qed
qed

subsection \<open>The interface of the lists\<close>

text \<open>
  What the process code relies on: a family of lists, entering at the end of one of
  them and leaving.
\<close>

locale list_family =
  fixes repr :: "'s \<Rightarrow> (nat \<Rightarrow> nat list) \<Rightarrow> bool"
    and member :: "'s \<Rightarrow> nat \<Rightarrow> nat \<Rightarrow> bool"
    and enter :: "nat \<Rightarrow> nat \<Rightarrow> ('s, unit) kmon"
    and leave :: "nat \<Rightarrow> ('s, int) kmon"
  assumes enter_appends: "repr s L \<Longrightarrow> member s p k \<Longrightarrow> \<forall>j. p \<notin> set (L j) \<Longrightarrow>
      \<exists>s'. enter p k es s = Ret () es s' \<and> repr s' (L(k := L k @ [p])) \<and> member s' p k"
    and leave_removes: "repr s L \<Longrightarrow> member s p k \<Longrightarrow> p \<in> set (L k) \<Longrightarrow>
      \<exists>s'. leave p es s = Ret 0 es s' \<and> repr s' (L(k := remove1 p (L k)))"
begin

lemma enter_leave:
  assumes "repr s L" "member s p k" "\<forall>j. p \<notin> set (L j)"
  shows "\<exists>s'. kbind (enter p k) (\<lambda>_. leave p) es s = Ret 0 es s' \<and> repr s' L"
proof -
  obtain s1 where s1: "enter p k es s = Ret () es s1" "repr s1 (L(k := L k @ [p]))" "member s1 p k"
    using enter_appends [OF assms] by blast
  obtain s2 where s2: "leave p es s1 = Ret 0 es s2" "repr s2 ((L(k := L k @ [p]))(k := remove1 p (L k @ [p])))"
    using leave_removes [OF s1(2,3), of es] by auto
  have "remove1 p (L k @ [p]) = L k" using assms(3) by (simp add: remove1_append)
  then have "(L(k := L k @ [p]))(k := remove1 p (L k @ [p])) = L" by auto
  with s1 s2 show ?thesis by auto
qed

end

text \<open>The part of \<^verbatim>\<open>allocproc\<close> that enters a process, and the family of lists of the kernel.\<close>

definition enter_list :: "nat \<Rightarrow> nat \<Rightarrow> ('z proc_state_scheme, unit) kmon" where
  "enter_list p k = kseq [
     pcset (\<lambda>c. c\<lparr>present := (present c)(k := 1)\<rparr>),
     add_process_priority p k]"

definition prio_repr :: "'z proc_state_scheme \<Rightarrow> (nat \<Rightarrow> nat list) \<Rightarrow> bool" where
  "prio_repr s L \<longleftrightarrow> prio_lists s L \<and> (\<forall>k \<ge> MAXPRIORITY. L k = [])"

definition prio_member :: "'z proc_state_scheme \<Rightarrow> nat \<Rightarrow> nat \<Rightarrow> bool" where
  "prio_member s p k \<longleftrightarrow> p < NPROC \<and> k < MAXPRIORITY \<and> priority (procs s p) = k"

lemma enter_list_run:
  assumes inv: "prio_lists s L" and k: "k < MAXPRIORITY"
  shows "enter_list p k es s = Ret () es ((appended k (L k) p s)\<lparr>p_control :=
    (p_control (appended k (L k) p s))\<lparr>present := (present (p_control s))(k := 1)\<rparr>\<rparr>)"
proof -
  let ?s = "s\<lparr>p_control := (p_control s)\<lparr>present := (present (p_control s))(k := 1)\<rparr>\<rparr>"
  have "chain (links_of ?s) (head_priority (p_control ?s) k) (L k)"
    using prio_listsD(1) [OF inv k] by simp
  from add_process_priority_run [OF this k prio_lists_length [OF inv k]]
  show ?thesis by (simp add: enter_list_def pcset_def appended_def)
qed

interpretation prio: list_family prio_repr prio_member enter_list free_process_priority
proof
  fix s :: "'z proc_state_scheme" and L p k es
  assume inv: "prio_repr s L" and m: "prio_member s p k" and new: "\<forall>j. p \<notin> set (L j)"
  let ?t = "(appended k (L k) p s)\<lparr>p_control :=
    (p_control (appended k (L k) p s))\<lparr>present := (present (p_control s))(k := 1)\<rparr>\<rparr>"
  have "prio_lists ?t (L(k := L k @ [p]))"
    using inv m new by (intro appended_lists) (auto simp: prio_repr_def prio_member_def listed_def)
  moreover have "prio_member ?t p k" using m by (auto simp: prio_member_def appended_def)
  moreover have "enter_list p k es s = Ret () es ?t"
    using inv m by (intro enter_list_run) (auto simp: prio_repr_def prio_member_def)
  ultimately show "\<exists>s'. enter_list p k es s = Ret () es s' \<and> prio_repr s' (L(k := L k @ [p])) \<and> prio_member s' p k"
    using inv m by (auto simp: prio_repr_def prio_member_def)
next
  fix s :: "'z proc_state_scheme" and L p k es
  assume inv: "prio_repr s L" and m: "prio_member s p k" and p: "p \<in> set (L k)"
  then show "\<exists>s'. free_process_priority p es s = Ret 0 es s' \<and> prio_repr s' (L(k := remove1 p (L k)))"
    using free_process_priority_run [of s L p k es] by (auto simp: prio_repr_def prio_member_def)
qed

subsection \<open>Properties\<close>

text \<open>
  C7: The priority lists are what they are meant to be, a family of duplicate-free
  lists of processes, one for each priority: \<^verbatim>\<open>add_process_priority\<close> (after
  \<^verbatim>\<open>present[k] = 1\<close>, as \<^verbatim>\<open>allocproc\<close> has it) appends a process that is in no list,
  and \<^verbatim>\<open>free_process_priority\<close> removes a process from its list; both return, and
  the links, the heads and \<^verbatim>\<open>present\<close> again represent the new family.
\<close>

theorem priority_lists_refine:
  assumes "prio_lists s L"
  shows "(\<forall>p k. \<not> listed L p \<and> p < NPROC \<and> k < MAXPRIORITY \<and> priority (procs s p) = k \<longrightarrow>
      (\<exists>s'. kseq [pcset (\<lambda>c. c\<lparr>present := (present c)(k := 1)\<rparr>), add_process_priority p k] es s = Ret () es s' \<and>
        prio_lists s' (L(k := L k @ [p])))) \<and>
    (\<forall>p k. k < MAXPRIORITY \<and> p \<in> set (L k) \<longrightarrow>
      (\<exists>s'. free_process_priority p es s = Ret 0 es s' \<and> prio_lists s' (L(k := remove1 p (L k)))))"
proof -
  have "\<exists>s'. enter_list p k es s = Ret () es s' \<and> prio_lists s' (L(k := L k @ [p]))"
    if "\<not> listed L p" "p < NPROC" "k < MAXPRIORITY" "priority (procs s p) = k" for p k
    using enter_list_run [OF assms that(3), of p es] appended_lists [OF assms that(3,1,2,4)] by blast
  moreover have "\<exists>s'. free_process_priority p es s = Ret 0 es s' \<and> prio_lists s' (L(k := remove1 p (L k)))"
    if "k < MAXPRIORITY" "p \<in> set (L k)" for p k
    using free_process_priority_run [OF assms that(2,1), of es] by blast
  ultimately show ?thesis unfolding enter_list_def by blast
qed

lemma ex_no_lists: "prio_lists ex_proc_state (\<lambda>_. [])"
  by (rule prio_listsI) (simp_all add: ex_proc_state_def ex_proc_def links_of_def)

theorem priority_lists_refine_witness:
  "\<exists>s'. kseq [pcset (\<lambda>c. c\<lparr>present := (present c)(1 := 1)\<rparr>), add_process_priority 5 1] [] ex_proc_state = Ret () [] s' \<and>
     prio_lists s' ((\<lambda>_. [])(1 := [5]))"
  using priority_lists_refine [OF ex_no_lists, of "[]"]
  by (auto simp: listed_def ex_sleeper_procs ex_proc_def simp del: kseq.simps)

subsection \<open>A process that is freed while it is in its list\<close>

text \<open>Invariants that do not look at memory, the free list or locks.\<close>

definition mem_indep :: "('z mem_state_scheme \<Rightarrow> bool) \<Rightarrow> bool" where
  "mem_indep I \<longleftrightarrow> lock_indep I \<and> (\<forall>s m f. I s \<longrightarrow> I (s\<lparr>mem := m\<rparr>) \<and> I (s\<lparr>freelist := f\<rparr>))"

lemma mem_indepD: "mem_indep I \<Longrightarrow> lock_indep I" "mem_indep I \<Longrightarrow> I s \<Longrightarrow> I (s\<lparr>mem := m\<rparr>)"
  "mem_indep I \<Longrightarrow> I s \<Longrightarrow> I (s\<lparr>freelist := f\<rparr>)"
  by (simp_all add: mem_indep_def)

lemma kpres_kfree: "mem_indep I \<Longrightarrow> kpres I (kfree pa)"
  unfolding kfree_def
  by (auto intro!: kpres_intros kpres_kmodify kpres_acquire kpres_release intro: mem_indepD)

lemma kpres_pte: "mem_indep I \<Longrightarrow> kpres I (pte_load a)" "mem_indep I \<Longrightarrow> kpres I (pte_store a v)"
  unfolding pte_load_def pte_store_def by (auto intro!: kpres_intros kpres_kmodify intro: mem_indepD)

lemma kpres_walk:
  assumes "mem_indep I"
  shows "kpres I (walk pt va False)"
proof -
  have "kpres I (walk_level l pt va False)" for l pt
    by (induction l arbitrary: pt) (auto intro!: kpres_intros kpres_pte [OF assms])
  then show ?thesis unfolding walk_def by (auto intro!: kpres_intros)
qed

lemma kpres_uvmunmap:
  assumes "mem_indep I"
  shows "kpres I (uvmunmap pt va n do_free)"
proof -
  have "kpres I (uvmunmap_loop k pt a b do_free)" for k a b
  proof (induction k arbitrary: a)
    case (Suc k)
    then show ?case
      by (auto intro!: kpres_intros kpres_walk kpres_pte kpres_kfree assms)
  qed (auto intro: kpres_intros)
  then show ?thesis unfolding uvmunmap_def by (auto intro!: kpres_intros simp del: uvmunmap_loop.simps)
qed

lemma kpres_freewalk:
  assumes "mem_indep I"
  shows "kpres I (freewalk d pt)"
proof (induction d arbitrary: pt)
  case (Suc d)
  then show ?case unfolding freewalk.simps
    by (auto intro!: kpres_intros kpres_pte kpres_kfree assms simp del: kseq.simps)
qed (auto intro: kpres_intros)

lemma kpres_proc_freepagetable: "mem_indep I \<Longrightarrow> kpres I (proc_freepagetable pt sz)"
  unfolding proc_freepagetable_def uvmfree_def
  by (auto intro!: kpres_intros kpres_uvmunmap kpres_freewalk)

definition same_lists :: "priorities_control \<Rightarrow> (nat \<Rightarrow> nat option) \<Rightarrow> 'z proc_state_scheme \<Rightarrow> bool" where
  "same_lists c nx s \<longleftrightarrow> p_control s = c \<and> links_of s = nx"

lemma mem_indep_same_lists: "mem_indep (same_lists c nx)"
  by (simp add: mem_indep_def lock_indep_def same_lists_def links_of_def)

lemma kpres_pset_links:
  "(\<And>r. next_p_priority (f r) = next_p_priority r) \<Longrightarrow> kpres (same_lists c nx) (pset p f)"
  unfolding pset_def by (intro kpres_kmodify) (auto simp: same_lists_def links_of_def)

lemma freeproc_keeps_lists: "kpres (same_lists c nx) (freeproc p)"
  unfolding freeproc_def pget_def
  by (auto intro!: kpres_intros kpres_pset_links kpres_kfree kpres_proc_freepagetable mem_indep_same_lists)

lemma freeproc_unused:
  assumes "freeproc p es s = Ret () es' s'"
  shows "pstate (procs s' p) = UNUSED"
  using assms unfolding freeproc_def kseq.simps
  by (auto simp: kbind_Ret_iff pset_def simp del: kbind_apply)

lemma list_last_self: "links_of s p = Some p \<Longrightarrow> list_last n p es s = Diverge s"
  by (induction n) (simp_all add: pget_def links_of_def)

lemma list_last_cycle:
  "chain ((links_of s)(p := None)) (Some h) (xs @ [p]) \<Longrightarrow> p \<notin> set xs \<Longrightarrow> links_of s p = Some p \<Longrightarrow>
   list_last n h es s = Diverge s"
proof (induction n arbitrary: h xs)
  case (Suc n)
  show ?case
  proof (cases xs)
    case Nil
    with Suc.prems list_last_self [of s p "Suc n" es] show ?thesis by simp
  next
    case (Cons x xs')
    have "h = x" "x \<noteq> p" and c: "chain ((links_of s)(p := None)) (((links_of s)(p := None)) x) (xs' @ [p])"
      using Suc.prems(1,2) Cons by (simp_all del: fun_upd_apply)
    then have c': "chain ((links_of s)(p := None)) (links_of s h) (xs' @ [p])" by simp
    then obtain y where y: "links_of s h = Some y" by (cases "links_of s h") simp_all
    with c' have y2: "chain ((links_of s)(p := None)) (Some y) (xs' @ [p])" by (simp del: fun_upd_apply)
    with Suc.IH [OF y2] Suc.prems Cons y show ?thesis by (simp add: pget_def links_of_def)
  qed
qed simp

text \<open>
  C40: A process that is freed while it is still the last of its priority list, as the
  error path of \<^verbatim>\<open>fork\<close> does, leaves a trap: its slot is unused but listed, so the
  \<^verbatim>\<open>add_process_priority\<close> of the next process that gets the slot makes it its own
  successor, and from then on every \<^verbatim>\<open>add_process_priority\<close> with that priority walks
  in a circle for ever.
\<close>

theorem freed_in_list_makes_cycle:
  assumes lists: "prio_lists s L" and k: "k < MAXPRIORITY" and p: "L k = xs @ [p]"
    and free: "freeproc p [] s = Ret () es' s1"
  shows "pstate (procs s1 p) = UNUSED \<and>
    (\<exists>s2. add_process_priority p k es s1 = Ret () es s2 \<and>
      (\<forall>q. \<exists>s3. add_process_priority q k es s2 = Diverge s3))"
proof -
  have "same_lists (p_control s) (links_of s) s1"
    using kpresD [OF freeproc_keeps_lists _ _ free] by (simp add: same_lists_def)
  then have ctl: "p_control s1 = p_control s" and lk: "links_of s1 = links_of s"
    by (simp_all add: same_lists_def)
  have c: "chain (links_of s) (head_priority (p_control s) k) (xs @ [p])" and d: "p \<notin> set xs"
    using prio_listsD(1,2) [OF lists k] p by simp_all
  then obtain h where h: "head_priority (p_control s) k = Some h" by (cases xs) auto
  have "length (xs @ [p]) \<le> NPROC" using prio_lists_length [OF lists k] p by simp
  then have add: "add_process_priority p k es s1 = Ret () es (appended k (xs @ [p]) p s1)"
    using c k by (intro add_process_priority_run) (simp_all add: ctl lk)
  let ?s2 = "appended k (xs @ [p]) p s1"
  have lk2: "links_of ?s2 = (links_of s)(p := Some p)" and h2: "head_priority (p_control ?s2) k = Some h"
    using h by (simp_all add: appended_def lk ctl)
  have "links_of s p = None" using c by (rule chain_last)
  then have "(links_of ?s2)(p := None) = links_of s" by (auto simp: lk2)
  then have "list_last NPROC h es ?s2 = Diverge ?s2"
    using c d h by (intro list_last_cycle [of _ p h xs]) (simp_all add: lk2)
  then have "add_process_priority q k es ?s2 = Diverge ?s2" for q
    using k h2 by (simp add: add_process_priority_def)
  then show ?thesis using add freeproc_unused [OF free] by blast
qed

definition ex_listed :: proc_state where
  "ex_listed = ex_proc_state\<lparr>p_control := \<lparr>present = (\<lambda>_. 0)(1 := 1),
     head_priority = (\<lambda>_. None)(1 := Some 3), current_priority = (\<lambda>_. None)\<rparr>\<rparr>"

theorem freed_in_list_makes_cycle_witness:
  "\<exists>s1 s2. freeproc 3 [] ex_listed = Ret () [] s1 \<and> pstate (procs s1 3) = UNUSED \<and>
     add_process_priority 3 1 [] s1 = Ret () [] s2 \<and>
     (\<forall>q. \<exists>s3. add_process_priority q 1 [] s2 = Diverge s3)"
proof -
  have lists: "prio_lists ex_listed ((\<lambda>_. [])(1 := [] @ [3]))"
    by (rule prio_listsI) (auto simp: ex_listed_def ex_proc_state_def ex_proc_def links_of_def split: if_splits)
  have "trapframe (procs ex_listed 3) = 0" "pagetable (procs ex_listed 3) = 0"
    by (simp_all add: ex_listed_def ex_proc_state_def ex_proc_def)
  then obtain s1 where s1: "freeproc 3 [] ex_listed = Ret () [] s1"
    by (simp add: freeproc_def pget_def pset_def)
  have "(1 :: nat) < MAXPRIORITY" by simp
  from freed_in_list_makes_cycle [OF lists this fun_upd_same s1, of "[]"] s1
  show ?thesis by blast
qed

end
