(* ===== verification/Sleep_Protocol.thy ===== *)
theory Sleep_Protocol
  imports Proc
begin

text \<open>
  The protocol of \<^verbatim>\<open>sleep\<close> and \<^verbatim>\<open>wakeup\<close> (\<^verbatim>\<open>kernel/proc.c\<close>) at the granularity of
  their lock operations and assignments.  One process waits for a condition that is
  protected by the lock \<^verbatim>\<open>lk\<close>, as all callers of \<^verbatim>\<open>sleep\<close> do:

  \<^verbatim>\<open>acquire(lk); while(!cond) sleep(chan, lk); cond = 0; release(lk);\<close>

  and any number of others make it true and wake it:

  \<^verbatim>\<open>acquire(lk); cond = 1; wakeup(chan); release(lk);\<close>

  Between them the scheduler switches to the process once it is runnable.
\<close>

subsection \<open>The step relation\<close>

datatype sleeper_pc =
    SIdle        \<comment> \<open>before \<^verbatim>\<open>acquire(lk)\<close>\<close>
  | SCheck       \<comment> \<open>at the test of the condition\<close>
  | SEnter       \<comment> \<open>in \<^verbatim>\<open>sleep\<close>, before \<^verbatim>\<open>acquire(&p->lock)\<close>\<close>
  | SBoth        \<comment> \<open>before \<^verbatim>\<open>release(lk)\<close>\<close>
  | SMark        \<comment> \<open>before \<^verbatim>\<open>p->chan = chan; p->state = SLEEPING\<close>\<close>
  | SSwitch      \<comment> \<open>in \<^verbatim>\<open>sched\<close>, before the scheduler releases \<^verbatim>\<open>p->lock\<close>\<close>
  | SAway        \<comment> \<open>switched away\<close>
  | SBack        \<comment> \<open>back from \<^verbatim>\<open>sched\<close>, before \<^verbatim>\<open>p->chan = 0\<close>\<close>
  | STidy        \<comment> \<open>before \<^verbatim>\<open>release(&p->lock)\<close>\<close>
  | SAgain       \<comment> \<open>before \<^verbatim>\<open>acquire(lk)\<close>\<close>
  | SLeave       \<comment> \<open>the condition was true and is consumed; before \<^verbatim>\<open>release(lk)\<close>\<close>

datatype waker_pc =
    WIdle        \<comment> \<open>before \<^verbatim>\<open>acquire(lk)\<close>\<close>
  | WSet         \<comment> \<open>before \<^verbatim>\<open>cond = 1\<close>\<close>
  | WCall        \<comment> \<open>in \<^verbatim>\<open>wakeup\<close>, before \<^verbatim>\<open>acquire(&p->lock)\<close>\<close>
  | WVisit       \<comment> \<open>before the test of \<^verbatim>\<open>p->state\<close> and \<^verbatim>\<open>p->chan\<close>\<close>
  | WNext        \<comment> \<open>before \<^verbatim>\<open>release(&p->lock)\<close>\<close>
  | WLeave       \<comment> \<open>before \<^verbatim>\<open>release(lk)\<close>\<close>

datatype agent = Sleeper | Waker nat

record sys =
  lk_holder :: "agent option"
  p_holder :: "agent option"     \<comment> \<open>of \<^verbatim>\<open>p->lock\<close>\<close>
  cond :: bool
  st :: procstate                \<comment> \<open>\<^verbatim>\<open>p->state\<close>\<close>
  on_chan :: bool                \<comment> \<open>\<^verbatim>\<open>p->chan == chan\<close>\<close>
  spc :: sleeper_pc
  wpc :: "nat \<Rightarrow> waker_pc"

definition sys_init :: sys where
  "sys_init = \<lparr>lk_holder = None, p_holder = None, cond = False, st = RUNNING, on_chan = False,
     spc = SIdle, wpc = (\<lambda>_. WIdle)\<rparr>"

inductive sw_step :: "sys \<Rightarrow> sys \<Rightarrow> bool" where
  s_lock: "spc s = SIdle \<Longrightarrow> lk_holder s = None \<Longrightarrow>
     sw_step s (s\<lparr>lk_holder := Some Sleeper, spc := SCheck\<rparr>)"
| s_true: "spc s = SCheck \<Longrightarrow> cond s \<Longrightarrow>
     sw_step s (s\<lparr>cond := False, spc := SLeave\<rparr>)"
| s_unlock: "spc s = SLeave \<Longrightarrow>
     sw_step s (s\<lparr>lk_holder := None, spc := SIdle\<rparr>)"
| s_false: "spc s = SCheck \<Longrightarrow> \<not> cond s \<Longrightarrow>
     sw_step s (s\<lparr>spc := SEnter\<rparr>)"
| s_plock: "spc s = SEnter \<Longrightarrow> p_holder s = None \<Longrightarrow>
     sw_step s (s\<lparr>p_holder := Some Sleeper, spc := SBoth\<rparr>)"
| s_release: "spc s = SBoth \<Longrightarrow>
     sw_step s (s\<lparr>lk_holder := None, spc := SMark\<rparr>)"
| s_mark: "spc s = SMark \<Longrightarrow>
     sw_step s (s\<lparr>on_chan := True, st := SLEEPING, spc := SSwitch\<rparr>)"
| s_switch: "spc s = SSwitch \<Longrightarrow>
     sw_step s (s\<lparr>p_holder := None, spc := SAway\<rparr>)"
| s_resume: "spc s = SAway \<Longrightarrow> p_holder s = None \<Longrightarrow> st s = RUNNABLE \<Longrightarrow>
     sw_step s (s\<lparr>p_holder := Some Sleeper, st := RUNNING, spc := SBack\<rparr>)"
| s_clear: "spc s = SBack \<Longrightarrow>
     sw_step s (s\<lparr>on_chan := False, spc := STidy\<rparr>)"
| s_punlock: "spc s = STidy \<Longrightarrow>
     sw_step s (s\<lparr>p_holder := None, spc := SAgain\<rparr>)"
| s_relock: "spc s = SAgain \<Longrightarrow> lk_holder s = None \<Longrightarrow>
     sw_step s (s\<lparr>lk_holder := Some Sleeper, spc := SCheck\<rparr>)"
| w_lock: "wpc s i = WIdle \<Longrightarrow> lk_holder s = None \<Longrightarrow>
     sw_step s (s\<lparr>lk_holder := Some (Waker i), wpc := (wpc s)(i := WSet)\<rparr>)"
| w_set: "wpc s i = WSet \<Longrightarrow>
     sw_step s (s\<lparr>cond := True, wpc := (wpc s)(i := WCall)\<rparr>)"
| w_plock: "wpc s i = WCall \<Longrightarrow> p_holder s = None \<Longrightarrow>
     sw_step s (s\<lparr>p_holder := Some (Waker i), wpc := (wpc s)(i := WVisit)\<rparr>)"
| w_visit: "wpc s i = WVisit \<Longrightarrow>
     sw_step s (s\<lparr>st := (if st s = SLEEPING \<and> on_chan s then RUNNABLE else st s), wpc := (wpc s)(i := WNext)\<rparr>)"
| w_punlock: "wpc s i = WNext \<Longrightarrow>
     sw_step s (s\<lparr>p_holder := None, wpc := (wpc s)(i := WLeave)\<rparr>)"
| w_unlock: "wpc s i = WLeave \<Longrightarrow>
     sw_step s (s\<lparr>lk_holder := None, wpc := (wpc s)(i := WIdle)\<rparr>)"

inductive sw_reachable :: "sys \<Rightarrow> bool" where
  start: "sw_reachable sys_init"
| step: "sw_reachable s \<Longrightarrow> sw_step s t \<Longrightarrow> sw_reachable t"

subsection \<open>The invariant\<close>

definition s_has_lk :: "sleeper_pc \<Rightarrow> bool" where
  "s_has_lk c \<longleftrightarrow> c \<in> {SCheck, SEnter, SBoth, SLeave}"

definition s_has_p :: "sleeper_pc \<Rightarrow> bool" where
  "s_has_p c \<longleftrightarrow> c \<in> {SBoth, SMark, SSwitch, SBack, STidy}"

definition w_has_lk :: "waker_pc \<Rightarrow> bool" where
  "w_has_lk c \<longleftrightarrow> c \<noteq> WIdle"

definition w_has_p :: "waker_pc \<Rightarrow> bool" where
  "w_has_p c \<longleftrightarrow> c \<in> {WVisit, WNext}"

text \<open>Who holds the locks.\<close>

definition lock_inv :: "sys \<Rightarrow> bool" where
  "lock_inv s \<longleftrightarrow>
     (lk_holder s = Some Sleeper \<longleftrightarrow> s_has_lk (spc s)) \<and>
     (\<forall>i. lk_holder s = Some (Waker i) \<longleftrightarrow> w_has_lk (wpc s i)) \<and>
     (p_holder s = Some Sleeper \<longleftrightarrow> s_has_p (spc s)) \<and>
     (\<forall>i. p_holder s = Some (Waker i) \<longleftrightarrow> w_has_p (wpc s i))"

text \<open>
  The process sleeps only where \<^verbatim>\<open>sleep\<close> has put it, and when the condition is true
  while it sleeps, or is about to, some waker has yet to visit it.
\<close>

definition wake_inv :: "sys \<Rightarrow> bool" where
  "wake_inv s \<longleftrightarrow>
     (st s = SLEEPING \<longrightarrow> spc s \<in> {SSwitch, SAway} \<and> on_chan s) \<and>
     (spc s = SSwitch \<longrightarrow> st s = SLEEPING) \<and>
     (spc s = SAway \<longrightarrow> st s \<in> {SLEEPING, RUNNABLE}) \<and>
     (spc s \<in> {SEnter, SBoth, SLeave} \<longrightarrow> \<not> cond s) \<and>
     (cond s \<and> (spc s = SMark \<or> st s = SLEEPING) \<longrightarrow> (\<exists>i. wpc s i \<in> {WCall, WVisit}))"

lemmas pc_defs = s_has_lk_def s_has_p_def w_has_lk_def w_has_p_def

lemma one_waker:
  assumes "lock_inv s" "wpc s i \<noteq> WIdle" "wpc s j \<noteq> WIdle"
  shows "i = j"
proof -
  have "lk_holder s = Some (Waker i)" "lk_holder s = Some (Waker j)"
    using assms by (auto simp: lock_inv_def w_has_lk_def)
  then show ?thesis by simp
qed

lemma lock_inv_step:
  assumes "sw_step s t" and inv: "lock_inv s"
  shows "lock_inv t"
  using assms(1)
proof cases
  case (w_punlock i)
  then have "wpc s j = WIdle" if "j \<noteq> i" for j using one_waker [OF inv, of i j] that by auto
  with w_punlock inv show ?thesis by (auto simp: lock_inv_def pc_defs)
next
  case (w_unlock i)
  then have "wpc s j = WIdle" if "j \<noteq> i" for j using one_waker [OF inv, of i j] that by auto
  with w_unlock inv show ?thesis by (auto simp: lock_inv_def pc_defs)
qed (use inv in \<open>auto simp: lock_inv_def pc_defs\<close>)

lemma lk_excludes:
  "lock_inv s \<Longrightarrow> s_has_lk (spc s) \<Longrightarrow> wpc s i = WIdle"
  "lock_inv s \<Longrightarrow> s_has_p (spc s) \<Longrightarrow> \<not> w_has_p (wpc s i)"
  "lock_inv s \<Longrightarrow> wpc s i \<noteq> WIdle \<Longrightarrow> \<not> s_has_lk (spc s)"
  "lock_inv s \<Longrightarrow> w_has_p (wpc s i) \<Longrightarrow> \<not> s_has_p (spc s)"
  by (auto simp: lock_inv_def w_has_lk_def)

text \<open>A waker that changes neither the process nor the condition and is not on its way to it.\<close>

lemma wake_inv_waker:
  assumes "wake_inv s" "wpc s i \<notin> {WCall, WVisit}"
  shows "wake_inv (s\<lparr>wpc := (wpc s)(i := c)\<rparr>)"
proof -
  have "\<exists>j. ((wpc s)(i := c)) j \<in> {WCall, WVisit}" if "\<exists>j. wpc s j \<in> {WCall, WVisit}"
  proof -
    from that obtain j where "wpc s j \<in> {WCall, WVisit}" by blast
    with assms(2) have "((wpc s)(i := c)) j \<in> {WCall, WVisit}" by auto
    then show ?thesis by blast
  qed
  with assms(1) show ?thesis unfolding wake_inv_def by simp
qed

lemma wake_inv_holders [simp]:
  "wake_inv (s\<lparr>lk_holder := a\<rparr>) = wake_inv s" "wake_inv (s\<lparr>p_holder := a\<rparr>) = wake_inv s"
  "wake_inv (s\<lparr>lk_holder := a, wpc := w\<rparr>) = wake_inv (s\<lparr>wpc := w\<rparr>)"
  "wake_inv (s\<lparr>p_holder := a, wpc := w\<rparr>) = wake_inv (s\<lparr>wpc := w\<rparr>)"
  by (simp_all add: wake_inv_def)

lemma wake_inv_step:
  assumes "sw_step s t" and lock: "lock_inv s" and inv: "wake_inv s"
  shows "wake_inv t"
  using assms(1)
proof cases
  case (w_lock i)
  then show ?thesis using wake_inv_waker [OF inv, of i WSet] by simp
next
  case (w_set i)
  then have "\<not> s_has_lk (spc s)" using lk_excludes(3) [OF lock, of i] by simp
  then show ?thesis using inv w_set by (auto simp: wake_inv_def s_has_lk_def)
next
  case (w_plock i)
  then have "\<exists>j. ((wpc s)(i := WVisit)) j \<in> {WCall, WVisit}" by (intro exI [of _ i]) simp
  then show ?thesis using inv w_plock by (simp add: wake_inv_def)
next
  case (w_visit i)
  then have "\<not> s_has_p (spc s)" using lk_excludes(4) [OF lock, of i] by (simp add: w_has_p_def)
  then show ?thesis using inv w_visit by (auto simp: wake_inv_def s_has_p_def)
next
  case (w_punlock i)
  then show ?thesis using wake_inv_waker [OF inv, of i WLeave] by simp
next
  case (w_unlock i)
  then show ?thesis using wake_inv_waker [OF inv, of i WIdle] by simp
qed (use inv in \<open>auto simp: wake_inv_def\<close>)

lemma reachable_inv: "sw_reachable s \<Longrightarrow> lock_inv s \<and> wake_inv s"
proof (induction rule: sw_reachable.induct)
  case start
  then show ?case by (simp add: lock_inv_def wake_inv_def sys_init_def pc_defs)
qed (blast intro: lock_inv_step wake_inv_step)

subsection \<open>Progress\<close>

text \<open>
  The steps that the process, and the waker that holds \<^verbatim>\<open>lk\<close>, have yet to make before the
  process tests the condition.
\<close>

primrec s_left :: "sleeper_pc \<Rightarrow> nat" where
  "s_left SIdle = 1"
| "s_left SCheck = 0"
| "s_left SEnter = 9"
| "s_left SBoth = 8"
| "s_left SMark = 7"
| "s_left SSwitch = 6"
| "s_left SAway = 5"
| "s_left SBack = 4"
| "s_left STidy = 3"
| "s_left SAgain = 1"
| "s_left SLeave = 2"

primrec w_left :: "waker_pc \<Rightarrow> nat" where
  "w_left WIdle = 0"
| "w_left WSet = 5"
| "w_left WCall = 4"
| "w_left WVisit = 3"
| "w_left WNext = 2"
| "w_left WLeave = 1"

definition steps_left :: "sys \<Rightarrow> nat" where
  "steps_left s = s_left (spc s) + (case lk_holder s of Some (Waker i) \<Rightarrow> w_left (wpc s i) | _ \<Rightarrow> 0)"

text \<open>The process alone, when no waker is in its way.\<close>

lemma sleeper_moves:
  assumes inv: "lock_inv s" "wake_inv s" and "cond s" "spc s \<noteq> SCheck"
    and way: "s_has_p (spc s) \<or> lk_holder s = None"
  shows "\<exists>t. sw_step s t \<and> cond t \<and> steps_left t < steps_left s"
proof -
  have free: "p_holder s = None" if "lk_holder s = None" "\<not> s_has_p (spc s)"
  proof (cases "p_holder s")
    case (Some a)
    with that inv(1) show ?thesis by (cases a) (auto simp: lock_inv_def pc_defs)
  qed
  have run: "st s = RUNNABLE" if "spc s = SAway" "lk_holder s = None"
    using inv that assms(3) by (fastforce simp: wake_inv_def lock_inv_def pc_defs)
  show ?thesis
  proof (cases "spc s")
    case SIdle
    then show ?thesis using way assms(3) sw_step.s_lock [of s]
      by (intro exI [of _ "s\<lparr>lk_holder := Some Sleeper, spc := SCheck\<rparr>"]) (simp add: steps_left_def pc_defs split: option.split agent.split)
  next
    case SMark
    then show ?thesis using assms(3) sw_step.s_mark [of s]
      by (intro exI [of _ "s\<lparr>on_chan := True, st := SLEEPING, spc := SSwitch\<rparr>"]) (simp add: steps_left_def split: option.split agent.split)
  next
    case SSwitch
    then show ?thesis using assms(3) sw_step.s_switch [of s]
      by (intro exI [of _ "s\<lparr>p_holder := None, spc := SAway\<rparr>"]) (simp add: steps_left_def split: option.split agent.split)
  next
    case SAway
    then show ?thesis using way free run assms(3) sw_step.s_resume [of s]
      by (intro exI [of _ "s\<lparr>p_holder := Some Sleeper, st := RUNNING, spc := SBack\<rparr>"]) (simp add: steps_left_def pc_defs split: option.split agent.split)
  next
    case SBack
    then show ?thesis using assms(3) sw_step.s_clear [of s]
      by (intro exI [of _ "s\<lparr>on_chan := False, spc := STidy\<rparr>"]) (simp add: steps_left_def split: option.split agent.split)
  next
    case STidy
    then show ?thesis using assms(3) sw_step.s_punlock [of s]
      by (intro exI [of _ "s\<lparr>p_holder := None, spc := SAgain\<rparr>"]) (simp add: steps_left_def split: option.split agent.split)
  next
    case SAgain
    then show ?thesis using way assms(3) sw_step.s_relock [of s]
      by (intro exI [of _ "s\<lparr>lk_holder := Some Sleeper, spc := SCheck\<rparr>"]) (simp add: steps_left_def pc_defs split: option.split agent.split)
  qed (use inv(2) assms(3,4) in \<open>auto simp: wake_inv_def\<close>)
qed

text \<open>The waker that holds \<^verbatim>\<open>lk\<close>, when the process does not hold its own lock.\<close>

lemma waker_moves:
  assumes inv: "lock_inv s" and "cond s" and lk: "lk_holder s = Some (Waker i)" and np: "\<not> s_has_p (spc s)"
  shows "\<exists>t. sw_step s t \<and> cond t \<and> steps_left t < steps_left s"
proof -
  have free: "p_holder s = None" if "wpc s i = WCall"
  proof (cases "p_holder s")
    case (Some a)
    then show ?thesis
    proof (cases a)
      case (Waker j)
      then have "w_has_p (wpc s j)" using inv Some by (auto simp add: lock_inv_def)
      then show ?thesis using one_waker [OF inv, of i j] that by (auto simp: pc_defs)
    qed (use inv Some np in \<open>simp add: lock_inv_def\<close>)
  qed
  show ?thesis
  proof (cases "wpc s i")
    case WIdle
    then show ?thesis using inv lk by (auto simp: lock_inv_def w_has_lk_def)
  next
    case WSet
    then show ?thesis using lk sw_step.w_set [of s i]
      by (intro exI [of _ "s\<lparr>cond := True, wpc := (wpc s)(i := WCall)\<rparr>"]) (simp add: steps_left_def split: option.split agent.split)
  next
    case WCall
    then show ?thesis using lk free assms(2) sw_step.w_plock [of s i]
      by (intro exI [of _ "s\<lparr>p_holder := Some (Waker i), wpc := (wpc s)(i := WVisit)\<rparr>"]) (simp add: steps_left_def split: option.split agent.split)
  next
    case WVisit
    then show ?thesis using lk assms(2) sw_step.w_visit [of s i]
      by (intro exI [of _ "s\<lparr>st := (if st s = SLEEPING \<and> on_chan s then RUNNABLE else st s), wpc := (wpc s)(i := WNext)\<rparr>"])
        (simp add: steps_left_def split: option.split agent.split)
  next
    case WNext
    then show ?thesis using lk assms(2) sw_step.w_punlock [of s i]
      by (intro exI [of _ "s\<lparr>p_holder := None, wpc := (wpc s)(i := WLeave)\<rparr>"]) (simp add: steps_left_def split: option.split agent.split)
  next
    case WLeave
    then show ?thesis using lk assms(2) sw_step.w_unlock [of s i]
      by (intro exI [of _ "s\<lparr>lk_holder := None, wpc := (wpc s)(i := WIdle)\<rparr>"]) (simp add: steps_left_def split: option.split agent.split)
  qed
qed

lemma progress:
  assumes "sw_reachable s" "cond s" "spc s \<noteq> SCheck"
  shows "\<exists>t. sw_step s t \<and> cond t \<and> steps_left t < steps_left s"
proof -
  have inv: "lock_inv s" "wake_inv s" using reachable_inv [OF assms(1)] by simp_all
  consider "s_has_p (spc s) \<or> lk_holder s = None" | i where "\<not> s_has_p (spc s)" "lk_holder s = Some (Waker i)"
    | "lk_holder s = Some Sleeper"
    by (cases "lk_holder s"; cases "the (lk_holder s)") auto
  then show ?thesis
  proof cases
    case 3
    then have "spc s \<in> {SEnter, SBoth, SLeave}" using inv(1) assms(3) by (auto simp: lock_inv_def s_has_lk_def)
    then show ?thesis using inv(2) assms(2) by (simp add: wake_inv_def)
  qed (use sleeper_moves [OF inv assms(2,3)] waker_moves [OF inv(1) assms(2)] in blast)+
qed

lemma proceeds:
  assumes "sw_reachable s" "cond s"
  shows "\<exists>t n. n \<le> steps_left s \<and> (sw_step ^^ n) s t \<and> spc t = SCheck \<and> cond t \<and> lk_holder t = Some Sleeper"
  using assms
proof (induction "steps_left s" arbitrary: s rule: less_induct)
  case less
  show ?case
  proof (cases "spc s = SCheck")
    case True
    then have "lk_holder s = Some Sleeper" using reachable_inv [OF less.prems(1)] by (simp add: lock_inv_def s_has_lk_def)
    then show ?thesis using True less.prems(2) by (intro exI [of _ s] exI [of _ 0]) simp
  next
    case False
    then obtain u where u: "sw_step s u" "cond u" "steps_left u < steps_left s" using progress less.prems by blast
    then obtain t n where "n \<le> steps_left u" "(sw_step ^^ n) u t" "spc t = SCheck" "cond t" "lk_holder t = Some Sleeper"
      using less.hyps [OF u(3) sw_reachable.step [OF less.prems(1) u(1)]] by blast
    moreover from this have "(sw_step ^^ Suc n) s t" using relpowp_Suc_I2 [of sw_step s u n t] u(1) by simp
    ultimately show ?thesis using u(3) by (intro exI [of _ t] exI [of _ "Suc n"]) simp
  qed
qed

lemma steps_left_le: "steps_left s \<le> 14"
proof -
  have "s_left (spc s) \<le> 9" by (cases "spc s") simp_all
  moreover have "w_left (wpc s i) \<le> 5" for i by (cases "wpc s i") simp_all
  ultimately show ?thesis by (auto simp: steps_left_def add_mono [of _ 9 _ 5, simplified] trans_le_add1 split: option.split agent.split)
qed

subsection \<open>Properties\<close>

text \<open>
  C3: No wakeup is lost: whatever the interleaving, when the condition holds and no
  waker is between setting it and having visited the process, the process is not
  asleep.  The locks are held as the code means: never by two at once.
\<close>

theorem no_lost_wakeup:
  assumes "sw_reachable s"
  shows "(cond s \<and> (\<forall>i. wpc s i \<noteq> WCall \<and> wpc s i \<noteq> WVisit) \<longrightarrow> st s \<noteq> SLEEPING) \<and>
    (wpc s i \<noteq> WIdle \<and> wpc s j \<noteq> WIdle \<longrightarrow> i = j) \<and> (s_has_lk (spc s) \<longrightarrow> wpc s i = WIdle)"
  using reachable_inv [OF assms] one_waker [of s i j] lk_excludes(1) [of s i]
  by (auto simp: wake_inv_def)

text \<open>One process that falls asleep, and a waker that finds it.\<close>

lemma sw_run:
  "(\<exists>s. sw_reachable s \<and> cond s \<and> spc s = SAway \<and> st s = SLEEPING) \<and>
   (\<exists>s. sw_reachable s \<and> cond s \<and> spc s = SAway \<and> st s = RUNNABLE \<and> (\<forall>i. wpc s i = WIdle) \<and>
     lk_holder s = None \<and> p_holder s = None)"
proof -
  define s1 where "s1 = sys_init\<lparr>lk_holder := Some Sleeper, spc := SCheck\<rparr>"
  define s2 where "s2 = s1\<lparr>spc := SEnter\<rparr>"
  define s3 where "s3 = s2\<lparr>p_holder := Some Sleeper, spc := SBoth\<rparr>"
  define s4 where "s4 = s3\<lparr>lk_holder := None, spc := SMark\<rparr>"
  define s5 where "s5 = s4\<lparr>on_chan := True, st := SLEEPING, spc := SSwitch\<rparr>"
  define s6 where "s6 = s5\<lparr>p_holder := None, spc := SAway\<rparr>"
  define s7 where "s7 = s6\<lparr>lk_holder := Some (Waker 0), wpc := (wpc s6)(0 := WSet)\<rparr>"
  define s8 where "s8 = s7\<lparr>cond := True, wpc := (wpc s7)(0 := WCall)\<rparr>"
  define s9 where "s9 = s8\<lparr>p_holder := Some (Waker 0), wpc := (wpc s8)(0 := WVisit)\<rparr>"
  define s10 where "s10 = s9\<lparr>st := (if st s9 = SLEEPING \<and> on_chan s9 then RUNNABLE else st s9), wpc := (wpc s9)(0 := WNext)\<rparr>"
  define s11 where "s11 = s10\<lparr>p_holder := None, wpc := (wpc s10)(0 := WLeave)\<rparr>"
  define s12 where "s12 = s11\<lparr>lk_holder := None, wpc := (wpc s11)(0 := WIdle)\<rparr>"
  note defs = s12_def s11_def s10_def s9_def s8_def s7_def s6_def s5_def s4_def s3_def s2_def s1_def sys_init_def
  have a1: "sw_step sys_init s1" unfolding s1_def by (rule sw_step.s_lock) (simp_all add: sys_init_def)
  have a2: "sw_step s1 s2" unfolding s2_def by (rule sw_step.s_false) (simp_all add: defs)
  have a3: "sw_step s2 s3" unfolding s3_def by (rule sw_step.s_plock) (simp_all add: defs)
  have a4: "sw_step s3 s4" unfolding s4_def by (rule sw_step.s_release) (simp_all add: defs)
  have a5: "sw_step s4 s5" unfolding s5_def by (rule sw_step.s_mark) (simp_all add: defs)
  have a6: "sw_step s5 s6" unfolding s6_def by (rule sw_step.s_switch) (simp_all add: defs)
  have a7: "sw_step s6 s7" unfolding s7_def by (rule sw_step.w_lock) (simp_all add: defs)
  have a8: "sw_step s7 s8" unfolding s8_def by (rule sw_step.w_set) (simp_all add: defs)
  have a9: "sw_step s8 s9" unfolding s9_def by (rule sw_step.w_plock) (simp_all add: defs)
  have a10: "sw_step s9 s10" unfolding s10_def by (rule sw_step.w_visit) (simp_all add: defs)
  have a11: "sw_step s10 s11" unfolding s11_def by (rule sw_step.w_punlock) (simp_all add: defs)
  have a12: "sw_step s11 s12" unfolding s12_def by (rule sw_step.w_unlock) (simp_all add: defs)
  have r8: "sw_reachable s8"
    by (rule sw_reachable.step [OF _ a8], rule sw_reachable.step [OF _ a7],
        rule sw_reachable.step [OF _ a6], rule sw_reachable.step [OF _ a5], rule sw_reachable.step [OF _ a4],
        rule sw_reachable.step [OF _ a3], rule sw_reachable.step [OF _ a2], rule sw_reachable.step [OF sw_reachable.start a1])
  have "sw_reachable s12"
    by (rule sw_reachable.step [OF _ a12], rule sw_reachable.step [OF _ a11], rule sw_reachable.step [OF _ a10],
        rule sw_reachable.step [OF r8 a9])
  moreover have "cond s8" "spc s8 = SAway" "st s8 = SLEEPING" by (simp_all add: defs)
  moreover have "cond s12" "spc s12 = SAway" "st s12 = RUNNABLE" "\<forall>i. wpc s12 i = WIdle" "lk_holder s12 = None" "p_holder s12 = None"
    by (simp_all add: defs)
  ultimately show ?thesis using r8 by blast
qed

theorem no_lost_wakeup_witness:
  "\<exists>s. sw_reachable s \<and> cond s \<and> spc s = SAway \<and> st s \<noteq> SLEEPING"
proof -
  obtain s where s: "sw_reachable s" "cond s" "spc s = SAway" "\<forall>i. wpc s i = WIdle"
    using sw_run by blast
  with no_lost_wakeup [OF s(1)] have "st s \<noteq> SLEEPING" by simp
  with s show ?thesis by blast
qed

text \<open>
  C20: A process that waits for a condition which has become true gets to see it:
  wherever the process and the wakers are, from every reachable state in which the
  condition holds some run of at most fourteen steps leads to the process's test of the
  condition, with \<^verbatim>\<open>lk\<close> held by the process and the condition true.
\<close>

theorem sleeper_proceeds:
  assumes "sw_reachable s" "cond s"
  shows "\<exists>t n. n \<le> 14 \<and> (sw_step ^^ n) s t \<and> spc t = SCheck \<and> cond t \<and> lk_holder t = Some Sleeper"
proof -
  have "\<exists>t n. n \<le> steps_left s \<and> (sw_step ^^ n) s t \<and> spc t = SCheck \<and> cond t \<and> lk_holder t = Some Sleeper"
    by (rule proceeds [OF assms])
  then show ?thesis using steps_left_le [of s] by (meson le_trans)
qed

theorem sleeper_proceeds_witness:
  "\<exists>s t n. sw_reachable s \<and> st s = SLEEPING \<and> cond s \<and> (sw_step ^^ n) s t \<and> spc t = SCheck \<and> cond t"
proof -
  obtain s where s: "sw_reachable s" "cond s" "st s = SLEEPING" using sw_run by blast
  with sleeper_proceeds [OF s(1,2)] show ?thesis by blast
qed

end
