(* ===== verification/Sleeplock.thy ===== *)
theory Sleeplock
  imports Proc
begin

text \<open>\<^verbatim>\<open>kernel/sleeplock.c\<close>: locks whose holders may sleep.\<close>

record sleeplock =
  sl_locked :: bool
  sl_name :: string
  sl_pid :: int

record sleep_state = proc_state +
  sleeplocks :: "sleeplockid \<Rightarrow> sleeplock"

definition sl_set :: "sleeplockid \<Rightarrow> (sleeplock \<Rightarrow> sleeplock) \<Rightarrow> ('z sleep_state_scheme, unit) kmon" where
  "sl_set lk f = kmodify (\<lambda>s. s\<lparr>sleeplocks := (sleeplocks s)(lk := f (sleeplocks s lk))\<rparr>)"

definition initsleeplock :: "sleeplockid \<Rightarrow> string \<Rightarrow> ('z sleep_state_scheme, unit) kmon" where
  "initsleeplock lk name = kseq [
     initlock (SleepLk lk) ''sleep lock'',
     sl_set lk (\<lambda>l. l\<lparr>sl_name := name\<rparr>),
     sl_set lk (\<lambda>l. l\<lparr>sl_locked := False\<rparr>),
     sl_set lk (\<lambda>l. l\<lparr>sl_pid := 0\<rparr>)]"

definition acquiresleep :: "sleeplockid \<Rightarrow> ('z sleep_state_scheme, unit) kmon" where
  "acquiresleep lk =
     kbind (acquire (SleepLk lk)) (\<lambda>_.
     kbind (kwaitloop (
       kbind (kget (\<lambda>s. sl_locked (sleeplocks s lk))) (\<lambda>l.
       if l then kbind (sleep (Some (ChanSleep lk)) (SleepLk lk)) (\<lambda>_. kret None)
       else kret (Some ())))) (\<lambda>_.
     kbind (sl_set lk (\<lambda>l. l\<lparr>sl_locked := True\<rparr>)) (\<lambda>_.
     kbind myproc (\<lambda>mp. deref mp (\<lambda>p.
     kbind (pget p pid) (\<lambda>i.
     kbind (sl_set lk (\<lambda>l. l\<lparr>sl_pid := i\<rparr>)) (\<lambda>_.
     release (SleepLk lk))))))))"

definition releasesleep :: "sleeplockid \<Rightarrow> ('z sleep_state_scheme, unit) kmon" where
  "releasesleep lk = kseq [
     acquire (SleepLk lk),
     sl_set lk (\<lambda>l. l\<lparr>sl_locked := False\<rparr>),
     sl_set lk (\<lambda>l. l\<lparr>sl_pid := 0\<rparr>),
     wakeup (Some (ChanSleep lk)),
     release (SleepLk lk)]"

definition holdingsleep :: "sleeplockid \<Rightarrow> ('z sleep_state_scheme, bool) kmon" where
  "holdingsleep lk =
     kbind (acquire (SleepLk lk)) (\<lambda>_.
     kbind (kget (\<lambda>s. sleeplocks s lk)) (\<lambda>l.
     kbind (if \<not> sl_locked l then kret False
            else kbind myproc (\<lambda>mp. deref mp (\<lambda>p. kbind (pget p pid) (\<lambda>i. kret (sl_pid l = i))))) (\<lambda>r.
     kbind (release (SleepLk lk)) (\<lambda>_.
     kret r))))"

end
