(* ===== verification/Console.thy ===== *)
theory Console
  imports Sleeplock
begin

text \<open>
  The interrupt-driven side of \<^verbatim>\<open>kernel/uart.c\<close> (the transmit ring) and
  \<^verbatim>\<open>kernel/console.c\<close> (line editing and the read and write functions).
  The indices keep their widths: 64 bits for the UART, 32 for the console.
\<close>

datatype devfn = ConsoleRead | ConsoleWrite

record cons_state = sleep_state +
  uart_tx_buf :: "nat \<Rightarrow> u8"
  uart_tx_w :: u64
  uart_tx_r :: u64
  cons_buf :: "nat \<Rightarrow> u8"
  cons_r :: u32
  cons_w :: u32
  cons_e :: u32
  devsw_read :: "nat \<Rightarrow> devfn option"
  devsw_write :: "nat \<Rightarrow> devfn option"

definition UART_TX_BUF_SIZE :: u64 where [simp]: "UART_TX_BUF_SIZE = 32"
definition INPUT_BUF_SIZE :: u32 where [simp]: "INPUT_BUF_SIZE = 128"
definition CONSOLE :: nat where [simp]: "CONSOLE = 1"

subsection \<open>uart.c\<close>

text \<open>
  \<^verbatim>\<open>uartstart\<close> leaves at the latest when it has sent what is in the ring: each
  round takes one character, so the characters in it bound the rounds.
\<close>

definition uartstart :: "('z cons_state_scheme, unit) kmon" where
  "uartstart =
     kbind (kget (\<lambda>s. unat (uart_tx_w s - uart_tx_r s))) (\<lambda>n.
     kloop (Suc n) (
       kbind (kget (\<lambda>s. uart_tx_w s = uart_tx_r s)) (\<lambda>empty.
       if empty then kbind (ReadReg ISR) (\<lambda>_. kret (Some ())) else
       kbind (ReadReg LSR) (\<lambda>v.
       if v AND LSR_TX_IDLE = 0 then kret (Some ()) else
       kbind (kget (\<lambda>s. uart_tx_buf s (unat (uart_tx_r s mod UART_TX_BUF_SIZE)))) (\<lambda>c.
       kbind (kmodify (\<lambda>s. s\<lparr>uart_tx_r := uart_tx_r s + 1\<rparr>)) (\<lambda>_.
       kbind (wakeup (Some ChanUartTxR)) (\<lambda>_.
       kbind (WriteReg THR c) (\<lambda>_.
       kret None))))))))"

definition uartputc :: "u32 \<Rightarrow> ('z cons_state_scheme, unit) kmon" where
  "uartputc c =
     kbind (acquire UartTxLock) (\<lambda>_.
     kbind (kget panicked) (\<lambda>p.
     if p then kdiverge else
     kbind (kwaitloop (
       kbind (kget (\<lambda>s. uart_tx_w s = uart_tx_r s + UART_TX_BUF_SIZE)) (\<lambda>full.
       if full then kbind (sleep (Some ChanUartTxR) UartTxLock) (\<lambda>_. kret None)
       else kret (Some ())))) (\<lambda>_.
     kseq [
       kmodify (\<lambda>s. s\<lparr>uart_tx_buf := (uart_tx_buf s)(unat (uart_tx_w s mod UART_TX_BUF_SIZE) := ucast c)\<rparr>),
       kmodify (\<lambda>s. s\<lparr>uart_tx_w := uart_tx_w s + 1\<rparr>),
       uartstart,
       release UartTxLock])))"

subsection \<open>console.c\<close>

definition Ctrl :: "char \<Rightarrow> u32" where
  "Ctrl c = of_char c - of_char CHR ''@''"

primrec consolewrite_loop :: "nat \<Rightarrow> nat \<Rightarrow> source \<Rightarrow> ('z cons_state_scheme, int) kmon" where
  "consolewrite_loop 0 i src = kret (int i)"
| "consolewrite_loop (Suc k) i src =
     kbind (either_copyin (source_add src (of_nat i)) 1) (\<lambda>(r, c).
     if r = -1 then kret (int i)
     else kbind (uartputc (ucast (hd c))) (\<lambda>_. consolewrite_loop k (Suc i) src))"

definition consolewrite :: "source \<Rightarrow> int \<Rightarrow> ('z cons_state_scheme, int) kmon" where
  "consolewrite src n = consolewrite_loop (nat n) 0 src"

text \<open>The inner loop of \<^verbatim>\<open>consoleread\<close>; \<open>False\<close> if the process has been killed.\<close>

definition consoleread_wait :: "('z cons_state_scheme, bool) kmon" where
  "consoleread_wait = kwaitloop (
     kbind (kget (\<lambda>s. cons_r s = cons_w s)) (\<lambda>empty.
     if \<not> empty then kret (Some True) else
     kbind myproc (\<lambda>mp. deref mp (\<lambda>p.
     kbind (killed p) (\<lambda>k.
     if k then kbind (release ConsLock) (\<lambda>_. kret (Some False))
     else kbind (sleep (Some ChanConsR) ConsLock) (\<lambda>_. kret None))))))"

text \<open>\<open>None\<close> if it has returned \<^verbatim>\<open>-1\<close>, otherwise the \<^verbatim>\<open>n\<close> that is left.\<close>

fun consoleread_loop :: "nat \<Rightarrow> nat \<Rightarrow> dest \<Rightarrow> ('z cons_state_scheme, nat option) kmon" where
  "consoleread_loop 0 target dst = kret (Some 0)"
| "consoleread_loop (Suc n) target dst =
     kbind consoleread_wait (\<lambda>go.
     if \<not> go then kret None else
     kbind (kget (\<lambda>s. cons_buf s (unat (cons_r s mod INPUT_BUF_SIZE)))) (\<lambda>c.
     kbind (kmodify (\<lambda>s. s\<lparr>cons_r := cons_r s + 1\<rparr>)) (\<lambda>_.
     if ucast c = Ctrl CHR ''D'' then
       kbind (kwhen (Suc n < target) (kmodify (\<lambda>s. s\<lparr>cons_r := cons_r s - 1\<rparr>))) (\<lambda>_.
       kret (Some (Suc n)))
     else
       kbind (either_copyout dst [c] 1) (\<lambda>r.
       if r = -1 then kret (Some (Suc n))
       else if c = 0x0A then kret (Some n)
       else consoleread_loop n target (dest_add dst 1)))))"

definition consoleread :: "dest \<Rightarrow> int \<Rightarrow> ('z cons_state_scheme, int) kmon" where
  "consoleread dst n =
     kbind (acquire ConsLock) (\<lambda>_.
     kbind (consoleread_loop (nat n) (nat n) dst) (\<lambda>r.
     case r of
       None \<Rightarrow> kret (-1)
     | Some m \<Rightarrow> kbind (release ConsLock) (\<lambda>_. kret (int (nat n) - int m))))"

text \<open>\<^verbatim>\<open>case C('U')\<close>: what is typed on the line bounds the rounds.\<close>

definition consoleintr_kill :: "('z cons_state_scheme, unit) kmon" where
  "consoleintr_kill =
     kbind (kget (\<lambda>s. unat (cons_e s - cons_w s))) (\<lambda>n.
     kloop (Suc n) (
       kbind (kget (\<lambda>s. cons_e s \<noteq> cons_w s \<and>
                cons_buf s (unat ((cons_e s - 1) mod INPUT_BUF_SIZE)) \<noteq> 0x0A)) (\<lambda>more.
       if more then kbind (kmodify (\<lambda>s. s\<lparr>cons_e := cons_e s - 1\<rparr>)) (\<lambda>_.
                    kbind (consputc BACKSPACE) (\<lambda>_. kret None))
       else kret (Some ()))))"

definition consoleintr_char :: "u32 \<Rightarrow> ('z cons_state_scheme, unit) kmon" where
  "consoleintr_char c0 =
     kbind (kget (\<lambda>s. cons_e s - cons_r s < INPUT_BUF_SIZE)) (\<lambda>room.
     if c0 = 0 \<or> \<not> room then kret () else
     (let c = (if c0 = 0x0D then 0x0A else c0) in
     kbind (consputc c) (\<lambda>_.
     kbind (kmodify (\<lambda>s. s\<lparr>cons_buf := (cons_buf s)(unat (cons_e s mod INPUT_BUF_SIZE) := ucast c),
                          cons_e := cons_e s + 1\<rparr>)) (\<lambda>_.
     kbind (kget (\<lambda>s. cons_e s - cons_r s = INPUT_BUF_SIZE)) (\<lambda>full.
     kwhen (c = 0x0A \<or> c = Ctrl CHR ''D'' \<or> full) (kseq [
       kmodify (\<lambda>s. s\<lparr>cons_w := cons_e s\<rparr>),
       wakeup (Some ChanConsR)]))))))"

definition consoleintr :: "u32 \<Rightarrow> ('z cons_state_scheme, unit) kmon" where
  "consoleintr c = kseq [
     acquire ConsLock,
     (if c = Ctrl CHR ''P'' then procdump
      else if c = Ctrl CHR ''U'' then consoleintr_kill
      else if c = Ctrl CHR ''H'' \<or> c = 0x7F then
        kbind (kget (\<lambda>s. cons_e s \<noteq> cons_w s)) (\<lambda>b.
        kwhen b (kseq [kmodify (\<lambda>s. s\<lparr>cons_e := cons_e s - 1\<rparr>), consputc BACKSPACE]))
      else consoleintr_char c),
     release ConsLock]"

definition consoleinit :: "('z cons_state_scheme, unit) kmon" where
  "consoleinit = kseq [
     initlock ConsLock ''cons'',
     uartinit,
     kmodify (\<lambda>s. s\<lparr>devsw_read := (devsw_read s)(CONSOLE := Some ConsoleRead)\<rparr>),
     kmodify (\<lambda>s. s\<lparr>devsw_write := (devsw_write s)(CONSOLE := Some ConsoleWrite)\<rparr>)]"

text \<open>
  \<^verbatim>\<open>uartintr\<close> reads characters for as long as the device has some; \<open>n\<close> bounds how
  many it has.
\<close>

definition uartintr :: "nat \<Rightarrow> ('z cons_state_scheme, unit) kmon" where
  "uartintr n = kseq [
     kloop n (
       kbind uartgetc (\<lambda>c.
       if c = -1 then kret (Some ())
       else kbind (consoleintr (of_int c)) (\<lambda>_. kret None))),
     acquire UartTxLock,
     uartstart,
     release UartTxLock]"

end
