(* ===== verification/Virtio.thy ===== *)
theory Virtio
  imports Console
begin

text \<open>
  \<^verbatim>\<open>kernel/buf.h\<close>, \<^verbatim>\<open>kernel/virtio.h\<close> and \<^verbatim>\<open>kernel/virtio_disk.c\<close>: the driver of the disk.

  The disk is a device: what the \<open>k\<close>-th read of one of its registers gives is the
  arbitrary function \<open>virtio_in\<close>, writes to its registers are logged, and what it
  does to the queues, the status bytes and the buffers happens while the driver
  waits, in the environment.  An address handed to the device is a value of
  \<open>dma\<close>, which names the object it points to.
\<close>

subsection \<open>Sizes and layouts\<close>

definition BSIZE :: nat where "BSIZE = 1024"
definition NUM :: nat where "NUM = 8"

record buf =
  bvalid :: bool
  bdisk :: bool
  bdev :: u32
  bblockno :: u32
  brefcnt :: u32
  bprev :: nat       \<comment> \<open>index into \<^verbatim>\<open>bcache.buf\<close>; \<^const>\<open>NBUF\<close> is \<^verbatim>\<open>bcache.head\<close>\<close>
  bnext :: nat
  bdata :: bytes

datatype dma = DmaNull | DmaOps nat | DmaBuf nat | DmaStatus nat

record virtq_desc =
  vaddr :: dma
  vlen :: u32
  vflags :: u16
  vnext :: u16

record virtio_blk_req =
  req_type :: u32
  req_reserved :: u32
  req_sector :: u64

record disk_state = cons_state +
  bufs :: "nat \<Rightarrow> buf"
  desc_page :: u64              \<comment> \<open>\<^verbatim>\<open>disk.desc\<close>, \<^verbatim>\<open>disk.avail\<close>, \<^verbatim>\<open>disk.used\<close>\<close>
  avail_page :: u64
  used_page :: u64
  desc :: "nat \<Rightarrow> virtq_desc"
  avail_idx :: u16
  avail_ring :: "nat \<Rightarrow> u16"
  used_ring_idx :: u16          \<comment> \<open>\<^verbatim>\<open>disk.used->idx\<close>\<close>
  used_ring :: "nat \<Rightarrow> u32"     \<comment> \<open>\<^verbatim>\<open>disk.used->ring[i].id\<close>\<close>
  desc_free :: "nat \<Rightarrow> bool"
  used_idx :: u16
  info_b :: "nat \<Rightarrow> nat option"
  info_status :: "nat \<Rightarrow> u8"
  ops :: "nat \<Rightarrow> virtio_blk_req"
  virtio_in :: "nat \<Rightarrow> nat \<Rightarrow> u32"
  virtio_clock :: nat
  virtio_writes :: "(nat \<times> u32) list"

definition VIRTIO_MMIO_MAGIC_VALUE :: nat where "VIRTIO_MMIO_MAGIC_VALUE = 0x000"
definition VIRTIO_MMIO_VERSION :: nat where "VIRTIO_MMIO_VERSION = 0x004"
definition VIRTIO_MMIO_DEVICE_ID :: nat where "VIRTIO_MMIO_DEVICE_ID = 0x008"
definition VIRTIO_MMIO_VENDOR_ID :: nat where "VIRTIO_MMIO_VENDOR_ID = 0x00c"
definition VIRTIO_MMIO_DEVICE_FEATURES :: nat where "VIRTIO_MMIO_DEVICE_FEATURES = 0x010"
definition VIRTIO_MMIO_DRIVER_FEATURES :: nat where "VIRTIO_MMIO_DRIVER_FEATURES = 0x020"
definition VIRTIO_MMIO_QUEUE_SEL :: nat where "VIRTIO_MMIO_QUEUE_SEL = 0x030"
definition VIRTIO_MMIO_QUEUE_NUM_MAX :: nat where "VIRTIO_MMIO_QUEUE_NUM_MAX = 0x034"
definition VIRTIO_MMIO_QUEUE_NUM :: nat where "VIRTIO_MMIO_QUEUE_NUM = 0x038"
definition VIRTIO_MMIO_QUEUE_READY :: nat where "VIRTIO_MMIO_QUEUE_READY = 0x044"
definition VIRTIO_MMIO_QUEUE_NOTIFY :: nat where "VIRTIO_MMIO_QUEUE_NOTIFY = 0x050"
definition VIRTIO_MMIO_INTERRUPT_STATUS :: nat where "VIRTIO_MMIO_INTERRUPT_STATUS = 0x060"
definition VIRTIO_MMIO_INTERRUPT_ACK :: nat where "VIRTIO_MMIO_INTERRUPT_ACK = 0x064"
definition VIRTIO_MMIO_STATUS :: nat where "VIRTIO_MMIO_STATUS = 0x070"
definition VIRTIO_MMIO_QUEUE_DESC_LOW :: nat where "VIRTIO_MMIO_QUEUE_DESC_LOW = 0x080"
definition VIRTIO_MMIO_QUEUE_DESC_HIGH :: nat where "VIRTIO_MMIO_QUEUE_DESC_HIGH = 0x084"
definition VIRTIO_MMIO_DRIVER_DESC_LOW :: nat where "VIRTIO_MMIO_DRIVER_DESC_LOW = 0x090"
definition VIRTIO_MMIO_DRIVER_DESC_HIGH :: nat where "VIRTIO_MMIO_DRIVER_DESC_HIGH = 0x094"
definition VIRTIO_MMIO_DEVICE_DESC_LOW :: nat where "VIRTIO_MMIO_DEVICE_DESC_LOW = 0x0a0"
definition VIRTIO_MMIO_DEVICE_DESC_HIGH :: nat where "VIRTIO_MMIO_DEVICE_DESC_HIGH = 0x0a4"

definition VIRTIO_CONFIG_S_ACKNOWLEDGE :: u32 where "VIRTIO_CONFIG_S_ACKNOWLEDGE = 1"
definition VIRTIO_CONFIG_S_DRIVER :: u32 where "VIRTIO_CONFIG_S_DRIVER = 2"
definition VIRTIO_CONFIG_S_DRIVER_OK :: u32 where "VIRTIO_CONFIG_S_DRIVER_OK = 4"
definition VIRTIO_CONFIG_S_FEATURES_OK :: u32 where "VIRTIO_CONFIG_S_FEATURES_OK = 8"

text \<open>The feature bits that \<^verbatim>\<open>virtio_disk_init\<close> declines.\<close>

definition declined_features :: "nat list" where
  "declined_features = [5, 7, 11, 12, 27, 29, 28]"

definition VRING_DESC_F_NEXT :: u16 where "VRING_DESC_F_NEXT = 1"
definition VRING_DESC_F_WRITE :: u16 where "VRING_DESC_F_WRITE = 2"
definition VIRTIO_BLK_T_IN :: u32 where "VIRTIO_BLK_T_IN = 0"
definition VIRTIO_BLK_T_OUT :: u32 where "VIRTIO_BLK_T_OUT = 1"

subsection \<open>Access\<close>

definition bufget :: "nat \<Rightarrow> (buf \<Rightarrow> 'a) \<Rightarrow> ('z disk_state_scheme, 'a) kmon" where
  "bufget b f = kget (\<lambda>s. f (bufs s b))"

definition bufset :: "nat \<Rightarrow> (buf \<Rightarrow> buf) \<Rightarrow> ('z disk_state_scheme, unit) kmon" where
  "bufset b f = kmodify (\<lambda>s. s\<lparr>bufs := (bufs s)(b := f (bufs s b))\<rparr>)"

definition descset :: "nat \<Rightarrow> (virtq_desc \<Rightarrow> virtq_desc) \<Rightarrow> ('z disk_state_scheme, unit) kmon" where
  "descset i f = kmodify (\<lambda>s. s\<lparr>desc := (desc s)(i := f (desc s i))\<rparr>)"

definition vread :: "nat \<Rightarrow> ('z disk_state_scheme, u32) kmon" where
  "vread r =
     kbind (kget (\<lambda>s. virtio_in s r (virtio_clock s))) (\<lambda>v.
     kbind (kmodify (\<lambda>s. s\<lparr>virtio_clock := Suc (virtio_clock s)\<rparr>)) (\<lambda>_.
     kret v))"

definition vwrite :: "nat \<Rightarrow> u32 \<Rightarrow> ('z disk_state_scheme, unit) kmon" where
  "vwrite r v = kmodify (\<lambda>s. s\<lparr>virtio_clock := Suc (virtio_clock s), virtio_writes := virtio_writes s @ [(r, v)]\<rparr>)"

subsection \<open>Initialisation\<close>

text \<open>The four identification registers; \<^verbatim>\<open>||\<close> stops at the first that differs.\<close>

fun virtio_probe :: "(nat \<times> u32) list \<Rightarrow> ('z disk_state_scheme, bool) kmon" where
  "virtio_probe [] = kret True"
| "virtio_probe ((r, v) # rest) =
     kbind (vread r) (\<lambda>x. if x \<noteq> v then kret False else virtio_probe rest)"

definition zero_desc :: virtq_desc where
  "zero_desc = \<lparr>vaddr = DmaNull, vlen = 0, vflags = 0, vnext = 0\<rparr>"

definition virtio_queue_init :: "('z disk_state_scheme, unit) kmon" where
  "virtio_queue_init =
     kbind kalloc (\<lambda>d.
     kbind kalloc (\<lambda>a.
     kbind kalloc (\<lambda>u.
     kbind (kmodify (\<lambda>s. s\<lparr>desc_page := d, avail_page := a, used_page := u\<rparr>)) (\<lambda>_.
     if d = 0 \<or> a = 0 \<or> u = 0 then kpanic ''virtio disk kalloc'' else kseq [
       kmodify (\<lambda>s. s\<lparr>desc := (\<lambda>_. zero_desc)\<rparr>),
       kmodify (\<lambda>s. s\<lparr>avail_idx := 0, avail_ring := (\<lambda>_. 0)\<rparr>),
       kmodify (\<lambda>s. s\<lparr>used_ring_idx := 0, used_ring := (\<lambda>_. 0)\<rparr>),
       vwrite VIRTIO_MMIO_QUEUE_NUM (of_nat NUM),
       vwrite VIRTIO_MMIO_QUEUE_DESC_LOW (ucast d),
       vwrite VIRTIO_MMIO_QUEUE_DESC_HIGH (ucast (drop_bit 32 d)),
       vwrite VIRTIO_MMIO_DRIVER_DESC_LOW (ucast a),
       vwrite VIRTIO_MMIO_DRIVER_DESC_HIGH (ucast (drop_bit 32 a)),
       vwrite VIRTIO_MMIO_DEVICE_DESC_LOW (ucast u),
       vwrite VIRTIO_MMIO_DEVICE_DESC_HIGH (ucast (drop_bit 32 u)),
       vwrite VIRTIO_MMIO_QUEUE_READY 1]))))"

definition virtio_disk_init :: "('z disk_state_scheme, unit) kmon" where
  "virtio_disk_init =
     kbind (initlock VdiskLock ''virtio_disk'') (\<lambda>_.
     kbind (virtio_probe [(VIRTIO_MMIO_MAGIC_VALUE, 0x74726976), (VIRTIO_MMIO_VERSION, 2),
              (VIRTIO_MMIO_DEVICE_ID, 2), (VIRTIO_MMIO_VENDOR_ID, 0x554d4551)]) (\<lambda>ok.
     if \<not> ok then kpanic ''could not find virtio disk'' else
     (let st1 = VIRTIO_CONFIG_S_ACKNOWLEDGE;
          st2 = st1 OR VIRTIO_CONFIG_S_DRIVER;
          st3 = st2 OR VIRTIO_CONFIG_S_FEATURES_OK in
     kbind (kseq [
       vwrite VIRTIO_MMIO_STATUS 0,
       vwrite VIRTIO_MMIO_STATUS st1,
       vwrite VIRTIO_MMIO_STATUS st2]) (\<lambda>_.
     kbind (vread VIRTIO_MMIO_DEVICE_FEATURES) (\<lambda>features.
     kbind (vwrite VIRTIO_MMIO_DRIVER_FEATURES
              (fold (\<lambda>b f. f AND NOT (push_bit b 1)) declined_features features)) (\<lambda>_.
     kbind (vwrite VIRTIO_MMIO_STATUS st3) (\<lambda>_.
     kbind (vread VIRTIO_MMIO_STATUS) (\<lambda>status.
     if status AND VIRTIO_CONFIG_S_FEATURES_OK = 0 then kpanic ''virtio disk FEATURES_OK unset'' else
     kbind (vwrite VIRTIO_MMIO_QUEUE_SEL 0) (\<lambda>_.
     kbind (vread VIRTIO_MMIO_QUEUE_READY) (\<lambda>ready.
     if ready \<noteq> 0 then kpanic ''virtio disk should not be ready'' else
     kbind (vread VIRTIO_MMIO_QUEUE_NUM_MAX) (\<lambda>qmax.
     if qmax = 0 then kpanic ''virtio disk has no queue 0''
     else if qmax < of_nat NUM then kpanic ''virtio disk max queue too short''
     else kseq [
       virtio_queue_init,
       kfor [0..<NUM] (\<lambda>i. kmodify (\<lambda>s. s\<lparr>desc_free := (desc_free s)(i := True)\<rparr>)),
       vwrite VIRTIO_MMIO_STATUS (status OR VIRTIO_CONFIG_S_DRIVER_OK)])))))))))))"

subsection \<open>Descriptors\<close>

definition alloc_desc :: "('z disk_state_scheme, nat option) kmon" where
  "alloc_desc = kfind [0..<NUM] (\<lambda>i.
     kbind (kget (\<lambda>s. desc_free s i)) (\<lambda>fr.
     if fr then kbind (kmodify (\<lambda>s. s\<lparr>desc_free := (desc_free s)(i := False)\<rparr>)) (\<lambda>_. kret (Some i))
     else kret None))"

definition free_desc :: "nat \<Rightarrow> ('z disk_state_scheme, unit) kmon" where
  "free_desc i =
     (if i \<ge> NUM then kpanic ''free_desc 1'' else
      kbind (kget (\<lambda>s. desc_free s i)) (\<lambda>fr.
      if fr then kpanic ''free_desc 2'' else kseq [
        descset i (\<lambda>d. d\<lparr>vaddr := DmaNull\<rparr>),
        descset i (\<lambda>d. d\<lparr>vlen := 0\<rparr>),
        descset i (\<lambda>d. d\<lparr>vflags := 0\<rparr>),
        descset i (\<lambda>d. d\<lparr>vnext := 0\<rparr>),
        kmodify (\<lambda>s. s\<lparr>desc_free := (desc_free s)(i := True)\<rparr>),
        wakeup (Some ChanDiskFree)]))"

text \<open>A chain that is longer than the queue meets a free descriptor: \<^const>\<open>NUM\<close> bounds the rounds.\<close>

primrec free_chain_loop :: "nat \<Rightarrow> nat \<Rightarrow> ('z disk_state_scheme, unit) kmon" where
  "free_chain_loop 0 i = kdiverge"
| "free_chain_loop (Suc k) i =
     kbind (kget (\<lambda>s. desc s i)) (\<lambda>d.
     kbind (free_desc i) (\<lambda>_.
     if vflags d AND VRING_DESC_F_NEXT \<noteq> 0 then free_chain_loop k (unat (vnext d)) else kret ()))"

definition free_chain :: "nat \<Rightarrow> ('z disk_state_scheme, unit) kmon" where
  "free_chain i = free_chain_loop (Suc NUM) i"

text \<open>\<open>k\<close> descriptors are still to be had, \<open>idx\<close> has been allocated.\<close>

primrec alloc3_loop :: "nat \<Rightarrow> nat list \<Rightarrow> ('z disk_state_scheme, nat list option) kmon" where
  "alloc3_loop 0 idx = kret (Some idx)"
| "alloc3_loop (Suc k) idx =
     kbind alloc_desc (\<lambda>r.
     case r of
       None \<Rightarrow> kbind (kfor idx free_desc) (\<lambda>_. kret None)
     | Some i \<Rightarrow> alloc3_loop k (idx @ [i]))"

definition alloc3_desc :: "('z disk_state_scheme, nat list option) kmon" where
  "alloc3_desc = alloc3_loop 3 []"

subsection \<open>Requests\<close>

definition virtio_format :: "nat \<Rightarrow> bool \<Rightarrow> u64 \<Rightarrow> nat \<Rightarrow> nat \<Rightarrow> nat \<Rightarrow> ('z disk_state_scheme, unit) kmon" where
  "virtio_format b wr sector i0 i1 i2 = kseq [
     kmodify (\<lambda>s. s\<lparr>ops := (ops s)(i0 := \<lparr>req_type = (if wr then VIRTIO_BLK_T_OUT else VIRTIO_BLK_T_IN),
                                       req_reserved = 0, req_sector = sector\<rparr>)\<rparr>),
     descset i0 (\<lambda>d. \<lparr>vaddr = DmaOps i0, vlen = 16, vflags = VRING_DESC_F_NEXT, vnext = of_nat i1\<rparr>),
     descset i1 (\<lambda>d. \<lparr>vaddr = DmaBuf b, vlen = of_nat BSIZE,
                     vflags = (if wr then 0 else VRING_DESC_F_WRITE) OR VRING_DESC_F_NEXT,
                     vnext = of_nat i2\<rparr>),
     kmodify (\<lambda>s. s\<lparr>info_status := (info_status s)(i0 := 0xff)\<rparr>),
     descset i2 (\<lambda>d. \<lparr>vaddr = DmaStatus i0, vlen = 1, vflags = VRING_DESC_F_WRITE, vnext = 0\<rparr>),
     bufset b (\<lambda>r. r\<lparr>bdisk := True\<rparr>),
     kmodify (\<lambda>s. s\<lparr>info_b := (info_b s)(i0 := Some b)\<rparr>),
     kmodify (\<lambda>s. s\<lparr>avail_ring := (avail_ring s)(unat (avail_idx s mod of_nat NUM) := of_nat i0)\<rparr>),
     kmodify (\<lambda>s. s\<lparr>avail_idx := avail_idx s + 1\<rparr>),
     vwrite VIRTIO_MMIO_QUEUE_NOTIFY 0]"

definition virtio_disk_rw :: "nat \<Rightarrow> bool \<Rightarrow> ('z disk_state_scheme, unit) kmon" where
  "virtio_disk_rw b wr =
     kbind (bufget b bblockno) (\<lambda>bno.
     kbind (acquire VdiskLock) (\<lambda>_.
     kbind (kwaitloop (
       kbind alloc3_desc (\<lambda>r.
       case r of
         Some idx \<Rightarrow> kret (Some idx)
       | None \<Rightarrow> kbind (sleep (Some ChanDiskFree) VdiskLock) (\<lambda>_. kret None)))) (\<lambda>idx.
     kbind (virtio_format b wr (ucast (bno * of_nat (BSIZE div 512))) (idx ! 0) (idx ! 1) (idx ! 2)) (\<lambda>_.
     kbind (kwaitloop (
       kbind (bufget b bdisk) (\<lambda>d.
       if d then kbind (sleep (Some (ChanBuf b)) VdiskLock) (\<lambda>_. kret None)
       else kret (Some ())))) (\<lambda>_.
     kseq [
       kmodify (\<lambda>s. s\<lparr>info_b := (info_b s)(idx ! 0 := None)\<rparr>),
       free_chain (idx ! 0),
       release VdiskLock])))))"

text \<open>
  The completions that the device has announced when \<^verbatim>\<open>virtio_disk_intr\<close> starts
  bound its rounds; the device may not announce more while it runs.
\<close>

definition virtio_disk_intr :: "('z disk_state_scheme, unit) kmon" where
  "virtio_disk_intr =
     kbind (acquire VdiskLock) (\<lambda>_.
     kbind (vread VIRTIO_MMIO_INTERRUPT_STATUS) (\<lambda>st.
     kbind (vwrite VIRTIO_MMIO_INTERRUPT_ACK (st AND 0x3)) (\<lambda>_.
     kbind (kget (\<lambda>s. unat (used_ring_idx s - used_idx s))) (\<lambda>n.
     kbind (kloop (Suc n) (
       kbind (kget (\<lambda>s. used_idx s = used_ring_idx s)) (\<lambda>done.
       if done then kret (Some ()) else
       kbind (kget (\<lambda>s. unat (used_ring s (unat (used_idx s mod of_nat NUM))))) (\<lambda>i.
       if i \<ge> NUM then kundef else
       kbind (kget (\<lambda>s. info_status s i)) (\<lambda>status.
       if status \<noteq> 0 then kpanic ''virtio_disk_intr status'' else
       kbind (kget (\<lambda>s. info_b s i)) (\<lambda>ob. deref ob (\<lambda>b.
       kbind (bufset b (\<lambda>r. r\<lparr>bdisk := False\<rparr>)) (\<lambda>_.
       kbind (wakeup (Some (ChanBuf b))) (\<lambda>_.
       kbind (kmodify (\<lambda>s. s\<lparr>used_idx := used_idx s + 1\<rparr>)) (\<lambda>_.
       kret None)))))))))) (\<lambda>_.
     release VdiskLock)))))"

end
