(* ===== verification/Bio.thy ===== *)
theory Bio
  imports Virtio
begin

text \<open>
  \<^verbatim>\<open>kernel/bio.c\<close>: the buffer cache, a doubly linked list in order of use.  The
  list head is the element \<^const>\<open>NBUF\<close> of the buffer store.
\<close>

definition binit :: "('z disk_state_scheme, unit) kmon" where
  "binit = kseq [
     initlock BcacheLock ''bcache'',
     bufset NBUF (\<lambda>h. h\<lparr>bprev := NBUF\<rparr>),
     bufset NBUF (\<lambda>h. h\<lparr>bnext := NBUF\<rparr>),
     kfor [0..<NBUF] (\<lambda>b.
       kbind (bufget NBUF bnext) (\<lambda>nx. kseq [
         bufset b (\<lambda>r. r\<lparr>bnext := nx\<rparr>),
         bufset b (\<lambda>r. r\<lparr>bprev := NBUF\<rparr>),
         initsleeplock (BufLock b) ''buffer'',
         kbind (bufget NBUF bnext) (\<lambda>nx'. bufset nx' (\<lambda>r. r\<lparr>bprev := b\<rparr>)),
         bufset NBUF (\<lambda>h. h\<lparr>bnext := b\<rparr>)]))]"

text \<open>
  The two searches of \<^verbatim>\<open>bget\<close>.  The list has \<^const>\<open>NBUF\<close> buffers, so a walk of more
  steps than that goes in a circle that misses the head.
\<close>

primrec bget_cached :: "nat \<Rightarrow> u32 \<Rightarrow> u32 \<Rightarrow> nat \<Rightarrow> ('z disk_state_scheme, nat option) kmon" where
  "bget_cached 0 dev blockno b = kdiverge"
| "bget_cached (Suc k) dev blockno b =
     (if b = NBUF then kret None else
      kbind (kget (\<lambda>s. bufs s b)) (\<lambda>r.
      if bdev r = dev \<and> bblockno r = blockno then kret (Some b)
      else bget_cached k dev blockno (bnext r)))"

primrec bget_recycle :: "nat \<Rightarrow> nat \<Rightarrow> ('z disk_state_scheme, nat option) kmon" where
  "bget_recycle 0 b = kdiverge"
| "bget_recycle (Suc k) b =
     (if b = NBUF then kret None else
      kbind (kget (\<lambda>s. bufs s b)) (\<lambda>r.
      if brefcnt r = 0 then kret (Some b) else bget_recycle k (bprev r)))"

definition bget :: "u32 \<Rightarrow> u32 \<Rightarrow> ('z disk_state_scheme, nat) kmon" where
  "bget dev blockno =
     kbind (acquire BcacheLock) (\<lambda>_.
     kbind (bufget NBUF bnext) (\<lambda>first.
     kbind (bget_cached (Suc NBUF) dev blockno first) (\<lambda>c.
     case c of
       Some b \<Rightarrow>
         kbind (kseq [
           bufset b (\<lambda>r. r\<lparr>brefcnt := brefcnt r + 1\<rparr>),
           release BcacheLock,
           acquiresleep (BufLock b)]) (\<lambda>_. kret b)
     | None \<Rightarrow>
         kbind (bufget NBUF bprev) (\<lambda>oldest.
         kbind (bget_recycle (Suc NBUF) oldest) (\<lambda>v.
         case v of
           Some b \<Rightarrow>
             kbind (kseq [
               bufset b (\<lambda>r. r\<lparr>bdev := dev\<rparr>),
               bufset b (\<lambda>r. r\<lparr>bblockno := blockno\<rparr>),
               bufset b (\<lambda>r. r\<lparr>bvalid := False\<rparr>),
               bufset b (\<lambda>r. r\<lparr>brefcnt := 1\<rparr>),
               release BcacheLock,
               acquiresleep (BufLock b)]) (\<lambda>_. kret b)
         | None \<Rightarrow> kpanic ''bget: no buffers'')))))"

definition bread :: "u32 \<Rightarrow> u32 \<Rightarrow> ('z disk_state_scheme, nat) kmon" where
  "bread dev blockno =
     kbind (bget dev blockno) (\<lambda>b.
     kbind (bufget b bvalid) (\<lambda>v.
     kbind (kwhen (\<not> v) (kseq [
       virtio_disk_rw b False,
       bufset b (\<lambda>r. r\<lparr>bvalid := True\<rparr>)])) (\<lambda>_.
     kret b)))"

definition bwrite :: "nat \<Rightarrow> ('z disk_state_scheme, unit) kmon" where
  "bwrite b =
     kbind (holdingsleep (BufLock b)) (\<lambda>h.
     if \<not> h then kpanic ''bwrite'' else virtio_disk_rw b True)"

text \<open>Unlinking \<open>b\<close> and putting it behind the head.\<close>

definition brelse_move :: "nat \<Rightarrow> ('z disk_state_scheme, unit) kmon" where
  "brelse_move b = kseq [
     kbind (kget (\<lambda>s. bufs s b)) (\<lambda>r. bufset (bnext r) (\<lambda>q. q\<lparr>bprev := bprev r\<rparr>)),
     kbind (kget (\<lambda>s. bufs s b)) (\<lambda>r. bufset (bprev r) (\<lambda>q. q\<lparr>bnext := bnext r\<rparr>)),
     kbind (bufget NBUF bnext) (\<lambda>nx. bufset b (\<lambda>r. r\<lparr>bnext := nx\<rparr>)),
     bufset b (\<lambda>r. r\<lparr>bprev := NBUF\<rparr>),
     kbind (bufget NBUF bnext) (\<lambda>nx. bufset nx (\<lambda>r. r\<lparr>bprev := b\<rparr>)),
     bufset NBUF (\<lambda>h. h\<lparr>bnext := b\<rparr>)]"

definition brelse :: "nat \<Rightarrow> ('z disk_state_scheme, unit) kmon" where
  "brelse b =
     kbind (holdingsleep (BufLock b)) (\<lambda>h.
     if \<not> h then kpanic ''brelse'' else kseq [
       releasesleep (BufLock b),
       acquire BcacheLock,
       bufset b (\<lambda>r. r\<lparr>brefcnt := brefcnt r - 1\<rparr>),
       kbind (bufget b brefcnt) (\<lambda>n. kwhen (n = 0) (brelse_move b)),
       release BcacheLock])"

definition bpin :: "nat \<Rightarrow> ('z disk_state_scheme, unit) kmon" where
  "bpin b = kseq [acquire BcacheLock, bufset b (\<lambda>r. r\<lparr>brefcnt := brefcnt r + 1\<rparr>), release BcacheLock]"

definition bunpin :: "nat \<Rightarrow> ('z disk_state_scheme, unit) kmon" where
  "bunpin b = kseq [acquire BcacheLock, bufset b (\<lambda>r. r\<lparr>brefcnt := brefcnt r - 1\<rparr>), release BcacheLock]"

end
