(* ===== verification/Log.thy ===== *)
theory Log
  imports Bio
begin

text \<open>
  \<^verbatim>\<open>kernel/log.c\<close>: the redo log.  The header block is encoded in the data of its
  buffer as the C code lays it out, little endian.
\<close>

subsection \<open>Words inside a block\<close>

definition le16 :: "u16 \<Rightarrow> bytes" where
  "le16 w = [ucast w, ucast (drop_bit 8 w)]"

definition get16 :: "bytes \<Rightarrow> nat \<Rightarrow> u16" where
  "get16 bs i = ucast (bs ! i) + push_bit 8 (ucast (bs ! (i + 1)))"

definition get32 :: "bytes \<Rightarrow> nat \<Rightarrow> u32" where
  "get32 bs i = ucast (bs ! i) + push_bit 8 (ucast (bs ! (i + 1))) +
     push_bit 16 (ucast (bs ! (i + 2))) + push_bit 24 (ucast (bs ! (i + 3)))"

text \<open>\<open>v\<close> written over \<open>bs\<close> from position \<open>i\<close> on.\<close>

definition splice :: "bytes \<Rightarrow> nat \<Rightarrow> bytes \<Rightarrow> bytes" where
  "splice bs i v = take i bs @ v @ drop (i + length v) bs"

subsection \<open>State\<close>

record superblock =
  sb_magic :: u32
  sb_size :: u32
  sb_nblocks :: u32
  sb_ninodes :: u32
  sb_nlog :: u32
  sb_logstart :: u32
  sb_inodestart :: u32
  sb_bmapstart :: u32

record log_state = disk_state +
  log_start :: int
  log_size :: int
  outstanding :: int
  committing :: bool
  log_dev :: int
  lh_n :: int
  lh_block :: "nat \<Rightarrow> u32"

subsection \<open>Installing and recovering\<close>

definition install_trans :: "bool \<Rightarrow> ('z log_state_scheme, unit) kmon" where
  "install_trans recovering =
     kbind (kget (\<lambda>s. nat (lh_n s))) (\<lambda>n.
     kfor [0..<n] (\<lambda>tail.
       if tail \<ge> LOGSIZE then kundef else
       kbind (kget (\<lambda>s. (of_int (log_dev s), of_int (log_start s + int tail + 1), lh_block s tail))) (\<lambda>(dev, from, home).
       kbind (bread dev from) (\<lambda>lbuf.
       kbind (bread dev home) (\<lambda>dbuf.
       kbind (bufget lbuf bdata) (\<lambda>d. kseq [
         bufset dbuf (\<lambda>r. r\<lparr>bdata := d\<rparr>),
         bwrite dbuf,
         kwhen (\<not> recovering) (bunpin dbuf),
         brelse lbuf,
         brelse dbuf]))))))"

definition read_head :: "('z log_state_scheme, unit) kmon" where
  "read_head =
     kbind (kget (\<lambda>s. (of_int (log_dev s), of_int (log_start s)))) (\<lambda>(dev, start).
     kbind (bread dev start) (\<lambda>b.
     kbind (bufget b bdata) (\<lambda>d.
     kbind (kmodify (\<lambda>s. s\<lparr>lh_n := sint (get32 d 0)\<rparr>)) (\<lambda>_.
     kbind (kfor [0..<nat (sint (get32 d 0))] (\<lambda>i.
       if i \<ge> LOGSIZE then kundef
       else kmodify (\<lambda>s. s\<lparr>lh_block := (lh_block s)(i := get32 d (4 + 4 * i))\<rparr>))) (\<lambda>_.
     brelse b)))))"

text \<open>The stores of \<^verbatim>\<open>write_head\<close> into the data of the header's buffer.\<close>

definition head_write :: "bytes \<Rightarrow> int \<Rightarrow> (nat \<Rightarrow> u32) \<Rightarrow> bytes" where
  "head_write d n blk =
     fold (\<lambda>i d. splice d (4 + 4 * i) (le32 (blk i))) [0..<nat n] (splice d 0 (le32 (of_int n)))"

definition write_head :: "('z log_state_scheme, unit) kmon" where
  "write_head =
     kbind (kget (\<lambda>s. (of_int (log_dev s), of_int (log_start s)))) (\<lambda>(dev, start).
     kbind (bread dev start) (\<lambda>b.
     kbind (kget (\<lambda>s. (lh_n s, lh_block s))) (\<lambda>(n, blk).
     if nat n > LOGSIZE then kundef else kseq [
       bufset b (\<lambda>r. r\<lparr>bdata := head_write (bdata r) n blk\<rparr>),
       bwrite b,
       brelse b])))"

definition recover_from_log :: "('z log_state_scheme, unit) kmon" where
  "recover_from_log = kseq [
     read_head,
     install_trans True,
     kmodify (\<lambda>s. s\<lparr>lh_n := 0\<rparr>),
     write_head]"

text \<open>
  The test at the head of \<^verbatim>\<open>initlog\<close> is on constants: \<^verbatim>\<open>sizeof(struct logheader)\<close>
  is four bytes for each of \<^const>\<open>LOGSIZE\<close> + 1 words.
\<close>

definition initlog :: "int \<Rightarrow> superblock \<Rightarrow> ('z log_state_scheme, unit) kmon" where
  "initlog dev sb =
     (if 4 * (LOGSIZE + 1) \<ge> BSIZE then kpanic ''initlog: too big logheader'' else kseq [
        initlock LogLock ''log'',
        kmodify (\<lambda>s. s\<lparr>log_start := sint (sb_logstart sb)\<rparr>),
        kmodify (\<lambda>s. s\<lparr>log_size := sint (sb_nlog sb)\<rparr>),
        kmodify (\<lambda>s. s\<lparr>log_dev := dev\<rparr>),
        recover_from_log])"

subsection \<open>Transactions\<close>

definition begin_op :: "('z log_state_scheme, unit) kmon" where
  "begin_op =
     kbind (acquire LogLock) (\<lambda>_.
     kwaitloop (
       kbind (kget id) (\<lambda>s.
       if committing s then kbind (sleep (Some ChanLog) LogLock) (\<lambda>_. kret None)
       else if lh_n s + (outstanding s + 1) * int MAXOPBLOCKS > int LOGSIZE
       then kbind (sleep (Some ChanLog) LogLock) (\<lambda>_. kret None)
       else
         kbind (kmodify (\<lambda>s. s\<lparr>outstanding := outstanding s + 1\<rparr>)) (\<lambda>_.
         kbind (release LogLock) (\<lambda>_.
         kret (Some ()))))))"

definition write_log :: "('z log_state_scheme, unit) kmon" where
  "write_log =
     kbind (kget (\<lambda>s. nat (lh_n s))) (\<lambda>n.
     kfor [0..<n] (\<lambda>tail.
       if tail \<ge> LOGSIZE then kundef else
       kbind (kget (\<lambda>s. (of_int (log_dev s), of_int (log_start s + int tail + 1), lh_block s tail))) (\<lambda>(dev, to_b, from_b).
       kbind (bread dev to_b) (\<lambda>t.
       kbind (bread dev from_b) (\<lambda>f.
       kbind (bufget f bdata) (\<lambda>d. kseq [
         bufset t (\<lambda>r. r\<lparr>bdata := d\<rparr>),
         bwrite t,
         brelse f,
         brelse t]))))))"

definition commit :: "('z log_state_scheme, unit) kmon" where
  "commit =
     kbind (kget lh_n) (\<lambda>n.
     kwhen (n > 0) (kseq [
       write_log,
       write_head,
       install_trans False,
       kmodify (\<lambda>s. s\<lparr>lh_n := 0\<rparr>),
       write_head]))"

definition end_op :: "('z log_state_scheme, unit) kmon" where
  "end_op =
     kbind (acquire LogLock) (\<lambda>_.
     kbind (kmodify (\<lambda>s. s\<lparr>outstanding := outstanding s - 1\<rparr>)) (\<lambda>_.
     kbind (kget committing) (\<lambda>cm.
     if cm then kpanic ''log.committing'' else
     kbind (kget outstanding) (\<lambda>out.
     kbind (if out = 0 then kmodify (\<lambda>s. s\<lparr>committing := True\<rparr>) else wakeup (Some ChanLog)) (\<lambda>_.
     kbind (release LogLock) (\<lambda>_.
     kwhen (out = 0) (kseq [
       commit,
       acquire LogLock,
       kmodify (\<lambda>s. s\<lparr>committing := False\<rparr>),
       wakeup (Some ChanLog),
       release LogLock])))))))"

text \<open>\<^verbatim>\<open>for (i = 0; i < log.lh.n; i++) if (log.lh.block[i] == b->blockno) break;\<close>\<close>

definition log_slot :: "(nat \<Rightarrow> u32) \<Rightarrow> nat \<Rightarrow> u32 \<Rightarrow> nat" where
  "log_slot blk n b = (case find (\<lambda>i. blk i = b) [0..<n] of None \<Rightarrow> n | Some i \<Rightarrow> i)"

definition log_write :: "nat \<Rightarrow> ('z log_state_scheme, unit) kmon" where
  "log_write b =
     kbind (acquire LogLock) (\<lambda>_.
     kbind (kget id) (\<lambda>s.
     if lh_n s \<ge> int LOGSIZE \<or> lh_n s \<ge> log_size s - 1 then kpanic ''too big a transaction''
     else if outstanding s < 1 then kpanic ''log_write outside of trans''
     else
       kbind (bufget b bblockno) (\<lambda>bno.
       (let i = log_slot (lh_block s) (nat (lh_n s)) bno in kseq [
         kmodify (\<lambda>s. s\<lparr>lh_block := (lh_block s)(i := bno)\<rparr>),
         kwhen (int i = lh_n s) (kseq [
           bpin b,
           kmodify (\<lambda>s. s\<lparr>lh_n := lh_n s + 1\<rparr>)]),
         release LogLock]))))"

end
