(* ===== verification/Fs.thy ===== *)
theory Fs
  imports Log
begin

text \<open>
  \<^verbatim>\<open>kernel/fs.h\<close>, \<^verbatim>\<open>kernel/stat.h\<close> and \<^verbatim>\<open>kernel/fs.c\<close>: block allocation, inodes, file
  contents, directories and path names.

  A pointer to an inode is an index into \<^verbatim>\<open>itable.inode\<close>.  The 16-bit fields of an
  inode are words of that width.  A path is a list of characters; its end, or a
  zero, is the terminating NUL.  The name buffer of \<^verbatim>\<open>skipelem\<close> keeps what is not
  overwritten.
\<close>

subsection \<open>Layout\<close>

definition ROOTINO :: u32 where [simp]: "ROOTINO = 1"
definition FSMAGIC :: u32 where "FSMAGIC = 0x10203040"
definition NDIRECT :: nat where [simp]: "NDIRECT = 12"
definition NINDIRECT :: nat where [simp]: "NINDIRECT = BSIZE div 4"
definition MAXFILE :: nat where [simp]: "MAXFILE = NDIRECT + NINDIRECT"
definition IPB :: nat where [simp]: "IPB = BSIZE div 64"
definition BPB :: nat where [simp]: "BPB = BSIZE * 8"
definition DIRSIZ :: nat where [simp]: "DIRSIZ = 14"
definition T_DIR :: u16 where [simp]: "T_DIR = 1"
definition T_FILE :: u16 where [simp]: "T_FILE = 2"
definition T_DEVICE :: u16 where [simp]: "T_DEVICE = 3"

definition IBLOCK :: "u32 \<Rightarrow> superblock \<Rightarrow> u32" where
  "IBLOCK i sb = i div of_nat IPB + sb_inodestart sb"

definition BBLOCK :: "u32 \<Rightarrow> superblock \<Rightarrow> u32" where
  "BBLOCK b sb = b div of_nat BPB + sb_bmapstart sb"

record inode =
  idev :: u32
  inum :: u32
  iref :: int
  ivalid :: bool
  itype :: u16
  imajor :: u16
  iminor :: u16
  inlink :: u16
  isize :: u32
  iaddrs :: "u32 list"

record fs_state = log_state +
  sb :: superblock
  inodes :: "nat \<Rightarrow> inode"

definition iget_field :: "nat \<Rightarrow> (inode \<Rightarrow> 'a) \<Rightarrow> ('z fs_state_scheme, 'a) kmon" where
  "iget_field ip f = kget (\<lambda>s. f (inodes s ip))"

definition iset :: "nat \<Rightarrow> (inode \<Rightarrow> inode) \<Rightarrow> ('z fs_state_scheme, unit) kmon" where
  "iset ip f = kmodify (\<lambda>s. s\<lparr>inodes := (inodes s)(ip := f (inodes s ip))\<rparr>)"

text \<open>\<^verbatim>\<open>ip->ref++\<close> and \<^verbatim>\<open>ip->ref--\<close>.\<close>

definition iref_inc :: "nat \<Rightarrow> ('z fs_state_scheme, unit) kmon" where
  "iref_inc ip = kbind (iget_field ip iref) (\<lambda>r. c_inc r (\<lambda>m. iset ip (\<lambda>n. n\<lparr>iref := m\<rparr>)))"

definition iref_dec :: "nat \<Rightarrow> ('z fs_state_scheme, unit) kmon" where
  "iref_dec ip = kbind (iget_field ip iref) (\<lambda>r. c_dec r (\<lambda>m. iset ip (\<lambda>n. n\<lparr>iref := m\<rparr>)))"

subsection \<open>The super block and zeroing\<close>

definition superblock_of :: "bytes \<Rightarrow> superblock" where
  "superblock_of d = \<lparr>sb_magic = get32 d 0, sb_size = get32 d 4, sb_nblocks = get32 d 8,
     sb_ninodes = get32 d 12, sb_nlog = get32 d 16, sb_logstart = get32 d 20,
     sb_inodestart = get32 d 24, sb_bmapstart = get32 d 28\<rparr>"

definition readsb :: "u32 \<Rightarrow> ('z fs_state_scheme, unit) kmon" where
  "readsb dev =
     kbind (bread dev 1) (\<lambda>bp.
     kbind (bufget bp bdata) (\<lambda>d.
     kbind (kmodify (\<lambda>s. s\<lparr>sb := superblock_of d\<rparr>)) (\<lambda>_.
     brelse bp)))"

definition fsinit :: "u32 \<Rightarrow> ('z fs_state_scheme, unit) kmon" where
  "fsinit dev =
     kbind (readsb dev) (\<lambda>_.
     kbind (kget sb) (\<lambda>b.
     if sb_magic b \<noteq> FSMAGIC then kpanic ''invalid file system''
     else initlog (sint dev) b))"

definition bzero :: "u32 \<Rightarrow> u32 \<Rightarrow> ('z log_state_scheme, unit) kmon" where
  "bzero dev bno =
     kbind (bread dev bno) (\<lambda>bp. kseq [
       bufset bp (\<lambda>r. r\<lparr>bdata := replicate BSIZE 0\<rparr>),
       log_write bp,
       brelse bp])"

subsection \<open>Blocks\<close>

definition bit_mask :: "nat \<Rightarrow> u8" where
  "bit_mask bi = push_bit (bi mod 8) 1"

text \<open>The inner loop of \<^verbatim>\<open>balloc\<close>: the first free bit.\<close>

definition balloc_bit :: "bytes \<Rightarrow> nat \<Rightarrow> nat \<Rightarrow> nat option" where
  "balloc_bit d b lim =
     find (\<lambda>bi. d ! (bi div 8) AND bit_mask bi = 0) (takeWhile (\<lambda>bi. b + bi < lim) [0..<BPB])"

definition balloc :: "u32 \<Rightarrow> ('z fs_state_scheme, u32) kmon" where
  "balloc dev =
     kbind (kget sb) (\<lambda>sbl.
     kbind (kfind (map (\<lambda>k. k * BPB) [0..<(unat (sb_size sbl) + BPB - 1) div BPB]) (\<lambda>b.
       kbind (bread dev (BBLOCK (of_nat b) sbl)) (\<lambda>bp.
       kbind (bufget bp bdata) (\<lambda>d.
       case balloc_bit d b (unat (sb_size sbl)) of
         Some bi \<Rightarrow>
           kbind (kseq [
             bufset bp (\<lambda>r. r\<lparr>bdata := (bdata r)[bi div 8 := bdata r ! (bi div 8) OR bit_mask bi]\<rparr>),
             log_write bp,
             brelse bp,
             bzero dev (of_nat (b + bi))]) (\<lambda>_.
           kret (Some (of_nat (b + bi))))
       | None \<Rightarrow> kbind (brelse bp) (\<lambda>_. kret None))))) (\<lambda>r.
     case r of
       Some a \<Rightarrow> kret a
     | None \<Rightarrow> kbind (printf (''balloc: out of blocks'' @ [CHR 0x0A]) []) (\<lambda>_. kret 0)))"

definition bfree :: "u32 \<Rightarrow> u32 \<Rightarrow> ('z fs_state_scheme, unit) kmon" where
  "bfree dev b =
     kbind (kget sb) (\<lambda>sbl.
     kbind (bread dev (BBLOCK b sbl)) (\<lambda>bp.
     (let bi = unat b mod BPB in
     kbind (bufget bp bdata) (\<lambda>d.
     if d ! (bi div 8) AND bit_mask bi = 0 then kpanic ''freeing free block'' else kseq [
       bufset bp (\<lambda>r. r\<lparr>bdata := (bdata r)[bi div 8 := bdata r ! (bi div 8) AND NOT (bit_mask bi)]\<rparr>),
       log_write bp,
       brelse bp]))))"

subsection \<open>Inodes\<close>

definition iinit :: "('z sleep_state_scheme, unit) kmon" where
  "iinit = kseq [
     initlock ItableLock ''itable'',
     kfor [0..<NINODE] (\<lambda>i. initsleeplock (InodeLock i) ''inode'')]"

text \<open>
  The loop of \<^verbatim>\<open>iget\<close> over the table: the entry that matches, or the first empty one.
\<close>

primrec iget_scan :: "nat list \<Rightarrow> (nat \<Rightarrow> inode) \<Rightarrow> u32 \<Rightarrow> u32 \<Rightarrow> nat option \<Rightarrow> nat + nat option" where
  "iget_scan [] tab dev i emp = Inr emp"
| "iget_scan (ip # ips) tab dev i emp =
     (if iref (tab ip) > 0 \<and> idev (tab ip) = dev \<and> inum (tab ip) = i then Inl ip
      else iget_scan ips tab dev i (if emp = None \<and> iref (tab ip) = 0 then Some ip else emp))"

definition iget :: "u32 \<Rightarrow> u32 \<Rightarrow> ('z fs_state_scheme, nat) kmon" where
  "iget dev i =
     kbind (acquire ItableLock) (\<lambda>_.
     kbind (kget (\<lambda>s. iget_scan [0..<NINODE] (inodes s) dev i None)) (\<lambda>r.
     case r of
       Inl ip \<Rightarrow>
         kbind (kseq [iref_inc ip, release ItableLock]) (\<lambda>_. kret ip)
     | Inr None \<Rightarrow> kpanic ''iget: no inodes''
     | Inr (Some ip) \<Rightarrow>
         kbind (kseq [
           iset ip (\<lambda>n. n\<lparr>idev := dev\<rparr>),
           iset ip (\<lambda>n. n\<lparr>inum := i\<rparr>),
           iset ip (\<lambda>n. n\<lparr>iref := 1\<rparr>),
           iset ip (\<lambda>n. n\<lparr>ivalid := False\<rparr>),
           release ItableLock]) (\<lambda>_. kret ip)))"

definition dinode_off :: "u32 \<Rightarrow> nat" where
  "dinode_off i = 64 * (unat i mod IPB)"

text \<open>\<^verbatim>\<open>struct dinode\<close> in a block: four shorts, the size, \<^verbatim>\<open>NDIRECT + 1\<close> addresses.\<close>

definition encode_dinode :: "inode \<Rightarrow> bytes" where
  "encode_dinode n = le16 (itype n) @ le16 (imajor n) @ le16 (iminor n) @ le16 (inlink n) @
     le32 (isize n) @ concat (map le32 (iaddrs n))"

definition decode_dinode :: "bytes \<Rightarrow> nat \<Rightarrow> inode \<Rightarrow> inode" where
  "decode_dinode d at n = n\<lparr>itype := get16 d at, imajor := get16 d (at + 2), iminor := get16 d (at + 4),
     inlink := get16 d (at + 6), isize := get32 d (at + 8),
     iaddrs := map (\<lambda>k. get32 d (at + 12 + 4 * k)) [0..<NDIRECT + 1]\<rparr>"

definition ialloc :: "u32 \<Rightarrow> u16 \<Rightarrow> ('z fs_state_scheme, nat option) kmon" where
  "ialloc dev type =
     kbind (kget sb) (\<lambda>sbl.
     kbind (kfind [1..<unat (sb_ninodes sbl)] (\<lambda>i.
       kbind (bread dev (IBLOCK (of_nat i) sbl)) (\<lambda>bp.
       kbind (bufget bp bdata) (\<lambda>d.
       if get16 d (dinode_off (of_nat i)) = 0 then
         kbind (kseq [
           bufset bp (\<lambda>r. r\<lparr>bdata := splice (bdata r) (dinode_off (of_nat i)) (replicate 64 0)\<rparr>),
           bufset bp (\<lambda>r. r\<lparr>bdata := splice (bdata r) (dinode_off (of_nat i)) (le16 type)\<rparr>),
           log_write bp,
           brelse bp]) (\<lambda>_.
         kbind (iget dev (of_nat i)) (\<lambda>ip. kret (Some ip)))
       else kbind (brelse bp) (\<lambda>_. kret None))))) (\<lambda>r.
     case r of
       Some ip \<Rightarrow> kret (Some ip)
     | None \<Rightarrow> kbind (printf (''ialloc: no inodes'' @ [CHR 0x0A]) []) (\<lambda>_. kret None)))"

definition iupdate :: "nat \<Rightarrow> ('z fs_state_scheme, unit) kmon" where
  "iupdate ip =
     kbind (kget (\<lambda>s. (inodes s ip, sb s))) (\<lambda>(n, sbl).
     kbind (bread (idev n) (IBLOCK (inum n) sbl)) (\<lambda>bp.
     kbind (kget (\<lambda>s. inodes s ip)) (\<lambda>n'. kseq [
       bufset bp (\<lambda>r. r\<lparr>bdata := splice (bdata r) (dinode_off (inum n')) (encode_dinode n')\<rparr>),
       log_write bp,
       brelse bp])))"

definition idup :: "nat \<Rightarrow> ('z fs_state_scheme, nat) kmon" where
  "idup ip =
     kbind (kseq [
       acquire ItableLock,
       iref_inc ip,
       release ItableLock]) (\<lambda>_. kret ip)"

definition ilock :: "nat option \<Rightarrow> ('z fs_state_scheme, unit) kmon" where
  "ilock oip =
     (case oip of None \<Rightarrow> kpanic ''ilock'' | Some ip \<Rightarrow>
      kbind (iget_field ip iref) (\<lambda>rf.
      if rf < 1 then kpanic ''ilock'' else
      kbind (acquiresleep (InodeLock ip)) (\<lambda>_.
      kbind (kget (\<lambda>s. (inodes s ip, sb s))) (\<lambda>(n, sbl).
      if ivalid n then kret () else
      kbind (bread (idev n) (IBLOCK (inum n) sbl)) (\<lambda>bp.
      kbind (bufget bp bdata) (\<lambda>d.
      kbind (iset ip (decode_dinode d (dinode_off (inum n)))) (\<lambda>_.
      kbind (brelse bp) (\<lambda>_.
      kbind (iset ip (\<lambda>n. n\<lparr>ivalid := True\<rparr>)) (\<lambda>_.
      kbind (iget_field ip itype) (\<lambda>ty.
      if ty = 0 then kpanic ''ilock: no type'' else kret ()))))))))))"

definition iunlock :: "nat option \<Rightarrow> ('z fs_state_scheme, unit) kmon" where
  "iunlock oip =
     (case oip of None \<Rightarrow> kpanic ''iunlock'' | Some ip \<Rightarrow>
      kbind (holdingsleep (InodeLock ip)) (\<lambda>h.
      if \<not> h then kpanic ''iunlock'' else
      kbind (iget_field ip iref) (\<lambda>rf.
      if rf < 1 then kpanic ''iunlock'' else releasesleep (InodeLock ip))))"

definition itrunc_direct :: "nat \<Rightarrow> ('z fs_state_scheme, unit) kmon" where
  "itrunc_direct ip = kfor [0..<NDIRECT] (\<lambda>i.
     kbind (kget (\<lambda>s. inodes s ip)) (\<lambda>n.
     kwhen (iaddrs n ! i \<noteq> 0) (kseq [
       bfree (idev n) (iaddrs n ! i),
       iset ip (\<lambda>n. n\<lparr>iaddrs := (iaddrs n)[i := 0]\<rparr>)])))"

definition itrunc_indirect :: "nat \<Rightarrow> ('z fs_state_scheme, unit) kmon" where
  "itrunc_indirect ip =
     kbind (kget (\<lambda>s. inodes s ip)) (\<lambda>n.
     kwhen (iaddrs n ! NDIRECT \<noteq> 0)
       (kbind (bread (idev n) (iaddrs n ! NDIRECT)) (\<lambda>bp. kseq [
         kfor [0..<NINDIRECT] (\<lambda>j.
           kbind (bufget bp (\<lambda>r. get32 (bdata r) (4 * j))) (\<lambda>a.
           kwhen (a \<noteq> 0) (bfree (idev n) a))),
         brelse bp,
         bfree (idev n) (iaddrs n ! NDIRECT),
         iset ip (\<lambda>n. n\<lparr>iaddrs := (iaddrs n)[NDIRECT := 0]\<rparr>)])))"

definition itrunc :: "nat \<Rightarrow> ('z fs_state_scheme, unit) kmon" where
  "itrunc ip = kseq [
     itrunc_direct ip,
     itrunc_indirect ip,
     iset ip (\<lambda>n. n\<lparr>isize := 0\<rparr>),
     iupdate ip]"

definition iput :: "nat \<Rightarrow> ('z fs_state_scheme, unit) kmon" where
  "iput ip = kseq [
     acquire ItableLock,
     kbind (kget (\<lambda>s. inodes s ip)) (\<lambda>n.
     kwhen (iref n = 1 \<and> ivalid n \<and> inlink n = 0) (kseq [
       acquiresleep (InodeLock ip),
       release ItableLock,
       itrunc ip,
       iset ip (\<lambda>n. n\<lparr>itype := 0\<rparr>),
       iupdate ip,
       iset ip (\<lambda>n. n\<lparr>ivalid := False\<rparr>),
       releasesleep (InodeLock ip),
       acquire ItableLock])),
     iref_dec ip,
     release ItableLock]"

definition iunlockput :: "nat \<Rightarrow> ('z fs_state_scheme, unit) kmon" where
  "iunlockput ip = kseq [iunlock (Some ip), iput ip]"

subsection \<open>File contents\<close>

definition bmap_direct :: "nat \<Rightarrow> nat \<Rightarrow> ('z fs_state_scheme, u32) kmon" where
  "bmap_direct ip k =
     kbind (kget (\<lambda>s. inodes s ip)) (\<lambda>n.
     if iaddrs n ! k \<noteq> 0 then kret (iaddrs n ! k) else
     kbind (balloc (idev n)) (\<lambda>addr.
     if addr = 0 then kret 0
     else kbind (iset ip (\<lambda>n. n\<lparr>iaddrs := (iaddrs n)[k := addr]\<rparr>)) (\<lambda>_. kret addr)))"

definition bmap :: "nat \<Rightarrow> u32 \<Rightarrow> ('z fs_state_scheme, u32) kmon" where
  "bmap ip bn =
     (if unat bn < NDIRECT then bmap_direct ip (unat bn)
      else if unat bn - NDIRECT < NINDIRECT then
        kbind (bmap_direct ip NDIRECT) (\<lambda>ind.
        if ind = 0 then kret 0 else
        kbind (iget_field ip idev) (\<lambda>dev.
        kbind (bread dev ind) (\<lambda>bp.
        (let j = unat bn - NDIRECT in
        kbind (bufget bp (\<lambda>r. get32 (bdata r) (4 * j))) (\<lambda>a.
        kbind (if a \<noteq> 0 then kret a else
          kbind (balloc dev) (\<lambda>addr.
          kbind (kwhen (addr \<noteq> 0) (kseq [
            bufset bp (\<lambda>r. r\<lparr>bdata := splice (bdata r) (4 * j) (le32 addr)\<rparr>),
            log_write bp])) (\<lambda>_. kret addr))) (\<lambda>addr.
        kbind (brelse bp) (\<lambda>_.
        kret addr)))))))
      else kpanic ''bmap: out of range'')"

record stat =
  st_dev :: u32
  st_ino :: u32
  st_type :: u16
  st_nlink :: u16
  st_size :: u64

definition stati :: "nat \<Rightarrow> ('z fs_state_scheme, stat) kmon" where
  "stati ip = kget (\<lambda>s. let n = inodes s ip in
     \<lparr>st_dev = idev n, st_ino = inum n, st_type = itype n, st_nlink = inlink n, st_size = ucast (isize n)\<rparr>)"

text \<open>\<^verbatim>\<open>min(n - tot, BSIZE - off%BSIZE)\<close>\<close>

definition piece :: "u32 \<Rightarrow> u32 \<Rightarrow> u32" where
  "piece lft off = min lft (of_nat BSIZE - off mod of_nat BSIZE)"

text \<open>
  The loops of \<^verbatim>\<open>readi\<close> and \<^verbatim>\<open>writei\<close>: each round but the first and the last moves a
  whole block, which bounds the rounds.  \<open>readi\<close> also gives the bytes it has copied.
\<close>

definition io_rounds :: "u32 \<Rightarrow> nat" where
  "io_rounds n = unat n div BSIZE + 3"

primrec readi_loop :: "nat \<Rightarrow> nat \<Rightarrow> dest \<Rightarrow> u32 \<Rightarrow> u32 \<Rightarrow> u32 \<Rightarrow> bytes \<Rightarrow> ('z fs_state_scheme, int \<times> bytes) kmon" where
  "readi_loop 0 ip dst off n tot acc = kdiverge"
| "readi_loop (Suc k) ip dst off n tot acc =
     (if \<not> tot < n then kret (sint tot, acc) else
      kbind (bmap ip (off div of_nat BSIZE)) (\<lambda>addr.
      if addr = 0 then kret (sint tot, acc) else
      kbind (iget_field ip idev) (\<lambda>dev.
      kbind (bread dev addr) (\<lambda>bp.
      (let m = piece (n - tot) off in
      kbind (bufget bp (\<lambda>r. take (unat m) (drop (unat (off mod of_nat BSIZE)) (bdata r)))) (\<lambda>d.
      kbind (either_copyout dst d (ucast m)) (\<lambda>r.
      kbind (brelse bp) (\<lambda>_.
      if r = -1 then kret (-1, acc)
      else readi_loop k ip (dest_add dst (ucast m)) (off + m) n (tot + m) (acc @ d)))))))))"

definition readi :: "nat \<Rightarrow> dest \<Rightarrow> u32 \<Rightarrow> u32 \<Rightarrow> ('z fs_state_scheme, int \<times> bytes) kmon" where
  "readi ip dst off n =
     kbind (iget_field ip isize) (\<lambda>sz.
     if off > sz \<or> off + n < off then kret (0, []) else
     (let n' = (if off + n > sz then sz - off else n) in
     readi_loop (io_rounds n') ip dst off n' 0 []))"

primrec writei_loop :: "nat \<Rightarrow> nat \<Rightarrow> source \<Rightarrow> u32 \<Rightarrow> u32 \<Rightarrow> u32 \<Rightarrow> ('z fs_state_scheme, u32 \<times> u32) kmon" where
  "writei_loop 0 ip src off n tot = kdiverge"
| "writei_loop (Suc k) ip src off n tot =
     (if \<not> tot < n then kret (tot, off) else
      kbind (bmap ip (off div of_nat BSIZE)) (\<lambda>addr.
      if addr = 0 then kret (tot, off) else
      kbind (iget_field ip idev) (\<lambda>dev.
      kbind (bread dev addr) (\<lambda>bp.
      (let m = piece (n - tot) off in
      kbind (either_copyin src (ucast m)) (\<lambda>(r, d).
      kbind (bufset bp (\<lambda>q. q\<lparr>bdata := splice (bdata q) (unat (off mod of_nat BSIZE)) d\<rparr>)) (\<lambda>_.
      if r = -1 then kbind (brelse bp) (\<lambda>_. kret (tot, off))
      else kbind (kseq [log_write bp, brelse bp]) (\<lambda>_.
        writei_loop k ip (source_add src (ucast m)) (off + m) n (tot + m)))))))))"

definition writei :: "nat \<Rightarrow> source \<Rightarrow> u32 \<Rightarrow> u32 \<Rightarrow> ('z fs_state_scheme, int) kmon" where
  "writei ip src off n =
     kbind (iget_field ip isize) (\<lambda>sz.
     if off > sz \<or> off + n < off then kret (-1)
     else if off + n > of_nat (MAXFILE * BSIZE) then kret (-1)
     else
       kbind (writei_loop (io_rounds n) ip src off n 0) (\<lambda>(tot, off').
       kbind (kseq [
         kbind (iget_field ip isize) (\<lambda>sz'. kwhen (off' > sz') (iset ip (\<lambda>n. n\<lparr>isize := off'\<rparr>))),
         iupdate ip]) (\<lambda>_.
       kret (sint tot))))"

subsection \<open>Directories\<close>

definition namecmp :: "bytes \<Rightarrow> bytes \<Rightarrow> int option" where
  "namecmp s t = strncmp s t DIRSIZ"

text \<open>\<^verbatim>\<open>struct dirent\<close>: \<^verbatim>\<open>inum\<close> in two bytes and the name.\<close>

definition de_inum :: "bytes \<Rightarrow> u16" where
  "de_inum de = get16 de 0"

definition de_name :: "bytes \<Rightarrow> bytes" where
  "de_name de = take DIRSIZ (drop 2 de)"

primrec dirlookup_loop :: "nat \<Rightarrow> nat \<Rightarrow> bytes \<Rightarrow> u32 \<Rightarrow> ('z fs_state_scheme, (nat \<times> u32) option) kmon" where
  "dirlookup_loop 0 dp name off = kdiverge"
| "dirlookup_loop (Suc k) dp name off =
     kbind (iget_field dp isize) (\<lambda>sz.
     if \<not> off < sz then kret None else
     kbind (readi dp LocalDst off 16) (\<lambda>(r, de).
     if r \<noteq> 16 then kpanic ''dirlookup read''
     else if de_inum de = 0 then dirlookup_loop k dp name (off + 16)
     else deref (namecmp name (de_name de)) (\<lambda>c.
       if c = 0 then
         kbind (iget_field dp idev) (\<lambda>dev.
         kbind (iget dev (ucast (de_inum de))) (\<lambda>ip.
         kret (Some (ip, off))))
       else dirlookup_loop k dp name (off + 16))))"

definition dirlookup :: "nat \<Rightarrow> bytes \<Rightarrow> ('z fs_state_scheme, (nat \<times> u32) option) kmon" where
  "dirlookup dp name =
     kbind (kget (\<lambda>s. inodes s dp)) (\<lambda>n.
     if itype n \<noteq> T_DIR then kpanic ''dirlookup not DIR''
     else dirlookup_loop (unat (isize n) div 16 + 2) dp name 0)"

primrec dirlink_slot :: "nat \<Rightarrow> nat \<Rightarrow> u32 \<Rightarrow> ('z fs_state_scheme, u32) kmon" where
  "dirlink_slot 0 dp off = kdiverge"
| "dirlink_slot (Suc k) dp off =
     kbind (iget_field dp isize) (\<lambda>sz.
     if \<not> off < sz then kret off else
     kbind (readi dp LocalDst off 16) (\<lambda>(r, de).
     if r \<noteq> 16 then kpanic ''dirlink read''
     else if de_inum de = 0 then kret off
     else dirlink_slot k dp (off + 16)))"

definition dirlink :: "nat \<Rightarrow> bytes \<Rightarrow> u32 \<Rightarrow> ('z fs_state_scheme, int) kmon" where
  "dirlink dp name i =
     kbind (dirlookup dp name) (\<lambda>f.
     case f of
       Some (ip, _) \<Rightarrow> kbind (iput ip) (\<lambda>_. kret (-1))
     | None \<Rightarrow>
         kbind (iget_field dp isize) (\<lambda>sz.
         kbind (dirlink_slot (unat sz div 16 + 2) dp 0) (\<lambda>off.
         deref (strncpy (replicate DIRSIZ 0) name (int DIRSIZ)) (\<lambda>nm.
         kbind (writei dp (LocalSrc (le16 (ucast i) @ nm)) off 16) (\<lambda>r.
         kret (if r \<noteq> 16 then -1 else 0))))))"

subsection \<open>Paths\<close>

definition slash :: u8 where "slash = 0x2F"

definition at_nul :: "bytes \<Rightarrow> bool" where
  "at_nul p \<longleftrightarrow> p = [] \<or> hd p = 0"

definition skipelem :: "bytes \<Rightarrow> bytes \<Rightarrow> (bytes \<times> bytes) option" where
  "skipelem path name =
     (let p = dropWhile (\<lambda>c. c = slash) path in
      if at_nul p then None else
      let s = takeWhile (\<lambda>c. c \<noteq> slash \<and> c \<noteq> 0) p;
          rest = dropWhile (\<lambda>c. c \<noteq> slash \<and> c \<noteq> 0) p;
          name' = (if length s \<ge> DIRSIZ then splice name 0 (take DIRSIZ s)
                   else splice name 0 (s @ [0]))
      in Some (dropWhile (\<lambda>c. c = slash) rest, name'))"

text \<open>The result of \<^verbatim>\<open>namex\<close> is the inode and the name buffer.  Each element takes a
  character of the path, which bounds the rounds.\<close>

primrec namex_loop :: "nat \<Rightarrow> nat \<Rightarrow> bytes \<Rightarrow> bool \<Rightarrow> bytes \<Rightarrow> ('z fs_state_scheme, (nat \<times> bytes) option) kmon" where
  "namex_loop 0 ip path par name = kdiverge"
| "namex_loop (Suc k) ip path par name =
     (case skipelem path name of
        None \<Rightarrow>
          if par then kbind (iput ip) (\<lambda>_. kret None) else kret (Some (ip, name))
      | Some (path', name') \<Rightarrow>
          kbind (ilock (Some ip)) (\<lambda>_.
          kbind (iget_field ip itype) (\<lambda>ty.
          if ty \<noteq> T_DIR then kbind (iunlockput ip) (\<lambda>_. kret None)
          else if par \<and> at_nul path' then kbind (iunlock (Some ip)) (\<lambda>_. kret (Some (ip, name')))
          else
            kbind (dirlookup ip name') (\<lambda>nx.
            case nx of
              None \<Rightarrow> kbind (iunlockput ip) (\<lambda>_. kret None)
            | Some (next, _) \<Rightarrow> kbind (iunlockput ip) (\<lambda>_. namex_loop k next path' par name')))))"

definition namex :: "bytes \<Rightarrow> bool \<Rightarrow> bytes \<Rightarrow> ('z fs_state_scheme, (nat \<times> bytes) option) kmon" where
  "namex path par name =
     kbind (if path \<noteq> [] \<and> hd path = slash then iget ROOTDEV ROOTINO
            else kbind myproc (\<lambda>mp. deref mp (\<lambda>p.
                 kbind (pget p cwd) (\<lambda>c. deref c idup)))) (\<lambda>ip.
     namex_loop (Suc (length path)) ip path par name)"

text \<open>The name buffers start with whatever is on the stack; any contents will do.\<close>

definition namei :: "bytes \<Rightarrow> ('z fs_state_scheme, nat option) kmon" where
  "namei path = kbind (namex path False (replicate DIRSIZ 0)) (\<lambda>r. kret (map_option fst r))"

definition nameiparent :: "bytes \<Rightarrow> bytes \<Rightarrow> ('z fs_state_scheme, (nat \<times> bytes) option) kmon" where
  "nameiparent path name = namex path True name"

end
