(* ===== verification/Pipe.thy ===== *)
theory Pipe
  imports Fs
begin

text \<open>
  \<^verbatim>\<open>kernel/pipe.c\<close> but for \<^verbatim>\<open>pipealloc\<close>: reading, writing and closing.  A pipe is
  kept under the address of the page it was allocated in.  The counters have 32 bits
  and wrap around.
\<close>

definition PIPESIZE :: u32 where "PIPESIZE = 512"

record pipe =
  pdata :: "nat \<Rightarrow> u8"
  nread :: u32
  nwrite :: u32
  readopen :: bool
  writeopen :: bool

record pipe_state = fs_state +
  pipes :: "u64 \<Rightarrow> pipe"

definition pipeget :: "u64 \<Rightarrow> (pipe \<Rightarrow> 'a) \<Rightarrow> ('z pipe_state_scheme, 'a) kmon" where
  "pipeget pi f = kget (\<lambda>s. f (pipes s pi))"

definition pipeset :: "u64 \<Rightarrow> (pipe \<Rightarrow> pipe) \<Rightarrow> ('z pipe_state_scheme, unit) kmon" where
  "pipeset pi f = kmodify (\<lambda>s. s\<lparr>pipes := (pipes s)(pi := f (pipes s pi))\<rparr>)"

definition pipeclose :: "u64 \<Rightarrow> bool \<Rightarrow> ('z pipe_state_scheme, unit) kmon" where
  "pipeclose pi writable =
     kbind (acquire (PipeLock pi)) (\<lambda>_.
     kbind (if writable then kseq [
              pipeset pi (\<lambda>p. p\<lparr>writeopen := False\<rparr>),
              wakeup (Some (ChanPipeRead pi))]
            else kseq [
              pipeset pi (\<lambda>p. p\<lparr>readopen := False\<rparr>),
              wakeup (Some (ChanPipeWrite pi))]) (\<lambda>_.
     kbind (pipeget pi (\<lambda>p. \<not> readopen p \<and> \<not> writeopen p)) (\<lambda>both.
     if both then kseq [release (PipeLock pi), kfree pi]
     else release (PipeLock pi))))"

subsection \<open>The ring\<close>

definition pipe_put :: "u8 \<Rightarrow> pipe \<Rightarrow> pipe" where
  "pipe_put ch p = p\<lparr>pdata := (pdata p)(unat (nwrite p mod PIPESIZE) := ch), nwrite := nwrite p + 1\<rparr>"

definition pipe_head :: "pipe \<Rightarrow> u8" where
  "pipe_head p = pdata p (unat (nread p mod PIPESIZE))"

definition pipe_drop :: "pipe \<Rightarrow> pipe" where
  "pipe_drop p = p\<lparr>nread := nread p + 1\<rparr>"

definition pipe_full :: "pipe \<Rightarrow> bool" where
  "pipe_full p \<longleftrightarrow> nwrite p = nread p + PIPESIZE"

definition pipe_empty :: "pipe \<Rightarrow> bool" where
  "pipe_empty p \<longleftrightarrow> nread p = nwrite p"

subsection \<open>Writing\<close>

text \<open>
  The loop of \<^verbatim>\<open>pipewrite\<close>: \<open>Inl\<close> is an early return.  A round either takes a byte
  or waits, so the bytes and the waits that are left bound the rounds.
\<close>

primrec pipewrite_loop :: "nat \<Rightarrow> nat \<Rightarrow> u64 \<Rightarrow> u64 \<Rightarrow> int \<Rightarrow> int \<Rightarrow> ('z pipe_state_scheme, int + int) kmon" where
  "pipewrite_loop 0 pr pi addr n i = kdiverge"
| "pipewrite_loop (Suc k) pr pi addr n i =
     (if \<not> i < n then kret (Inr i) else
      kbind (pipeget pi readopen) (\<lambda>ro.
      kbind (if \<not> ro then kret True else killed pr) (\<lambda>stop.
      if stop then kbind (release (PipeLock pi)) (\<lambda>_. kret (Inl (- 1))) else
      kbind (pipeget pi pipe_full) (\<lambda>full.
      if full then
        kbind (wakeup (Some (ChanPipeRead pi))) (\<lambda>_.
        kbind (sleep (Some (ChanPipeWrite pi)) (PipeLock pi)) (\<lambda>_.
        pipewrite_loop k pr pi addr n i))
      else
        kbind (pget pr pagetable) (\<lambda>pt.
        kbind (copyin pt (addr + of_int i) 1) (\<lambda>(r, ch).
        if r = - 1 then kret (Inr i)
        else kbind (pipeset pi (pipe_put (hd ch))) (\<lambda>_.
          pipewrite_loop k pr pi addr n (i + 1))))))))"

definition pipewrite :: "u64 \<Rightarrow> u64 \<Rightarrow> int \<Rightarrow> ('z pipe_state_scheme, int) kmon" where
  "pipewrite pi addr n =
     kbind myproc (\<lambda>mp. deref mp (\<lambda>pr.
     kbind (acquire (PipeLock pi)) (\<lambda>_.
     kbind (\<lambda>es s. pipewrite_loop (Suc (nat n + length es)) pr pi addr n 0 es s) (\<lambda>r.
     case r of
       Inl v \<Rightarrow> kret v
     | Inr i \<Rightarrow>
         kbind (kseq [wakeup (Some (ChanPipeRead pi)), release (PipeLock pi)]) (\<lambda>_.
         kret i)))))"

subsection \<open>Reading\<close>

primrec piperead_copy :: "nat \<Rightarrow> nat \<Rightarrow> u64 \<Rightarrow> u64 \<Rightarrow> nat \<Rightarrow> ('z pipe_state_scheme, int) kmon" where
  "piperead_copy 0 pr pi addr i = kret (int i)"
| "piperead_copy (Suc k) pr pi addr i =
     kbind (pipeget pi pipe_empty) (\<lambda>emp.
     if emp then kret (int i) else
     kbind (pipeget pi pipe_head) (\<lambda>ch.
     kbind (pipeset pi pipe_drop) (\<lambda>_.
     kbind (pget pr pagetable) (\<lambda>pt.
     kbind (copyout pt (addr + of_nat i) [ch] 1) (\<lambda>r.
     if r = - 1 then kret (int i)
     else piperead_copy k pr pi addr (Suc i))))))"

text \<open>\<open>False\<close> if the reader has been killed.\<close>

definition piperead_wait :: "nat \<Rightarrow> u64 \<Rightarrow> ('z pipe_state_scheme, bool) kmon" where
  "piperead_wait pr pi = kwaitloop (
     kbind (pipeget pi (\<lambda>p. pipe_empty p \<and> writeopen p)) (\<lambda>w.
     if \<not> w then kret (Some True) else
     kbind (killed pr) (\<lambda>k.
     if k then kbind (release (PipeLock pi)) (\<lambda>_. kret (Some False))
     else kbind (sleep (Some (ChanPipeRead pi)) (PipeLock pi)) (\<lambda>_. kret None))))"

definition piperead :: "u64 \<Rightarrow> u64 \<Rightarrow> int \<Rightarrow> ('z pipe_state_scheme, int) kmon" where
  "piperead pi addr n =
     kbind myproc (\<lambda>mp. deref mp (\<lambda>pr.
     kbind (acquire (PipeLock pi)) (\<lambda>_.
     kbind (piperead_wait pr pi) (\<lambda>go.
     if \<not> go then kret (- 1) else
     kbind (piperead_copy (nat n) pr pi addr 0) (\<lambda>i.
     kbind (kseq [wakeup (Some (ChanPipeWrite pi)), release (PipeLock pi)]) (\<lambda>_.
     kret i))))))"

end
