(* ===== verification/File.thy ===== *)
theory File
  imports Pipe
begin

text \<open>
  \<^verbatim>\<open>kernel/file.h\<close>, \<^verbatim>\<open>kernel/file.c\<close> and \<^verbatim>\<open>pipealloc\<close>: the table of open files.  A
  pointer to a file is an index into \<^verbatim>\<open>ftable.file\<close>.
\<close>

datatype fdtype = FD_NONE | FD_PIPE | FD_INODE | FD_DEVICE

record open_file =
  ftype :: fdtype
  fref :: int
  readable :: bool
  writable :: bool
  fpipe :: u64
  fip :: "nat option"
  foff :: u32
  fmajor :: u16

record file_state = pipe_state +
  ftable :: "nat \<Rightarrow> open_file"
  stat_pad :: bytes    \<comment> \<open>the four bytes of stack under the padding of \<^verbatim>\<open>struct stat\<close>\<close>

definition fget :: "nat \<Rightarrow> (open_file \<Rightarrow> 'a) \<Rightarrow> ('z file_state_scheme, 'a) kmon" where
  "fget f g = kget (\<lambda>s. g (ftable s f))"

definition fset :: "nat \<Rightarrow> (open_file \<Rightarrow> open_file) \<Rightarrow> ('z file_state_scheme, unit) kmon" where
  "fset f g = kmodify (\<lambda>s. s\<lparr>ftable := (ftable s)(f := g (ftable s f))\<rparr>)"

definition fileinit :: "('z lock_state_scheme, unit) kmon" where
  "fileinit = initlock FtableLock ''ftable''"

definition filealloc :: "('z file_state_scheme, nat option) kmon" where
  "filealloc =
     kbind (acquire FtableLock) (\<lambda>_.
     kbind (kfind [0..<NFILE] (\<lambda>f.
       kbind (fget f fref) (\<lambda>r.
       if r = 0 then
         kbind (kseq [fset f (\<lambda>q. q\<lparr>fref := 1\<rparr>), release FtableLock]) (\<lambda>_. kret (Some f))
       else kret None))) (\<lambda>r.
     case r of
       Some f \<Rightarrow> kret (Some f)
     | None \<Rightarrow> kbind (release FtableLock) (\<lambda>_. kret None)))"

definition filedup :: "nat \<Rightarrow> ('z file_state_scheme, nat) kmon" where
  "filedup f =
     kbind (acquire FtableLock) (\<lambda>_.
     kbind (fget f fref) (\<lambda>r.
     if r < 1 then kpanic ''filedup'' else
     kbind (kseq [c_inc r (\<lambda>n. fset f (\<lambda>q. q\<lparr>fref := n\<rparr>)), release FtableLock]) (\<lambda>_.
     kret f)))"

definition fileclose :: "nat \<Rightarrow> ('z file_state_scheme, unit) kmon" where
  "fileclose f =
     kbind (acquire FtableLock) (\<lambda>_.
     kbind (fget f fref) (\<lambda>r.
     if r < 1 then kpanic ''fileclose'' else
     kbind (c_dec r (\<lambda>n. fset f (\<lambda>q. q\<lparr>fref := n\<rparr>))) (\<lambda>_.
     if r - 1 > 0 then release FtableLock else
     kbind (kget (\<lambda>s. ftable s f)) (\<lambda>ff.
     kbind (kseq [
       fset f (\<lambda>q. q\<lparr>fref := 0\<rparr>),
       fset f (\<lambda>q. q\<lparr>ftype := FD_NONE\<rparr>),
       release FtableLock]) (\<lambda>_.
     if ftype ff = FD_PIPE then pipeclose (fpipe ff) (writable ff)
     else kwhen (ftype ff = FD_INODE \<or> ftype ff = FD_DEVICE) (kseq [
       begin_op,
       deref (fip ff) iput,
       end_op]))))))"

definition le64 :: "u64 \<Rightarrow> bytes" where
  "le64 w = le32 (ucast w) @ le32 (ucast (drop_bit 32 w))"

definition encode_stat :: "bytes \<Rightarrow> stat \<Rightarrow> bytes" where
  "encode_stat pad st = le32 (st_dev st) @ le32 (st_ino st) @ le16 (st_type st) @ le16 (st_nlink st) @
     pad @ le64 (st_size st)"

definition filestat :: "nat \<Rightarrow> u64 \<Rightarrow> ('z file_state_scheme, int) kmon" where
  "filestat f addr =
     kbind myproc (\<lambda>mp.
     kbind (kget (\<lambda>s. ftable s f)) (\<lambda>ff.
     if ftype ff = FD_INODE \<or> ftype ff = FD_DEVICE then
       kbind (ilock (fip ff)) (\<lambda>_.
       kbind (deref (fip ff) stati) (\<lambda>st.
       kbind (iunlock (fip ff)) (\<lambda>_.
       deref mp (\<lambda>p.
       kbind (pget p pagetable) (\<lambda>pt.
       kbind (kget stat_pad) (\<lambda>pad.
       kbind (copyout pt addr (encode_stat pad st) 24) (\<lambda>r.
       kret (if r < 0 then - 1 else 0))))))))
     else kret (- 1)))"

definition devread :: "devfn \<Rightarrow> dest \<Rightarrow> int \<Rightarrow> ('z cons_state_scheme, int) kmon" where
  "devread d dst n = (case d of ConsoleRead \<Rightarrow> consoleread dst n | ConsoleWrite \<Rightarrow> kundef)"

definition devwrite :: "devfn \<Rightarrow> source \<Rightarrow> int \<Rightarrow> ('z cons_state_scheme, int) kmon" where
  "devwrite d src n = (case d of ConsoleWrite \<Rightarrow> consolewrite src n | ConsoleRead \<Rightarrow> kundef)"

definition fileread :: "nat \<Rightarrow> u64 \<Rightarrow> int \<Rightarrow> ('z file_state_scheme, int) kmon" where
  "fileread f addr n =
     kbind (kget (\<lambda>s. ftable s f)) (\<lambda>ff.
     if \<not> readable ff then kret (- 1) else
     (case ftype ff of
        FD_PIPE \<Rightarrow> piperead (fpipe ff) addr n
      | FD_DEVICE \<Rightarrow>
          if sint (fmajor ff) < 0 \<or> sint (fmajor ff) \<ge> int NDEV then kret (- 1) else
          kbind (kget (\<lambda>s. devsw_read s (unat (fmajor ff)))) (\<lambda>d.
          case d of None \<Rightarrow> kret (- 1) | Some g \<Rightarrow> devread g (UserDst addr) n)
      | FD_INODE \<Rightarrow>
          kbind (ilock (fip ff)) (\<lambda>_.
          kbind (fget f foff) (\<lambda>off.
          kbind (deref (fip ff) (\<lambda>ip. readi ip (UserDst addr) off (of_int n))) (\<lambda>(r, _).
          kbind (kwhen (r > 0) (fset f (\<lambda>q. q\<lparr>foff := foff q + of_int r\<rparr>))) (\<lambda>_.
          kbind (iunlock (fip ff)) (\<lambda>_.
          kret r)))))
      | FD_NONE \<Rightarrow> kpanic ''fileread''))"

text \<open>\<^verbatim>\<open>((MAXOPBLOCKS-1-1-2) / 2) * BSIZE\<close>\<close>

definition filewrite_max :: int where
  "filewrite_max = int (((MAXOPBLOCKS - 1 - 1 - 2) div 2) * BSIZE)"

primrec filewrite_loop :: "nat \<Rightarrow> nat \<Rightarrow> nat option \<Rightarrow> u64 \<Rightarrow> int \<Rightarrow> int \<Rightarrow> ('z file_state_scheme, int) kmon" where
  "filewrite_loop 0 f oip addr n i = kdiverge"
| "filewrite_loop (Suc k) f oip addr n i =
     (if \<not> i < n then kret i else
      (let n1 = min (n - i) filewrite_max in
      kbind begin_op (\<lambda>_.
      kbind (ilock oip) (\<lambda>_.
      kbind (fget f foff) (\<lambda>off.
      kbind (deref oip (\<lambda>ip. writei ip (UserSrc (addr + of_int i)) off (of_int n1))) (\<lambda>r.
      kbind (kwhen (r > 0) (fset f (\<lambda>q. q\<lparr>foff := foff q + of_int r\<rparr>))) (\<lambda>_.
      kbind (iunlock oip) (\<lambda>_.
      kbind end_op (\<lambda>_.
      if r \<noteq> n1 then kret i else filewrite_loop k f oip addr n (i + r))))))))))"

definition filewrite :: "nat \<Rightarrow> u64 \<Rightarrow> int \<Rightarrow> ('z file_state_scheme, int) kmon" where
  "filewrite f addr n =
     kbind (kget (\<lambda>s. ftable s f)) (\<lambda>ff.
     if \<not> writable ff then kret (- 1) else
     (case ftype ff of
        FD_PIPE \<Rightarrow> pipewrite (fpipe ff) addr n
      | FD_DEVICE \<Rightarrow>
          if sint (fmajor ff) < 0 \<or> sint (fmajor ff) \<ge> int NDEV then kret (- 1) else
          kbind (kget (\<lambda>s. devsw_write s (unat (fmajor ff)))) (\<lambda>d.
          case d of None \<Rightarrow> kret (- 1) | Some g \<Rightarrow> devwrite g (UserSrc addr) n)
      | FD_INODE \<Rightarrow>
          kbind (filewrite_loop (nat n div nat filewrite_max + 2) f (fip ff) addr n 0) (\<lambda>i.
          kret (if i = n then n else - 1))
      | FD_NONE \<Rightarrow> kpanic ''filewrite''))"

subsection \<open>pipe.c: pipealloc\<close>

definition pipealloc_bad :: "nat option \<Rightarrow> nat option \<Rightarrow> ('z file_state_scheme, (nat \<times> nat) option) kmon" where
  "pipealloc_bad f0 f1 =
     kbind (kseq [
       (case f0 of None \<Rightarrow> kret () | Some f \<Rightarrow> fileclose f),
       (case f1 of None \<Rightarrow> kret () | Some f \<Rightarrow> fileclose f)]) (\<lambda>_.
     kret None)"

definition pipealloc :: "('z file_state_scheme, (nat \<times> nat) option) kmon" where
  "pipealloc =
     kbind filealloc (\<lambda>r0.
     case r0 of None \<Rightarrow> pipealloc_bad None None | Some f0 \<Rightarrow>
     kbind filealloc (\<lambda>r1.
     case r1 of None \<Rightarrow> pipealloc_bad (Some f0) None | Some f1 \<Rightarrow>
     kbind kalloc (\<lambda>pi.
     if pi = 0 then pipealloc_bad (Some f0) (Some f1) else
     kbind (kseq [
       pipeset pi (\<lambda>p. p\<lparr>readopen := True\<rparr>),
       pipeset pi (\<lambda>p. p\<lparr>writeopen := True\<rparr>),
       pipeset pi (\<lambda>p. p\<lparr>nwrite := 0\<rparr>),
       pipeset pi (\<lambda>p. p\<lparr>nread := 0\<rparr>),
       initlock (PipeLock pi) ''pipe'',
       fset f0 (\<lambda>q. q\<lparr>ftype := FD_PIPE, readable := True, writable := False, fpipe := pi\<rparr>),
       fset f1 (\<lambda>q. q\<lparr>ftype := FD_PIPE, readable := False, writable := True, fpipe := pi\<rparr>)]) (\<lambda>_.
     kret (Some (f0, f1))))))"

end
