(* ===== verification/Process.thy ===== *)
theory Process
  imports File
begin

text \<open>
  The part of \<^verbatim>\<open>kernel/proc.c\<close> that uses the file system (\<^verbatim>\<open>userinit\<close>, \<^verbatim>\<open>fork\<close>,
  \<^verbatim>\<open>exit\<close>) and \<^verbatim>\<open>kernel/exec.c\<close>.  The trapframe of a process is a page of memory;
  a null trapframe pointer is not followed.
\<close>

definition tf_get :: "nat \<Rightarrow> u64 \<Rightarrow> ('z proc_state_scheme, u64) kmon" where
  "tf_get p field =
     kbind (pget p trapframe) (\<lambda>tf.
     if tf = 0 then kundef else kget (\<lambda>s. ld64 (mem s) (tf + field)))"

definition tf_set :: "nat \<Rightarrow> u64 \<Rightarrow> u64 \<Rightarrow> ('z proc_state_scheme, unit) kmon" where
  "tf_set p field v =
     kbind (pget p trapframe) (\<lambda>tf.
     if tf = 0 then kundef else kmodify (\<lambda>s. s\<lparr>mem := st64 (mem s) (tf + field) v\<rparr>))"

subsection \<open>proc.c\<close>

definition initcode :: bytes where
  "initcode = [
     0x17, 0x05, 0x00, 0x00, 0x13, 0x05, 0x45, 0x02,
     0x97, 0x05, 0x00, 0x00, 0x93, 0x85, 0x35, 0x02,
     0x93, 0x08, 0x70, 0x00, 0x73, 0x00, 0x00, 0x00,
     0x93, 0x08, 0x20, 0x00, 0x73, 0x00, 0x00, 0x00,
     0xef, 0xf0, 0x9f, 0xff, 0x2f, 0x69, 0x6e, 0x69,
     0x74, 0x00, 0x00, 0x24, 0x00, 0x00, 0x00, 0x00,
     0x00, 0x00, 0x00, 0x00]"

definition set_name :: "nat \<Rightarrow> bytes \<Rightarrow> ('z proc_state_scheme, unit) kmon" where
  "set_name p nm =
     kbind (pget p pname) (\<lambda>old.
     deref (safestrcpy old nm 16) (\<lambda>new. pset p (\<lambda>r. r\<lparr>pname := new\<rparr>)))"

definition userinit :: "('z fs_state_scheme, unit) kmon" where
  "userinit =
     kbind (allocproc 2) (\<lambda>op.
     kbind (kmodify (\<lambda>s. s\<lparr>initproc := op\<rparr>)) (\<lambda>_.
     deref op (\<lambda>p.
     kbind (pget p pagetable) (\<lambda>pt.
     kbind (kseq [
       uvmfirst pt initcode (of_nat (length initcode)),
       pset p (\<lambda>r. r\<lparr>psz := PGSIZE\<rparr>),
       tf_set p TF_epc 0,
       tf_set p TF_sp PGSIZE,
       set_name p (map of_char ''initcode'' @ [0])]) (\<lambda>_.
     kbind (namei [slash, 0]) (\<lambda>root. kseq [
       pset p (\<lambda>r. r\<lparr>cwd := root\<rparr>),
       pset p (\<lambda>r. r\<lparr>pstate := RUNNABLE\<rparr>),
       release (ProcLock p)]))))))"

text \<open>\<^verbatim>\<open>*(np->trapframe) = *(p->trapframe);\<close>\<close>

definition copy_trapframe :: "nat \<Rightarrow> nat \<Rightarrow> ('z proc_state_scheme, unit) kmon" where
  "copy_trapframe p np =
     kbind (pget p trapframe) (\<lambda>from.
     kbind (pget np trapframe) (\<lambda>to.
     if from = 0 \<or> to = 0 then kundef else
     kbind (mem_take from TF_size) (\<lambda>bs. mem_put to bs)))"

definition fork :: "('z file_state_scheme, int) kmon" where
  "fork =
     kbind myproc (\<lambda>mp. deref mp (\<lambda>p.
     kbind (pget p priority) (\<lambda>prio.
     kbind (allocproc prio) (\<lambda>onp.
     case onp of None \<Rightarrow> kret (- 1) | Some np \<Rightarrow>
     kbind (kget (\<lambda>s. (pagetable (procs s p), pagetable (procs s np), psz (procs s p)))) (\<lambda>(old, new, sz).
     kbind (uvmcopy old new sz) (\<lambda>r.
     if r < 0 then
       kbind (kseq [freeproc np, release (ProcLock np)]) (\<lambda>_. kret (- 1))
     else
     kbind (kseq [
       pset np (\<lambda>r. r\<lparr>psz := sz\<rparr>),
       copy_trapframe p np,
       tf_set np TF_a0 0,
       kfor [0..<NOFILE] (\<lambda>i.
         kbind (pget p (\<lambda>r. ofile r i)) (\<lambda>f.
         case f of None \<Rightarrow> kret () | Some f \<Rightarrow>
           kbind (filedup f) (\<lambda>g. pset np (\<lambda>r. r\<lparr>ofile := (ofile r)(i := Some g)\<rparr>)))),
       kbind (pget p cwd) (\<lambda>c. deref c (\<lambda>ip.
         kbind (idup ip) (\<lambda>d. pset np (\<lambda>r. r\<lparr>cwd := Some d\<rparr>)))),
       kbind (pget p pname) (set_name np)]) (\<lambda>_.
     kbind (pget np pid) (\<lambda>cpid.
     kbind (kseq [
       release (ProcLock np),
       acquire WaitLock,
       pset np (\<lambda>r. r\<lparr>parent := Some p\<rparr>),
       release WaitLock,
       acquire (ProcLock np),
       pset np (\<lambda>r. r\<lparr>pstate := RUNNABLE\<rparr>),
       release (ProcLock np)]) (\<lambda>_.
     kret cpid)))))))))"

definition exit_close :: "nat \<Rightarrow> ('z file_state_scheme, unit) kmon" where
  "exit_close p = kfor [0..<NOFILE] (\<lambda>fd.
     kbind (pget p (\<lambda>r. ofile r fd)) (\<lambda>f.
     case f of None \<Rightarrow> kret () | Some f \<Rightarrow> kseq [
       fileclose f,
       pset p (\<lambda>r. r\<lparr>ofile := (ofile r)(fd := None)\<rparr>)]))"

definition exit :: "u32 \<Rightarrow> ('z file_state_scheme, 'a) kmon" where
  "exit status =
     kbind myproc (\<lambda>mp.
     kbind (kget initproc) (\<lambda>ip.
     if mp = ip then kpanic ''init exiting'' else
     deref mp (\<lambda>p.
     kbind (kseq [
       exit_close p,
       begin_op,
       kbind (pget p cwd) (\<lambda>c. deref c iput),
       end_op,
       pset p (\<lambda>r. r\<lparr>cwd := None\<rparr>),
       acquire WaitLock,
       reparent p,
       kbind (pget p parent) (\<lambda>par. wakeup (map_option ChanProc par)),
       acquire (ProcLock p),
       pset p (\<lambda>r. r\<lparr>xstate := status\<rparr>),
       pset p (\<lambda>r. r\<lparr>pstate := ZOMBIE\<rparr>),
       acquire PriorityLock,
       kbind (free_process_priority p) (\<lambda>_. release PriorityLock),
       release WaitLock,
       sched]) (\<lambda>_.
     kpanic ''zombie exit''))))"

subsection \<open>exec.c\<close>

definition get64 :: "bytes \<Rightarrow> nat \<Rightarrow> u64" where
  "get64 bs i = ucast (get32 bs i) + push_bit 32 (ucast (get32 bs (i + 4)))"

text \<open>The fields of \<^verbatim>\<open>struct elfhdr\<close> and \<^verbatim>\<open>struct proghdr\<close> (\<^verbatim>\<open>kernel/elf.h\<close>) that are read.\<close>

definition ELF_MAGIC :: u32 where "ELF_MAGIC = 0x464C457F"
definition ELF_PROG_LOAD :: u32 where "ELF_PROG_LOAD = 1"
definition elf_magic :: "bytes \<Rightarrow> u32" where "elf_magic e = get32 e 0"
definition elf_entry :: "bytes \<Rightarrow> u64" where "elf_entry e = get64 e 24"
definition elf_phoff :: "bytes \<Rightarrow> u64" where "elf_phoff e = get64 e 32"
definition elf_phnum :: "bytes \<Rightarrow> u16" where "elf_phnum e = get16 e 56"
definition ph_type :: "bytes \<Rightarrow> u32" where "ph_type h = get32 h 0"
definition ph_flags :: "bytes \<Rightarrow> u32" where "ph_flags h = get32 h 4"
definition ph_off :: "bytes \<Rightarrow> u64" where "ph_off h = get64 h 8"
definition ph_vaddr :: "bytes \<Rightarrow> u64" where "ph_vaddr h = get64 h 16"
definition ph_filesz :: "bytes \<Rightarrow> u64" where "ph_filesz h = get64 h 32"
definition ph_memsz :: "bytes \<Rightarrow> u64" where "ph_memsz h = get64 h 40"

definition flags2perm :: "u32 \<Rightarrow> u64" where
  "flags2perm flags =
     (if flags AND 0x1 \<noteq> 0 then PTE_X else 0) OR (if flags AND 0x2 \<noteq> 0 then PTE_W else 0)"

text \<open>One page a round; a size within a page of \<^verbatim>\<open>2^32\<close> makes \<^verbatim>\<open>i\<close> wrap around and
  the loop endless.\<close>

primrec loadseg_loop :: "nat \<Rightarrow> u64 \<Rightarrow> u64 \<Rightarrow> nat \<Rightarrow> u32 \<Rightarrow> u32 \<Rightarrow> u32 \<Rightarrow> ('z fs_state_scheme, int) kmon" where
  "loadseg_loop 0 pt va ip offset sz i = kdiverge"
| "loadseg_loop (Suc k) pt va ip offset sz i =
     (if \<not> i < sz then kret 0 else
      kbind (walkaddr pt (va + ucast i)) (\<lambda>pa.
      if pa = 0 then kpanic ''loadseg: address should exist'' else
      (let n = (if sz - i < ucast PGSIZE then sz - i else ucast PGSIZE) in
      kbind (readi ip (KernDst pa) (offset + i) n) (\<lambda>(r, _).
      if of_int r \<noteq> n then kret (- 1)
      else loadseg_loop k pt va ip offset sz (i + ucast PGSIZE)))))"

definition loadseg :: "u64 \<Rightarrow> u64 \<Rightarrow> nat \<Rightarrow> u32 \<Rightarrow> u32 \<Rightarrow> ('z fs_state_scheme, int) kmon" where
  "loadseg pt va ip offset sz = loadseg_loop (unat sz div 4096 + 2) pt va ip offset sz 0"

text \<open>
  The loop over the program headers: whether it has gone through, and the size so far.
\<close>

primrec exec_load :: "nat \<Rightarrow> u64 \<Rightarrow> nat \<Rightarrow> u32 \<Rightarrow> u64 \<Rightarrow> ('z fs_state_scheme, bool \<times> u64) kmon" where
  "exec_load 0 pt ip off sz = kret (True, sz)"
| "exec_load (Suc k) pt ip off sz =
     kbind (readi ip LocalDst off 56) (\<lambda>(r, ph).
     if r \<noteq> 56 then kret (False, sz)
     else if ph_type ph \<noteq> ELF_PROG_LOAD then exec_load k pt ip (off + 56) sz
     else if ph_memsz ph < ph_filesz ph then kret (False, sz)
     else if ph_vaddr ph + ph_memsz ph < ph_vaddr ph then kret (False, sz)
     else if ph_vaddr ph mod PGSIZE \<noteq> 0 then kret (False, sz)
     else
       kbind (uvmalloc pt sz (ph_vaddr ph + ph_memsz ph) (flags2perm (ph_flags ph))) (\<lambda>sz1.
       if sz1 = 0 then kret (False, sz) else
       kbind (loadseg pt (ph_vaddr ph) ip (ucast (ph_off ph)) (ucast (ph_filesz ph))) (\<lambda>l.
       if l < 0 then kret (False, sz1)
       else exec_load k pt ip (off + 56) sz1)))"

text \<open>
  Pushing the argument strings.  \<open>argv\<close> is the rest of the vector from \<^verbatim>\<open>argc\<close> on; it
  has \<^const>\<open>MAXARG\<close> entries.  The result is \<^verbatim>\<open>sp\<close> and \<^verbatim>\<open>ustack\<close>, \<open>None\<close> for \<^verbatim>\<open>goto bad\<close>.
\<close>

primrec exec_args :: "u64 list \<Rightarrow> u64 \<Rightarrow> u64 \<Rightarrow> u64 \<Rightarrow> u64 list \<Rightarrow> ('z mem_state_scheme, (u64 \<times> u64 list) option) kmon" where
  "exec_args [] pt stackbase sp ustack = kundef"
| "exec_args (a # argv) pt stackbase sp ustack =
     (if a = 0 then kret (Some (sp, ustack))
      else if length ustack \<ge> MAXARG then kret None
      else
        kbind (mem_take a 4096) (\<lambda>bs.
        deref (strlen bs) (\<lambda>len.
        (let sp1 = sp - of_nat (len + 1); sp2 = sp1 - sp1 mod 16 in
        if sp2 < stackbase then kret None else
        kbind (copyout pt sp2 bs (of_nat (len + 1))) (\<lambda>r.
        if r < 0 then kret None else exec_args argv pt stackbase sp2 (ustack @ [sp2]))))))"

text \<open>What follows the last slash of the path.\<close>

definition path_last :: "bytes \<Rightarrow> bytes" where
  "path_last path = rev (takeWhile (\<lambda>c. c \<noteq> slash) (rev (takeWhile (\<lambda>c. c \<noteq> 0) path)))"

definition exec_bad :: "u64 \<Rightarrow> u64 \<Rightarrow> nat option \<Rightarrow> ('z fs_state_scheme, int) kmon" where
  "exec_bad pt sz oip =
     kbind (kseq [
       kwhen (pt \<noteq> 0) (proc_freepagetable pt sz),
       (case oip of None \<Rightarrow> kret () | Some ip \<Rightarrow> kseq [iunlockput ip, end_op])]) (\<lambda>_.
     kret (- 1))"

text \<open>From the stack allocation to the end, once the program is loaded.\<close>

definition exec_commit :: "bytes \<Rightarrow> u64 list \<Rightarrow> bytes \<Rightarrow> u64 \<Rightarrow> u64 \<Rightarrow> ('z fs_state_scheme, int) kmon" where
  "exec_commit path argv elf pt sz0 =
     kbind myproc (\<lambda>mp. deref mp (\<lambda>p.
     kbind (pget p psz) (\<lambda>oldsz.
     (let sz = PGROUNDUP sz0 in
     kbind (uvmalloc pt sz (sz + (USERSTACK + 1) * PGSIZE) PTE_W) (\<lambda>sz1.
     if sz1 = 0 then exec_bad pt sz None else
     kbind (uvmclear pt (sz1 - (USERSTACK + 1) * PGSIZE)) (\<lambda>_.
     (let stackbase = sz1 - USERSTACK * PGSIZE in
     kbind (exec_args argv pt stackbase sz1 []) (\<lambda>a.
     case a of None \<Rightarrow> exec_bad pt sz1 None | Some (sp0, us) \<Rightarrow>
     if length us \<ge> MAXARG then kundef else
     (let ustack = us @ [0];
          sp1 = sp0 - of_nat (8 * length ustack);
          sp = sp1 - sp1 mod 16 in
     if sp < stackbase then exec_bad pt sz1 None else
     kbind (copyout pt sp (concat (map le64 ustack)) (of_nat (8 * length ustack))) (\<lambda>r.
     if r < 0 then exec_bad pt sz1 None else
     kbind (kseq [
       tf_set p TF_a1 sp,
       set_name p (path_last path @ [0])]) (\<lambda>_.
     kbind (pget p pagetable) (\<lambda>oldpt.
     kbind (kseq [
       pset p (\<lambda>r. r\<lparr>pagetable := pt\<rparr>),
       pset p (\<lambda>r. r\<lparr>psz := sz1\<rparr>),
       tf_set p TF_epc (elf_entry elf),
       tf_set p TF_sp sp,
       proc_freepagetable oldpt oldsz]) (\<lambda>_.
     kret (int (length us)))))))))))))))"

definition exec :: "bytes \<Rightarrow> u64 list \<Rightarrow> ('z fs_state_scheme, int) kmon" where
  "exec path argv =
     kbind myproc (\<lambda>mp.
     kbind begin_op (\<lambda>_.
     kbind (namei path) (\<lambda>oip.
     case oip of None \<Rightarrow> kbind end_op (\<lambda>_. kret (- 1)) | Some ip \<Rightarrow>
     kbind (ilock (Some ip)) (\<lambda>_.
     kbind (readi ip LocalDst 0 64) (\<lambda>(r, elf).
     if r \<noteq> 64 then exec_bad 0 0 (Some ip)
     else if elf_magic elf \<noteq> ELF_MAGIC then exec_bad 0 0 (Some ip)
     else deref mp (\<lambda>p.
     kbind (proc_pagetable p) (\<lambda>pt.
     if pt = 0 then exec_bad 0 0 (Some ip) else
     kbind (exec_load (unat (elf_phnum elf)) pt ip (ucast (elf_phoff elf)) 0) (\<lambda>(ok, sz).
     if \<not> ok then exec_bad pt sz (Some ip) else
     kbind (kseq [iunlockput ip, end_op]) (\<lambda>_.
     exec_commit path argv elf pt sz)))))))))"

end
