(* ===== verification/Syscall.thy ===== *)
theory Syscall
  imports Process
begin

text \<open>
  \<^verbatim>\<open>kernel/syscall.c\<close>, \<^verbatim>\<open>kernel/sysproc.c\<close> and \<^verbatim>\<open>kernel/sysfile.c\<close>: fetching the
  arguments of system calls, the calls themselves and their dispatch.
\<close>

record trap_state = file_state +
  ticks :: u32
  stvec :: u64
  sepc :: u64
  scause :: u64
  stval :: u64
  stimecmp :: u64
  rtime :: "nat \<Rightarrow> u64"            \<comment> \<open>what the \<open>k\<close>-th read of \<^verbatim>\<open>time\<close> gives\<close>
  time_reads :: nat
  kernelvec_addr :: u64
  usertrap_addr :: u64
  uservec_off :: u64              \<comment> \<open>\<^verbatim>\<open>uservec - trampoline\<close>\<close>
  userret_off :: u64
  plic_in :: "u64 \<Rightarrow> nat \<Rightarrow> u32"  \<comment> \<open>what the \<open>k\<close>-th access finds in a register\<close>
  plic_clock :: nat
  plic_writes :: "(u64 \<times> u32) list"
  forkret_first :: bool
  started :: bool

subsection \<open>syscall.c: arguments\<close>

definition fetchaddr :: "u64 \<Rightarrow> ('z proc_state_scheme, int \<times> bytes) kmon" where
  "fetchaddr addr =
     kbind myproc (\<lambda>mp. deref mp (\<lambda>p.
     kbind (kget (\<lambda>s. procs s p)) (\<lambda>r.
     if addr \<ge> psz r \<or> addr + 8 > psz r then kret (- 1, []) else
     kbind (copyin (pagetable r) addr 8) (\<lambda>(c, bs).
     kret (if c \<noteq> 0 then - 1 else 0, bs)))))"

text \<open>The result and what is in the buffer.\<close>

definition fetchstr :: "u64 \<Rightarrow> u64 \<Rightarrow> ('z proc_state_scheme, int \<times> bytes) kmon" where
  "fetchstr addr mx =
     kbind myproc (\<lambda>mp. deref mp (\<lambda>p.
     kbind (pget p pagetable) (\<lambda>pt.
     kbind (copyinstr pt addr mx) (\<lambda>(c, bs).
     if c < 0 then kret (- 1, bs)
     else deref (strlen bs) (\<lambda>n. kret (int n, bs))))))"

definition argraw :: "nat \<Rightarrow> ('z proc_state_scheme, u64) kmon" where
  "argraw n =
     kbind myproc (\<lambda>mp.
     if n < 6 then deref mp (\<lambda>p. tf_get p (TF_a0 + 8 * of_nat n)) else kpanic ''argraw'')"

definition argint :: "nat \<Rightarrow> ('z proc_state_scheme, u32) kmon" where
  "argint n = kbind (argraw n) (\<lambda>w. kret (ucast w))"

definition argaddr :: "nat \<Rightarrow> ('z proc_state_scheme, u64) kmon" where
  "argaddr n = argraw n"

definition argstr :: "nat \<Rightarrow> u64 \<Rightarrow> ('z proc_state_scheme, int \<times> bytes) kmon" where
  "argstr n mx = kbind (argaddr n) (\<lambda>addr. fetchstr addr mx)"

abbreviation minus_one :: u64 where
  "minus_one \<equiv> - 1"

subsection \<open>sysproc.c\<close>

definition sys_exit :: "('z file_state_scheme, u64) kmon" where
  "sys_exit = kbind (argint 0) (\<lambda>n. exit n)"

definition sys_getpid :: "('z proc_state_scheme, u64) kmon" where
  "sys_getpid = kbind myproc (\<lambda>mp. deref mp (\<lambda>p. kbind (pget p pid) (\<lambda>i. kret (of_int i))))"

definition sys_fork :: "('z file_state_scheme, u64) kmon" where
  "sys_fork = kbind fork (\<lambda>r. kret (of_int r))"

definition sys_wait :: "('z proc_state_scheme, u64) kmon" where
  "sys_wait = kbind (argaddr 0) (\<lambda>p. kbind (wait p) (\<lambda>r. kret (of_int r)))"

definition sys_sbrk :: "('z proc_state_scheme, u64) kmon" where
  "sys_sbrk =
     kbind (argint 0) (\<lambda>n.
     kbind myproc (\<lambda>mp. deref mp (\<lambda>p.
     kbind (pget p psz) (\<lambda>addr.
     kbind (growproc n) (\<lambda>r.
     kret (if r < 0 then minus_one else addr))))))"

text \<open>The comparison \<^verbatim>\<open>ticks - ticks0 < n\<close> is one of 32-bit unsigned numbers.\<close>

definition sys_sleep :: "('z trap_state_scheme, u64) kmon" where
  "sys_sleep =
     kbind (argint 0) (\<lambda>n0.
     (let n = (if sint n0 < 0 then 0 else n0) in
     kbind (acquire TicksLock) (\<lambda>_.
     kbind (kget ticks) (\<lambda>ticks0.
     kwaitloop (
       kbind (kget ticks) (\<lambda>t.
       if \<not> t - ticks0 < n then kbind (release TicksLock) (\<lambda>_. kret (Some 0)) else
       kbind myproc (\<lambda>mp. deref mp (\<lambda>p.
       kbind (killed p) (\<lambda>k.
       if k then kbind (release TicksLock) (\<lambda>_. kret (Some minus_one))
       else kbind (sleep (Some ChanTicks) TicksLock) (\<lambda>_. kret None))))))))))"

definition sys_kill :: "('z proc_state_scheme, u64) kmon" where
  "sys_kill = kbind (argint 0) (\<lambda>i. kbind (kill (sint i)) (\<lambda>r. kret (of_int r)))"

definition sys_uptime :: "('z trap_state_scheme, u64) kmon" where
  "sys_uptime =
     kbind (acquire TicksLock) (\<lambda>_.
     kbind (kget ticks) (\<lambda>x.
     kbind (release TicksLock) (\<lambda>_.
     kret (ucast x))))"

subsection \<open>sysfile.c: descriptors\<close>

definition O_RDONLY :: u32 where [simp]: "O_RDONLY = 0x000"
definition O_WRONLY :: u32 where [simp]: "O_WRONLY = 0x001"
definition O_RDWR :: u32 where [simp]: "O_RDWR = 0x002"
definition O_CREATE :: u32 where [simp]: "O_CREATE = 0x200"
definition O_TRUNC :: u32 where [simp]: "O_TRUNC = 0x400"

definition argfd :: "nat \<Rightarrow> ('z proc_state_scheme, (nat \<times> nat) option) kmon" where
  "argfd n =
     kbind (argint n) (\<lambda>fd.
     if sint fd < 0 \<or> sint fd \<ge> int NOFILE then kret None else
     kbind myproc (\<lambda>mp. deref mp (\<lambda>p.
     kbind (pget p (\<lambda>r. ofile r (unat fd))) (\<lambda>f.
     kret (map_option (Pair (unat fd)) f)))))"

definition fdalloc :: "nat \<Rightarrow> ('z proc_state_scheme, nat option) kmon" where
  "fdalloc f =
     kbind myproc (\<lambda>mp. deref mp (\<lambda>p.
     kfind [0..<NOFILE] (\<lambda>fd.
       kbind (pget p (\<lambda>r. ofile r fd)) (\<lambda>g.
       if g = None then
         kbind (pset p (\<lambda>r. r\<lparr>ofile := (ofile r)(fd := Some f)\<rparr>)) (\<lambda>_. kret (Some fd))
       else kret None))))"

definition sys_dup :: "('z file_state_scheme, u64) kmon" where
  "sys_dup =
     kbind (argfd 0) (\<lambda>a.
     case a of None \<Rightarrow> kret minus_one | Some (_, f) \<Rightarrow>
     kbind (fdalloc f) (\<lambda>r.
     case r of None \<Rightarrow> kret minus_one | Some fd \<Rightarrow>
     kbind (filedup f) (\<lambda>_. kret (of_nat fd))))"

definition sys_read :: "('z file_state_scheme, u64) kmon" where
  "sys_read =
     kbind (argaddr 1) (\<lambda>p.
     kbind (argint 2) (\<lambda>n.
     kbind (argfd 0) (\<lambda>a.
     case a of None \<Rightarrow> kret minus_one | Some (_, f) \<Rightarrow>
     kbind (fileread f p (sint n)) (\<lambda>r. kret (of_int r)))))"

definition sys_write :: "('z file_state_scheme, u64) kmon" where
  "sys_write =
     kbind (argaddr 1) (\<lambda>p.
     kbind (argint 2) (\<lambda>n.
     kbind (argfd 0) (\<lambda>a.
     case a of None \<Rightarrow> kret minus_one | Some (_, f) \<Rightarrow>
     kbind (filewrite f p (sint n)) (\<lambda>r. kret (of_int r)))))"

definition sys_close :: "('z file_state_scheme, u64) kmon" where
  "sys_close =
     kbind (argfd 0) (\<lambda>a.
     case a of None \<Rightarrow> kret minus_one | Some (fd, f) \<Rightarrow>
     kbind myproc (\<lambda>mp. deref mp (\<lambda>p.
     kbind (pset p (\<lambda>r. r\<lparr>ofile := (ofile r)(fd := None)\<rparr>)) (\<lambda>_.
     kbind (fileclose f) (\<lambda>_.
     kret 0)))))"

definition sys_fstat :: "('z file_state_scheme, u64) kmon" where
  "sys_fstat =
     kbind (argaddr 1) (\<lambda>st.
     kbind (argfd 0) (\<lambda>a.
     case a of None \<Rightarrow> kret minus_one | Some (_, f) \<Rightarrow>
     kbind (filestat f st) (\<lambda>r. kret (of_int r))))"

subsection \<open>sysfile.c: names\<close>

abbreviation name_buf :: bytes where
  "name_buf \<equiv> replicate DIRSIZ 0"

definition max_path :: u64 where [simp]: "max_path = of_nat MAXPATH"

text \<open>\<^verbatim>\<open>bad:\<close> of \<^verbatim>\<open>sys_link\<close>\<close>

definition link_bad :: "nat \<Rightarrow> ('z fs_state_scheme, u64) kmon" where
  "link_bad ip =
     kbind (kseq [
       ilock (Some ip),
       iset ip (\<lambda>n. n\<lparr>inlink := inlink n - 1\<rparr>),
       iupdate ip,
       iunlockput ip,
       end_op]) (\<lambda>_. kret minus_one)"

definition sys_link :: "('z fs_state_scheme, u64) kmon" where
  "sys_link =
     kbind (argstr 0 max_path) (\<lambda>(a, old).
     if a < 0 then kret minus_one else
     kbind (argstr 1 max_path) (\<lambda>(b, new).
     if b < 0 then kret minus_one else
     kbind begin_op (\<lambda>_.
     kbind (namei old) (\<lambda>oip.
     case oip of None \<Rightarrow> kbind end_op (\<lambda>_. kret minus_one) | Some ip \<Rightarrow>
     kbind (ilock (Some ip)) (\<lambda>_.
     kbind (iget_field ip itype) (\<lambda>ty.
     if ty = T_DIR then kbind (kseq [iunlockput ip, end_op]) (\<lambda>_. kret minus_one) else
     kbind (kseq [
       iset ip (\<lambda>n. n\<lparr>inlink := inlink n + 1\<rparr>),
       iupdate ip,
       iunlock (Some ip)]) (\<lambda>_.
     kbind (nameiparent new name_buf) (\<lambda>odp.
     case odp of None \<Rightarrow> link_bad ip | Some (dp, name) \<Rightarrow>
     kbind (ilock (Some dp)) (\<lambda>_.
     kbind (kget (\<lambda>s. (idev (inodes s dp), inodes s ip))) (\<lambda>(ddev, n).
     kbind (if ddev \<noteq> idev n then kret (- 1) else dirlink dp name (inum n)) (\<lambda>l.
     if l < 0 then kbind (iunlockput dp) (\<lambda>_. link_bad ip) else
     kbind (kseq [iunlockput dp, iput ip, end_op]) (\<lambda>_.
     kret 0))))))))))))"

text \<open>The loop of \<^verbatim>\<open>isdirempty\<close>, one entry a round.\<close>

primrec isdirempty_loop :: "nat \<Rightarrow> nat \<Rightarrow> u32 \<Rightarrow> ('z fs_state_scheme, bool) kmon" where
  "isdirempty_loop 0 dp off = kdiverge"
| "isdirempty_loop (Suc k) dp off =
     kbind (iget_field dp isize) (\<lambda>sz.
     if \<not> off < sz then kret True else
     kbind (readi dp LocalDst off 16) (\<lambda>(r, de).
     if r \<noteq> 16 then kpanic ''isdirempty: readi''
     else if de_inum de \<noteq> 0 then kret False
     else isdirempty_loop k dp (off + 16)))"

definition isdirempty :: "nat \<Rightarrow> ('z fs_state_scheme, bool) kmon" where
  "isdirempty dp = kbind (iget_field dp isize) (\<lambda>sz. isdirempty_loop (unat sz div 16 + 2) dp 32)"

definition unlink_bad :: "nat \<Rightarrow> ('z fs_state_scheme, u64) kmon" where
  "unlink_bad dp = kbind (kseq [iunlockput dp, end_op]) (\<lambda>_. kret minus_one)"

definition is_dot_name :: "bytes \<Rightarrow> bool option" where
  "is_dot_name name =
     Option.bind (namecmp name [0x2E, 0]) (\<lambda>a.
     if a = 0 then Some True else map_option (\<lambda>b. b = 0) (namecmp name [0x2E, 0x2E, 0]))"

definition sys_unlink :: "('z fs_state_scheme, u64) kmon" where
  "sys_unlink =
     kbind (argstr 0 max_path) (\<lambda>(a, path).
     if a < 0 then kret minus_one else
     kbind begin_op (\<lambda>_.
     kbind (nameiparent path name_buf) (\<lambda>odp.
     case odp of None \<Rightarrow> kbind end_op (\<lambda>_. kret minus_one) | Some (dp, name) \<Rightarrow>
     kbind (ilock (Some dp)) (\<lambda>_.
     deref (is_dot_name name) (\<lambda>dot.
     if dot then unlink_bad dp else
     kbind (dirlookup dp name) (\<lambda>f.
     case f of None \<Rightarrow> unlink_bad dp | Some (ip, off) \<Rightarrow>
     kbind (ilock (Some ip)) (\<lambda>_.
     kbind (kget (\<lambda>s. inodes s ip)) (\<lambda>n.
     if sint (inlink n) < 1 then kpanic ''unlink: nlink < 1'' else
     kbind (if itype n = T_DIR then isdirempty ip else kret True) (\<lambda>ok.
     if \<not> ok then kbind (iunlockput ip) (\<lambda>_. unlink_bad dp) else
     kbind (writei dp (LocalSrc (replicate 16 0)) off 16) (\<lambda>w.
     if w \<noteq> 16 then kpanic ''unlink: writei'' else
     kbind (kseq [
       kbind (iget_field ip itype) (\<lambda>ty. kwhen (ty = T_DIR) (kseq [
         iset dp (\<lambda>d. d\<lparr>inlink := inlink d - 1\<rparr>),
         iupdate dp])),
       iunlockput dp,
       iset ip (\<lambda>d. d\<lparr>inlink := inlink d - 1\<rparr>),
       iupdate ip,
       iunlockput ip,
       end_op]) (\<lambda>_.
     kret 0)))))))))))"

text \<open>Linking the new inode \<open>ip\<close> in \<^verbatim>\<open>create\<close>; \<open>False\<close> is \<^verbatim>\<open>goto fail\<close>.\<close>

definition create_link :: "nat \<Rightarrow> nat \<Rightarrow> bytes \<Rightarrow> u16 \<Rightarrow> ('z fs_state_scheme, bool) kmon" where
  "create_link dp ip name type =
     kbind (kget (\<lambda>s. (inum (inodes s ip), inum (inodes s dp)))) (\<lambda>(i, d).
     kbind (if type \<noteq> T_DIR then kret 0 else dirlink ip [0x2E, 0] i) (\<lambda>a.
     if a < 0 then kret False else
     kbind (if type \<noteq> T_DIR then kret 0 else dirlink ip [0x2E, 0x2E, 0] d) (\<lambda>b.
     if b < 0 then kret False else
     kbind (dirlink dp name i) (\<lambda>c.
     kret (\<not> c < 0)))))"

definition create :: "bytes \<Rightarrow> u16 \<Rightarrow> u16 \<Rightarrow> u16 \<Rightarrow> ('z fs_state_scheme, nat option) kmon" where
  "create path type major minor =
     kbind (nameiparent path name_buf) (\<lambda>odp.
     case odp of None \<Rightarrow> kret None | Some (dp, name) \<Rightarrow>
     kbind (ilock (Some dp)) (\<lambda>_.
     kbind (dirlookup dp name) (\<lambda>f.
     case f of
       Some (ip, _) \<Rightarrow>
         kbind (iunlockput dp) (\<lambda>_.
         kbind (ilock (Some ip)) (\<lambda>_.
         kbind (iget_field ip itype) (\<lambda>ty.
         if type = T_FILE \<and> (ty = T_FILE \<or> ty = T_DEVICE) then kret (Some ip)
         else kbind (iunlockput ip) (\<lambda>_. kret None))))
     | None \<Rightarrow>
         kbind (iget_field dp idev) (\<lambda>dev.
         kbind (ialloc dev type) (\<lambda>oip.
         case oip of None \<Rightarrow> kbind (iunlockput dp) (\<lambda>_. kret None) | Some ip \<Rightarrow>
         kbind (kseq [
           ilock (Some ip),
           iset ip (\<lambda>n. n\<lparr>imajor := major\<rparr>),
           iset ip (\<lambda>n. n\<lparr>iminor := minor\<rparr>),
           iset ip (\<lambda>n. n\<lparr>inlink := 1\<rparr>),
           iupdate ip]) (\<lambda>_.
         kbind (create_link dp ip name type) (\<lambda>ok.
         if ok then
           kbind (kseq [
             kwhen (type = T_DIR) (kseq [
               iset dp (\<lambda>n. n\<lparr>inlink := inlink n + 1\<rparr>),
               iupdate dp]),
             iunlockput dp]) (\<lambda>_. kret (Some ip))
         else
           kbind (kseq [
             iset ip (\<lambda>n. n\<lparr>inlink := 0\<rparr>),
             iupdate ip,
             iunlockput ip,
             iunlockput dp]) (\<lambda>_. kret None))))))))"

definition open_fail :: "nat \<Rightarrow> ('z fs_state_scheme, u64) kmon" where
  "open_fail ip = kbind (kseq [iunlockput ip, end_op]) (\<lambda>_. kret minus_one)"

text \<open>From the device check of \<^verbatim>\<open>sys_open\<close> to its end, with \<open>ip\<close> locked.\<close>

definition open_inode :: "nat \<Rightarrow> u32 \<Rightarrow> ('z file_state_scheme, u64) kmon" where
  "open_inode ip omode =
     kbind (kget (\<lambda>s. inodes s ip)) (\<lambda>n.
     if itype n = T_DEVICE \<and> (sint (imajor n) < 0 \<or> sint (imajor n) \<ge> int NDEV) then open_fail ip else
     kbind filealloc (\<lambda>r.
     case r of None \<Rightarrow> open_fail ip | Some f \<Rightarrow>
     kbind (fdalloc f) (\<lambda>q.
     case q of None \<Rightarrow> kbind (fileclose f) (\<lambda>_. open_fail ip) | Some fd \<Rightarrow>
     kbind (kseq [
       (if itype n = T_DEVICE
        then fset f (\<lambda>x. x\<lparr>ftype := FD_DEVICE, fmajor := imajor n\<rparr>)
        else fset f (\<lambda>x. x\<lparr>ftype := FD_INODE, foff := 0\<rparr>)),
       fset f (\<lambda>x. x\<lparr>fip := Some ip\<rparr>),
       fset f (\<lambda>x. x\<lparr>readable := (omode AND O_WRONLY = 0)\<rparr>),
       fset f (\<lambda>x. x\<lparr>writable := (omode AND O_WRONLY \<noteq> 0 \<or> omode AND O_RDWR \<noteq> 0)\<rparr>),
       kwhen (omode AND O_TRUNC \<noteq> 0 \<and> itype n = T_FILE) (itrunc ip),
       iunlock (Some ip),
       end_op]) (\<lambda>_.
     kret (of_nat fd)))))"

definition sys_open :: "('z file_state_scheme, u64) kmon" where
  "sys_open =
     kbind (argint 1) (\<lambda>omode.
     kbind (argstr 0 max_path) (\<lambda>(n, path).
     if n < 0 then kret minus_one else
     kbind begin_op (\<lambda>_.
     if omode AND O_CREATE \<noteq> 0 then
       kbind (create path T_FILE 0 0) (\<lambda>oip.
       case oip of None \<Rightarrow> kbind end_op (\<lambda>_. kret minus_one) | Some ip \<Rightarrow> open_inode ip omode)
     else
       kbind (namei path) (\<lambda>oip.
       case oip of None \<Rightarrow> kbind end_op (\<lambda>_. kret minus_one) | Some ip \<Rightarrow>
       kbind (ilock (Some ip)) (\<lambda>_.
       kbind (iget_field ip itype) (\<lambda>ty.
       if ty = T_DIR \<and> omode \<noteq> O_RDONLY then open_fail ip else open_inode ip omode))))))"

definition sys_mkdir :: "('z fs_state_scheme, u64) kmon" where
  "sys_mkdir =
     kbind begin_op (\<lambda>_.
     kbind (argstr 0 max_path) (\<lambda>(a, path).
     kbind (if a < 0 then kret None else create path T_DIR 0 0) (\<lambda>oip.
     case oip of None \<Rightarrow> kbind end_op (\<lambda>_. kret minus_one) | Some ip \<Rightarrow>
     kbind (kseq [iunlockput ip, end_op]) (\<lambda>_. kret 0))))"

definition sys_mknod :: "('z fs_state_scheme, u64) kmon" where
  "sys_mknod =
     kbind begin_op (\<lambda>_.
     kbind (argint 1) (\<lambda>major.
     kbind (argint 2) (\<lambda>minor.
     kbind (argstr 0 max_path) (\<lambda>(a, path).
     kbind (if a < 0 then kret None else create path T_DEVICE (ucast major) (ucast minor)) (\<lambda>oip.
     case oip of None \<Rightarrow> kbind end_op (\<lambda>_. kret minus_one) | Some ip \<Rightarrow>
     kbind (kseq [iunlockput ip, end_op]) (\<lambda>_. kret 0))))))"

definition sys_chdir :: "('z fs_state_scheme, u64) kmon" where
  "sys_chdir =
     kbind myproc (\<lambda>mp.
     kbind begin_op (\<lambda>_.
     kbind (argstr 0 max_path) (\<lambda>(a, path).
     kbind (if a < 0 then kret None else namei path) (\<lambda>oip.
     case oip of None \<Rightarrow> kbind end_op (\<lambda>_. kret minus_one) | Some ip \<Rightarrow>
     kbind (ilock (Some ip)) (\<lambda>_.
     kbind (iget_field ip itype) (\<lambda>ty.
     if ty \<noteq> T_DIR then kbind (kseq [iunlockput ip, end_op]) (\<lambda>_. kret minus_one) else
     kbind (iunlock (Some ip)) (\<lambda>_.
     deref mp (\<lambda>p.
     kbind (pget p cwd) (\<lambda>c.
     kbind (kseq [
       deref c iput,
       end_op,
       pset p (\<lambda>r. r\<lparr>cwd := Some ip\<rparr>)]) (\<lambda>_.
     kret 0))))))))))"

text \<open>
  The loop of \<^verbatim>\<open>sys_exec\<close> that fetches the arguments: the pages so far, and whether
  the terminating null pointer has been met.
\<close>

primrec fetch_args :: "nat \<Rightarrow> u64 \<Rightarrow> u64 list \<Rightarrow> ('z proc_state_scheme, bool \<times> u64 list) kmon" where
  "fetch_args 0 uargv pages = kret (False, pages)"
| "fetch_args (Suc k) uargv pages =
     kbind (fetchaddr (uargv + of_nat (8 * length pages))) (\<lambda>(r, bs).
     if r < 0 then kret (False, pages)
     else if get64 bs 0 = 0 then kret (True, pages)
     else
       kbind kalloc (\<lambda>pg.
       if pg = 0 then kret (False, pages) else
       kbind (fetchstr (get64 bs 0) PGSIZE) (\<lambda>(c, str).
       kbind (mem_put pg str) (\<lambda>_.
       if c < 0 then kret (False, pages @ [pg])
       else fetch_args k uargv (pages @ [pg])))))"

definition sys_exec :: "('z fs_state_scheme, u64) kmon" where
  "sys_exec =
     kbind (argaddr 1) (\<lambda>uargv.
     kbind (argstr 0 max_path) (\<lambda>(a, path).
     if a < 0 then kret minus_one else
     kbind (fetch_args MAXARG uargv []) (\<lambda>(ok, pages).
     kbind (if ok then exec path (pages @ replicate (MAXARG - length pages) 0) else kret (- 1)) (\<lambda>ret.
     kbind (kfor pages kfree) (\<lambda>_.
     kret (of_int ret))))))"

definition sys_pipe :: "('z file_state_scheme, u64) kmon" where
  "sys_pipe =
     kbind myproc (\<lambda>mp.
     kbind (argaddr 0) (\<lambda>fdarray.
     kbind pipealloc (\<lambda>r.
     case r of None \<Rightarrow> kret minus_one | Some (rfd, wfd) \<Rightarrow>
     deref mp (\<lambda>p.
     kbind (fdalloc rfd) (\<lambda>a.
     case a of None \<Rightarrow> kbind (kseq [fileclose rfd, fileclose wfd]) (\<lambda>_. kret minus_one) | Some fd0 \<Rightarrow>
     kbind (fdalloc wfd) (\<lambda>b.
     case b of
       None \<Rightarrow>
         kbind (kseq [
           pset p (\<lambda>r. r\<lparr>ofile := (ofile r)(fd0 := None)\<rparr>),
           fileclose rfd,
           fileclose wfd]) (\<lambda>_. kret minus_one)
     | Some fd1 \<Rightarrow>
         kbind (pget p pagetable) (\<lambda>pt.
         kbind (copyout pt fdarray (le32 (of_nat fd0)) 4) (\<lambda>c0.
         kbind (if c0 < 0 then kret c0 else copyout pt (fdarray + 4) (le32 (of_nat fd1)) 4) (\<lambda>c1.
         if c1 < 0 then
           kbind (kseq [
             pset p (\<lambda>r. r\<lparr>ofile := (ofile r)(fd0 := None)\<rparr>),
             pset p (\<lambda>r. r\<lparr>ofile := (ofile r)(fd1 := None)\<rparr>),
             fileclose rfd,
             fileclose wfd]) (\<lambda>_. kret minus_one)
         else kret 0)))))))))"

subsection \<open>syscall.c: dispatch\<close>

definition syscalls :: "nat \<Rightarrow> ('z trap_state_scheme, u64) kmon option" where
  "syscalls n = (if n < 22 then
     [None, Some sys_fork, Some sys_exit, Some sys_wait, Some sys_pipe, Some sys_read, Some sys_kill,
      Some sys_exec, Some sys_fstat, Some sys_chdir, Some sys_dup, Some sys_getpid, Some sys_sbrk,
      Some sys_sleep, Some sys_uptime, Some sys_open, Some sys_write, Some sys_mknod, Some sys_unlink,
      Some sys_link, Some sys_mkdir, Some sys_close] ! n else None)"

definition syscall :: "('z trap_state_scheme, unit) kmon" where
  "syscall =
     kbind myproc (\<lambda>mp. deref mp (\<lambda>p.
     kbind (tf_get p TF_a7) (\<lambda>w.
     (let num = (ucast w :: u32) in
     case (if sint num > 0 then syscalls (unat num) else None) of
       Some f \<Rightarrow> kbind f (\<lambda>r. tf_set p TF_a0 r)
     | None \<Rightarrow>
         kbind (kget (\<lambda>s. procs s p)) (\<lambda>q.
         kbind (printf (''%d %s: unknown sys call %d'' @ [CHR 0x0A])
                  [AWord (of_int (pid q)), AStr (Some (pname q)), AWord (ucast num)]) (\<lambda>_.
         tf_set p TF_a0 minus_one))))))"

end
