(* ===== verification/Trap.thy ===== *)
theory Trap
  imports Syscall
begin

text \<open>
  \<^verbatim>\<open>kernel/plic.c\<close>, \<^verbatim>\<open>kernel/trap.c\<close>, \<^verbatim>\<open>forkret\<close>, \<^verbatim>\<open>kernel/main.c\<close> and \<^verbatim>\<open>kernel/start.c\<close>:
  interrupts, the way to user space, and booting.  The jump to \<^verbatim>\<open>userret\<close> ends the
  model of the kernel: \<open>usertrapret\<close> gives the \<^verbatim>\<open>satp\<close> it is called with.
\<close>

subsection \<open>plic.c\<close>

definition plic_write :: "u64 \<Rightarrow> u32 \<Rightarrow> ('z trap_state_scheme, unit) kmon" where
  "plic_write a v = kmodify (\<lambda>s. s\<lparr>plic_clock := Suc (plic_clock s), plic_writes := plic_writes s @ [(a, v)]\<rparr>)"

definition plic_read :: "u64 \<Rightarrow> ('z trap_state_scheme, u32) kmon" where
  "plic_read a =
     kbind (kget (\<lambda>s. plic_in s a (plic_clock s))) (\<lambda>v.
     kbind (kmodify (\<lambda>s. s\<lparr>plic_clock := Suc (plic_clock s)\<rparr>)) (\<lambda>_.
     kret v))"

definition plicinit :: "('z trap_state_scheme, unit) kmon" where
  "plicinit = kseq [
     plic_write (PLIC + ucast UART0_IRQ * 4) 1,
     plic_write (PLIC + ucast VIRTIO0_IRQ * 4) 1]"

definition plicinithart :: "('z trap_state_scheme, unit) kmon" where
  "plicinithart =
     kbind cpuid (\<lambda>hart. kseq [
       plic_write (PLIC_SENABLE (of_nat hart)) (push_bit (unat UART0_IRQ) 1 OR push_bit (unat VIRTIO0_IRQ) 1),
       plic_write (PLIC_SPRIORITY (of_nat hart)) 0])"

definition plic_claim :: "('z trap_state_scheme, u32) kmon" where
  "plic_claim = kbind cpuid (\<lambda>hart. plic_read (PLIC_SCLAIM (of_nat hart)))"

definition plic_complete :: "u32 \<Rightarrow> ('z trap_state_scheme, unit) kmon" where
  "plic_complete irq = kbind cpuid (\<lambda>hart. plic_write (PLIC_SCLAIM (of_nat hart)) irq)"

subsection \<open>trap.c\<close>

definition trapinit :: "('z lock_state_scheme, unit) kmon" where
  "trapinit = initlock TicksLock ''time''"

definition trapinithart :: "('z trap_state_scheme, unit) kmon" where
  "trapinithart = kmodify (\<lambda>s. s\<lparr>stvec := kernelvec_addr s\<rparr>)"

definition r_time :: "('z trap_state_scheme, u64) kmon" where
  "r_time =
     kbind (kget (\<lambda>s. rtime s (time_reads s))) (\<lambda>t.
     kbind (kmodify (\<lambda>s. s\<lparr>time_reads := Suc (time_reads s)\<rparr>)) (\<lambda>_.
     kret t))"

definition clockintr :: "('z trap_state_scheme, unit) kmon" where
  "clockintr =
     kbind cpuid (\<lambda>c.
     kbind (kwhen (c = 0) (kseq [
       acquire TicksLock,
       kmodify (\<lambda>s. s\<lparr>ticks := ticks s + 1\<rparr>),
       wakeup (Some ChanTicks),
       release TicksLock])) (\<lambda>_.
     kbind r_time (\<lambda>t.
     kmodify (\<lambda>s. s\<lparr>stimecmp := t + 1000000\<rparr>))))"

text \<open>\<open>n\<close> bounds the characters that the UART has ready (see \<^const>\<open>uartintr\<close>).\<close>

definition devintr :: "nat \<Rightarrow> ('z trap_state_scheme, int) kmon" where
  "devintr n =
     kbind (kget scause) (\<lambda>cause.
     if cause = 0x8000000000000009 then
       kbind plic_claim (\<lambda>irq.
       kbind (if irq = UART0_IRQ then uartintr n
              else if irq = VIRTIO0_IRQ then virtio_disk_intr
              else kwhen (irq \<noteq> 0)
                (kbind (printf (''unexpected interrupt irq=%d'' @ [CHR 0x0A]) [AWord (ucast irq)]) (\<lambda>_. kret ()))) (\<lambda>_.
       kbind (kwhen (irq \<noteq> 0) (plic_complete irq)) (\<lambda>_.
       kret 1)))
     else if cause = 0x8000000000000005 then kbind clockintr (\<lambda>_. kret 2)
     else kret 0)"

definition usertrapret :: "('z trap_state_scheme, u64) kmon" where
  "usertrapret =
     kbind myproc (\<lambda>mp.
     kbind intr_off (\<lambda>_.
     kbind (kmodify (\<lambda>s. s\<lparr>stvec := TRAMPOLINE + uservec_off s\<rparr>)) (\<lambda>_.
     deref mp (\<lambda>p.
     kbind (kget id) (\<lambda>s.
     kbind (kseq [
       tf_set p TF_kernel_satp (satp s),
       tf_set p TF_kernel_sp (kstack (procs s p) + PGSIZE),
       tf_set p TF_kernel_trap (usertrap_addr s),
       tf_set p TF_kernel_hartid (of_nat (tp s)),
       kbind r_sstatus (\<lambda>x. w_sstatus ((x AND NOT SSTATUS_SPP) OR SSTATUS_SPIE)),
       kbind (tf_get p TF_epc) (\<lambda>pc. kmodify (\<lambda>s. s\<lparr>sepc := pc\<rparr>))]) (\<lambda>_.
     kbind (pget p pagetable) (\<lambda>pt.
     kret (MAKE_SATP pt))))))))"

definition usertrap :: "nat \<Rightarrow> ('z trap_state_scheme, u64) kmon" where
  "usertrap n =
     kbind r_sstatus (\<lambda>st.
     if st AND SSTATUS_SPP \<noteq> 0 then kpanic ''usertrap: not from user mode'' else
     kbind (kmodify (\<lambda>s. s\<lparr>stvec := kernelvec_addr s\<rparr>)) (\<lambda>_.
     kbind myproc (\<lambda>mp. deref mp (\<lambda>p.
     kbind (kget sepc) (\<lambda>pc.
     kbind (tf_set p TF_epc pc) (\<lambda>_.
     kbind (kget scause) (\<lambda>cause.
     kbind
       (if cause = 8 then
          kbind (killed p) (\<lambda>k.
          kbind (if k then exit (- 1) else kret ()) (\<lambda>_.
          kbind (tf_get p TF_epc) (\<lambda>e.
          kbind (tf_set p TF_epc (e + 4)) (\<lambda>_.
          kbind intr_on (\<lambda>_.
          kbind syscall (\<lambda>_.
          kret 0))))))
        else
          kbind (devintr n) (\<lambda>d.
          if d \<noteq> 0 then kret d else
          kbind (kget id) (\<lambda>s.
          kbind (printf (''usertrap(): unexpected scause 0x%lx pid=%d'' @ [CHR 0x0A])
                   [AWord (scause s), AWord (of_int (pid (procs s p)))]) (\<lambda>_.
          kbind (printf (''            sepc=0x%lx stval=0x%lx'' @ [CHR 0x0A])
                   [AWord (sepc s), AWord (stval s)]) (\<lambda>_.
          kbind (setkilled p) (\<lambda>_.
          kret 0)))))) (\<lambda>which_dev.
     kbind (killed p) (\<lambda>k.
     kbind (if k then exit (- 1) else kret ()) (\<lambda>_.
     kbind (kwhen (which_dev = 2) yield) (\<lambda>_.
     usertrapret)))))))))))"

definition kerneltrap :: "nat \<Rightarrow> ('z trap_state_scheme, unit) kmon" where
  "kerneltrap n =
     kbind (kget id) (\<lambda>s.
     (let old_sepc = sepc s; old_sstatus = sstatus s; cause = scause s in
     if old_sstatus AND SSTATUS_SPP = 0 then kpanic ''kerneltrap: not from supervisor mode'' else
     kbind intr_get (\<lambda>on.
     if on then kpanic ''kerneltrap: interrupts enabled'' else
     kbind (devintr n) (\<lambda>d.
     if d = 0 then
       kbind (kget id) (\<lambda>t.
       kbind (printf (''scause=0x%lx sepc=0x%lx stval=0x%lx'' @ [CHR 0x0A])
                [AWord cause, AWord (sepc t), AWord (stval t)]) (\<lambda>_.
       kpanic ''kerneltrap''))
     else
       kbind (if d = 2 then kbind myproc (\<lambda>mp. kwhen (mp \<noteq> None) yield) else kret ()) (\<lambda>_.
       kbind (kmodify (\<lambda>s. s\<lparr>sepc := old_sepc\<rparr>)) (\<lambda>_.
       w_sstatus old_sstatus))))))"

subsection \<open>proc.c: forkret\<close>

definition forkret :: "('z trap_state_scheme, u64) kmon" where
  "forkret =
     kbind myproc (\<lambda>mp. deref mp (\<lambda>p.
     kbind (release (ProcLock p)) (\<lambda>_.
     kbind (kget forkret_first) (\<lambda>first.
     kbind (kwhen first (kseq [
       fsinit ROOTDEV,
       kmodify (\<lambda>s. s\<lparr>forkret_first := False\<rparr>)])) (\<lambda>_.
     usertrapret)))))"

subsection \<open>main.c\<close>

text \<open>\<^verbatim>\<open>while(started == 0);\<close>\<close>

fun wait_started :: "('z trap_state_scheme, unit) kmon" where
  "wait_started es s =
     (if started s then Ret () es s
      else (case es of [] \<Rightarrow> Blocked s | e # es' \<Rightarrow> wait_started es' (e s)))"

declare wait_started.simps [simp del]

definition kprint :: "string \<Rightarrow> vararg list \<Rightarrow> ('z uart_state_scheme, unit) kmon" where
  "kprint fmt ap = kbind (printf (fmt @ [CHR 0x0A]) ap) (\<lambda>_. kret ())"

text \<open>\<open>n\<close> bounds the rounds of the scheduler that are looked at.\<close>

definition main :: "nat \<Rightarrow> ('z trap_state_scheme, unit) kmon" where
  "main n =
     kbind cpuid (\<lambda>c.
     kbind
       (if c = 0 then kseq [
          consoleinit,
          printfinit,
          kprint [] [],
          kprint ''xv6 kernel is booting'' [],
          kprint [] [],
          kinit,
          kvminit,
          kvminithart,
          procinit,
          trapinit,
          trapinithart,
          plicinit,
          plicinithart,
          binit,
          iinit,
          fileinit,
          virtio_disk_init,
          init_priority_control,
          userinit,
          kmodify (\<lambda>s. s\<lparr>started := True\<rparr>)]
        else kseq [
          wait_started,
          kprint ''hart %d starting'' [AWord (of_nat c)],
          kvminithart,
          trapinithart,
          plicinithart]) (\<lambda>_.
     scheduler n))"

subsection \<open>start.c\<close>

text \<open>The machine-mode registers that \<^verbatim>\<open>start\<close> sets up.\<close>

record mach =
  mstatus :: u64
  mepc :: u64
  m_satp :: u64
  medeleg :: u64
  mideleg :: u64
  m_sie :: u64
  pmpaddr0 :: u64
  pmpcfg0 :: u64
  mie :: u64
  menvcfg :: u64
  mcounteren :: u64
  m_stimecmp :: u64
  mtime :: u64
  mhartid :: u64
  m_tp :: u64

definition MSTATUS_MPP_MASK :: u64 where "MSTATUS_MPP_MASK = push_bit 11 3"
definition MSTATUS_MPP_S :: u64 where "MSTATUS_MPP_S = push_bit 11 1"
definition SIE_SEIE :: u64 where "SIE_SEIE = push_bit 9 1"
definition SIE_STIE :: u64 where "SIE_STIE = push_bit 5 1"
definition SIE_SSIE :: u64 where "SIE_SSIE = push_bit 1 1"
definition MIE_STIE :: u64 where "MIE_STIE = push_bit 5 1"

definition timerinit :: "mach \<Rightarrow> mach" where
  "timerinit m =
     m\<lparr>mie := mie m OR MIE_STIE,
       menvcfg := menvcfg m OR push_bit 63 1,
       mcounteren := mcounteren m OR 2,
       m_stimecmp := mtime m + 1000000\<rparr>"

text \<open>The state in which \<^verbatim>\<open>mret\<close> finds the hart; \<open>main_addr\<close> is the address of \<^verbatim>\<open>main\<close>.\<close>

definition start :: "u64 \<Rightarrow> mach \<Rightarrow> mach" where
  "start main_addr m0 =
     (let m1 = m0\<lparr>mstatus := (mstatus m0 AND NOT MSTATUS_MPP_MASK) OR MSTATUS_MPP_S\<rparr>;
          m2 = m1\<lparr>mepc := main_addr\<rparr>;
          m3 = m2\<lparr>m_satp := 0, medeleg := 0xffff, mideleg := 0xffff\<rparr>;
          m4 = m3\<lparr>m_sie := m_sie m3 OR SIE_SEIE OR SIE_STIE OR SIE_SSIE\<rparr>;
          m5 = m4\<lparr>pmpaddr0 := 0x3fffffffffffff, pmpcfg0 := 0xf\<rparr>;
          m6 = timerinit m5
      in m6\<lparr>m_tp := scast (ucast (mhartid m6) :: u32)\<rparr>)"

end
