(* ===== verification/Sample.thy ===== *)
theory Sample
  imports Trap Proc_Correct
begin

text \<open>
  A machine at rest, from which the witnesses start: hart 0 runs process 1, whose only
  page is mapped at address 0 and zero; no lock is held, no file is open, the buffers
  are linked as \<^verbatim>\<open>binit\<close> leaves them, and the disk's descriptors are free.
\<close>

definition ex_user :: proc where
  "ex_user = ex_proc\<lparr>pstate := RUNNING, pid := 2, psz := 4096, pagetable := 0x87FFF000\<rparr>"

definition ex_system :: trap_state where
  "ex_system = \<lparr>tp = 0, sstatus = SSTATUS_SIE, cpus = (\<lambda>_. boot_cpu\<lparr>cpu_proc := Some 1\<rparr>), locks = (\<lambda>_. boot_lock),
     mem = ex_mem, freelist = 0, kend = 0x80021000, kernel_pagetable = 0, satp = 0, etext = 0x80008000,
     trampoline = 0x80007000, uart_in = (\<lambda>_ _. LSR_TX_IDLE), uart_clock = 0, uart_writes = [],
     panicked = False, pr_locking = True, procs = (\<lambda>_. ex_proc)(1 := ex_user), initproc = None, nextpid = 3,
     p_control = \<lparr>present = (\<lambda>_. 0), head_priority = (\<lambda>_. None), current_priority = (\<lambda>_. None)\<rparr>,
     forkret_addr = 0x80001000,
     sleeplocks = (\<lambda>_. \<lparr>sl_locked = False, sl_name = '''', sl_pid = 0\<rparr>),
     uart_tx_buf = (\<lambda>_. 0), uart_tx_w = 0, uart_tx_r = 0, cons_buf = (\<lambda>_. 0), cons_r = 0, cons_w = 0, cons_e = 0,
     devsw_read = (\<lambda>_. None), devsw_write = (\<lambda>_. None),
     bufs = (\<lambda>b. \<lparr>bvalid = False, bdisk = False, bdev = 0, bblockno = 0, brefcnt = 0,
       bprev = (if b = NBUF then 0 else b + 1), bnext = (if b = 0 then NBUF else b - 1), bdata = replicate 1024 0\<rparr>),
     desc_page = 0, avail_page = 0, used_page = 0,
     desc = (\<lambda>_. \<lparr>vaddr = DmaNull, vlen = 0, vflags = 0, vnext = 0\<rparr>), avail_idx = 0, avail_ring = (\<lambda>_. 0),
     used_ring_idx = 0, used_ring = (\<lambda>_. 0), desc_free = (\<lambda>_. True), used_idx = 0, info_b = (\<lambda>_. None),
     info_status = (\<lambda>_. 0), ops = (\<lambda>_. \<lparr>req_type = 0, req_reserved = 0, req_sector = 0\<rparr>),
     virtio_in = (\<lambda>_ _. 0), virtio_clock = 0, virtio_writes = [],
     log_start = 2, log_size = 30, outstanding = 0, committing = False, log_dev = 1, lh_n = 0, lh_block = (\<lambda>_. 0),
     sb = \<lparr>sb_magic = FSMAGIC, sb_size = 2000, sb_nblocks = 1954, sb_ninodes = 200, sb_nlog = 30, sb_logstart = 2,
       sb_inodestart = 32, sb_bmapstart = 45\<rparr>,
     inodes = (\<lambda>_. \<lparr>idev = 0, inum = 0, iref = 0, ivalid = False, itype = 0, imajor = 0, iminor = 0, inlink = 0,
       isize = 0, iaddrs = replicate 13 0\<rparr>),
     pipes = (\<lambda>_. \<lparr>pdata = (\<lambda>_. 0), nread = 0, nwrite = 0, readopen = True, writeopen = True\<rparr>),
     ftable = (\<lambda>_. \<lparr>ftype = FD_NONE, fref = 0, readable = False, writable = False, fpipe = 0, fip = None,
       foff = 0, fmajor = 0\<rparr>), stat_pad = [0, 0, 0, 0],
     ticks = 0, stvec = 0, sepc = 0, scause = 0, stval = 0, stimecmp = 0, rtime = (\<lambda>_. 0), time_reads = 0,
     kernelvec_addr = 0x80005000, usertrap_addr = 0x80002000, uservec_off = 0, userret_off = 0x9c,
     plic_in = (\<lambda>_ _. 0), plic_clock = 0, plic_writes = [], forkret_first = False, started = True\<rparr>"

lemma ex_system_sel:
  "tp ex_system = 0" "sstatus ex_system = SSTATUS_SIE" "cpus ex_system = (\<lambda>_. boot_cpu\<lparr>cpu_proc := Some 1\<rparr>)"
  "locks ex_system = (\<lambda>_. boot_lock)" "mem ex_system = ex_mem" "freelist ex_system = 0" "kend ex_system = 0x80021000"
  "procs ex_system = (\<lambda>_. ex_proc)(1 := ex_user)" "bufs ex_system b = \<lparr>bvalid = False, bdisk = False, bdev = 0,
     bblockno = 0, brefcnt = 0, bprev = (if b = NBUF then 0 else b + 1), bnext = (if b = 0 then NBUF else b - 1),
     bdata = replicate 1024 0\<rparr>"
  "desc_free ex_system = (\<lambda>_. True)" "used_idx ex_system = 0"
  "pipes ex_system = (\<lambda>_. \<lparr>pdata = (\<lambda>_. 0), nread = 0, nwrite = 0, readopen = True, writeopen = True\<rparr>)"
  "ftable ex_system = (\<lambda>_. \<lparr>ftype = FD_NONE, fref = 0, readable = False, writable = False, fpipe = 0, fip = None,
       foff = 0, fmajor = 0\<rparr>)"
  "sleeplocks ex_system = (\<lambda>_. \<lparr>sl_locked = False, sl_name = '''', sl_pid = 0\<rparr>)"
  by (simp_all add: ex_system_def)

lemma ex_system_free [simp]: "lock_free lk ex_system"
  by (simp add: lock_free_def ex_system_sel boot_lock_def boot_cpu_def)

lemma ex_system_room [simp]: "noff (mycpu_of ex_system) + 1 < INT_MAX"
  by (simp add: ex_system_sel boot_cpu_def)

lemma ex_system_cur [simp]: "cur ex_system = Some 1"
  by (simp add: ex_system_sel boot_cpu_def)

lemma ex_system_uvm: "uvm_inv ex_system 0x87FFF000 {}"
  using ex_uvm_inv ex_system_free [of KmemLock]
  by (simp add: uvm_inv_def pt_inv_def free_pages_def kmem_inv_def ex_system_sel ex_state_def)

end
