(* ===== verification/User_Copy.thy ===== *)
theory User_Copy
  imports Sample
begin

text \<open>
  A process inside a critical section that copies bytes from and to its own address
  space: the shared part of reading and writing pipes and the console.
\<close>

subsection \<open>Frames\<close>

lemma uvm_inv_cong:
  assumes "uvm_inv s root F" "mem s' = mem s" "freelist s' = freelist s" "kend s' = kend s" "lock_free KmemLock s'"
  shows "uvm_inv s' root F"
  using assms by (simp add: uvm_inv_def pt_inv_def free_pages_def kmem_inv_def)

lemma quiet_sel:
  assumes "quiet s s'"
  shows "procs s' = procs s" "cur s' = cur s" "proc_state.more s' = proc_state.more s"
  using assms by (cases s; cases s'; auto simp: quiet_def)+

lemma entered_sel [simp]:
  "mem (entered lk s) = mem s" "freelist (entered lk s) = freelist s"
  "kend (entered lk s) = kend s" "cur (entered lk s) = cur s"
  "proc_state.more (entered lk s) = proc_state.more s"
  by (simp_all add: entered_def pushed_def)

lemma left_sel [simp]:
  "procs (left lk s) = procs s" "mem (left lk s) = mem s" "proc_state.more (left lk s) = proc_state.more s"
  by (simp_all add: left_def popped_def)

text \<open>
  Inside \<open>lk\<close>, with the address space of the running process \<open>pr\<close> well formed; and
  the same before \<open>lk\<close> is taken, with room for two more levels of \<^verbatim>\<open>push_off\<close>.
\<close>

definition in_user :: "lockid \<Rightarrow> nat \<Rightarrow> u64 \<Rightarrow> u64 set \<Rightarrow> 'z proc_state_scheme \<Rightarrow> bool" where
  "in_user lk pr root F s \<longleftrightarrow> in_section lk s \<and> lock_free KmemLock s \<and> pr < NPROC \<and>
     cur s = Some pr \<and> pagetable (procs s pr) = root \<and> \<not> pkilled (procs s pr) \<and> uvm_inv s root F"

definition user_ready :: "lockid \<Rightarrow> nat \<Rightarrow> u64 \<Rightarrow> u64 set \<Rightarrow> 'z proc_state_scheme \<Rightarrow> bool" where
  "user_ready lk pr root F s \<longleftrightarrow> lock_free lk s \<and> (\<forall>p < NPROC. lock_free (ProcLock p) s) \<and>
     noff (mycpu_of s) + 1 < INT_MAX \<and> pr < NPROC \<and> cur s = Some pr \<and> pagetable (procs s pr) = root \<and> \<not> pkilled (procs s pr) \<and> uvm_inv s root F"

lemma in_user_frame:
  assumes "in_user lk pr root F s" "mem s' = mem s" "freelist s' = freelist s" "kend s' = kend s"
    "locks s' = locks s" "tp s' = tp s" "sstatus s' = sstatus s" "cpus s' = cpus s" "procs s' = procs s"
  shows "in_user lk pr root F s'"
  using assms in_section_frame [of s' s lk] uvm_inv_cong [of s root F s']
  by (simp add: in_user_def lock_free_def intr_enabled_def)

lemma in_user_quiet:
  assumes "in_user lk pr root F s" "quiet s s'" "uvm_inv s' root F"
  shows "in_user lk pr root F s'"
proof -
  have "in_section lk s'"
    using assms in_section_frame [of s' s] by (simp add: in_user_def quiet_def)
  moreover have "lock_free KmemLock s'"
    using assms quiet_lock_free by (auto simp: in_user_def)
  ultimately show ?thesis using assms quiet_sel [OF assms(2)] by (simp add: in_user_def)
qed

lemma entered_user:
  assumes "user_ready lk pr root F s" "lk \<noteq> KmemLock" "\<And>p. lk \<noteq> ProcLock p"
  shows "in_user lk pr root F (entered lk s)"
proof -
  let ?s = "entered lk s"
  have k: "lock_free KmemLock s" using assms(1) by (simp add: user_ready_def uvm_inv_def pt_inv_def)
  then have k': "lock_free KmemLock ?s"
    using assms(1,2) by (simp add: lock_free_def user_ready_def entered_def pushed_def intr_enabled_def)
  have "uvm_inv s root F" using assms by (simp add: user_ready_def)
  then have "uvm_inv ?s root F" by (rule uvm_inv_cong) (simp_all add: k')
  then show ?thesis
    using assms k' in_section_entered [of lk s] by (simp add: in_user_def user_ready_def)
qed

lemma user_enter:
  assumes "user_ready lk pr root F s"
  shows "myproc es s = Ret (Some pr) es (intr_saved s)"
    "acquire lk es s = Ret () es (entered lk s)"
    "acquire lk es (intr_saved s) = Ret () es (entered lk s)"
proof -
  have s: "cpu_ok s" "lock_free lk s" "cur s = Some pr"
    using assms by (auto simp: user_ready_def lock_free_def cpu_ok_def)
  then show "myproc es s = Ret (Some pr) es (intr_saved s)" using myproc_run [of s es] by simp
  show "acquire lk es s = Ret () es (entered lk s)" using s(2) by (simp add: acquire_run lock_free_def)
  have "entered lk (intr_saved s) = entered lk s"
    by (simp add: entered_def pushed_def intr_saved_def intr_enabled_def)
  moreover have "lock_free lk (intr_saved s)" using s(2) by simp
  ultimately show "acquire lk es (intr_saved s) = Ret () es (entered lk s)"
    by (simp add: acquire_run lock_free_def)
qed

lemma user_wake:
  assumes "in_user lk pr root F s"
  shows "wakeup ch es s = Ret () es (s\<lparr>procs := woken NPROC ch (Some pr) (procs s)\<rparr>)"
    "kseq [wakeup ch, release lk] es s = Ret () es (left lk (s\<lparr>procs := woken NPROC ch (Some pr) (procs s)\<rparr>))"
  using assms wakeup_section [of lk s ch es]
    release_section [of lk "s\<lparr>procs := woken NPROC ch (Some pr) (procs s)\<rparr>" es]
  by (simp_all add: in_user_def)

lemma ex_system_ready: "user_ready lk 1 0x87FFF000 {} ex_system"
  using ex_system_uvm ex_system_room by (simp add: user_ready_def) (simp add: ex_system_sel ex_user_def ex_proc_def)

subsection \<open>One byte\<close>

lemma copyin_byte:
  assumes "uvm_inv s root F" "user_readable (mem s) root va"
  shows "copyin root va 1 es s = Ret (0, [user_byte (mem s) root va]) es s"
proof -
  obtain r j where "copyin root va 1 es s = Ret (r, user_bytes (mem s) root va j) es s"
    "r = 0 \<and> j = 1 \<or> r = - 1" "r = 0 \<longleftrightarrow> (\<forall>i < unat (1 :: u64). user_readable (mem s) root (va + of_nat i))"
    using copyin_loop_spec [OF assms(1) order_refl, of 1 "[]" va es] by (auto simp: copyin_def)
  then show ?thesis using assms(2) by (auto simp: user_bytes_def)
qed

lemma copyout_byte:
  assumes "uvm_inv s root F" "user_writable (mem s) root va"
  obtains s' where "copyout root va [b] 1 es s = Ret 0 es s'" "quiet s s'" "uvm_inv s' root F"
    "pte_of (mem s') root = pte_of (mem s) root"
    "\<And>x. user_readable (mem s) root x \<Longrightarrow>
       user_byte (mem s') root x = (if x = va then b else user_byte (mem s) root x)"
proof -
  obtain r s' j where run: "copyout root va [b] 1 es s = Ret r es s'" and out: "copied_out s s' root F va [b] r j"
    using copyout_loop_spec [OF assms(1), of "[b]" 1 1 va es] by (auto simp: copyout_def)
  then have "r = 0" "j = 1" using assms(2) by (auto simp: copied_out_def)
  with run out show thesis
    by (intro that [of s']) (auto simp: copied_out_def unat_eq_0)
qed

text \<open>The first \<open>m\<close> bytes of \<open>bs\<close> written at the user address \<open>va\<close>, and nothing else.\<close>

definition stored :: "u64 \<Rightarrow> u64 \<Rightarrow> bytes \<Rightarrow> nat \<Rightarrow> memory \<Rightarrow> memory \<Rightarrow> bool" where
  "stored root va bs m mm mm' \<longleftrightarrow> pte_of mm' root = pte_of mm root \<and>
     (\<forall>x. user_readable mm root x \<longrightarrow> user_byte mm' root x =
        (if unat (x - va) < m then bs ! unat (x - va) else user_byte mm root x))"

lemma stored_none [simp]: "stored root va bs 0 mm mm"
  by (simp add: stored_def)

lemma user_perm_cong:
  "pte_of m' root = pte_of m root \<Longrightarrow> user_readable m' root va = user_readable m root va"
  "pte_of m' root = pte_of m root \<Longrightarrow> user_writable m' root va = user_writable m root va"
  by (simp_all add: user_readable_def user_writable_def)

lemma stored_Cons:
  assumes step: "pte_of m1 root = pte_of m0 root" "\<And>x. user_readable m0 root x \<Longrightarrow>
      user_byte m1 root x = (if x = va then b else user_byte m0 root x)"
    and rest: "stored root (va + 1) bs m m1 m2" and m: "Suc m < 2 ^ 64"
  shows "stored root va (b # bs) (Suc m) m0 m2"
  unfolding stored_def
proof (intro conjI allI impI)
  show "pte_of m2 root = pte_of m0 root" using step(1) rest by (simp add: stored_def)
  fix x assume x: "user_readable m0 root x"
  then have x1: "user_byte m2 root x = (if unat (x - (va + 1)) < m then bs ! unat (x - (va + 1)) else user_byte m1 root x)"
    using rest user_perm_cong(1) [OF step(1)] by (simp add: stored_def)
  show "user_byte m2 root x =
      (if unat (x - va) < Suc m then (b # bs) ! unat (x - va) else user_byte m0 root x)"
  proof (cases "x = va")
    case True
    have "unat (- 1 :: u64) = 2 ^ 64 - 1" by (simp add: unsigned_minus_1_eq_mask mask_eq_exp_minus_1)
    with True x1 m step(2) [OF x] show ?thesis by simp
  next
    case False
    then have "unat (x - va) = Suc (unat (x - (va + 1)))"
      using unat_minus_one [of "x - va"] by (simp add: algebra_simps unat_gt_0)
    with False x1 step(2) [OF x] show ?thesis by simp
  qed
qed

lemma stored_bytes:
  assumes "stored root va bs m mm mm'" "\<forall>j < m. user_readable mm root (va + of_nat j)" "m \<le> length bs" "m < 2 ^ 64"
  shows "user_bytes mm' root va m = take m bs"
proof (rule nth_equalityI)
  show "length (user_bytes mm' root va m) = length (take m bs)" using assms(3) by simp
  fix i assume "i < length (user_bytes mm' root va m)"
  then have i: "i < m" by simp
  then have "unat (va + of_nat i - va) = i" using assms(4) by (simp add: unat_of_nat)
  then show "user_bytes mm' root va m ! i = take m bs ! i"
    using assms(1,2) i by (simp add: user_bytes_def stored_def)
qed

end
