(* ===== verification/Ring.thy ===== *)
theory Ring
  imports Riscv
begin

text \<open>
  Ring buffers whose read and write indices are machine words that run freely and
  wrap around: the transmit ring of the UART, the console input buffer and pipes.
  The size divides the range of the indices, so that the wrap-around is harmless.
\<close>

definition ring :: "nat \<Rightarrow> (nat \<Rightarrow> 'e) \<Rightarrow> 'w::len word \<Rightarrow> 'w word \<Rightarrow> 'e list" where
  "ring n buf r w = map (\<lambda>i. buf ((unat r + i) mod n)) [0..<unat (w - r)]"

definition ring_size :: "'w::len itself \<Rightarrow> nat \<Rightarrow> bool" where
  "ring_size _ n \<longleftrightarrow> 0 < n \<and> n < 2 ^ LENGTH('w) \<and> n dvd 2 ^ LENGTH('w)"

lemma length_ring [simp]: "length (ring n buf r w) = unat (w - r)"
  by (simp add: ring_def)

lemma ring_empty_iff: "ring n buf r w = [] \<longleftrightarrow> r = w"
  using unat_eq_zero [of "w - r"] by (auto simp: ring_def)

lemma ring_index:
  fixes r :: "'w::len word"
  assumes "n dvd 2 ^ LENGTH('w)"
  shows "unat (r + of_nat i) mod n = (unat r + i) mod n"
proof -
  have "unat (r + of_nat i) = (unat r + i) mod 2 ^ LENGTH('w)"
    by (simp add: unat_word_ariths unat_of_nat mod_add_right_eq)
  then show ?thesis by (simp add: mod_mod_cancel [OF assms])
qed

lemma unat_Suc_word:
  fixes x :: "'w::len word"
  assumes "unat x < n" "n < 2 ^ LENGTH('w)"
  shows "unat (x + 1) = Suc (unat x)"
  using assms by (simp add: unat_word_ariths mod_less)

lemma ring_distance_Suc:
  fixes r :: "'w::len word"
  assumes "unat (w - r) < n" "n < 2 ^ LENGTH('w)"
  shows "unat (w + 1 - r) = Suc (unat (w - r))"
  using unat_Suc_word [OF assms] by (simp add: algebra_simps)

lemma ring_distance_pred:
  fixes r :: "'w::len word"
  assumes "r \<noteq> w"
  shows "Suc (unat (w - (r + 1))) = unat (w - r)" "Suc (unat (w - 1 - r)) = unat (w - r)"
proof -
  have "Suc (unat (w - r - 1)) = unat (w - r)"
    using unatSuc [of "w - r - 1"] assms by simp
  then show "Suc (unat (w - (r + 1))) = unat (w - r)" "Suc (unat (w - 1 - r)) = unat (w - r)"
    by (simp_all add: algebra_simps)
qed

lemma ring_put:
  fixes r :: "'w::len word"
  assumes "ring_size TYPE('w) n" "unat (w - r) < n"
  shows "ring n (buf(unat w mod n := x)) r (w + 1) = ring n buf r w @ [x]"
proof -
  have n: "0 < n" "n < 2 ^ LENGTH('w)" "n dvd 2 ^ LENGTH('w)"
    using assms(1) by (simp_all add: ring_size_def)
  have w: "unat w mod n = (unat r + unat (w - r)) mod n"
    using ring_index [OF n(3), of r "unat (w - r)"] by simp
  have "(unat r + i) mod n \<noteq> unat w mod n" if "i < unat (w - r)" for i
  proof
    assume "(unat r + i) mod n = unat w mod n"
    then have "i mod n = unat (w - r) mod n" by (simp add: w nat_mod_eq_iff)
    with that assms(2) show False by simp
  qed
  then show ?thesis
    by (simp add: ring_def ring_distance_Suc [OF assms(2) n(2)] w)
qed

lemma ring_get:
  fixes r :: "'w::len word"
  assumes "ring_size TYPE('w) n" "r \<noteq> w"
  shows "ring n buf r w = buf (unat r mod n) # ring n buf (r + 1) w"
proof -
  have n: "n dvd 2 ^ LENGTH('w)" using assms(1) by (simp add: ring_size_def)
  have "(unat (r + 1) + i) mod n = (unat r + Suc i) mod n" for i
    using ring_index [OF n, of r "Suc 0"] by (metis add_Suc_right add_Suc mod_add_left_eq of_nat_1 One_nat_def Nat.add_0_right)
  then show ?thesis
    by (simp add: ring_def ring_distance_pred(1) [OF assms(2), symmetric] upt_conv_Cons map_Suc_upt [symmetric] del: upt_Suc)
qed

lemma ring_unput:
  fixes r :: "'w::len word"
  assumes "r \<noteq> w"
  shows "ring n buf r (w - 1) = butlast (ring n buf r w)"
  by (simp add: ring_def ring_distance_pred(2) [OF assms, symmetric] map_butlast [symmetric])

lemma ring_last:
  fixes r :: "'w::len word"
  assumes "ring_size TYPE('w) n" "r \<noteq> w"
  shows "last (ring n buf r w) = buf (unat (w - 1) mod n)"
proof -
  have n: "n dvd 2 ^ LENGTH('w)" using assms(1) by (simp add: ring_size_def)
  have "unat (w - 1) mod n = (unat r + unat (w - 1 - r)) mod n"
    using ring_index [OF n, of r "unat (w - 1 - r)"] by simp
  then show ?thesis
    by (simp add: ring_def ring_distance_pred(2) [OF assms(2), symmetric])
qed

lemma ring_append:
  fixes r :: "'w::len word"
  assumes "n dvd 2 ^ LENGTH('w)" "unat (w - r) + unat (e - w) = unat (e - r)"
  shows "ring n buf r e = ring n buf r w @ ring n buf w e"
proof -
  have "(unat w + i) mod n = (unat r + (unat (w - r) + i)) mod n" for i
  proof -
    have "unat w mod n = (unat r + unat (w - r)) mod n"
      using ring_index [OF assms(1), of r "unat (w - r)"] by simp
    then show ?thesis by (metis add.assoc mod_add_left_eq)
  qed
  then have "ring n buf w e = map (\<lambda>i. buf ((unat r + i) mod n)) [unat (w - r)..<unat (w - r) + unat (e - w)]"
    by (intro nth_equalityI) (simp_all add: ring_def)
  then show ?thesis
    using upt_add_eq_append [of 0 "unat (w - r)" "unat (e - w)"]
    by (simp only: ring_def assms(2) [symmetric] map_append le0 simp_thms)
qed

lemma ring_full_iff:
  fixes r :: "'w::len word"
  assumes "ring_size TYPE('w) n"
  shows "w = r + of_nat n \<longleftrightarrow> unat (w - r) = n"
proof -
  have "n < 2 ^ LENGTH('w)" using assms by (simp add: ring_size_def)
  then have "w - r = of_nat n \<longleftrightarrow> unat (w - r) = n"
    by (auto simp: word_unat_eq_iff unat_of_nat)
  then show ?thesis by (simp add: algebra_simps)
qed

lemma ring_slot:
  fixes w :: "'w::len word"
  assumes "ring_size TYPE('w) n"
  shows "unat (w mod of_nat n) = unat w mod n"
  using assms by (simp add: ring_size_def unat_mod_distrib unat_of_nat)

subsection \<open>Bounded queues\<close>

text \<open>
  What a client of such a buffer relies on: the elements in order, at most \<open>cap\<close> of
  them; \<open>ok\<close> is the representation invariant.
\<close>

locale bounded_queue =
  fixes contents :: "'q \<Rightarrow> 'e list"
    and ok :: "'q \<Rightarrow> bool"
    and cap :: nat
    and put :: "'e \<Rightarrow> 'q \<Rightarrow> 'q"
    and front :: "'q \<Rightarrow> 'e"
    and discard :: "'q \<Rightarrow> 'q"
    and is_full :: "'q \<Rightarrow> bool"
    and is_empty :: "'q \<Rightarrow> bool"
  assumes bounded: "ok q \<Longrightarrow> length (contents q) \<le> cap"
    and full_iff: "ok q \<Longrightarrow> is_full q \<longleftrightarrow> length (contents q) = cap"
    and empty_iff: "ok q \<Longrightarrow> is_empty q \<longleftrightarrow> contents q = []"
    and put_contents: "ok q \<Longrightarrow> \<not> is_full q \<Longrightarrow> contents (put x q) = contents q @ [x]"
    and put_ok: "ok q \<Longrightarrow> \<not> is_full q \<Longrightarrow> ok (put x q)"
    and front_contents: "ok q \<Longrightarrow> \<not> is_empty q \<Longrightarrow> front q = hd (contents q)"
    and discard_contents: "ok q \<Longrightarrow> \<not> is_empty q \<Longrightarrow> contents (discard q) = tl (contents q)"
    and discard_ok: "ok q \<Longrightarrow> \<not> is_empty q \<Longrightarrow> ok (discard q)"
begin

text \<open>A run of the queue: \<open>Inl x\<close> puts \<open>x\<close>, \<open>Inr ()\<close> takes; what was taken, in order.\<close>

fun run :: "('e + unit) list \<Rightarrow> 'q \<Rightarrow> ('e list \<times> 'q) option" where
  "run [] q = Some ([], q)"
| "run (Inl x # as) q = (if is_full q then None else run as (put x q))"
| "run (Inr () # as) q =
     (if is_empty q then None else map_option (apfst ((#) (front q))) (run as (discard q)))"

definition puts :: "('e + unit) list \<Rightarrow> 'e list" where
  "puts as = concat (map (\<lambda>a. case a of Inl x \<Rightarrow> [x] | Inr _ \<Rightarrow> []) as)"

lemma run_fifo:
  "ok q \<Longrightarrow> run as q = Some (out, q') \<Longrightarrow> ok q' \<and> contents q @ puts as = out @ contents q'"
proof (induction as q arbitrary: out rule: run.induct)
  case (1 q)
  then show ?case by (simp add: puts_def)
next
  case (2 x as q)
  then show ?case
    by (auto simp: puts_def put_ok put_contents split: if_splits)
next
  case (3 as q)
  then obtain out' where *: "\<not> is_empty q" "run as (discard q) = Some (out', q')" "out = front q # out'"
    by (auto split: if_splits)
  with 3 have "ok q' \<and> contents (discard q) @ puts as = out' @ contents q'"
    by (simp add: discard_ok)
  with * 3(2) show ?case
    by (cases "contents q") (auto simp: puts_def front_contents discard_contents empty_iff)
qed

end

end
