(* ===== verification/Pipe_Correct.thy ===== *)
theory Pipe_Correct
  imports User_Copy Ring
begin

text \<open>
  A pipe is a bounded first-in first-out queue of bytes, also across the wrap-around
  of its 32-bit counters; what one process writes into it is what is read from it.
\<close>

subsection \<open>The ring\<close>

definition pipe_contents :: "pipe \<Rightarrow> bytes" where
  "pipe_contents p = ring 512 (pdata p) (nread p) (nwrite p)"

definition pipe_ok :: "pipe \<Rightarrow> bool" where
  "pipe_ok p \<longleftrightarrow> unat (nwrite p - nread p) \<le> 512"

lemma pipe_ring_size: "ring_size TYPE(32) 512"
  by (simp add: ring_size_def)

lemmas pipe_defs = pipe_contents_def pipe_ok_def pipe_put_def pipe_head_def pipe_drop_def
  pipe_full_def pipe_empty_def PIPESIZE_def

lemma pipe_slot: "unat ((w :: u32) mod 512) = unat w mod 512"
  using ring_slot [OF pipe_ring_size, of w] by simp

lemma pipe_full_iff: "w = r + 512 \<longleftrightarrow> unat (w - r) = 512" for r w :: u32
  using ring_full_iff [OF pipe_ring_size, of w r] by simp

interpretation pipeq: bounded_queue pipe_contents pipe_ok 512 pipe_put pipe_head pipe_drop pipe_full pipe_empty
proof
  fix q :: pipe and x
  assume ok: "pipe_ok q"
  show "length (pipe_contents q) \<le> 512" using ok by (simp add: pipe_defs)
  show "pipe_full q \<longleftrightarrow> length (pipe_contents q) = 512" by (simp add: pipe_defs pipe_full_iff)
  show "pipe_empty q \<longleftrightarrow> pipe_contents q = []" by (simp add: pipe_defs ring_empty_iff)
  {
    assume "\<not> pipe_full q"
    then have lt: "unat (nwrite q - nread q) < 512" using ok by (simp add: pipe_defs pipe_full_iff)
    show "pipe_contents (pipe_put x q) = pipe_contents q @ [x]"
      using ring_put [OF pipe_ring_size lt] by (simp add: pipe_defs pipe_slot)
    show "pipe_ok (pipe_put x q)"
      using lt ring_distance_Suc [OF lt] by (simp add: pipe_defs)
  }
  {
    assume "\<not> pipe_empty q"
    then have ne: "nread q \<noteq> nwrite q" by (simp add: pipe_defs)
    show "pipe_head q = hd (pipe_contents q)" "pipe_contents (pipe_drop q) = tl (pipe_contents q)"
      using ring_get [OF pipe_ring_size ne, of "pdata q"] by (simp_all add: pipe_defs pipe_slot)
    show "pipe_ok (pipe_drop q)"
      using ok ring_distance_pred(1) [OF ne] by (simp add: pipe_defs)
  }
qed

subsection \<open>Frames\<close>

definition with_pipe :: "u64 \<Rightarrow> pipe \<Rightarrow> 'z pipe_state_scheme \<Rightarrow> 'z pipe_state_scheme" where
  "with_pipe pi q s = s\<lparr>pipes := (pipes s)(pi := q)\<rparr>"

lemma with_pipe_sel [simp]:
  "pipes (with_pipe pi q s) pi = q" "mem (with_pipe pi q s) = mem s" "procs (with_pipe pi q s) = procs s"
  "cur (with_pipe pi q s) = cur s" "kend (with_pipe pi q s) = kend s" "freelist (with_pipe pi q s) = freelist s"
  "locks (with_pipe pi q s) = locks s" "tp (with_pipe pi q s) = tp s" "sstatus (with_pipe pi q s) = sstatus s"
  "cpus (with_pipe pi q s) = cpus s"
  by (simp_all add: with_pipe_def)

lemma with_pipe_twice [simp]: "with_pipe pi q (with_pipe pi q' s) = with_pipe pi q s"
  by (simp add: with_pipe_def)

lemma with_pipe_same [simp]: "with_pipe pi (pipes s pi) s = s"
  by (cases s) (simp add: with_pipe_def)

lemma quiet_with_pipe: "quiet s s' \<Longrightarrow> quiet (with_pipe pi q s) (with_pipe pi q s')"
  by (cases s; cases s'; simp add: quiet_def with_pipe_def)

lemma pipeset_run: "pipeset pi f es s = Ret () es (with_pipe pi (f (pipes s pi)) s)"
  by (simp add: pipeset_def with_pipe_def)

text \<open>Inside \<^verbatim>\<open>pi->lock\<close>, with the address space of the process \<open>pr\<close> well formed.\<close>

definition in_pipe :: "nat \<Rightarrow> u64 \<Rightarrow> u64 \<Rightarrow> u64 set \<Rightarrow> 'z pipe_state_scheme \<Rightarrow> bool" where
  "in_pipe pr pi root F s \<longleftrightarrow> in_user (PipeLock pi) pr root F s \<and> pipe_ok (pipes s pi)"

lemma in_pipe_user:
  assumes "in_pipe pr pi root F s"
  shows "in_user (PipeLock pi) pr root F s" "uvm_inv s root F" "pagetable (procs s pr) = root"
    "pipe_ok (pipes s pi)" "killed pr es s = Ret False es s"
  using assms killed_section [of "PipeLock pi" s pr es] by (simp_all add: in_pipe_def in_user_def)

lemma in_pipe_with_pipe:
  "in_pipe pr pi root F s \<Longrightarrow> pipe_ok q \<Longrightarrow> in_pipe pr pi root F (with_pipe pi q s)"
  unfolding in_pipe_def by (auto intro: in_user_frame)

lemma quiet_pipes: "quiet s s' \<Longrightarrow> pipes s' = pipes s"
  by (cases s; cases s'; simp add: quiet_def)

lemma in_pipe_quiet:
  "in_pipe pr pi root F s \<Longrightarrow> quiet s s' \<Longrightarrow> uvm_inv s' root F \<Longrightarrow> in_pipe pr pi root F s'"
  by (auto simp: in_pipe_def quiet_pipes intro: in_user_quiet)

subsection \<open>Writing\<close>

lemma pipewrite_loop_run:
  assumes "in_pipe pr pi root F s" "readopen (pipes s pi)"
    "length (pipe_contents (pipes s pi)) + k \<le> 512" "i + int k = n" "k < fuel"
    "\<forall>j < k. user_readable (mem s) root (addr + of_int i + of_nat j)"
  shows "\<exists>q. pipewrite_loop fuel pr pi addr n i es s = Ret (Inr n) es (with_pipe pi q s) \<and>
    pipe_ok q \<and> pipe_contents q = pipe_contents (pipes s pi) @ user_bytes (mem s) root (addr + of_int i) k \<and>
    readopen q = readopen (pipes s pi) \<and> writeopen q = writeopen (pipes s pi)"
  using assms
proof (induction k arbitrary: fuel i s)
  case 0
  then obtain f where "fuel = Suc f" by (cases fuel) auto
  with 0 show ?case by (intro exI [of _ "pipes s pi"]) (simp add: in_pipe_def user_bytes_def)
next
  case (Suc k)
  then obtain f where f: "fuel = Suc f" "k < f" by (cases fuel) auto
  note inv = Suc.prems(1)
  note uvm = in_pipe_user(2) [OF inv] and pt = in_pipe_user(3) [OF inv] and ok = in_pipe_user(4) [OF inv]
    and killed = in_pipe_user(5) [OF inv]
  have nf: "\<not> pipe_full (pipes s pi)" using Suc.prems(3) pipeq.full_iff [OF ok] by simp
  let ?b = "user_byte (mem s) root (addr + of_int i)"
  let ?s = "with_pipe pi (pipe_put ?b (pipes s pi)) s"
  have rd: "user_readable (mem s) root (addr + of_int i)" using Suc.prems(6) by (auto dest: spec [of _ 0])
  have step: "pipewrite_loop fuel pr pi addr n i es s = pipewrite_loop f pr pi addr n (i + 1) es ?s"
    using Suc.prems(2,4) nf copyin_byte [OF uvm rd, of es] killed
    by (simp add: f pipeget_def pipeset_run pget_def pt del: of_int_add)
  have inv': "in_pipe pr pi root F ?s"
    by (rule in_pipe_with_pipe [OF inv pipeq.put_ok [OF ok nf]])
  have c: "pipe_contents (pipe_put ?b (pipes s pi)) = pipe_contents (pipes s pi) @ [?b]"
    by (rule pipeq.put_contents [OF ok nf])
  have open_put: "readopen (pipe_put ?b (pipes s pi)) = readopen (pipes s pi)"
    "writeopen (pipe_put ?b (pipes s pi)) = writeopen (pipes s pi)" by (simp_all add: pipe_put_def)
  have rd': "\<forall>j < k. user_readable (mem ?s) root (addr + of_int (i + 1) + of_nat j)"
  proof (intro allI impI)
    fix j assume "j < k"
    then have "user_readable (mem s) root (addr + of_int i + of_nat (Suc j))" using Suc.prems(6) by blast
    then show "user_readable (mem ?s) root (addr + of_int (i + 1) + of_nat j)" by (simp add: algebra_simps)
  qed
  have bytes: "user_bytes (mem s) root (addr + of_int i) (Suc k) =
      ?b # user_bytes (mem s) root (addr + of_int (i + 1)) k"
    using user_bytes_append [of "mem s" root "addr + of_int i" 1 k] by (simp add: user_bytes_def algebra_simps)
  obtain q where "pipewrite_loop f pr pi addr n (i + 1) es ?s = Ret (Inr n) es (with_pipe pi q ?s)"
    "pipe_ok q" "pipe_contents q = pipe_contents (pipes ?s pi) @ user_bytes (mem ?s) root (addr + of_int (i + 1)) k"
    "readopen q = readopen (pipes ?s pi)" "writeopen q = writeopen (pipes ?s pi)"
  proof -
    have "readopen (pipes ?s pi)" "length (pipe_contents (pipes ?s pi)) + k \<le> 512" "i + 1 + int k = n"
      using Suc.prems(2-4) by (simp_all add: c open_put)
    from Suc.IH [OF inv' this f(2) rd'] show thesis using that by blast
  qed
  then show ?case
    using step bytes by (intro exI [of _ q]) (simp add: c open_put)
qed

subsection \<open>Reading\<close>

lemma piperead_copy_run:
  assumes "in_pipe pr pi root F s" "m = min k (length (pipe_contents (pipes s pi)))"
    "\<forall>j < m. user_writable (mem s) root (addr + of_nat i + of_nat j)"
  shows "\<exists>q s'. piperead_copy k pr pi addr i es s = Ret (int (i + m)) es s' \<and>
    quiet (with_pipe pi q s) s' \<and> in_pipe pr pi root F s' \<and>
    pipe_contents q = drop m (pipe_contents (pipes s pi)) \<and>
    readopen q = readopen (pipes s pi) \<and> writeopen q = writeopen (pipes s pi) \<and>
    stored root (addr + of_nat i) (pipe_contents (pipes s pi)) m (mem s) (mem s')"
  using assms
proof (induction k arbitrary: i s m)
  case 0
  then show ?case by (intro exI [of _ "pipes s pi"] exI [of _ s]) simp
next
  case (Suc k)
  note inv = Suc.prems(1)
  let ?p = "pipes s pi"
  note pt = in_pipe_user(3) [OF inv] and ok = in_pipe_user(4) [OF inv]
  show ?case
  proof (cases "pipe_empty ?p")
    case True
    then have "m = 0" "pipe_contents ?p = []" using Suc.prems(2) pipeq.empty_iff [OF ok] by simp_all
    with True inv show ?thesis
      by (intro exI [of _ "pipes s pi"] exI [of _ s]) (simp add: pipeget_def)
  next
    case ne: False
    have drop_ok: "pipe_ok (pipe_drop ?p)" and tl: "pipe_contents (pipe_drop ?p) = tl (pipe_contents ?p)"
      and hd: "pipe_head ?p = hd (pipe_contents ?p)" and some: "pipe_contents ?p \<noteq> []"
      using pipeq.discard_ok [OF ok ne] pipeq.discard_contents [OF ok ne] pipeq.front_contents [OF ok ne]
        pipeq.empty_iff [OF ok] ne by simp_all
    obtain m' where m: "m = Suc m'" "m' = min k (length (pipe_contents (pipe_drop ?p)))"
      using some Suc.prems(2) tl by (cases "pipe_contents ?p") auto
    let ?s = "with_pipe pi (pipe_drop ?p) s"
    have inv1: "in_pipe pr pi root F ?s" by (rule in_pipe_with_pipe [OF inv drop_ok])
    note uvm = in_pipe_user(2) [OF inv1]
    have wr: "user_writable (mem ?s) root (addr + of_nat i)" using Suc.prems(3) m by (auto dest: spec [of _ 0])
    obtain t where t: "copyout root (addr + of_nat i) [pipe_head ?p] 1 es ?s = Ret 0 es t" "quiet ?s t"
      "uvm_inv t root F" "pte_of (mem t) root = pte_of (mem ?s) root"
      "\<And>x. user_readable (mem ?s) root x \<Longrightarrow>
        user_byte (mem t) root x = (if x = addr + of_nat i then pipe_head ?p else user_byte (mem ?s) root x)"
      by (rule copyout_byte [OF uvm wr, of "pipe_head ?p" es]) (rule that)
    have inv2: "in_pipe pr pi root F t" by (rule in_pipe_quiet [OF inv1 t(2,3)])
    have pt': "pipes t pi = pipe_drop ?p" using quiet_pipes [OF t(2)] by simp
    have wr': "\<forall>j < m'. user_writable (mem t) root (addr + of_nat (Suc i) + of_nat j)"
    proof (intro allI impI)
      fix j assume "j < m'"
      then have "user_writable (mem s) root (addr + of_nat i + of_nat (Suc j))" using Suc.prems(3) m by blast
      then show "user_writable (mem t) root (addr + of_nat (Suc i) + of_nat j)"
        using user_perm_cong(2) [OF t(4)] by (simp add: algebra_simps)
    qed
    obtain q s' where IH: "piperead_copy k pr pi addr (Suc i) es t = Ret (int (Suc i + m')) es s'"
      "quiet (with_pipe pi q t) s'" "in_pipe pr pi root F s'" "pipe_contents q = drop m' (pipe_contents (pipe_drop ?p))"
      "readopen q = readopen (pipe_drop ?p)" "writeopen q = writeopen (pipe_drop ?p)"
      "stored root (addr + of_nat (Suc i)) (pipe_contents (pipe_drop ?p)) m' (mem t) (mem s')"
      using Suc.IH [OF inv2 _ wr'] m(2) by (auto simp: pt')
    have run: "piperead_copy (Suc k) pr pi addr i es s = Ret (int (i + m)) es s'"
      using ne t(1) IH(1) by (simp add: pipeget_def pipeset_run pget_def pt m(1))
    have st: "stored root (addr + of_nat i) (pipe_contents ?p) m (mem s) (mem s')"
    proof -
      have "m' \<le> 512" using m(2) pipeq.bounded [OF drop_ok] by simp
      then have "stored root (addr + of_nat i) (pipe_head ?p # pipe_contents (pipe_drop ?p)) (Suc m') (mem s) (mem s')"
        using t(4,5) IH(7) by (intro stored_Cons [of "mem t"]) (simp_all add: algebra_simps)
      then show ?thesis using some by (simp add: hd tl m(1))
    qed
    have "quiet (with_pipe pi q s) s'"
      using quiet_trans [OF quiet_with_pipe [OF t(2), of pi q] ] IH(2) by simp
    then show ?thesis
      using run IH(3-6) st some
      by (intro exI [of _ q] exI [of _ s'])
        (simp add: m(1) tl drop_Suc, simp add: pipe_drop_def)
  qed
qed

subsection \<open>Through the pipe\<close>

text \<open>Process \<open>pr\<close> runs, no lock it is about to take is held, and its address space is well formed.\<close>

definition pipe_ready :: "nat \<Rightarrow> u64 \<Rightarrow> u64 \<Rightarrow> u64 set \<Rightarrow> 'z pipe_state_scheme \<Rightarrow> bool" where
  "pipe_ready pr pi root F s \<longleftrightarrow> user_ready (PipeLock pi) pr root F s \<and> pipe_ok (pipes s pi)"

lemma pipes_section [simp]: "pipes (entered lk s) = pipes s" "pipes (left lk s) = pipes s"
  by (simp_all add: entered_def pushed_def left_def popped_def)

lemma entered_pipe: "pipe_ready pr pi root F s \<Longrightarrow> in_pipe pr pi root F (entered (PipeLock pi) s)"
  using entered_user [of "PipeLock pi" pr root F s] by (simp add: pipe_ready_def in_pipe_def)

lemma pipe_enter:
  assumes "pipe_ready pr pi root F s"
  shows "myproc es s = Ret (Some pr) es (intr_saved s)"
    "acquire (PipeLock pi) es (intr_saved s) = Ret () es (entered (PipeLock pi) s)"
  using user_enter [of "PipeLock pi" pr root F s es] assms by (simp_all add: pipe_ready_def)

lemmas pipe_leave = user_wake(2) [OF in_pipe_user(1)]

lemma pipewrite_run:
  assumes rdy: "pipe_ready pr pi root F s" and ro: "readopen (pipes s pi)"
    and room: "length (pipe_contents (pipes s pi)) + n \<le> 512"
    and rd: "\<forall>j < n. user_readable (mem s) root (src + of_nat j)"
  shows "\<exists>s'. pipewrite pi src (int n) es s = Ret (int n) es s' \<and> pipe_ok (pipes s' pi) \<and>
    pipe_contents (pipes s' pi) = pipe_contents (pipes s pi) @ user_bytes (mem s) root src n \<and>
    procs s' = woken NPROC (Some (ChanPipeRead pi)) (Some pr) (procs s) \<and>
    writeopen (pipes s' pi) = writeopen (pipes s pi)"
proof -
  let ?e = "entered (PipeLock pi) s"
  note inv = entered_pipe [OF rdy]
  obtain q where q: "pipewrite_loop (Suc (n + length es)) pr pi src (int n) 0 es ?e = Ret (Inr (int n)) es (with_pipe pi q ?e)"
    "pipe_ok q" "pipe_contents q = pipe_contents (pipes s pi) @ user_bytes (mem s) root src n"
    "writeopen q = writeopen (pipes s pi)"
    using pipewrite_loop_run [OF inv, of n 0 "int n" "Suc (n + length es)" src es] ro room rd
    by (auto simp del: pipewrite_loop.simps)
  show ?thesis
    using pipe_enter [OF rdy, of es] pipe_leave [OF in_pipe_with_pipe [OF inv q(2)], of "Some (ChanPipeRead pi)" es] q
    by (simp add: pipewrite_def deref_def del: pipewrite_loop.simps kseq.simps)
qed

lemma piperead_run:
  assumes rdy: "pipe_ready pr pi root F s" and data: "pipe_contents (pipes s pi) \<noteq> [] \<or> \<not> writeopen (pipes s pi)"
    and m: "m = min n (length (pipe_contents (pipes s pi)))"
    and wr: "\<forall>j < m. user_writable (mem s) root (dst + of_nat j)"
  shows "\<exists>s'. piperead pi dst (int n) es s = Ret (int m) es s' \<and>
    pipe_contents (pipes s' pi) = drop m (pipe_contents (pipes s pi)) \<and>
    procs s' = woken NPROC (Some (ChanPipeWrite pi)) (Some pr) (procs s) \<and>
    stored root dst (pipe_contents (pipes s pi)) m (mem s) (mem s')"
proof -
  let ?e = "entered (PipeLock pi) s"
  note inv = entered_pipe [OF rdy]
  have "\<not> (pipe_empty (pipes s pi) \<and> writeopen (pipes s pi))"
    using data pipeq.empty_iff [of "pipes s pi"] rdy by (auto simp: pipe_ready_def)
  then have wait: "piperead_wait pr pi es ?e = Ret True es ?e"
    by (simp add: piperead_wait_def kwaitloop_def pipeget_def)
  obtain q s' where q: "piperead_copy n pr pi dst 0 es ?e = Ret (int m) es s'" "quiet (with_pipe pi q ?e) s'"
    "in_pipe pr pi root F s'" "pipe_contents q = drop m (pipe_contents (pipes s pi))"
    "stored root dst (pipe_contents (pipes s pi)) m (mem s) (mem s')"
    using piperead_copy_run [OF inv, of m n dst 0 es] m wr by auto
  have p: "pipes s' pi = q" "procs s' = procs s"
    using quiet_sel [OF q(2)] quiet_pipes [OF q(2)] by simp_all
  show ?thesis
    using pipe_enter [OF rdy, of es] wait pipe_leave [OF q(3), of "Some (ChanPipeWrite pi)" es] q(1,4,5) p
    by (simp add: piperead_def deref_def del: kseq.simps)
qed

text \<open>
  C6: Bytes go through a pipe unchanged.  A process that writes \<open>n\<close> readable bytes into
  an empty pipe with an open read end (at most the 512 the ring holds) gets \<open>n\<close> back
  without sleeping and wakes the readers.  Whatever runs next, if it leaves this pipe
  alone, a process that then reads \<open>n\<close> bytes into writable memory of its own address
  space gets \<open>n\<close> back, finds exactly the writer's bytes there, wakes the writers and
  leaves the pipe empty.  The 32-bit counters may wrap around on the way.
\<close>

theorem pipe_carries_bytes:
  fixes s :: "'z pipe_state_scheme"
  assumes "pipe_ready pw pi root F s" "readopen (pipes s pi)" "pipe_contents (pipes s pi) = []"
    and "0 < n" "n \<le> 512" "\<forall>j < n. user_readable (mem s) root (src + of_nat j)"
  shows "\<exists>s1. pipewrite pi src (int n) es s = Ret (int n) es s1 \<and> pipe_ok (pipes s1 pi) \<and>
    procs s1 = woken NPROC (Some (ChanPipeRead pi)) (Some pw) (procs s) \<and>
    (\<forall>pr root' F' es' dst. \<forall>s2 :: 'z pipe_state_scheme. pipe_ready pr pi root' F' s2 \<and> pipes s2 pi = pipes s1 pi \<and>
       (\<forall>j < n. user_writable (mem s2) root' (dst + of_nat j)) \<longrightarrow>
       (\<exists>s3. piperead pi dst (int n) es' s2 = Ret (int n) es' s3 \<and>
          user_bytes (mem s3) root' dst n = user_bytes (mem s) root src n \<and>
          procs s3 = woken NPROC (Some (ChanPipeWrite pi)) (Some pr) (procs s2) \<and>
          pipe_contents (pipes s3 pi) = []))"
proof -
  obtain s1 where s1: "pipewrite pi src (int n) es s = Ret (int n) es s1"
    "pipe_contents (pipes s1 pi) = user_bytes (mem s) root src n"
    "procs s1 = woken NPROC (Some (ChanPipeRead pi)) (Some pw) (procs s)" "pipe_ok (pipes s1 pi)"
    using pipewrite_run [OF assms(1,2) _ assms(6)] assms(3,5) by auto
  have "\<exists>s3. piperead pi dst (int n) es' s2 = Ret (int n) es' s3 \<and>
      user_bytes (mem s3) root' dst n = user_bytes (mem s) root src n \<and>
      procs s3 = woken NPROC (Some (ChanPipeWrite pi)) (Some pr) (procs s2) \<and> pipe_contents (pipes s3 pi) = []"
    if rdy: "pipe_ready pr pi root' F' s2" and same: "pipes s2 pi = pipes s1 pi"
      and wr: "\<forall>j < n. user_writable (mem s2) root' (dst + of_nat j)" for pr root' F' es' dst and s2 :: "'z pipe_state_scheme"
  proof -
    have ne: "pipe_contents (pipes s2 pi) \<noteq> []" using same s1(2) assms(4) by (auto simp: user_bytes_def)
    have len: "n = min n (length (pipe_contents (pipes s2 pi)))" using same s1(2) by simp
    obtain s3 where s3: "piperead pi dst (int n) es' s2 = Ret (int n) es' s3"
      "pipe_contents (pipes s3 pi) = []" "procs s3 = woken NPROC (Some (ChanPipeWrite pi)) (Some pr) (procs s2)"
      "stored root' dst (user_bytes (mem s) root src n) n (mem s2) (mem s3)"
      using piperead_run [OF rdy disjI1 [OF ne] len wr, of es'] same s1(2) by auto
    have "user_bytes (mem s3) root' dst n = user_bytes (mem s) root src n"
      using stored_bytes [OF s3(4)] wr assms(5) by (simp add: user_writable_def)
    with s3(1-3) show ?thesis by blast
  qed
  with s1(1,3,4) show ?thesis by blast
qed

lemma ex_system_pipe: "pipe_ready 1 pi 0x87FFF000 {} ex_system"
  using ex_system_ready by (simp add: pipe_ready_def ex_system_sel pipe_defs)

theorem pipe_carries_bytes_witness:
  "\<exists>s1 s3. pipewrite 0x87FFE000 8 3 [] ex_system = Ret 3 [] s1 \<and>
     piperead 0x87FFE000 100 3 [] (ex_system\<lparr>pipes := pipes s1\<rparr>) = Ret 3 [] s3 \<and>
     user_bytes (mem s3) 0x87FFF000 100 3 = user_bytes ex_mem 0x87FFF000 8 3"
proof -
  let ?pi = "0x87FFE000 :: u64"
  have perm: "\<forall>j < 3. user_writable ex_mem 0x87FFF000 (a + of_nat j)" if "a = 8 \<or> a = 100" for a :: u64
    using that ex_writable by (auto simp: word_less_nat_alt unat_word_ariths unat_of_nat)
  have e: "readopen (pipes ex_system ?pi)" "pipe_contents (pipes ex_system ?pi) = []"
    by (simp_all add: ex_system_sel pipe_defs ring_def)
  have rd: "\<forall>j < 3. user_readable (mem ex_system) 0x87FFF000 (8 + of_nat j)"
    using perm [of 8] by (simp add: ex_system_sel user_writable_def)
  obtain s1 where s1: "pipewrite ?pi 8 (int 3) [] ex_system = Ret (int 3) [] s1" "pipe_ok (pipes s1 ?pi)"
    and after: "\<forall>pr root' F' es' dst. \<forall>s2 :: trap_state. pipe_ready pr ?pi root' F' s2 \<and>
       pipes s2 ?pi = pipes s1 ?pi \<and> (\<forall>j < 3. user_writable (mem s2) root' (dst + of_nat j)) \<longrightarrow>
       (\<exists>s3. piperead ?pi dst (int 3) es' s2 = Ret (int 3) es' s3 \<and>
          user_bytes (mem s3) root' dst 3 = user_bytes (mem ex_system) 0x87FFF000 8 3 \<and>
          procs s3 = woken NPROC (Some (ChanPipeWrite ?pi)) (Some pr) (procs s2) \<and>
          pipe_contents (pipes s3 ?pi) = [])"
    using pipe_carries_bytes [OF ex_system_pipe e _ _ rd, of "[]"] by fastforce
  define s2 where "s2 = ex_system\<lparr>pipes := pipes s1\<rparr>"
  have free: "lock_free lk s2" for lk
    using ex_system_free [of lk] by (simp add: s2_def lock_free_def intr_enabled_def)
  have "uvm_inv s2 0x87FFF000 {}"
    by (rule uvm_inv_cong [OF ex_system_uvm]) (simp_all add: s2_def free [unfolded s2_def])
  then have "pipe_ready 1 ?pi 0x87FFF000 {} s2"
    using ex_system_pipe [of ?pi] s1(2) free by (simp add: pipe_ready_def user_ready_def) (simp add: s2_def)
  moreover have "pipes s2 ?pi = pipes s1 ?pi" "\<forall>j < 3. user_writable (mem s2) 0x87FFF000 (100 + of_nat j)"
    using perm [of 100] by (simp_all add: s2_def ex_system_sel)
  ultimately obtain s3 where "piperead ?pi 100 (int 3) [] s2 = Ret (int 3) [] s3"
    "user_bytes (mem s3) 0x87FFF000 100 3 = user_bytes (mem ex_system) 0x87FFF000 8 3"
    using after by blast
  with s1(1) show ?thesis by (auto simp: ex_system_sel s2_def)
qed

text \<open>
  C28: The ring of a pipe is a first-in first-out queue: over any sequence of puts (none
  into a full ring) and takes (none from an empty one), the bytes taken followed by the
  bytes left are the bytes held at the start followed by the bytes put, in order, and
  the ring never holds more than 512 bytes, also across the wrap-around of the counters.
\<close>

theorem pipe_first_in_first_out:
  assumes "pipe_ok p" and "pipeq.run as p = Some (out, p')"
  shows "pipe_contents p @ pipeq.puts as = out @ pipe_contents p' \<and> length (pipe_contents p') \<le> 512"
  using pipeq.run_fifo [OF assms] pipeq.bounded [of p'] by simp

definition ex_pipe :: pipe where
  "ex_pipe = \<lparr>pdata = (\<lambda>_. 0), nread = - 1, nwrite = - 1, readopen = True, writeopen = True\<rparr>"

theorem pipe_first_in_first_out_witness:
  "\<exists>p'. pipeq.run [Inl 7, Inl 8, Inr (), Inl 9] ex_pipe = Some ([7], p') \<and> pipe_contents p' = [8, 9]"
proof -
  have ok: "pipe_ok ex_pipe" and empty: "pipe_contents ex_pipe = []"
    by (simp_all add: ex_pipe_def pipe_defs ring_def)
  obtain out p' where run: "pipeq.run [Inl 7, Inl 8, Inr (), Inl 9] ex_pipe = Some (out, p')" and "out = [7]"
    by (simp add: ex_pipe_def pipe_defs pipe_slot unsigned_minus_1_eq_mask mask_eq_exp_minus_1)
  moreover have "pipe_contents p' = [8, 9]"
    using pipe_first_in_first_out [OF ok run] \<open>out = [7]\<close> by (simp add: empty pipeq.puts_def)
  ultimately show ?thesis by blast
qed

text \<open>
  C39: The closed ends of a pipe.  Writing at least one byte into a pipe whose read end is
  closed returns -1 and leaves every process and the pipe as they were; reading from
  an empty pipe whose write end is closed returns 0 at once, with no byte moved.
\<close>

theorem pipe_closed_ends:
  assumes rdy: "pipe_ready pr pi root F s"
  shows "(\<not> readopen (pipes s pi) \<and> 0 < n \<longrightarrow> pipewrite pi addr n es s = Ret (- 1) es (intr_saved s)) \<and>
    (\<not> writeopen (pipes s pi) \<and> pipe_contents (pipes s pi) = [] \<longrightarrow>
      (\<exists>s'. piperead pi addr n es s = Ret 0 es s' \<and> mem s' = mem s \<and> pipes s' = pipes s))"
proof (intro conjI)
  note inv = entered_pipe [OF rdy]
  have free: "lock_free (PipeLock pi) s" using rdy by (simp add: pipe_ready_def user_ready_def)
  have rel: "release (PipeLock pi) es (entered (PipeLock pi) s) = Ret () es (intr_saved s)"
    using release_section [of "PipeLock pi" "entered (PipeLock pi) s" es] inv left_entered [OF free]
    by (simp add: in_pipe_def in_user_def)
  show "\<not> readopen (pipes s pi) \<and> 0 < n \<longrightarrow> pipewrite pi addr n es s = Ret (- 1) es (intr_saved s)"
    using pipe_enter [OF rdy, of es] rel by (auto simp: pipewrite_def deref_def pipeget_def)
  show "\<not> writeopen (pipes s pi) \<and> pipe_contents (pipes s pi) = [] \<longrightarrow>
      (\<exists>s'. piperead pi addr n es s = Ret 0 es s' \<and> mem s' = mem s \<and> pipes s' = pipes s)"
  proof (intro impI)
    assume closed: "\<not> writeopen (pipes s pi) \<and> pipe_contents (pipes s pi) = []"
    then have wait: "piperead_wait pr pi es (entered (PipeLock pi) s) = Ret True es (entered (PipeLock pi) s)"
      by (simp add: piperead_wait_def kwaitloop_def pipeget_def)
    have emp: "pipe_empty (pipes s pi)"
      using closed pipeq.empty_iff [of "pipes s pi"] rdy by (simp add: pipe_ready_def)
    then have copy: "piperead_copy k pr pi addr 0 es (entered (PipeLock pi) s) = Ret 0 es (entered (PipeLock pi) s)" for k
      by (cases k) (simp_all add: pipeget_def)
    show "\<exists>s'. piperead pi addr n es s = Ret 0 es s' \<and> mem s' = mem s \<and> pipes s' = pipes s"
      using pipe_enter [OF rdy, of es] wait copy pipe_leave [OF inv, of "Some (ChanPipeWrite pi)" es]
      by (simp add: piperead_def deref_def left_def popped_def del: kseq.simps)
  qed
qed

definition ex_closed :: trap_state where
  "ex_closed = ex_system\<lparr>pipes := (\<lambda>_. ex_pipe\<lparr>readopen := False, writeopen := False\<rparr>)\<rparr>"

theorem pipe_closed_ends_witness:
  "pipewrite 0x87FFE000 8 3 [] ex_closed = Ret (- 1) [] (intr_saved ex_closed) \<and>
     (\<exists>s'. piperead 0x87FFE000 8 3 [] ex_closed = Ret 0 [] s' \<and> mem s' = ex_mem)"
proof -
  have free: "lock_free lk ex_closed" for lk
    using ex_system_free [of lk] by (simp add: ex_closed_def lock_free_def intr_enabled_def)
  have p: "pipes ex_closed pi = ex_pipe\<lparr>readopen := False, writeopen := False\<rparr>" "mem ex_closed = ex_mem" for pi
    by (simp_all add: ex_closed_def ex_system_sel)
  have "uvm_inv ex_closed 0x87FFF000 {}"
    by (rule uvm_inv_cong [OF ex_system_uvm]) (simp_all add: ex_closed_def free [unfolded ex_closed_def])
  moreover have "procs ex_closed = procs ex_system" "cur ex_closed = cur ex_system"
      "noff (mycpu_of ex_closed) = noff (mycpu_of ex_system)" by (simp_all add: ex_closed_def)
  ultimately have "pipe_ready 1 0x87FFE000 0x87FFF000 {} ex_closed"
    using ex_system_pipe [of "0x87FFE000"] free by (simp add: pipe_ready_def user_ready_def p pipe_ok_def ex_pipe_def)
  from pipe_closed_ends [OF this, of 3 8 "[]"] show ?thesis
    by (auto simp: p ex_pipe_def pipe_contents_def ring_def)
qed

end
