(* ===== verification/Console_Correct.thy ===== *)
theory Console_Correct
  imports User_Copy Ring
begin

text \<open>
  The console: what is typed is edited on a line and handed over, a line at a time,
  to the process that reads.
\<close>

subsection \<open>Echoing\<close>

text \<open>The device is always ready to take a character, and the kernel has not panicked.\<close>

definition echo_ready :: "'z uart_state_scheme \<Rightarrow> bool" where
  "echo_ready s \<longleftrightarrow> \<not> panicked s \<and> (\<forall>k. uart_in s LSR k AND LSR_TX_IDLE \<noteq> 0)"

definition echoed :: "'z uart_state_scheme \<Rightarrow> 'z uart_state_scheme \<Rightarrow> u8 list \<Rightarrow> bool" where
  "echoed s s' w \<longleftrightarrow> (\<exists>k. s' = s\<lparr>uart_clock := k, uart_writes := uart_writes s @ map (Pair THR) w\<rparr>)"

lemma popped_uart:
  "popped (s\<lparr>uart_clock := k, uart_writes := w\<rparr>) = (popped s)\<lparr>uart_clock := k, uart_writes := w\<rparr>"
  by (cases s) (simp add: popped_def intr_enabled_def)

lemma pushed_uart:
  "uart_clock (pushed s) = uart_clock s" "uart_writes (pushed s) = uart_writes s"
  "uart_in (pushed s) = uart_in s" "panicked (pushed s) = panicked s"
  by (simp_all add: pushed_def)

lemma uartputc_sync_section:
  assumes "in_section lk s" "echo_ready s"
  shows "\<exists>s'. uartputc_sync c es s = Ret () es s' \<and> echoed s s' [ucast c]"
proof -
  have idle: "uart_in s 5 (uart_clock s) AND LSR_TX_IDLE \<noteq> 0" "\<not> panicked s"
    using assms(2) by (simp_all add: echo_ready_def)
  let ?u = "\<lambda>x. x\<lparr>uart_clock := uart_clock s + 2, uart_writes := uart_writes s @ [(THR, ucast c)]\<rparr>"
  have m: "\<not> intr_enabled (?u (pushed s))" "1 \<le> noff (mycpu_of (?u (pushed s)))"
    using assms(1) by (simp_all add: pushed_def intr_enabled_def in_section_def lock_mine_def)
  have "popped (pushed s) = s"
    using popped_pushed [of s] section_saved [OF assms(1)] by simp
  then have "pop_off es (?u (pushed s)) = Ret () es (?u s)"
    using pop_off_run [OF m, of es] by (simp only: popped_uart)
  then have "uartputc_sync c es s = Ret () es (?u s)"
    using idle section_saved(2) [OF assms(1)] by (simp add: cpu_ok_def uartputc_sync_def push_off_run uart_wait_idle.simps WriteReg_def pushed_uart)
  then show ?thesis by (auto simp: echoed_def)
qed

lemma echoed_trans: "echoed s s' w \<Longrightarrow> echoed s' s'' w' \<Longrightarrow> echoed s s'' (w @ w')"
  by (auto simp: echoed_def)

lemma echoed_keeps:
  assumes "echoed s s' w"
  shows "in_section lk s' = in_section lk s" "echo_ready s' = echo_ready s"
    "uart_writes s' = uart_writes s @ map (Pair THR) w" "uart_state.more s' = uart_state.more s"
  using assms in_section_frame [of s' s lk] by (auto simp: echoed_def echo_ready_def)

definition echo_of :: "u32 \<Rightarrow> u8 list" where
  "echo_of c = (if c = BACKSPACE then [8, 32, 8] else [ucast c])"

lemma consputc_section:
  assumes "in_section lk s" "echo_ready s"
  obtains s' where "consputc c es s = Ret () es s'" "echoed s s' (echo_of c)"
proof (cases "c = BACKSPACE")
  case False
  then show thesis
    using uartputc_sync_section [OF assms, of c es] that by (auto simp: consputc_def echo_of_def)
next
  case True
  obtain s1 where s1: "uartputc_sync 8 es s = Ret () es s1" "echoed s s1 [8]"
    using uartputc_sync_section [OF assms, of 8 es] by auto
  note k1 = echoed_keeps [OF s1(2)]
  obtain s2 where s2: "uartputc_sync 32 es s1 = Ret () es s2" "echoed s1 s2 [32]"
    using uartputc_sync_section [of lk s1 32 es] k1 assms by auto
  note k2 = echoed_keeps [OF s2(2)]
  obtain s3 where s3: "uartputc_sync 8 es s2 = Ret () es s3" "echoed s2 s3 [8]"
    using uartputc_sync_section [of lk s2 8 es] k1 k2 assms by auto
  have "echoed s s3 ([8] @ [32] @ [8])"
    using echoed_trans [OF s1(2) echoed_trans [OF s2(2) s3(2)]] .
  with True s1(1) s2(1) s3(1) show thesis by (intro that [of s3]) (simp_all add: consputc_def echo_of_def)
qed

subsection \<open>Line editing\<close>

text \<open>The input buffer: the lines handed over, and the line being typed.\<close>

definition cons_ready :: "'z cons_state_scheme \<Rightarrow> bytes" where
  "cons_ready s = ring 128 (cons_buf s) (cons_r s) (cons_w s)"

definition cons_line :: "'z cons_state_scheme \<Rightarrow> bytes" where
  "cons_line s = ring 128 (cons_buf s) (cons_w s) (cons_e s)"

definition cons_ok :: "'z cons_state_scheme \<Rightarrow> bool" where
  "cons_ok s \<longleftrightarrow> unat (cons_w s - cons_r s) + unat (cons_e s - cons_w s) = unat (cons_e s - cons_r s) \<and>
     unat (cons_e s - cons_r s) \<le> 128 \<and> 0x0A \<notin> set (cons_line s)"

text \<open>What a key does to the two, and what it writes to the screen.\<close>

definition hands_over :: "u32 \<Rightarrow> bytes \<Rightarrow> bytes \<Rightarrow> bool" where
  "hands_over c rd ln \<longleftrightarrow> c = 0x0A \<or> c = 0x0D \<or> c = 4 \<or> Suc (length rd + length ln) = 128"

definition accepts :: "u32 \<Rightarrow> bytes \<Rightarrow> bytes \<Rightarrow> bool" where
  "accepts c rd ln \<longleftrightarrow> c \<noteq> 21 \<and> c \<noteq> 8 \<and> c \<noteq> 127 \<and> c \<noteq> 0 \<and> length rd + length ln < 128"

definition key_byte :: "u32 \<Rightarrow> u8" where
  "key_byte c = (if c = 0x0D then 0x0A else ucast c)"

definition console_key :: "u32 \<Rightarrow> bytes \<times> bytes \<Rightarrow> bytes \<times> bytes" where
  "console_key c = (\<lambda>(rd, ln).
     if c = 21 then (rd, [])
     else if c = 8 \<or> c = 127 then (rd, butlast ln)
     else if \<not> accepts c rd ln then (rd, ln)
     else if hands_over c rd ln then (rd @ ln @ [key_byte c], [])
     else (rd, ln @ [key_byte c]))"

definition console_echo :: "u32 \<Rightarrow> bytes \<times> bytes \<Rightarrow> u8 list" where
  "console_echo c = (\<lambda>(rd, ln).
     if c = 21 then concat (replicate (length ln) [8, 32, 8])
     else if c = 8 \<or> c = 127 then (if ln = [] then [] else [8, 32, 8])
     else if accepts c rd ln then [key_byte c] else [])"

lemma Ctrl_simps: "Ctrl CHR ''P'' = 16" "Ctrl CHR ''U'' = 21" "Ctrl CHR ''H'' = 8" "Ctrl CHR ''D'' = 4"
  by (simp_all add: Ctrl_def of_char_def)

lemma cons_ring_size: "ring_size TYPE(32) 128"
  by (simp add: ring_size_def)

lemma cons_slot: "unat ((w :: u32) mod 128) = unat w mod 128"
  using ring_slot [OF cons_ring_size, of w] by simp

text \<open>What erasing does: the end of the line moves, and something is echoed.\<close>

definition edited :: "'z cons_state_scheme \<Rightarrow> 'z cons_state_scheme \<Rightarrow> u32 \<Rightarrow> u8 list \<Rightarrow> bool" where
  "edited s s' e w \<longleftrightarrow>
     (\<exists>k. s' = s\<lparr>uart_clock := k, uart_writes := uart_writes s @ map (Pair THR) w, cons_e := e\<rparr>)"

lemma edited_simps: "edited s s (cons_e s) []" "echoed (s\<lparr>cons_e := e\<rparr>) s' w \<Longrightarrow> edited s s' e w"
  by (cases s; force simp: edited_def echoed_def)+

lemma edited_trans: "edited s s' e w \<Longrightarrow> edited s' s'' e' w' \<Longrightarrow> edited s s'' e' (w @ w')"
  by (auto simp: edited_def)

lemma edited_keeps:
  assumes "edited s s' e w"
  shows "in_section lk s' = in_section lk s" "echo_ready s' = echo_ready s" "procs s' = procs s" "cur s' = cur s"
    "uart_writes s' = uart_writes s @ map (Pair THR) w" "cons_buf s' = cons_buf s"
    "cons_r s' = cons_r s" "cons_w s' = cons_w s" "cons_e s' = e"
  using assms in_section_frame [of s' s lk] by (auto simp: edited_def echo_ready_def)

lemma erase_run:
  assumes "in_section lk s" "echo_ready s"
  shows "\<exists>s'. kseq [kmodify (\<lambda>s. s\<lparr>cons_e := cons_e s - 1\<rparr>), consputc BACKSPACE] es s = Ret () es s' \<and>
    edited s s' (cons_e s - 1) [8, 32, 8]"
proof -
  let ?t = "s\<lparr>cons_e := cons_e s - 1\<rparr>"
  have "in_section lk ?t" "echo_ready ?t"
    using assms in_section_frame [of ?t s lk] by (simp_all add: echo_ready_def)
  then obtain s' where "consputc BACKSPACE es ?t = Ret () es s'" "echoed ?t s' (echo_of BACKSPACE)"
    by (rule consputc_section)
  then show ?thesis using edited_simps(2) [of "cons_e s - 1" s s' "[8, 32, 8]"] by (simp add: echo_of_def)
qed

lemma cons_line_last:
  assumes "cons_e s \<noteq> cons_w s"
  shows "cons_buf s (unat ((cons_e s - 1) mod 128)) = last (cons_line s)" "cons_line s \<noteq> []"
  using assms ring_last [OF cons_ring_size, of "cons_w s" "cons_e s" "cons_buf s"]
    ring_empty_iff [of 128 "cons_buf s" "cons_w s" "cons_e s"]
  by (auto simp: cons_line_def cons_slot)

lemma consoleintr_kill_run:
  fixes s :: "'z cons_state_scheme"
  assumes "in_section lk s" "echo_ready s" "0x0A \<notin> set (cons_line s)"
  shows "\<exists>s'. consoleintr_kill es s = Ret () es s' \<and>
    edited s s' (cons_w s) (concat (replicate (length (cons_line s)) [8, 32, 8]))"
proof -
  define body :: "('z cons_state_scheme, unit option) kmon" where "body = kbind (kget (\<lambda>s. cons_e s \<noteq> cons_w s \<and>
      cons_buf s (unat ((cons_e s - 1) mod INPUT_BUF_SIZE)) \<noteq> 0x0A)) (\<lambda>more.
    if more then kbind (kmodify (\<lambda>s. s\<lparr>cons_e := cons_e s - 1\<rparr>)) (\<lambda>_.
      kbind (consputc BACKSPACE) (\<lambda>_. kret None))
    else kret (Some ()))"
  have "\<exists>s'. kloop (Suc n) body es s = Ret () es s' \<and> edited s s' (cons_w s) (concat (replicate n [8, 32, 8]))"
    if "n = length (cons_line s)" "in_section lk s" "echo_ready s" "0x0A \<notin> set (cons_line s)" for n and s :: "'z cons_state_scheme"
    using that
  proof (induction n arbitrary: s)
    case 0
    then have "cons_e s = cons_w s" using cons_line_last(2) by fastforce
    then show ?case using edited_simps(1) [of s] by (simp add: body_def)
  next
    case (Suc n)
    then have ne: "cons_e s \<noteq> cons_w s" by (auto simp: cons_line_def)
    have "last (cons_line s) \<noteq> 0x0A" using Suc.prems(4) cons_line_last(2) [OF ne] by (metis last_in_set)
    then have nl: "cons_buf s (unat ((cons_e s - 1) mod 128)) \<noteq> 0x0A" using cons_line_last(1) [OF ne] by simp
    obtain t where t: "kseq [kmodify (\<lambda>s. s\<lparr>cons_e := cons_e s - 1\<rparr>), consputc BACKSPACE] es s = Ret () es t"
      "edited s t (cons_e s - 1) [8, 32, 8]"
      using erase_run [OF Suc.prems(2,3)] by blast
    note k = edited_keeps [OF t(2)]
    have line: "cons_line t = butlast (cons_line s)"
      using ring_unput [of "cons_w s" "cons_e s" 128 "cons_buf s"] ne by (simp add: cons_line_def k)
    obtain s' where s': "kloop (Suc n) body es t = Ret () es s'"
      "edited t s' (cons_w t) (concat (replicate n [8, 32, 8]))"
    proof -
      have "n = length (cons_line t)" "in_section lk t" "echo_ready t" "0x0A \<notin> set (cons_line t)"
        using Suc.prems k(1) [of lk] k(2) line by (auto dest: in_set_butlastD)
      from Suc.IH [OF this] show thesis using that by blast
    qed
    have "body es s = Ret None es t"
      using t(1) ne nl by (simp add: body_def split: outcome.splits)
    then have "kloop (Suc (Suc n)) body es s = Ret () es s'"
      using s'(1) by (simp del: kloop.simps add: kloop.simps(2) [of "Suc n"])
    with edited_trans [OF t(2) s'(2)] k show ?case by auto
  qed
  from this [OF refl assms] show ?thesis
    unfolding body_def by (simp add: consoleintr_kill_def cons_line_def del: kloop.simps)
qed

text \<open>The effect of a key on the whole state, once \<^verbatim>\<open>cons.lock\<close> is held.\<close>

definition keyed :: "u32 \<Rightarrow> 'z cons_state_scheme \<Rightarrow> 'z cons_state_scheme \<Rightarrow> bool" where
  "keyed c s s' \<longleftrightarrow> cons_ok s' \<and>
     (cons_ready s', cons_line s') = console_key c (cons_ready s, cons_line s) \<and>
     uart_writes s' = uart_writes s @ map (Pair THR) (console_echo c (cons_ready s, cons_line s)) \<and>
     procs s' = (if accepts c (cons_ready s) (cons_line s) \<and> hands_over c (cons_ready s) (cons_line s)
       then woken NPROC (Some ChanConsR) (cur s) (procs s) else procs s)"

lemma cons_put:
  assumes "cons_ok s" "length (cons_ready s) + length (cons_line s) < 128"
    and t: "cons_buf t = (cons_buf s)(unat (cons_e s mod 128) := x)" "cons_e t = cons_e s + 1"
      "cons_r t = cons_r s" "cons_w t = cons_w s"
  shows "cons_ready t = cons_ready s" "cons_line t = cons_line s @ [x]"
    "unat (cons_w t - cons_r t) + unat (cons_e t - cons_w t) = unat (cons_e t - cons_r t)"
    "unat (cons_e t - cons_r t) = Suc (length (cons_ready s) + length (cons_line s))"
proof -
  let ?r = "cons_r s" and ?w = "cons_w s" and ?e = "cons_e s"
  have n: "unat (?w - ?r) + unat (?e - ?w) = unat (?e - ?r)" using assms(1) by (simp add: cons_ok_def)
  have lt: "unat (?e - ?r) < 128" "unat (?e - ?w) < 128"
    using assms(2) n by (simp_all add: cons_ready_def cons_line_def)
  have suc: "unat (?e + 1 - ?r) = Suc (unat (?e - ?r))" "unat (?e + 1 - ?w) = Suc (unat (?e - ?w))"
    using ring_distance_Suc [OF lt(1)] ring_distance_Suc [OF lt(2)] by simp_all
  show line: "cons_line t = cons_line s @ [x]"
    using ring_put [OF cons_ring_size lt(2)] by (simp add: cons_line_def t cons_slot)
  have "ring 128 (cons_buf t) ?r (?e + 1) = ring 128 (cons_buf s) ?r ?e @ [x]"
    using ring_put [OF cons_ring_size lt(1)] by (simp add: t cons_slot)
  moreover have "ring 128 (cons_buf t) ?r (?e + 1) = cons_ready t @ cons_line t"
    unfolding cons_ready_def cons_line_def t(2-4) by (rule ring_append) (simp_all add: suc n [symmetric])
  moreover have "ring 128 (cons_buf s) ?r ?e = cons_ready s @ cons_line s"
    unfolding cons_ready_def cons_line_def by (rule ring_append) (simp_all add: n)
  ultimately show "cons_ready t = cons_ready s" using line by simp
  show "unat (cons_w t - cons_r t) + unat (cons_e t - cons_w t) = unat (cons_e t - cons_r t)"
    "unat (cons_e t - cons_r t) = Suc (length (cons_ready s) + length (cons_line s))"
    by (simp_all add: t suc n cons_ready_def cons_line_def)
qed

lemma cons_flush:
  assumes "unat (cons_w t - cons_r t) + unat (cons_e t - cons_w t) = unat (cons_e t - cons_r t)"
    and u: "cons_buf u = cons_buf t" "cons_e u = cons_e t" "cons_r u = cons_r t" "cons_w u = cons_e t"
  shows "cons_ready u = cons_ready t @ cons_line t" "cons_line u = []"
  using ring_append [OF _ assms(1), of 128 "cons_buf t"] by (simp_all add: cons_ready_def cons_line_def u ring_empty_iff)

lemma consoleintr_char_run:
  assumes sec: "in_section lk s" and rdy: "echo_ready s" and ok: "cons_ok s" and c: "c < 256" "c \<notin> {21, 8, 127}"
  shows "\<exists>s'. consoleintr_char c es s = Ret () es s' \<and> in_section lk s' \<and> keyed c s s'"
proof -
  let ?rd = "cons_ready s" and ?ln = "cons_line s"
  have room: "cons_e s - cons_r s < 128 \<longleftrightarrow> length ?rd + length ?ln < 128"
    using ok by (simp add: cons_ok_def cons_ready_def cons_line_def word_less_nat_alt)
  show ?thesis
  proof (cases "accepts c ?rd ?ln")
    case False
    then have "c = 0 \<or> \<not> cons_e s - cons_r s < 128" using c(2) room by (auto simp: accepts_def)
    then have "consoleintr_char c es s = Ret () es s" by (auto simp: consoleintr_char_def)
    then show ?thesis using sec ok c False by (auto simp: keyed_def console_key_def console_echo_def)
  next
    case True
    then have acc: "c \<noteq> 0" "length ?rd + length ?ln < 128" by (auto simp: accepts_def)
    define k where "k = (if c = 0x0D then 0x0A else c)"
    obtain e where e: "consputc k es s = Ret () es e" "echoed s e (echo_of k)"
      using consputc_section [OF sec rdy] by blast
    have kb: "ucast k = key_byte c" "echo_of k = [key_byte c]"
      using c(1) by (auto simp: k_def key_byte_def echo_of_def BACKSPACE_def)
    define t where "t = e\<lparr>cons_buf := (cons_buf e)(unat (cons_e e mod 128) := key_byte c), cons_e := cons_e e + 1\<rparr>"
    have es: "cons_buf e = cons_buf s" "cons_e e = cons_e s" "cons_r e = cons_r s" "cons_w e = cons_w s"
      "procs e = procs s" "cur e = cur s"
      using e(2) by (auto simp: echoed_def)
    have t: "cons_buf t = (cons_buf s)(unat (cons_e s mod 128) := key_byte c)" "cons_e t = cons_e s + 1"
      "cons_r t = cons_r s" "cons_w t = cons_w s" "procs t = procs s" "cur t = cur s"
      "uart_writes t = uart_writes s @ [(THR, key_byte c)]"
      using es echoed_keeps(3) [OF e(2)] by (simp_all add: t_def kb)
    note put = cons_put [OF ok acc(2) t(1-4)]
    have sect: "in_section lk t"
      using sec echoed_keeps(1) [OF e(2), of lk] in_section_frame [of t e lk] by (simp add: t_def)
    have full: "cons_e t - cons_r t = 128 \<longleftrightarrow> Suc (length ?rd + length ?ln) = 128"
      using put(4) by (auto simp: word_unat_eq_iff)
    have over: "k = 0x0A \<or> k = 4 \<or> cons_e t - cons_r t = 128 \<longleftrightarrow> hands_over c ?rd ?ln"
      by (auto simp: hands_over_def k_def full)
    have run: "consoleintr_char c es s = kwhen (hands_over c ?rd ?ln) (kseq [
        kmodify (\<lambda>s. s\<lparr>cons_w := cons_e s\<rparr>), wakeup (Some ChanConsR)]) es t"
      using acc room e(1) over
      by (simp add: consoleintr_char_def k_def [symmetric] kb t_def [symmetric] Ctrl_simps del: kseq.simps)
    show ?thesis
    proof (cases "hands_over c ?rd ?ln")
      case over: True
      define u where "u = t\<lparr>cons_w := cons_e t\<rparr>"
      define v where "v = u\<lparr>procs := woken NPROC (Some ChanConsR) (cur s) (procs s)\<rparr>"
      have secu: "in_section lk u" using sect in_section_frame [of u t lk] by (simp add: u_def)
      have wk: "wakeup (Some ChanConsR) es u = Ret () es v"
        using wakeup_section [OF secu, of "Some ChanConsR" es] by (simp add: v_def u_def t)
      have "cons_ready v = ?rd @ ?ln @ [key_byte c]" "cons_line v = []"
        using cons_flush [OF put(3), of v] put by (simp_all add: v_def u_def)
      moreover have "unat (cons_e v - cons_r v) \<le> 128" "cons_w v = cons_e v"
        using put(4) acc(2) by (simp_all add: v_def u_def)
      ultimately have "keyed c s v"
        using c(2) True over t by (simp add: keyed_def cons_ok_def console_key_def console_echo_def v_def u_def)
      moreover have "in_section lk v" using secu by (simp add: v_def)
      moreover have "consoleintr_char c es s = Ret () es v" using run over wk by (simp add: u_def)
      ultimately show ?thesis by blast
    next
      case over: False
      then have "key_byte c \<noteq> 0x0A"
        using c(1) by (auto simp: hands_over_def key_byte_def word_unat_eq_iff word_less_nat_alt unsigned_ucast_eq take_bit_eq_mod)
      moreover have "0x0A \<notin> set ?ln" using ok by (simp add: cons_ok_def)
      ultimately have "keyed c s t"
        using c(2) True over t put acc(2)
        by (simp add: keyed_def cons_ok_def console_key_def console_echo_def)
      then show ?thesis using run over sect by simp
    qed
  qed
qed

lemma cons_erase:
  assumes "cons_ok s" "unat (e - cons_w s) \<le> unat (cons_e s - cons_w s)"
    and t: "cons_buf t = cons_buf s" "cons_r t = cons_r s" "cons_w t = cons_w s" "cons_e t = e"
      "set (cons_line t) \<subseteq> set (cons_line s)"
  shows "cons_ok t" "cons_ready t = cons_ready s"
proof -
  let ?a = "cons_w s - cons_r s" and ?b = "e - cons_w s"
  have "unat ?a + unat ?b < 2 ^ 32" using assms(1,2) by (simp add: cons_ok_def)
  then have "unat (?a + ?b) = unat ?a + unat ?b" by (subst unat_word_ariths) simp
  moreover have "?a + ?b = e - cons_r s" by simp
  ultimately have "unat (e - cons_r s) = unat ?a + unat ?b" by (simp only:)
  with assms show "cons_ok t" by (auto simp: cons_ok_def)
  show "cons_ready t = cons_ready s" by (simp add: cons_ready_def t)
qed

lemma consoleintr_key:
  assumes sec: "in_section lk s" and rdy: "echo_ready s" and ok: "cons_ok s" and c: "c < 256" "c \<noteq> 16"
  shows "\<exists>s'. (if c = Ctrl CHR ''P'' then procdump
      else if c = Ctrl CHR ''U'' then consoleintr_kill
      else if c = Ctrl CHR ''H'' \<or> c = 0x7F then
        kbind (kget (\<lambda>s. cons_e s \<noteq> cons_w s)) (\<lambda>b.
        kwhen b (kseq [kmodify (\<lambda>s. s\<lparr>cons_e := cons_e s - 1\<rparr>), consputc BACKSPACE]))
      else consoleintr_char c) es s = Ret () es s' \<and> in_section lk s' \<and> keyed c s s'"
proof -
  have nl: "0x0A \<notin> set (cons_line s)" using ok by (simp add: cons_ok_def)
  consider "c = 21" | "c = 8 \<or> c = 127" "cons_e s = cons_w s" | "c = 8 \<or> c = 127" "cons_e s \<noteq> cons_w s"
    | "c \<notin> {21, 8, 127}" by blast
  then show ?thesis
  proof cases
    case 1
    obtain s' where s': "consoleintr_kill es s = Ret () es s'"
      "edited s s' (cons_w s) (concat (replicate (length (cons_line s)) [8, 32, 8]))"
      using consoleintr_kill_run [OF sec rdy nl] by blast
    note k = edited_keeps [OF s'(2)]
    have line: "cons_line s' = []" by (simp add: cons_line_def k ring_empty_iff)
    have "keyed c s s'"
      using cons_erase [OF ok, of "cons_w s" s'] line
      by (simp add: keyed_def 1 console_key_def console_echo_def accepts_def k)
    with s'(1) k(1) [of lk] sec show ?thesis by (simp add: 1 Ctrl_simps)
  next
    case 2
    then have "cons_line s = []" by (simp add: cons_line_def ring_empty_iff)
    with 2 ok have "keyed c s s"
      by (auto simp: keyed_def console_key_def console_echo_def accepts_def)
    with 2 sec show ?thesis by (auto simp: Ctrl_simps)
  next
    case 3
    obtain s' where s': "kseq [kmodify (\<lambda>s. s\<lparr>cons_e := cons_e s - 1\<rparr>), consputc BACKSPACE] es s = Ret () es s'"
      "edited s s' (cons_e s - 1) [8, 32, 8]"
      using erase_run [OF sec rdy] by blast
    note k = edited_keeps [OF s'(2)]
    have line: "cons_line s' = butlast (cons_line s)"
      using ring_unput [of "cons_w s" "cons_e s" 128 "cons_buf s"] 3(2) by (simp add: cons_line_def k)
    have "unat (cons_e s - 1 - cons_w s) \<le> unat (cons_e s - cons_w s)"
      using ring_distance_pred(2) [of "cons_w s" "cons_e s"] 3(2) by simp
    then have "keyed c s s'"
      using cons_erase [OF ok, of "cons_e s - 1" s'] line 3(1) cons_line_last(2) [OF 3(2)] in_set_butlastD
      by (fastforce simp: keyed_def console_key_def console_echo_def accepts_def k)
    with s'(1) k(1) [of lk] sec 3 show ?thesis by (auto simp: Ctrl_simps simp del: kseq.simps)
  next
    case 4
    with consoleintr_char_run [OF sec rdy ok c(1) 4, of es] c(2) show ?thesis by (simp add: Ctrl_simps)
  qed
qed

text \<open>
  C13: Typing at the console.  For every character the UART can deliver, but Control-P,
  \<^verbatim>\<open>consoleintr\<close> returns and does to the input buffer what the editing keys mean:
  Control-U erases the line being typed, backspace and delete its last character; any
  other character is appended (a carriage return as a newline) unless it is 0 or the
  buffer is full; the line is handed over to the readers, who are woken, at the end of
  a line, at Control-D and when the buffer fills up.  Nothing handed over is changed,
  the echo on the screen follows the line, the 32-bit indices may wrap around, and the
  buffer's invariant is kept.  The counter \<^verbatim>\<open>noff\<close> must have room for the two levels it nests.
\<close>

theorem console_line_editing:
  assumes "lock_free ConsLock s" "\<forall>p < NPROC. lock_free (ProcLock p) s" "echo_ready s" "cons_ok s"
    and "c < 256" "c \<noteq> 16" "noff (mycpu_of s) + 1 < INT_MAX"
  shows "\<exists>s'. consoleintr c es s = Ret () es s' \<and> cons_ok s' \<and>
    (cons_ready s', cons_line s') = console_key c (cons_ready s, cons_line s) \<and>
    uart_writes s' = uart_writes s @ map (Pair THR) (console_echo c (cons_ready s, cons_line s)) \<and>
    procs s' = (if accepts c (cons_ready s) (cons_line s) \<and> hands_over c (cons_ready s) (cons_line s)
      then woken NPROC (Some ChanConsR) (cur s) (procs s) else procs s)"
proof -
  define e where "e = entered ConsLock s"
  have acq: "acquire ConsLock es s = Ret () es e" using assms(1) by (simp add: acquire_run lock_free_def e_def)
  have sec: "in_section ConsLock e" unfolding e_def by (rule in_section_entered [OF assms(1,2)]) (use assms(7) in simp_all)
  have same: "cons_ready e = cons_ready s" "cons_line e = cons_line s" "cons_ok e = cons_ok s" "cur e = cur s"
    "procs e = procs s" "uart_writes e = uart_writes s" "echo_ready e = echo_ready s"
    by (simp_all add: e_def cons_ready_def cons_line_def cons_ok_def echo_ready_def)
      (simp_all add: entered_def pushed_def)
  note body = consoleintr_key [OF sec _ _ assms(5,6), of es]
  obtain t where t: "consoleintr c es s = Ret () es (left ConsLock t)" "keyed c e t"
  proof -
    have "echo_ready e" "cons_ok e" using assms(3,4) same by simp_all
    from body [OF this] obtain t where run: "(if c = Ctrl CHR ''P'' then procdump
        else if c = Ctrl CHR ''U'' then consoleintr_kill
        else if c = Ctrl CHR ''H'' \<or> c = 0x7F then
          kbind (kget (\<lambda>s. cons_e s \<noteq> cons_w s)) (\<lambda>b.
          kwhen b (kseq [kmodify (\<lambda>s. s\<lparr>cons_e := cons_e s - 1\<rparr>), consputc BACKSPACE]))
        else consoleintr_char c) es e = Ret () es t"
      and t: "in_section ConsLock t" "keyed c e t" by blast
    have "consoleintr c es s = Ret () es (left ConsLock t)"
      by (simp only: consoleintr_def kseq.simps kbind_apply acq outcome.case
        run [unfolded kseq.simps] release_section [OF t(1)] kret_apply)
    from that [OF this t(2)] show thesis .
  qed
  moreover have "cons_ok (left ConsLock t) = cons_ok t" "cons_ready (left ConsLock t) = cons_ready t"
    "cons_line (left ConsLock t) = cons_line t" "uart_writes (left ConsLock t) = uart_writes t"
    by (simp_all add: cons_ok_def cons_ready_def cons_line_def) (simp_all add: left_def popped_def)
  ultimately show ?thesis using t(2) by (simp add: keyed_def same)
qed

definition ex_typed :: trap_state where
  "ex_typed = ex_system\<lparr>cons_buf := (\<lambda>_. 0x61), cons_r := - 2, cons_w := - 1, cons_e := 1\<rparr>"

lemma ex_typed_ready:
  "lock_free lk ex_typed" "noff (mycpu_of ex_typed) + 1 < INT_MAX" "echo_ready ex_typed" "cons_ok ex_typed"
  "cons_ready ex_typed = [0x61]" "cons_line ex_typed = [0x61, 0x61]"
proof -
  show "lock_free lk ex_typed" using ex_system_free [of lk] by (simp add: ex_typed_def lock_free_def intr_enabled_def)
  show "noff (mycpu_of ex_typed) + 1 < INT_MAX" using ex_system_room by (simp add: ex_typed_def)
  show "echo_ready ex_typed" by (simp add: echo_ready_def ex_typed_def ex_system_def LSR_TX_IDLE_def)
  show line: "cons_line ex_typed = [0x61, 0x61]" by (simp add: cons_line_def ring_def ex_typed_def upt_rec)
  show "cons_ready ex_typed = [0x61]" by (simp add: cons_ready_def ring_def ex_typed_def)
  show "cons_ok ex_typed" by (simp add: cons_ok_def line) (simp add: ex_typed_def)
qed

theorem console_line_editing_witness:
  "\<exists>s'. consoleintr 13 [] ex_typed = Ret () [] s' \<and> cons_ready s' = [0x61, 0x61, 0x61, 0x0A] \<and> cons_line s' = []"
  using console_line_editing [of ex_typed 13 "[]"] ex_typed_ready
  by (auto simp: console_key_def accepts_def hands_over_def key_byte_def)

subsection \<open>Reading a line\<close>

text \<open>
  What a read of \<open>n\<close> bytes takes: at most a line.  Control-D ends a read; it is left
  for the next one unless it comes first, when the read gives nothing.
\<close>

fun console_take :: "nat \<Rightarrow> bool \<Rightarrow> bytes \<Rightarrow> bytes \<times> bytes" where
  "console_take 0 first rd = ([], rd)"
| "console_take (Suc n) first [] = ([], [])"
| "console_take (Suc n) first (c # rd) =
     (if c = 4 then ([], if first then rd else c # rd)
      else if c = 0x0A then ([c], rd)
      else apfst ((#) c) (console_take n False rd))"

definition whole_line :: "nat \<Rightarrow> bytes \<Rightarrow> bool" where
  "whole_line n rd \<longleftrightarrow> n \<le> length rd \<or> 4 \<in> set rd \<or> 0x0A \<in> set rd"

lemma unat_u8_less: "unat (x :: u8) < 256"
  by (rule order_less_le_trans [OF unsigned_less]) simp

lemma quiet_cons:
  "quiet s s' \<Longrightarrow> cons_buf s' = cons_buf s \<and> cons_r s' = cons_r s \<and> cons_w s' = cons_w s \<and> cons_e s' = cons_e s"
  by (cases s; cases s'; simp add: quiet_def)

lemma length_console_take: "length (fst (console_take n first rd)) \<le> n"
  by (induction n first rd rule: console_take.induct) simp_all

lemma either_copyout_user:
  assumes "in_user lk pr root F s"
  shows "either_copyout (UserDst va) src len es s = copyout root va src len es s"
  using assms myproc_section [of lk s es]
  by (simp add: either_copyout_def in_user_def deref_def pget_def)

lemma consoleread_loop_run:
  assumes "in_user ConsLock pr root F s" "whole_line n (cons_ready s)"
    "console_take n (n = target) (cons_ready s) = (a, b)" "n \<le> target" "target < 2 ^ 64"
    "\<forall>j < length a. user_writable (mem s) root (va + of_nat j)"
  shows "\<exists>s'. consoleread_loop n target (UserDst va) es s = Ret (Some (n - length a)) es s' \<and>
    in_user ConsLock pr root F s' \<and> stored root va a (length a) (mem s) (mem s') \<and> procs s' = procs s \<and>
    cons_ready s' = b \<and> cons_line s' = cons_line s"
  using assms
proof (induction n arbitrary: s va a b)
  case 0
  then show ?case by auto
next
  case (Suc n)
  note inv = Suc.prems(1)
  obtain c rd where rd: "cons_ready s = c # rd" using Suc.prems(2) by (cases "cons_ready s") (auto simp: whole_line_def)
  have ne: "cons_r s \<noteq> cons_w s" using rd ring_empty_iff [of 128 "cons_buf s" "cons_r s" "cons_w s"] by (auto simp: cons_ready_def)
  have get: "c = cons_buf s (unat (cons_r s mod 128))" "rd = ring 128 (cons_buf s) (cons_r s + 1) (cons_w s)"
    using ring_get [OF cons_ring_size ne, of "cons_buf s"] rd by (simp_all add: cons_ready_def cons_slot)
  have wait: "consoleread_wait es s = Ret True es s"
    using ne by (simp add: consoleread_wait_def kwaitloop_def)
  let ?t = "s\<lparr>cons_r := cons_r s + 1\<rparr>"
  have t: "cons_ready ?t = rd" "cons_line ?t = cons_line s" by (simp_all add: cons_ready_def cons_line_def get)
  have invt: "in_user ConsLock pr root F ?t" by (rule in_user_frame [OF inv]) simp_all
  have c4: "ucast c = Ctrl CHR ''D'' \<longleftrightarrow> c = 4"
    using unat_u8_less [of c] by (simp add: Ctrl_simps word_unat_eq_iff unsigned_ucast_eq take_bit_eq_mod)
  show ?case
  proof (cases "c = 4")
    case True
    then have a: "a = []" "b = (if Suc n = target then rd else c # rd)" using Suc.prems(3) rd by (auto split: if_splits)
    show ?thesis
    proof (cases "Suc n = target")
      case eq: True
      have "consoleread_loop (Suc n) target (UserDst va) es s = Ret (Some (Suc n)) es ?t"
        using wait c4 True get(1) by (simp add: eq [symmetric])
      with invt t a eq show ?thesis by auto
    next
      case False
      then have "consoleread_loop (Suc n) target (UserDst va) es s = Ret (Some (Suc n)) es s"
        using wait c4 True get(1) Suc.prems(4) by simp
      with inv rd a False show ?thesis by simp
    qed
  next
    case False
    obtain a' where a': "a = c # a'" using Suc.prems(3) rd False
      by (cases "console_take n False rd") (auto split: if_splits)
    have wr: "user_writable (mem ?t) root va" using Suc.prems(6) a' by (auto dest: spec [of _ 0])
    have uvm: "uvm_inv ?t root F" using invt by (simp add: in_user_def)
    obtain u where u: "copyout root va [c] 1 es ?t = Ret 0 es u" "quiet ?t u" "uvm_inv u root F"
      "pte_of (mem u) root = pte_of (mem ?t) root"
      "\<And>x. user_readable (mem ?t) root x \<Longrightarrow> user_byte (mem u) root x = (if x = va then c else user_byte (mem ?t) root x)"
      by (rule copyout_byte [OF uvm wr, of c es]) (rule that)
    have invu: "in_user ConsLock pr root F u" by (rule in_user_quiet [OF invt u(2,3)])
    have ru: "cons_ready u = rd" "cons_line u = cons_line s" "procs u = procs s"
      using quiet_cons [OF u(2)] quiet_sel(1) [OF u(2)] t by (simp_all add: cons_ready_def cons_line_def)
    have out: "either_copyout (UserDst va) [c] 1 es ?t = Ret 0 es u" using either_copyout_user [OF invt] u(1) by simp
    have cons: "stored root va (c # bs) (Suc m) (mem s) m2"
      if "stored root (va + 1) bs m (mem u) m2" "Suc m < 2 ^ 64" for bs m m2
      using stored_Cons [OF _ _ that] u(4,5) by simp
    show ?thesis
    proof (cases "c = 0x0A")
      case True
      then have "a = [c]" "b = rd" using Suc.prems(3) rd False by simp_all
      moreover have "consoleread_loop (Suc n) target (UserDst va) es s = Ret (Some n) es u"
        using wait c4 False True get(1) out by simp
      ultimately show ?thesis
        using invu ru cons [of "[]" 0 "mem u"] by simp
    next
      case nl: False
      have IHa: "console_take n False rd = (a', b)"
        using Suc.prems(3) rd False nl a' by (cases "console_take n False rd") auto
      have "n \<noteq> target" using Suc.prems(4) by simp
      moreover have "whole_line n (cons_ready u)" using Suc.prems(2) False nl by (simp add: whole_line_def ru rd)
      moreover have "\<forall>j < length (a'). user_writable (mem u) root (va + 1 + of_nat j)"
      proof (intro allI impI)
        fix j assume "j < length (a')"
        then have "Suc j < length a" using a' by simp
        then have "user_writable (mem s) root (va + of_nat (Suc j))" using Suc.prems(6) by blast
        then show "user_writable (mem u) root (va + 1 + of_nat j)"
          using user_perm_cong(2) [OF u(4)] by (simp add: algebra_simps)
      qed
      ultimately obtain s' where s': "consoleread_loop n target (UserDst (va + 1)) es u = Ret (Some (n - length (a'))) es s'"
        "in_user ConsLock pr root F s'" "stored root (va + 1) (a') (length (a')) (mem u) (mem s')"
        "procs s' = procs s" "cons_ready s' = b" "cons_line s' = cons_line s"
        using Suc.IH [OF invu, of "a'" b "va + 1"] IHa Suc.prems(4,5) ru by auto
      moreover have "consoleread_loop (Suc n) target (UserDst va) es s = Ret (Some (Suc n - length a)) es s'"
        using wait c4 False nl get(1) out s'(1) a' by (simp add: dest_add_def)
      moreover have "stored root va a (length a) (mem s) (mem s')"
        using cons [OF s'(3)] a' length_console_take [of n False rd] IHa Suc.prems(4,5) by simp
      ultimately show ?thesis by blast
    qed
  qed
qed

text \<open>
  C27: Reading from the console.  If what was handed over holds \<open>n\<close> bytes, a newline or
  a Control-D, a process that reads \<open>n\<close> bytes returns without sleeping with the bytes
  up to \<open>n\<close>, the first newline (included) or the first Control-D (left for the next
  read unless it comes first), finds them in its own memory, and takes exactly those
  out of the buffer; the line being typed is untouched.
\<close>

theorem console_read_takes_a_line:
  assumes "user_ready ConsLock pr root F s" "whole_line n (cons_ready s)" "n < 2 ^ 31"
    "console_take n True (cons_ready s) = (a, b)" "\<forall>j < length a. user_writable (mem s) root (va + of_nat j)"
  shows "\<exists>s'. consoleread (UserDst va) (int n) es s = Ret (int (length a)) es s' \<and>
    user_bytes (mem s') root va (length a) = a \<and> cons_ready s' = b \<and> cons_line s' = cons_line s \<and>
    procs s' = procs s"
proof -
  let ?e = "entered ConsLock s"
  have inv: "in_user ConsLock pr root F ?e" using entered_user [OF assms(1)] by simp
  have same: "cons_ready ?e = cons_ready s" "cons_line ?e = cons_line s"
    by (simp_all add: cons_ready_def cons_line_def) (simp_all add: entered_def pushed_def)
  have a: "length a \<le> n" using length_console_take [of n True "cons_ready s"] assms(4) by simp
  obtain t where t: "consoleread_loop n n (UserDst va) es ?e = Ret (Some (n - length a)) es t"
    "in_user ConsLock pr root F t" "stored root va a (length a) (mem s) (mem t)" "procs t = procs s"
    "cons_ready t = b" "cons_line t = cons_line s"
    using consoleread_loop_run [OF inv, of n n a b va es] assms(2-5) by (auto simp: same)
  have "release ConsLock es t = Ret () es (left ConsLock t)"
    using release_section [of ConsLock t es] t(2) by (simp add: in_user_def)
  then have run: "consoleread (UserDst va) (int n) es s = Ret (int (length a)) es (left ConsLock t)"
    using user_enter(2) [OF assms(1)] t(1) a by (simp add: consoleread_def del: consoleread_loop.simps)
  have "cons_ready (left ConsLock t) = b" "cons_line (left ConsLock t) = cons_line s"
    using t(5,6) by (simp_all add: cons_ready_def cons_line_def) (simp_all add: left_def popped_def)
  moreover have "user_bytes (mem t) root va (length a) = a"
    using stored_bytes [OF t(3)] assms(3,5) a by (simp add: user_writable_def)
  ultimately show ?thesis using run t(4) by simp
qed

definition ex_line :: trap_state where
  "ex_line = ex_system\<lparr>cons_buf := (\<lambda>i. if i = 1 then 0x0A else 0x61), cons_r := 0, cons_w := 3, cons_e := 4\<rparr>"

theorem console_read_takes_a_line_witness:
  "\<exists>s'. consoleread (UserDst 100) 10 [] ex_line = Ret 2 [] s' \<and>
     user_bytes (mem s') 0x87FFF000 100 2 = [0x61, 0x0A] \<and> cons_ready s' = [0x61]"
proof -
  have free: "lock_free lk ex_line" for lk
    using ex_system_free [of lk] by (simp add: ex_line_def lock_free_def intr_enabled_def)
  have sel: "procs ex_line = procs ex_system" "cur ex_line = cur ex_system"
    "noff (mycpu_of ex_line) = noff (mycpu_of ex_system)" "mem ex_line = ex_mem"
    by (simp_all add: ex_line_def ex_system_sel)
  have "uvm_inv ex_line 0x87FFF000 {}"
    by (rule uvm_inv_cong [OF ex_system_uvm _ _ _ free]) (simp_all add: ex_line_def)
  then have rdy: "user_ready ConsLock 1 0x87FFF000 {} ex_line"
    using ex_system_ready [of ConsLock] free by (simp add: user_ready_def sel)
  have line: "cons_ready ex_line = [0x61, 0x0A, 0x61]"
    by (simp add: cons_ready_def ring_def ex_line_def upt_rec)
  have "console_take (Suc (Suc 8)) True (cons_ready ex_line) = ([0x61, 0x0A], [0x61])"
    by (simp only: line console_take.simps) simp
  then have take: "console_take 10 True (cons_ready ex_line) = ([0x61, 0x0A], [0x61])" by simp
  have "\<forall>j < 2. user_writable (mem ex_line) 0x87FFF000 (100 + of_nat j)"
    using ex_writable by (auto simp: sel word_less_nat_alt unat_word_ariths unat_of_nat)
  then show ?thesis
    using console_read_takes_a_line [OF rdy _ _ take, of 100 "[]"] by (auto simp: line whole_line_def numeral_2_eq_2 [symmetric])
qed

end
