(* ===== verification/Bio_Correct.thy ===== *)
theory Bio_Correct
  imports User_Copy
begin

text \<open>
  The buffer cache (\<^verbatim>\<open>kernel/bio.c\<close>): the links of the buffers form a list in order of use,
  \<^verbatim>\<open>brelse\<close> moves a buffer to its front, and \<^verbatim>\<open>bget\<close> finds a block or recycles the least
  recently used buffer, so that no block is cached twice.
\<close>

subsection \<open>Doubly linked segments\<close>

text \<open>From \<open>a\<close> over the elements of the list to \<open>z\<close>, along \<open>N\<close> and back along \<open>P\<close>.\<close>

primrec seg :: "(nat \<Rightarrow> nat) \<Rightarrow> (nat \<Rightarrow> nat) \<Rightarrow> nat \<Rightarrow> nat list \<Rightarrow> nat \<Rightarrow> bool" where
  "seg N P a [] z \<longleftrightarrow> N a = z \<and> P z = a"
| "seg N P a (x # xs) z \<longleftrightarrow> N a = x \<and> P x = a \<and> seg N P x xs z"

lemma seg_append: "seg N P a (xs @ x # ys) z \<longleftrightarrow> seg N P a xs x \<and> seg N P x ys z"
  by (induction xs arbitrary: a) auto

lemma seg_cong:
  "(\<And>x. x \<in> set (a # xs) \<Longrightarrow> N' x = N x) \<Longrightarrow> (\<And>x. x \<in> set (xs @ [z]) \<Longrightarrow> P' x = P x) \<Longrightarrow> seg N P a xs z \<Longrightarrow> seg N' P' a xs z"
  by (induction xs arbitrary: a) auto

lemma seg_first: "seg N P a xs z \<Longrightarrow> N a = hd (xs @ [z])"
  by (cases xs) auto

lemma seg_last: "seg N P a xs z \<Longrightarrow> P z = last (a # xs)"
  by (induction xs arbitrary: a) auto

text \<open>The end of a segment is made to point elsewhere.\<close>

lemma seg_retarget:
  "seg N P a xs z \<Longrightarrow> distinct (a # xs) \<Longrightarrow> z' \<notin> set xs \<Longrightarrow> p = last (a # xs) \<Longrightarrow> seg (N(p := z')) (P(z' := p)) a xs z'"
  by (induction xs arbitrary: a) auto

lemma seg_unlink:
  assumes "seg N P h (us @ b # vs) h" "distinct (h # us @ b # vs)"
  shows "seg (N(P b := N b)) (P(N b := P b)) h (us @ vs) h"
proof -
  have s: "seg N P h us b" "seg N P b vs h" using assms(1) by (simp_all add: seg_append)
  note n = seg_first [OF s(2)] and p = seg_last [OF s(1)]
  have d: "distinct (h # us)" using assms(2) by simp
  show ?thesis
  proof (cases vs)
    case Nil
    then show ?thesis using seg_retarget [OF s(1) d _ p] assms(2) n by simp
  next
    case (Cons v ws)
    then have nv: "N b = v" using n by simp
    have "v \<notin> set us" using assms(2) Cons by auto
    then have r: "seg (N(P b := v)) (P(v := P b)) h us v" by (rule seg_retarget [OF s(1) d _ p])
    have "P b \<in> set (h # us)" unfolding p by (rule last_in_set) simp
    then have pb: "P b \<notin> set (v # ws)" using assms(2) by (auto simp: Cons)
    have "v \<notin> set (ws @ [h])" using assms(2) by (simp add: Cons)
    moreover have sv: "seg N P v ws h" using s(2) by (simp add: Cons)
    ultimately have "seg (N(P b := v)) (P(v := P b)) v ws h"
      using pb by (intro seg_cong [OF _ _ sv]) auto
    then show ?thesis using r unfolding nv Cons seg_append by simp
  qed
qed

lemma seg_push:
  assumes "seg N P h ws h" "distinct (h # ws)" "b \<notin> set (h # ws)"
  shows "seg (N(b := N h, h := b)) (P(b := h, N h := b)) h (b # ws) h"
proof (cases ws)
  case Nil
  then show ?thesis using assms by auto
next
  case (Cons w vs)
  then have n: "N h = w" and sg: "seg N P w vs h" using assms(1) by simp_all
  have d: "b \<notin> set (w # vs)" "h \<notin> set (w # vs)" "w \<notin> set (vs @ [h])" "b \<notin> set (vs @ [h])"
    using assms(2,3) by (auto simp: Cons)
  then have "seg (N(b := w, h := b)) (P(b := h, w := b)) w vs h"
    by (intro seg_cong [OF _ _ sg]) auto
  then show ?thesis using d unfolding n Cons by simp
qed

subsection \<open>The list of the buffers\<close>

abbreviation nexts :: "(nat \<Rightarrow> buf) \<Rightarrow> nat \<Rightarrow> nat" where "nexts f \<equiv> \<lambda>b. bnext (f b)"
abbreviation prevs :: "(nat \<Rightarrow> buf) \<Rightarrow> nat \<Rightarrow> nat" where "prevs f \<equiv> \<lambda>b. bprev (f b)"

text \<open>The buffers in order of use, the last used one first.\<close>

definition lru :: "(nat \<Rightarrow> buf) \<Rightarrow> nat list \<Rightarrow> bool" where
  "lru f xs \<longleftrightarrow> distinct xs \<and> set xs = {..<NBUF} \<and> seg (nexts f) (prevs f) NBUF xs NBUF"

lemma lruD:
  assumes "lru f xs"
  shows "distinct (NBUF # xs)" "set xs = {..<NBUF}" "seg (nexts f) (prevs f) NBUF xs NBUF" "length xs = NBUF"
proof -
  have L: "distinct xs" "set xs = {..<NBUF}" "seg (nexts f) (prevs f) NBUF xs NBUF" using assms by (simp_all only: lru_def)
  show "set xs = {..<NBUF}" "seg (nexts f) (prevs f) NBUF xs NBUF" by (rule L)+
  have "NBUF \<notin> set xs" unfolding L(2) by simp
  then show "distinct (NBUF # xs)" using L(1) by simp
  show "length xs = NBUF" using distinct_card [OF L(1), symmetric] unfolding L(2) by (simp only: card_lessThan)
qed

definition link_next :: "nat \<Rightarrow> nat \<Rightarrow> (nat \<Rightarrow> buf) \<Rightarrow> nat \<Rightarrow> buf" where
  "link_next a n f = f(a := (f a)\<lparr>bnext := n\<rparr>)"

definition link_prev :: "nat \<Rightarrow> nat \<Rightarrow> (nat \<Rightarrow> buf) \<Rightarrow> nat \<Rightarrow> buf" where
  "link_prev a p f = f(a := (f a)\<lparr>bprev := p\<rparr>)"

lemma link_sel [simp]:
  "bnext (link_next a n f x) = (if x = a then n else bnext (f x))" "bprev (link_next a n f x) = bprev (f x)"
  "bnext (link_prev a p f x) = bnext (f x)" "bprev (link_prev a p f x) = (if x = a then p else bprev (f x))"
  by (simp_all add: link_next_def link_prev_def)

lemma link_run:
  "bufset a (\<lambda>r. r\<lparr>bnext := n\<rparr>) es s = Ret () es (s\<lparr>bufs := link_next a n (bufs s)\<rparr>)"
  "bufset a (\<lambda>r. r\<lparr>bprev := p\<rparr>) es s = Ret () es (s\<lparr>bufs := link_prev a p (bufs s)\<rparr>)"
  by (simp_all add: bufset_def link_next_def link_prev_def)

text \<open>What \<^verbatim>\<open>brelse_move\<close> does to the buffers; only links change.\<close>

definition moved :: "nat \<Rightarrow> (nat \<Rightarrow> buf) \<Rightarrow> nat \<Rightarrow> buf" where
  "moved b f0 =
     (let f1 = link_prev (bnext (f0 b)) (bprev (f0 b)) f0;
          f2 = link_next (bprev (f1 b)) (bnext (f1 b)) f1;
          f3 = link_next b (bnext (f2 NBUF)) f2;
          f4 = link_prev b NBUF f3;
          f5 = link_prev (bnext (f4 NBUF)) b f4
      in link_next NBUF b f5)"

lemma brelse_move_run: "brelse_move b es s = Ret () es (s\<lparr>bufs := moved b (bufs s)\<rparr>)"
  unfolding brelse_move_def bufget_def moved_def Let_def by (simp add: link_run del: link_sel)

definition same_buf :: "buf \<Rightarrow> buf \<Rightarrow> bool" where
  "same_buf r q \<longleftrightarrow> bvalid r = bvalid q \<and> bdisk r = bdisk q \<and> bdev r = bdev q \<and> bblockno r = bblockno q \<and>
     brefcnt r = brefcnt q \<and> bdata r = bdata q"

lemma same_buf_refl: "same_buf r r"
  by (simp add: same_buf_def)

lemma link_same: "same_buf (link_next a n f x) q \<longleftrightarrow> same_buf (f x) q" "same_buf (link_prev a p f x) q \<longleftrightarrow> same_buf (f x) q"
  by (simp_all add: same_buf_def link_next_def link_prev_def)

lemma moved_same: "same_buf (moved b f c) (f c)"
  by (simp only: moved_def Let_def link_same) (simp add: same_buf_def)

lemma moved_lru:
  assumes "lru f xs" "b < NBUF"
  shows "lru (moved b f) (b # remove1 b xs)"
proof -
  note L = lruD [OF assms(1)]
  obtain us vs where xs: "xs = us @ b # vs" using L(2) assms(2) split_list [of b xs] by auto
  have d: "distinct (NBUF # us @ b # vs)" and sg: "seg (nexts f) (prevs f) NBUF (us @ b # vs) NBUF"
    using L(1,3) unfolding xs .
  have nb: "bnext (f b) \<noteq> b" "bprev (f b) \<noteq> b" "b \<noteq> NBUF"
  proof -
    have "seg (nexts f) (prevs f) NBUF us b" "seg (nexts f) (prevs f) b vs NBUF" using sg by (simp_all add: seg_append)
    then have "bnext (f b) = hd (vs @ [NBUF])" "bprev (f b) = last (NBUF # us)" using seg_first seg_last by blast+
    then show "bnext (f b) \<noteq> b" "bprev (f b) \<noteq> b" "b \<noteq> NBUF" using d last_in_set [of "NBUF # us"] by (cases vs; auto)+
  qed
  let ?N = "(nexts f)(bprev (f b) := bnext (f b))" and ?P = "(prevs f)(bnext (f b) := bprev (f b))"
  have "b \<notin> set (NBUF # us @ vs)" "distinct (NBUF # us @ vs)" using d by simp_all
  then have "seg (?N(b := ?N NBUF, NBUF := b)) (?P(b := NBUF, ?N NBUF := b)) NBUF (b # us @ vs) NBUF"
    using seg_push [OF seg_unlink [OF sg d]] by blast
  moreover have "nexts (moved b f) = ?N(b := ?N NBUF, NBUF := b)" "prevs (moved b f) = ?P(b := NBUF, ?N NBUF := b)"
    using nb by (auto simp: moved_def Let_def fun_eq_iff)
  moreover have "remove1 b xs = us @ vs" using d by (simp add: xs remove1_append)
  moreover have "insert b (set (us @ vs)) = {..<NBUF}" using L(2) xs by auto
  ultimately show ?thesis using d by (simp add: lru_def)
qed

text \<open>\<^verbatim>\<open>binit\<close> makes the list.\<close>

definition binit_step :: "nat \<Rightarrow> ('z disk_state_scheme, unit) kmon" where
  "binit_step b = kbind (bufget NBUF bnext) (\<lambda>nx. kseq [
     bufset b (\<lambda>r. r\<lparr>bnext := nx\<rparr>),
     bufset b (\<lambda>r. r\<lparr>bprev := NBUF\<rparr>),
     initsleeplock (BufLock b) ''buffer'',
     kbind (bufget NBUF bnext) (\<lambda>nx'. bufset nx' (\<lambda>r. r\<lparr>bprev := b\<rparr>)),
     bufset NBUF (\<lambda>h. h\<lparr>bnext := b\<rparr>)])"

lemma init_run:
  "\<exists>s'. initlock lk n es s = Ret () es s' \<and> lock_state.more s' = lock_state.more s"
  "\<exists>s'. initsleeplock l m es t = Ret () es s' \<and> bufs s' = bufs (t :: 'z disk_state_scheme)"
  by (simp_all add: initlock_def initsleeplock_def sl_set_def cpu_op_defs)

lemma binit_step_run:
  assumes sg: "seg (nexts (bufs s)) (prevs (bufs s)) NBUF ws NBUF" and d: "distinct (NBUF # ws)" "b \<notin> set (NBUF # ws)"
  shows "\<exists>s'. binit_step b es s = Ret () es s' \<and> seg (nexts (bufs s')) (prevs (bufs s')) NBUF (b # ws) NBUF"
proof -
  let ?f = "link_prev b NBUF (link_next b (bnext (bufs s NBUF)) (bufs s))"
  obtain t where t: "initsleeplock (BufLock b) ''buffer'' es (s\<lparr>bufs := ?f\<rparr>) = Ret () es t" "bufs t = ?f"
    using init_run(2) [of "BufLock b" "''buffer''" es "s\<lparr>bufs := ?f\<rparr>"] by auto
  let ?g = "link_next NBUF b (link_prev (bnext (bufs s NBUF)) b ?f)"
  have n: "bnext (?f NBUF) = bnext (bufs s NBUF)" using d(2) by simp
  have r: "binit_step b es s = Ret () es (t\<lparr>bufs := ?g\<rparr>)"
    unfolding binit_step_def bufget_def using t n by (simp add: link_run del: link_sel)
  have g: "nexts ?g = (nexts (bufs s))(b := bnext (bufs s NBUF), NBUF := b)"
      "prevs ?g = (prevs (bufs s))(b := NBUF, bnext (bufs s NBUF) := b)"
    by (auto simp: fun_eq_iff)
  have "seg (nexts ?g) (prevs ?g) NBUF (b # ws) NBUF" unfolding g by (rule seg_push [OF sg d])
  moreover have "bufs (t\<lparr>bufs := ?g\<rparr>) = ?g" by simp
  ultimately show ?thesis using r by metis
qed

lemma binit_lru: "\<exists>s'. binit es s = Ret () es s' \<and> lru (bufs s') (rev [0..<NBUF])"
proof -
  obtain s0 where s0: "initlock BcacheLock ''bcache'' es s = Ret () es s0" using init_run(1) by blast
  let ?s1 = "s0\<lparr>bufs := link_next NBUF NBUF (link_prev NBUF NBUF (bufs s0))\<rparr>"
  have "n \<le> NBUF \<Longrightarrow> \<exists>s'. kfor [0..<n] binit_step es ?s1 = Ret () es s' \<and>
      seg (nexts (bufs s')) (prevs (bufs s')) NBUF (rev [0..<n]) NBUF" for n
  proof (induction n)
    case (Suc n)
    then obtain t where t: "kfor [0..<n] binit_step es ?s1 = Ret () es t" "seg (nexts (bufs t)) (prevs (bufs t)) NBUF (rev [0..<n]) NBUF"
      by auto
    have "distinct (NBUF # rev [0..<n])" "n \<notin> set (NBUF # rev [0..<n])" using Suc.prems by simp_all
    from binit_step_run [OF t(2) this] obtain s' where "binit_step n es t = Ret () es s'"
        "seg (nexts (bufs s')) (prevs (bufs s')) NBUF (n # rev [0..<n]) NBUF" by blast
    then show ?case using t(1) by (simp add: kfor_append)
  qed simp
  from this [of NBUF] obtain s' where s': "kfor [0..<NBUF] binit_step es ?s1 = Ret () es s'"
      "seg (nexts (bufs s')) (prevs (bufs s')) NBUF (rev [0..<NBUF]) NBUF" by blast
  have "binit es s = kfor [0..<NBUF] binit_step es ?s1"
    unfolding binit_def binit_step_def using s0 by (simp add: link_run del: upt.simps kfor.simps)
  moreover have "lru (bufs s') (rev [0..<NBUF])"
    unfolding lru_def using s'(2) by (simp only: distinct_rev distinct_upt set_rev set_upt atLeast0LessThan simp_thms)
  ultimately show ?thesis using s'(1) by auto
qed

subsection \<open>The two searches\<close>

lemma bget_cached_run:
  assumes "seg (nexts (bufs s)) P a xs NBUF" "NBUF \<notin> set xs" "length xs < k"
  shows "bget_cached k dev bn (hd (xs @ [NBUF])) es s = Ret (find (\<lambda>b. bdev (bufs s b) = dev \<and> bblockno (bufs s b) = bn) xs) es s"
  using assms
proof (induction xs arbitrary: a k)
  case Nil
  then show ?case by (cases k) simp_all
next
  case (Cons x xs)
  then obtain m where k: "k = Suc m" by (cases k) auto
  have "seg (nexts (bufs s)) P x xs NBUF" "bnext (bufs s x) = hd (xs @ [NBUF])" "x \<noteq> NBUF"
    using Cons.prems(1,2) seg_first [of "nexts (bufs s)" P x xs NBUF] by auto
  then show ?case using Cons.IH [of x m] Cons.prems(2,3) by (simp add: k)
qed

lemma bget_recycle_run:
  assumes "seg N (prevs (bufs s)) NBUF xs z" "NBUF \<notin> set xs" "length xs < k"
  shows "bget_recycle k (last (NBUF # xs)) es s = Ret (find (\<lambda>b. brefcnt (bufs s b) = 0) (rev xs)) es s"
  using assms
proof (induction xs arbitrary: z k rule: rev_induct)
  case Nil
  then show ?case by (cases k) simp_all
next
  case (snoc x xs)
  then obtain m where k: "k = Suc m" by (cases k) auto
  have sx: "seg N (prevs (bufs s)) NBUF xs x" and x: "x \<noteq> NBUF" using snoc.prems(1,2) by (simp_all add: seg_append)
  have l: "last (NBUF # xs @ [x]) = x" by simp
  have "bget_recycle m (bprev (bufs s x)) es s = Ret (find (\<lambda>b. brefcnt (bufs s b) = 0) (rev xs)) es s"
    unfolding seg_last [OF sx] using snoc.IH [OF sx] snoc.prems(2,3) by (simp add: k)
  then show ?case unfolding l using x by (simp add: k)
qed

text \<open>The buffer for a block, and what becomes of it.\<close>

definition bget_choice :: "(nat \<Rightarrow> buf) \<Rightarrow> nat list \<Rightarrow> u32 \<Rightarrow> u32 \<Rightarrow> (nat \<times> buf) option" where
  "bget_choice f xs dev bn =
     (case find (\<lambda>b. bdev (f b) = dev \<and> bblockno (f b) = bn) xs of
        Some b \<Rightarrow> Some (b, (f b)\<lparr>brefcnt := brefcnt (f b) + 1\<rparr>)
      | None \<Rightarrow> map_option (\<lambda>b. (b, (f b)\<lparr>bdev := dev, bblockno := bn, bvalid := False, brefcnt := 1\<rparr>))
          (find (\<lambda>b. brefcnt (f b) = 0) (rev xs)))"

subsection \<open>Critical sections that change buffers\<close>

lemma left_entered_cache:
  "lock_free lk s \<Longrightarrow> left lk ((entered lk s)\<lparr>bufs := h\<rparr>) = (intr_saved s)\<lparr>bufs := h\<rparr>"
  "lock_free lk s' \<Longrightarrow> left lk ((entered lk s')\<lparr>sleeplocks := g\<rparr>) = (intr_saved s')\<lparr>sleeplocks := g\<rparr>"
  "lock_free lk s' \<Longrightarrow> left lk ((entered lk s')\<lparr>sleeplocks := g, procs := f\<rparr>) = (intr_saved s')\<lparr>sleeplocks := g, procs := f\<rparr>"
  by (cases s; auto simp: left_def entered_def pushed_def popped_def intr_saved_def lock_free_def
      intr_enabled_def intr_bit_restore intr_bit_already_off; fail)
    (cases s'; auto simp: left_def entered_def pushed_def popped_def intr_saved_def lock_free_def
      intr_enabled_def intr_bit_restore intr_bit_already_off)+

lemma free_bufs [simp]:
  "lock_free lk (s\<lparr>sleeplocks := g\<rparr>) = lock_free lk s" "lock_free lk (s'\<lparr>bufs := h\<rparr>) = lock_free lk s'"
  "lock_mine lk (s\<lparr>sleeplocks := g\<rparr>) = lock_mine lk s" "lock_mine lk (s'\<lparr>bufs := h\<rparr>) = lock_mine lk s'"
  "lock_mine lk (s''\<lparr>procs := f\<rparr>) = lock_mine lk s''"
  "in_section lk (s\<lparr>sleeplocks := g\<rparr>) = in_section lk s" "in_section lk (s'\<lparr>bufs := h\<rparr>) = in_section lk s'"
  by (simp_all add: lock_free_def lock_mine_def in_section_def intr_enabled_def)

lemma entered_cache [simp]: "bufs (entered lk s) = bufs s" "sleeplocks (entered lk s') = sleeplocks s'"
  "bufs (intr_saved s) = bufs s" "sleeplocks (intr_saved s') = sleeplocks s'"
  by (simp_all add: entered_def pushed_def intr_saved_def)

text \<open>A process that runs with all locks free and room for two more levels of \<^verbatim>\<open>push_off\<close>.\<close>

definition at_rest :: "'z proc_state_scheme \<Rightarrow> nat \<Rightarrow> bool" where
  "at_rest s p \<longleftrightarrow> (\<forall>lk. lock_free lk s) \<and> noff (mycpu_of s) + 1 < INT_MAX \<and> cur s = Some p"

lemma at_rest_enter:
  assumes "at_rest s p"
  shows "acquire lk es s = Ret () es (entered lk s)" "(\<And>q. lk \<noteq> ProcLock q) \<Longrightarrow> in_section lk (entered lk s)" "cur (entered lk s) = Some p"
  using assms by (auto simp: at_rest_def acquire_run lock_free_def intro!: in_section_entered)

lemma at_rest_simps [simp]:
  "at_rest (intr_saved s) p = at_rest s p" "at_rest (s\<lparr>procs := f\<rparr>) p = at_rest s p"
  "at_rest (s'\<lparr>sleeplocks := g\<rparr>) p = at_rest s' p" "at_rest (s''\<lparr>bufs := h\<rparr>) p = at_rest s'' p"
  by (simp_all add: at_rest_def)

definition taken :: "sleeplock \<Rightarrow> int \<Rightarrow> sleeplock" where
  "taken l i = l\<lparr>sl_locked := True, sl_pid := i\<rparr>"

lemma acquiresleep_run:
  assumes r: "at_rest s p" and "\<not> sl_locked (sleeplocks s lk)"
  shows "acquiresleep lk es s =
    Ret () es ((intr_saved s)\<lparr>sleeplocks := (sleeplocks s)(lk := taken (sleeplocks s lk) (pid (procs s p)))\<rparr>)"
proof -
  let ?e = "entered (SleepLk lk) s"
  have sec: "in_section (SleepLk lk) ?e" and fr: "lock_free (SleepLk lk) s"
    using at_rest_enter(2) [OF r, of "SleepLk lk"] r by (simp_all add: at_rest_def)
  have my: "myproc es (?e\<lparr>sleeplocks := g\<rparr>) = Ret (Some p) es (?e\<lparr>sleeplocks := g\<rparr>)" for g
    using myproc_section [of "SleepLk lk" "?e\<lparr>sleeplocks := g\<rparr>" es] sec at_rest_enter(3) [OF r] by simp
  have rel: "release (SleepLk lk) es (?e\<lparr>sleeplocks := g\<rparr>) = Ret () es ((intr_saved s)\<lparr>sleeplocks := g\<rparr>)" for g
    using release_section [of "SleepLk lk" "?e\<lparr>sleeplocks := g\<rparr>" es] sec left_entered_cache(2) [OF fr] by simp
  show ?thesis
    using assms(2) by (simp add: acquiresleep_def at_rest_enter(1) [OF r] kwaitloop_def sl_set_def my rel pget_def deref_def taken_def)
qed

lemma holdingsleep_run:
  assumes r: "at_rest s p"
  shows "holdingsleep lk es s =
    Ret (sl_locked (sleeplocks s lk) \<and> sl_pid (sleeplocks s lk) = pid (procs s p)) es (intr_saved s)"
proof -
  let ?e = "entered (SleepLk lk) s"
  have sec: "in_section (SleepLk lk) ?e" and fr: "lock_free (SleepLk lk) s"
    using at_rest_enter(2) [OF r, of "SleepLk lk"] r by (simp_all add: at_rest_def)
  have "myproc es ?e = Ret (Some p) es ?e" using myproc_section [OF sec, of es] at_rest_enter(3) [OF r] by simp
  moreover have "release (SleepLk lk) es ?e = Ret () es (intr_saved s)"
    using release_section [OF sec, of es] left_entered [OF fr] by simp
  ultimately show ?thesis
    by (simp add: holdingsleep_def at_rest_enter(1) [OF r] pget_def deref_def)
qed

lemma releasesleep_run:
  assumes r: "at_rest s p"
  shows "releasesleep lk es s = Ret () es ((intr_saved s)\<lparr>
    sleeplocks := (sleeplocks s)(lk := (sleeplocks s lk)\<lparr>sl_locked := False, sl_pid := 0\<rparr>),
    procs := woken NPROC (Some (ChanSleep lk)) (Some p) (procs s)\<rparr>)"
proof -
  let ?e = "entered (SleepLk lk) s" and ?l = "(sleeplocks s)(lk := (sleeplocks s lk)\<lparr>sl_locked := False, sl_pid := 0\<rparr>)"
  have sec: "in_section (SleepLk lk) (?e\<lparr>sleeplocks := ?l\<rparr>)" and fr: "lock_free (SleepLk lk) s"
    using at_rest_enter(2) [OF r, of "SleepLk lk"] r by (simp_all add: at_rest_def)
  have "wakeup ch es (?e\<lparr>sleeplocks := ?l\<rparr>) =
      Ret () es (?e\<lparr>sleeplocks := ?l, procs := woken NPROC ch (Some p) (procs s)\<rparr>)" for ch
    using wakeup_section [OF sec, of ch es] at_rest_enter(3) [OF r] by simp
  moreover have "release (SleepLk lk) es (?e\<lparr>sleeplocks := ?l, procs := f\<rparr>) = Ret () es ((intr_saved s)\<lparr>sleeplocks := ?l, procs := f\<rparr>)" for f
    using release_section [of "SleepLk lk" "?e\<lparr>sleeplocks := ?l, procs := f\<rparr>" es] sec left_entered_cache(3) [OF fr] by simp
  ultimately show ?thesis
    by (simp add: releasesleep_def at_rest_enter(1) [OF r] sl_set_def)
qed

lemma intr_saved_cache [simp]:
  "intr_saved (s\<lparr>bufs := h\<rparr>) = (intr_saved s)\<lparr>bufs := h\<rparr>"
  "intr_saved (s'\<lparr>sleeplocks := g\<rparr>) = (intr_saved s')\<lparr>sleeplocks := g\<rparr>"
  by (simp_all add: intr_saved_def intr_enabled_def)

lemma bcache_release:
  assumes r: "at_rest s p"
  shows "release BcacheLock es ((entered BcacheLock s)\<lparr>bufs := h\<rparr>) = Ret () es ((intr_saved s)\<lparr>bufs := h\<rparr>)"
proof -
  have "in_section BcacheLock ((entered BcacheLock s)\<lparr>bufs := h\<rparr>)" "lock_free BcacheLock s"
    using at_rest_enter(2) [OF r, of BcacheLock] r by (simp_all add: at_rest_def)
  then show ?thesis by (simp add: release_section left_entered_cache(1))
qed

subsection \<open>bget and brelse\<close>

lemma bget_run:
  assumes r: "at_rest s p" and l: "lru (bufs s) xs"
  shows "bget_choice (bufs s) xs dev bn = Some (b, q) \<Longrightarrow> \<not> sl_locked (sleeplocks s (BufLock b)) \<Longrightarrow>
      bget dev bn es s = Ret b es ((intr_saved s)\<lparr>bufs := (bufs s)(b := q),
        sleeplocks := (sleeplocks s)(BufLock b := taken (sleeplocks s (BufLock b)) (pid (procs s p)))\<rparr>)"
    and "bget_choice (bufs s) xs dev bn = None \<Longrightarrow> bget dev bn es s = Panic ''bget: no buffers'' (entered BcacheLock s)"
proof -
  let ?e = "entered BcacheLock s" and ?P = "\<lambda>b. bdev (bufs s b) = dev \<and> bblockno (bufs s b) = bn"
  note L = lruD [OF l]
  have n: "NBUF \<notin> set xs" using L(1) by simp
  have c: "bget_cached (Suc NBUF) dev bn (bnext (bufs s NBUF)) es ?e = Ret (find ?P xs) es ?e"
    unfolding seg_first [OF L(3)] using bget_cached_run [of ?e _ NBUF xs "Suc NBUF" dev bn es] L(3,4) n by simp
  have y: "bget_recycle (Suc NBUF) (bprev (bufs s NBUF)) es ?e = Ret (find (\<lambda>b. brefcnt (bufs s b) = 0) (rev xs)) es ?e"
    unfolding seg_last [OF L(3)] using bget_recycle_run [of _ ?e xs NBUF "Suc NBUF" es] L(3,4) n by simp
  note R = at_rest_enter(1) [OF r] bcache_release [OF r]
  have sl: "acquiresleep (BufLock b) es ((intr_saved s)\<lparr>bufs := h\<rparr>) = Ret () es ((intr_saved s)\<lparr>bufs := h,
      sleeplocks := (sleeplocks s)(BufLock b := taken (sleeplocks s (BufLock b)) (pid (procs s p)))\<rparr>)"
    if "\<not> sl_locked (sleeplocks s (BufLock b))" for h
    using acquiresleep_run [of "(intr_saved s)\<lparr>bufs := h\<rparr>" p "BufLock b" es] r that by simp
  show "bget dev bn es s = Ret b es ((intr_saved s)\<lparr>bufs := (bufs s)(b := q),
        sleeplocks := (sleeplocks s)(BufLock b := taken (sleeplocks s (BufLock b)) (pid (procs s p)))\<rparr>)"
    if ch: "bget_choice (bufs s) xs dev bn = Some (b, q)" and fr: "\<not> sl_locked (sleeplocks s (BufLock b))"
  proof (cases "find ?P xs")
    case None
    then show ?thesis
      using ch by (auto simp: bget_choice_def bget_def R c [simplified] y [simplified] bufget_def bufset_def sl [OF fr])
  next
    case (Some a)
    then show ?thesis
      using ch by (auto simp: bget_choice_def bget_def R c [simplified] bufget_def bufset_def sl [OF fr])
  qed
  show "bget dev bn es s = Panic ''bget: no buffers'' (entered BcacheLock s)" if ch: "bget_choice (bufs s) xs dev bn = None"
    using ch by (auto simp: bget_choice_def bget_def R c [simplified] y [simplified] bufget_def split: option.splits)
qed

lemma brelse_run:
  fixes s :: "'z disk_state_scheme" and b :: nat
  assumes r: "at_rest s p"
  defines "f \<equiv> (bufs s)(b := (bufs s b)\<lparr>brefcnt := brefcnt (bufs s b) - 1\<rparr>)"
  shows "sl_locked (sleeplocks s (BufLock b)) \<Longrightarrow> sl_pid (sleeplocks s (BufLock b)) = pid (procs s p) \<Longrightarrow>
      \<exists>s'. brelse b es s = Ret () es s' \<and> bufs s' = (if brefcnt (bufs s b) = 1 then moved b f else f) \<and>
        sleeplocks s' = (sleeplocks s)(BufLock b := (sleeplocks s (BufLock b))\<lparr>sl_locked := False, sl_pid := 0\<rparr>)"
    and "\<not> (sl_locked (sleeplocks s (BufLock b)) \<and> sl_pid (sleeplocks s (BufLock b)) = pid (procs s p)) \<Longrightarrow>
      brelse b es s = Panic ''brelse'' (intr_saved s)"
proof -
  note h = holdingsleep_run [OF r, of "BufLock b" es]
  show "brelse b es s = Panic ''brelse'' (intr_saved s)"
    if "\<not> (sl_locked (sleeplocks s (BufLock b)) \<and> sl_pid (sleeplocks s (BufLock b)) = pid (procs s p))"
    using that h by (simp add: brelse_def)
  let ?l = "(sleeplocks s)(BufLock b := (sleeplocks s (BufLock b))\<lparr>sl_locked := False, sl_pid := 0\<rparr>)"
  obtain t where t: "releasesleep (BufLock b) es (intr_saved s) = Ret () es t" "sleeplocks t = ?l" "at_rest t p" "bufs t = bufs s"
    using releasesleep_run [of "intr_saved s" p "BufLock b" es] r by simp
  have z: "brefcnt (bufs s b) - 1 = 0 \<longleftrightarrow> brefcnt (bufs s b) = 1" by simp
  note R = at_rest_enter(1) [OF t(3)] bcache_release [OF t(3)]
  show "\<exists>s'. brelse b es s = Ret () es s' \<and> bufs s' = (if brefcnt (bufs s b) = 1 then moved b f else f) \<and> sleeplocks s' = ?l"
    if "sl_locked (sleeplocks s (BufLock b))" "sl_pid (sleeplocks s (BufLock b)) = pid (procs s p)"
    using that h t by (cases "brefcnt (bufs s b) = 1")
      (simp_all add: brelse_def R bufset_def bufget_def kwhen_def brelse_move_run f_def z del: right_minus_eq)
qed

text \<open>No block of a device is in two buffers; device 0, which the unused buffers have, is none.\<close>

definition one_copy :: "(nat \<Rightarrow> buf) \<Rightarrow> bool" where
  "one_copy f \<longleftrightarrow> (\<forall>b < NBUF. \<forall>c < NBUF. bdev (f b) = bdev (f c) \<and> bblockno (f b) = bblockno (f c) \<and> bdev (f b) \<noteq> 0 \<longrightarrow> b = c)"

lemma lru_upd: "lru f xs \<Longrightarrow> bnext q = bnext (f b) \<Longrightarrow> bprev q = bprev (f b) \<Longrightarrow> lru (f(b := q)) xs"
proof -
  assume "lru f xs" "bnext q = bnext (f b)" "bprev q = bprev (f b)"
  moreover from this have "nexts (f(b := q)) = nexts f" "prevs (f(b := q)) = prevs f" by auto
  ultimately show ?thesis by (simp only: lru_def)
qed

lemma find_rev: "find Q (rev xs) = Some b \<Longrightarrow> \<exists>us vs. xs = us @ b # vs \<and> Q b \<and> (\<forall>c \<in> set vs. \<not> Q c)"
proof (induction xs rule: rev_induct)
  case (snoc x xs)
  show ?case
  proof (cases "Q x")
    case False
    then obtain us vs where "xs = us @ b # vs" "Q b" "\<forall>c \<in> set vs. \<not> Q c" using snoc by auto
    then show ?thesis using False by (intro exI [of _ us] exI [of _ "vs @ [x]"]) simp
  next
    case True
    then show ?thesis using snoc.prems by (intro exI [of _ xs] exI [of _ "[]"]) simp
  qed
qed simp

definition cached :: "(nat \<Rightarrow> buf) \<Rightarrow> u32 \<Rightarrow> u32 \<Rightarrow> nat \<Rightarrow> bool" where
  "cached f dev bn b \<longleftrightarrow> bdev (f b) = dev \<and> bblockno (f b) = bn"

lemma one_copy_same:
  assumes "one_copy f" "bdev q = bdev (f b)" "bblockno q = bblockno (f b)"
  shows "one_copy (f(b := q))"
proof -
  have "bdev ((f(b := q)) c) = bdev (f c)" "bblockno ((f(b := q)) c) = bblockno (f c)" for c using assms(2,3) by simp_all
  then show ?thesis using assms(1) by (simp only: one_copy_def)
qed

lemma one_copy_new:
  assumes o: "one_copy f" and n: "\<forall>c < NBUF. \<not> cached f dev bn c" and q: "bdev q = dev" "bblockno q = bn"
  shows "one_copy (f(b := q))"
  unfolding one_copy_def
proof (intro allI impI)
  fix x y
  assume xy: "x < NBUF" "y < NBUF" and e: "bdev ((f(b := q)) x) = bdev ((f(b := q)) y) \<and>
    bblockno ((f(b := q)) x) = bblockno ((f(b := q)) y) \<and> bdev ((f(b := q)) x) \<noteq> 0"
  have "\<not> cached f dev bn x" "\<not> cached f dev bn y" using n xy by blast+
  then show "x = y"
    using e q o [unfolded one_copy_def, rule_format, OF xy] by (cases "x = b"; cases "y = b") (simp_all add: cached_def)
qed

lemma bget_choice_cases:
  assumes l: "lru f xs" and o: "one_copy f"
  shows "bget_choice f xs dev bn = None \<Longrightarrow> c < NBUF \<Longrightarrow> \<not> cached f dev bn c \<and> brefcnt (f c) \<noteq> 0"
    and "bget_choice f xs dev bn = Some (b, q) \<Longrightarrow> b < NBUF \<and> cached (f(b := q)) dev bn b \<and> lru (f(b := q)) xs \<and> one_copy (f(b := q)) \<and>
      (cached f dev bn b \<and> q = (f b)\<lparr>brefcnt := brefcnt (f b) + 1\<rparr> \<or>
       (\<forall>c < NBUF. \<not> cached f dev bn c) \<and> \<not> bvalid q \<and> brefcnt q = 1 \<and> brefcnt (f b) = 0 \<and>
       (\<exists>us vs. xs = us @ b # vs \<and> (\<forall>c \<in> set vs. brefcnt (f c) \<noteq> 0)))"
proof -
  note L = lruD [OF l]
  have mem: "c \<in> set xs \<longleftrightarrow> c < NBUF" for c unfolding L(2) by simp
  show "\<not> cached f dev bn c \<and> brefcnt (f c) \<noteq> 0" if "bget_choice f xs dev bn = None" "c < NBUF"
    using that mem [of c] by (auto simp: bget_choice_def cached_def find_None_iff split: option.splits)
  assume ch: "bget_choice f xs dev bn = Some (b, q)"
  show "b < NBUF \<and> cached (f(b := q)) dev bn b \<and> lru (f(b := q)) xs \<and> one_copy (f(b := q)) \<and>
      (cached f dev bn b \<and> q = (f b)\<lparr>brefcnt := brefcnt (f b) + 1\<rparr> \<or>
       (\<forall>c < NBUF. \<not> cached f dev bn c) \<and> \<not> bvalid q \<and> brefcnt q = 1 \<and> brefcnt (f b) = 0 \<and>
       (\<exists>us vs. xs = us @ b # vs \<and> (\<forall>c \<in> set vs. brefcnt (f c) \<noteq> 0)))"
  proof (cases "find (\<lambda>b. bdev (f b) = dev \<and> bblockno (f b) = bn) xs")
    case (Some a)
    then have q: "a = b" "q = (f b)\<lparr>brefcnt := brefcnt (f b) + 1\<rparr>" using ch by (auto simp: bget_choice_def)
    then have b: "b \<in> set xs" "cached f dev bn b" using Some by (auto simp: find_Some_iff cached_def)
    have "lru (f(b := q)) xs" using q by (intro lru_upd [OF l]) simp_all
    moreover have "one_copy (f(b := q))" using q(2) by (intro one_copy_same [OF o]) simp_all
    moreover have "cached (f(b := q)) dev bn b" using b(2) q(2) by (simp add: cached_def)
    ultimately show ?thesis using b q(2) mem [of b] by blast
  next
    case None
    then have n: "\<forall>c < NBUF. \<not> cached f dev bn c" using mem by (auto simp: find_None_iff cached_def)
    have q: "find (\<lambda>b. brefcnt (f b) = 0) (rev xs) = Some b" "q = (f b)\<lparr>bdev := dev, bblockno := bn, bvalid := False, brefcnt := 1\<rparr>"
      using ch None by (auto simp: bget_choice_def)
    obtain us vs where u: "xs = us @ b # vs" "brefcnt (f b) = 0" "\<forall>c \<in> set vs. brefcnt (f c) \<noteq> 0"
      using find_rev [OF q(1)] by blast
    have "lru (f(b := q)) xs" using q(2) by (intro lru_upd [OF l]) simp_all
    moreover have "one_copy (f(b := q))" using q(2) by (intro one_copy_new [OF o n]) simp_all
    moreover have "cached (f(b := q)) dev bn b" "\<not> bvalid q" "brefcnt q = 1" using q(2) by (simp_all add: cached_def)
    moreover have "b < NBUF" using mem [of b] u(1) by simp
    ultimately show ?thesis using n u by blast
  qed
qed

subsection \<open>The properties\<close>

text \<open>
  C12: \<^verbatim>\<open>bget\<close> caches a block once.  It returns the buffer of the block, locked for the
  caller: the one that has it, with one reference more and its data untouched, or, when no
  buffer has it, the least recently used one without references, marked as not valid; it
  panics only when every buffer is in use.  The list of the buffers and all other buffers are
  unchanged, and still no block is in two buffers.
\<close>

theorem bget_caches_once:
  assumes "at_rest s p" "lru (bufs s) xs" "one_copy (bufs s)"
    and "\<forall>b < NBUF. sl_locked (sleeplocks s (BufLock b)) \<longrightarrow> brefcnt (bufs s b) \<noteq> 0 \<and> \<not> cached (bufs s) dev bn b"
  shows "case bget dev bn es s of
      Ret b es' s' \<Rightarrow> es' = es \<and> b < NBUF \<and> cached (bufs s') dev bn b \<and> lru (bufs s') xs \<and> one_copy (bufs s') \<and>
        sl_locked (sleeplocks s' (BufLock b)) \<and> sl_pid (sleeplocks s' (BufLock b)) = pid (procs s p) \<and>
        (\<forall>c. c \<noteq> b \<longrightarrow> bufs s' c = bufs s c) \<and>
        (cached (bufs s) dev bn b \<and> bufs s' b = (bufs s b)\<lparr>brefcnt := brefcnt (bufs s b) + 1\<rparr> \<or>
         (\<forall>c < NBUF. \<not> cached (bufs s) dev bn c) \<and> \<not> bvalid (bufs s' b) \<and> brefcnt (bufs s' b) = 1 \<and> brefcnt (bufs s b) = 0 \<and>
         (\<exists>us vs. xs = us @ b # vs \<and> (\<forall>c \<in> set vs. brefcnt (bufs s c) \<noteq> 0)))
    | Panic msg s' \<Rightarrow> \<forall>c < NBUF. \<not> cached (bufs s) dev bn c \<and> brefcnt (bufs s c) \<noteq> 0
    | _ \<Rightarrow> False"
proof (cases "bget_choice (bufs s) xs dev bn")
  case None
  then show ?thesis using bget_run(2) [OF assms(1,2) None, of es] bget_choice_cases(1) [OF assms(2,3) None] by simp
next
  case (Some bq)
  obtain b q where bq: "bget_choice (bufs s) xs dev bn = Some (b, q)" using Some by (cases bq) simp
  note C = bget_choice_cases(2) [OF assms(2,3) bq]
  then have fr: "\<not> sl_locked (sleeplocks s (BufLock b))" using assms(4) by blast
  show ?thesis
    unfolding bget_run(1) [OF assms(1,2) bq fr, of es] outcome.case using C by (simp add: taken_def)
qed

text \<open>The list as \<^verbatim>\<open>binit\<close> leaves it.\<close>

lemma ex_seg: "seg (nexts (bufs ex_system)) (prevs (bufs ex_system)) NBUF (rev [0..<NBUF]) NBUF"
proof -
  have "n \<le> NBUF \<Longrightarrow> seg (nexts (bufs ex_system)) (prevs (bufs ex_system)) n (rev [0..<n]) NBUF" for n
    by (induction n) (simp_all add: ex_system_sel)
  then show ?thesis by simp
qed

lemma ex_lru: "lru (bufs ex_system) (rev [0..<NBUF])" "one_copy (bufs ex_system)" "at_rest ex_system 1"
  using ex_seg by (auto simp only: lru_def distinct_rev distinct_upt set_rev set_upt atLeast0LessThan one_copy_def ex_system_sel buf.simps simp_thms)
    (use ex_system_room in \<open>simp_all add: at_rest_def\<close>)

theorem bget_caches_once_witness:
  "\<exists>b s'. bget 1 33 [] ex_system = Ret b [] s' \<and> cached (bufs s') 1 33 b \<and> one_copy (bufs s')"
proof -
  have f: "\<forall>b < NBUF. sl_locked (sleeplocks ex_system (BufLock b)) \<longrightarrow>
      brefcnt (bufs ex_system b) \<noteq> 0 \<and> \<not> cached (bufs ex_system) 1 33 b"
    by (simp add: ex_system_sel)
  have "\<not> (\<forall>c < NBUF. \<not> cached (bufs ex_system) 1 33 c \<and> brefcnt (bufs ex_system c) \<noteq> 0)"
    by (auto simp: ex_system_sel intro: exI [of _ 0])
  then show ?thesis
    using bget_caches_once [OF ex_lru(3,1,2) f, of "[]"] by (cases "bget 1 33 [] ex_system") (simp_all only: outcome.case, blast)
qed

text \<open>
  C16: \<^verbatim>\<open>brelse\<close> keeps the buffers in order of use.  Called by the holder of the buffer's lock
  it gives the lock and one reference back; when it was the last one, the buffer moves to
  the front of the list, and the links are again a list of all buffers in both directions;
  otherwise the list is as before.  Nothing else in any buffer changes.  Called by another
  process it panics.
\<close>

theorem brelse_moves_to_front:
  assumes "at_rest s p" "lru (bufs s) xs" "b < NBUF"
  shows "if sl_locked (sleeplocks s (BufLock b)) \<and> sl_pid (sleeplocks s (BufLock b)) = pid (procs s p)
    then \<exists>s'. brelse b es s = Ret () es s' \<and> \<not> sl_locked (sleeplocks s' (BufLock b)) \<and>
      lru (bufs s') (if brefcnt (bufs s b) = 1 then b # remove1 b xs else xs) \<and>
      same_buf (bufs s' b) ((bufs s b)\<lparr>brefcnt := brefcnt (bufs s b) - 1\<rparr>) \<and> (\<forall>c. c \<noteq> b \<longrightarrow> same_buf (bufs s' c) (bufs s c))
    else \<exists>s'. brelse b es s = Panic ''brelse'' s'"
proof (cases "sl_locked (sleeplocks s (BufLock b)) \<and> sl_pid (sleeplocks s (BufLock b)) = pid (procs s p)")
  case False
  then show ?thesis using brelse_run(2) [OF assms(1) False, of es] by simp
next
  case True
  let ?f = "(bufs s)(b := (bufs s b)\<lparr>brefcnt := brefcnt (bufs s b) - 1\<rparr>)"
  obtain s' where s': "brelse b es s = Ret () es s'" "bufs s' = (if brefcnt (bufs s b) = 1 then moved b ?f else ?f)"
      "\<not> sl_locked (sleeplocks s' (BufLock b))"
    using brelse_run(1) [OF assms(1), of b es] True by auto
  have l: "lru ?f xs" by (rule lru_upd [OF assms(2)]) simp_all
  have "lru (bufs s') (if brefcnt (bufs s b) = 1 then b # remove1 b xs else xs)"
    unfolding s'(2) using l moved_lru [OF l assms(3)]
    by (cases "brefcnt (bufs s b) = 1") (simp_all only: if_True if_False simp_thms)
  moreover have same: "same_buf (bufs s' c) (?f c)" for c
    unfolding s'(2) using moved_same [of b ?f c] same_buf_refl
    by (cases "brefcnt (bufs s b) = 1") (simp_all only: if_True if_False simp_thms)
  have "same_buf (bufs s' b) ((bufs s b)\<lparr>brefcnt := brefcnt (bufs s b) - 1\<rparr>)" using same [of b] by simp
  moreover have "\<forall>c. c \<noteq> b \<longrightarrow> same_buf (bufs s' c) (bufs s c)"
  proof (intro allI impI)
    fix c assume "c \<noteq> b"
    then show "same_buf (bufs s' c) (bufs s c)" using same [of c] by simp
  qed
  ultimately show ?thesis unfolding if_P [OF True] using s'(1,3) by blast
qed

theorem brelse_moves_to_front_witness:
  "let s = ex_system\<lparr>sleeplocks := (\<lambda>_. \<lparr>sl_locked = True, sl_name = [], sl_pid = pid (procs ex_system 1)\<rparr>),
       bufs := (bufs ex_system)(5 := (bufs ex_system 5)\<lparr>brefcnt := 1\<rparr>)\<rparr>
   in \<exists>s'. brelse 5 [] s = Ret () [] s' \<and> lru (bufs s') (5 # remove1 5 (rev [0..<NBUF])) \<and> brefcnt (bufs s' 5) = 0"
proof -
  let ?s = "ex_system\<lparr>sleeplocks := (\<lambda>_. \<lparr>sl_locked = True, sl_name = [], sl_pid = pid (procs ex_system 1)\<rparr>),
       bufs := (bufs ex_system)(5 := (bufs ex_system 5)\<lparr>brefcnt := 1\<rparr>)\<rparr>"
  have l: "lru (bufs ?s) (rev [0..<NBUF])" using lru_upd [OF ex_lru(1), of "(bufs ex_system 5)\<lparr>brefcnt := 1\<rparr>" 5] by simp
  have "at_rest ?s 1" "(5 :: nat) < NBUF" using ex_lru(3) by simp_all
  from brelse_moves_to_front [OF this(1) l this(2), of "[]"]
  show ?thesis unfolding Let_def by (auto simp: same_buf_def)
qed

end
