(* ===== verification/Codec.thy ===== *)
theory Codec
  imports Fs
begin

text \<open>
  The words and structures inside a disk block: what is written by the encodings of
  \<^verbatim>\<open>kernel/log.c\<close> and \<^verbatim>\<open>kernel/fs.c\<close> is what their decodings read, and writing one structure
  does not disturb the others in the block.
\<close>

subsection \<open>Words\<close>

lemma nat_bytes2: "(n::nat) mod 256 + 256 * (n div 256 mod 256) = n mod 65536"
  using mod_mult2_eq [of n 256 256] by simp

lemma nat_bytes4:
  "(n::nat) mod 256 + 256 * (n div 256 mod 256) + 65536 * (n div 65536 mod 256) + 16777216 * (n div 16777216 mod 256) =
    n mod 4294967296"
  using mod_mult2_eq [of n 256 256] mod_mult2_eq [of n 65536 256] mod_mult2_eq [of n 16777216 256] by simp

lemma unat_byte:
  "unat (ucast (w :: 'a::len word) :: u8) = unat w mod 256"
  by (simp add: unsigned_ucast_eq take_bit_eq_mod unat_mod)

lemma get32_nat:
  "get32 d i = word_of_nat (unat (d ! i) + 256 * unat (d ! (i + 1)) + 65536 * unat (d ! (i + 2)) + 16777216 * unat (d ! (i + 3)))"
  by (simp add: get32_def push_bit_eq_mult)

lemma get16_nat: "get16 d i = word_of_nat (unat (d ! i) + 256 * unat (d ! (i + 1)))"
  by (simp add: get16_def push_bit_eq_mult)

lemma unat_drop32:
  "unat (drop_bit 8 w) = unat w div 256" "unat (drop_bit 16 w) = unat w div 65536" "unat (drop_bit 24 w) = unat w div 16777216"
  for w :: u32
  by (simp_all add: drop_bit_eq_div unat_div)

lemma unat_drop16: "unat (drop_bit 8 w) = unat w div 256" for w :: u16
  by (simp add: drop_bit_eq_div unat_div)

lemma unat_bound: "unat w < 4294967296" "unat v < 65536" for w :: u32 and v :: u16
proof -
  have "unat w < 2 ^ LENGTH(32)" "unat v < 2 ^ LENGTH(16)" by (rule unsigned_less)+
  then show "unat w < 4294967296" "unat v < 65536" by simp_all
qed

lemma get32_le32: "get32 (le32 w @ z) 0 = w"
proof -
  have "get32 (le32 w @ z) 0 = word_of_nat (unat w mod 4294967296)"
    unfolding get32_nat le32_def by (simp add: unat_byte unat_drop32 nat_bytes4 del: of_nat_add of_nat_mult)
  also have "\<dots> = w" by (simp add: unat_bound)
  finally show ?thesis .
qed

lemma get16_le16: "get16 (le16 w @ z) 0 = w"
proof -
  have "get16 (le16 w @ z) 0 = word_of_nat (unat w mod 65536)"
    unfolding get16_nat le16_def by (simp add: unat_byte unat_drop16 nat_bytes2 del: of_nat_add of_nat_mult)
  also have "\<dots> = w" by (simp add: unat_bound)
  finally show ?thesis .
qed

text \<open>Reading is reading from the bytes at the position.\<close>

lemma get32_drop: "i + 4 \<le> length d \<Longrightarrow> get32 d i = get32 (take 4 (drop i d)) 0"
  by (simp add: get32_def)

lemma get16_drop: "i + 2 \<le> length d \<Longrightarrow> get16 d i = get16 (take 2 (drop i d)) 0"
  by (simp add: get16_def)

lemma length_le [simp]: "length (le32 w) = 4" "length (le16 v) = 2"
  by (simp_all add: le32_def le16_def)

subsection \<open>Splicing\<close>

lemma length_splice [simp]: "i + length v \<le> length d \<Longrightarrow> length (splice d i v) = length d"
  by (simp add: splice_def)

lemma splice_nth:
  assumes "i + length v \<le> length d" "m < length d"
  shows "splice d i v ! m = (if i \<le> m \<and> m < i + length v then v ! (m - i) else d ! m)"
proof -
  consider "m < i" | "i \<le> m" "m < i + length v" | "i + length v \<le> m" by linarith
  then show ?thesis
    by cases (use assms in \<open>auto simp: splice_def nth_append\<close>)
qed

lemma splice_other:
  assumes "i + length v \<le> length d" "j + k \<le> i \<or> i + length v \<le> j" "j + k \<le> length d"
  shows "take k (drop j (splice d i v)) = take k (drop j d)"
proof (rule nth_equalityI)
  fix m assume "m < length (take k (drop j (splice d i v)))"
  then have "m < k" "j + m < length d" using assms by simp_all
  then show "take k (drop j (splice d i v)) ! m = take k (drop j d) ! m"
    using assms splice_nth [OF assms(1), of "j + m"] by auto
qed (use assms in simp)

lemma splice_inner:
  assumes "i + length v \<le> length d" "j + k \<le> length v"
  shows "take k (drop (i + j) (splice d i v)) = take k (drop j v)"
proof (rule nth_equalityI)
  fix m assume "m < length (take k (drop (i + j) (splice d i v)))"
  then have "m < k" using assms by simp
  then show "take k (drop (i + j) (splice d i v)) ! m = take k (drop j v) ! m"
    using assms splice_nth [OF assms(1), of "i + j + m"] by simp
qed (use assms in simp)

lemma get32_splice:
  assumes "i + length v \<le> length d"
  shows "j + 4 \<le> length v \<Longrightarrow> get32 (splice d i v) (i + j) = get32 v j"
    and "j + 4 \<le> i \<or> i + length v \<le> j \<Longrightarrow> j + 4 \<le> length d \<Longrightarrow> get32 (splice d i v) j = get32 d j"
proof -
  assume a: "j + 4 \<le> length v"
  then show "get32 (splice d i v) (i + j) = get32 v j"
    using assms splice_inner [OF assms a] by (simp add: get32_drop [of "i + j" "splice d i v"] get32_drop [of j v])
next
  assume a: "j + 4 \<le> i \<or> i + length v \<le> j" "j + 4 \<le> length d"
  then show "get32 (splice d i v) j = get32 d j"
    using assms splice_other [OF assms a] by (simp add: get32_drop [of j "splice d i v"] get32_drop [of j d])
qed

lemma get16_splice:
  assumes "i + length v \<le> length d"
  shows "j + 2 \<le> length v \<Longrightarrow> get16 (splice d i v) (i + j) = get16 v j"
    and "j + 2 \<le> i \<or> i + length v \<le> j \<Longrightarrow> j + 2 \<le> length d \<Longrightarrow> get16 (splice d i v) j = get16 d j"
proof -
  assume a: "j + 2 \<le> length v"
  then show "get16 (splice d i v) (i + j) = get16 v j"
    using assms splice_inner [OF assms a] by (simp add: get16_drop [of "i + j" "splice d i v"] get16_drop [of j v])
next
  assume a: "j + 2 \<le> i \<or> i + length v \<le> j" "j + 2 \<le> length d"
  then show "get16 (splice d i v) j = get16 d j"
    using assms splice_other [OF assms a] by (simp add: get16_drop [of j "splice d i v"] get16_drop [of j d])
qed

text \<open>Reading behind a prefix of known length.\<close>

lemma get_append:
  "get32 (x @ z) (length x + j) = get32 z j" "get16 (x @ z) (length x + j) = get16 z j"
  by (simp_all add: get32_def get16_def nth_append)

lemma get32_words:
  "k < length ws \<Longrightarrow> get32 (concat (map le32 ws) @ z) (4 * k) = ws ! k"
proof (induction ws arbitrary: k)
  case (Cons w ws)
  show ?case
  proof (cases k)
    case 0
    then show ?thesis using get32_le32 [of w "concat (map le32 ws) @ z"] by simp
  next
    case (Suc m)
    then show ?thesis
      using Cons get_append(1) [of "le32 w" "concat (map le32 ws) @ z" "4 * m"] by simp
  qed
qed simp

subsection \<open>Inodes on disk\<close>

lemma length_words [simp]: "length (concat (map le32 ws)) = 4 * length ws"
  by (induction ws) simp_all

lemma length_dinode: "length (iaddrs n) = NDIRECT + 1 \<Longrightarrow> length (encode_dinode n) = 64"
  by (simp add: encode_dinode_def)

lemma encode_fields:
  assumes "length (iaddrs n) = NDIRECT + 1"
  shows "get16 (encode_dinode n) 0 = itype n" "get16 (encode_dinode n) 2 = imajor n"
    "get16 (encode_dinode n) 4 = iminor n" "get16 (encode_dinode n) 6 = inlink n"
    "get32 (encode_dinode n) 8 = isize n"
    "k < NDIRECT + 1 \<Longrightarrow> get32 (encode_dinode n) (12 + 4 * k) = iaddrs n ! k"
proof -
  let ?e = encode_dinode
  show "get16 (?e n) 0 = itype n" by (simp add: encode_dinode_def get16_le16)
  show "get16 (?e n) 2 = imajor n"
    using get_append(2) [of "le16 (itype n)" _ 0] by (simp add: encode_dinode_def get16_le16)
  show "get16 (?e n) 4 = iminor n"
    using get_append(2) [of "le16 (itype n) @ le16 (imajor n)" _ 0] by (simp add: encode_dinode_def get16_le16)
  show "get16 (?e n) 6 = inlink n"
    using get_append(2) [of "le16 (itype n) @ le16 (imajor n) @ le16 (iminor n)" _ 0] by (simp add: encode_dinode_def get16_le16)
  let ?h = "le16 (itype n) @ le16 (imajor n) @ le16 (iminor n) @ le16 (inlink n)"
  show "get32 (?e n) 8 = isize n"
    using get_append(1) [of ?h _ 0] by (simp add: encode_dinode_def get32_le32)
  show "get32 (?e n) (12 + 4 * k) = iaddrs n ! k" if "k < NDIRECT + 1"
    using get_append(1) [of "?h @ le32 (isize n)" "concat (map le32 (iaddrs n))" "4 * k"]
      get32_words [of k "iaddrs n" "[]"] that assms by (simp add: encode_dinode_def)
qed

lemma dinode_splice:
  assumes "length d = BSIZE" "length (iaddrs n) = NDIRECT + 1"
  shows "decode_dinode (splice d (dinode_off i) (encode_dinode n)) (dinode_off j) m =
    (if dinode_off j = dinode_off i
     then m\<lparr>itype := itype n, imajor := imajor n, iminor := iminor n, inlink := inlink n, isize := isize n, iaddrs := iaddrs n\<rparr>
     else decode_dinode d (dinode_off j) m)"
proof -
  have off: "dinode_off k + 64 \<le> BSIZE" for k
  proof -
    have "unat k mod 16 < 16" by simp
    then show ?thesis by (simp add: dinode_off_def BSIZE_def del: mod_less_divisor)
  qed
  note len = length_dinode [OF assms(2)]
  have le: "dinode_off i + length (encode_dinode n) \<le> length d" using off [of i] len assms(1) by simp
  show ?thesis
  proof (cases "dinode_off j = dinode_off i")
    case True
    have "map (\<lambda>k. get32 (splice d (dinode_off i) (encode_dinode n)) (dinode_off i + 12 + 4 * k)) [0..<NDIRECT + 1] = iaddrs n"
      using assms(2) get32_splice(1) [OF le, of "12 + 4 * _"] len
      by (intro nth_equalityI) (simp_all add: encode_fields [OF assms(2)] add.assoc del: upt_Suc)
    then show ?thesis
      using True get16_splice(1) [OF le] get16_splice(1) [OF le, of 0] get32_splice(1) [OF le, of 8] len
      by (simp add: decode_dinode_def encode_fields [OF assms(2)] del: upt_Suc add_2_eq_Suc add_2_eq_Suc')
  next
    case False
    then have "dinode_off j + 64 \<le> dinode_off i \<or> dinode_off i + 64 \<le> dinode_off j"
      by (auto simp: dinode_off_def)
    note far = this
    have g16: "get16 (splice d (dinode_off i) (encode_dinode n)) (dinode_off j + k) = get16 d (dinode_off j + k)"
        if "k + 2 \<le> 64" for k
      using get16_splice(2) [OF le, of "dinode_off j + k"] far that off [of j] assms(1) len by auto
    have g32: "get32 (splice d (dinode_off i) (encode_dinode n)) (dinode_off j + k) = get32 d (dinode_off j + k)"
        if "k + 4 \<le> 64" for k
      using get32_splice(2) [OF le, of "dinode_off j + k"] far that off [of j] assms(1) len by auto
    have "map (\<lambda>k. get32 (splice d (dinode_off i) (encode_dinode n)) (dinode_off j + (12 + 4 * k))) [0..<13] =
        map (\<lambda>k. get32 d (dinode_off j + (12 + 4 * k))) [0..<13]"
      by (rule map_cong [OF refl g32]) simp
    then show ?thesis
      using False g16 [of 0] g16 g32 by (simp add: decode_dinode_def add.assoc del: upt_Suc add_2_eq_Suc add_2_eq_Suc')
  qed
qed

text \<open>
  C26: What \<^verbatim>\<open>iupdate\<close> writes into a block of inodes is what \<^verbatim>\<open>ilock\<close> reads from it, field by
  field, and every other inode of the block is still what it was.
\<close>

theorem dinode_round_trip:
  assumes "length d = BSIZE" "length (iaddrs n) = NDIRECT + 1"
  shows "decode_dinode (splice d (dinode_off i) (encode_dinode n)) (dinode_off j) m =
    (if dinode_off j = dinode_off i
     then m\<lparr>itype := itype n, imajor := imajor n, iminor := iminor n, inlink := inlink n, isize := isize n, iaddrs := iaddrs n\<rparr>
     else decode_dinode d (dinode_off j) m)"
  using assms by (rule dinode_splice)

theorem dinode_round_trip_witness:
  "decode_dinode (splice (replicate BSIZE 0) (dinode_off 3)
      (encode_dinode \<lparr>idev = 1, inum = 3, iref = 1, ivalid = True, itype = 2, imajor = 0, iminor = 0, inlink = 1,
         isize = 5, iaddrs = 77 # replicate 12 0\<rparr>)) (dinode_off 19)
    \<lparr>idev = 1, inum = 3, iref = 1, ivalid = False, itype = 0, imajor = 0, iminor = 0, inlink = 0, isize = 0, iaddrs = []\<rparr> =
    \<lparr>idev = 1, inum = 3, iref = 1, ivalid = False, itype = 2, imajor = 0, iminor = 0, inlink = 1, isize = 5, iaddrs = 77 # replicate 12 0\<rparr>"
  by (subst dinode_round_trip) (simp_all add: dinode_off_def BSIZE_def)

end
