(* ===== verification/Log_Crash.thy ===== *)
theory Log_Crash
  imports Codec
begin

text \<open>
  Crashes.  The protocol of \<^verbatim>\<open>kernel/log.c\<close> at the granularity of its disk writes: a step
  is one \<^verbatim>\<open>bwrite\<close>, a \<^verbatim>\<open>log_write\<close>, a change of phase, or a crash, which may come at any
  time, also during recovery.  A write of a block is atomic.  The buffer cache is what a
  \<^verbatim>\<open>bread\<close> of a block gives.
\<close>

subsection \<open>The header block\<close>

text \<open>The block numbers that \<^verbatim>\<open>read_head\<close> takes out of the header.\<close>

definition head_blocks :: "bytes \<Rightarrow> u32 list" where
  "head_blocks d = map (\<lambda>i. get32 d (4 + 4 * i)) [0..<nat (sint (get32 d 0))]"

lemma head_write_prefix:
  fixes n :: u32
  assumes "length d = BSIZE" "k \<le> LOGSIZE"
  shows "let d' = fold (\<lambda>i d. splice d (4 + 4 * i) (le32 (blk i))) [0..<k] (splice d 0 (le32 n))
    in length d' = BSIZE \<and> get32 d' 0 = n \<and> (\<forall>i<k. get32 d' (4 + 4 * i) = blk i)"
  using assms(2) unfolding Let_def
proof (induction k)
  case 0
  then show ?case
    using get32_splice(1) [of 0 "le32 n" d 0] get32_le32 [of n "[]"] assms(1) by (simp add: BSIZE_def)
next
  case (Suc k)
  let ?d = "fold (\<lambda>i d. splice d (4 + 4 * i) (le32 (blk i))) [0..<k] (splice d 0 (le32 n))"
  have IH: "length ?d = BSIZE" "get32 ?d 0 = n" "\<And>i. i < k \<Longrightarrow> get32 ?d (4 + 4 * i) = blk i"
    using Suc by auto
  have le: "4 + 4 * k + length (le32 (blk k)) \<le> length ?d" using Suc.prems IH(1) by (simp add: BSIZE_def)
  have "get32 (splice ?d (4 + 4 * k) (le32 (blk k))) (4 + 4 * i) = blk i" if "i < Suc k" for i
    using that get32_splice(1) [OF le, of 0] get32_le32 [of "blk k" "[]"] get32_splice(2) [OF le, of "4 + 4 * i"] IH Suc.prems
    by (cases "i = k") (auto simp: BSIZE_def)
  then show ?case using get32_splice(2) [OF le, of 0] IH le by (simp add: BSIZE_def)
qed

lemma head_write_read:
  assumes "length d = BSIZE" "length ws \<le> LOGSIZE"
  shows "head_blocks (head_write d (int (length ws)) (\<lambda>i. ws ! i)) = ws"
    and "length (head_write d (int (length ws)) (\<lambda>i. ws ! i)) = BSIZE"
proof -
  have n: "nat (sint (word_of_int (int (length ws)) :: u32)) = length ws"
    using assms(2) by (simp add: signed_of_nat signed_take_bit_int_eq_self)
  note p = head_write_prefix [OF assms, of "\<lambda>i. ws ! i" "word_of_int (int (length ws))"]
  then show "length (head_write d (int (length ws)) (\<lambda>i. ws ! i)) = BSIZE" by (simp add: head_write_def Let_def)
  show "head_blocks (head_write d (int (length ws)) (\<lambda>i. ws ! i)) = ws"
    using p n by (intro nth_equalityI) (simp_all add: head_blocks_def head_write_def Let_def)
qed

subsection \<open>The step relation\<close>

datatype log_pc =
    Idle               \<comment> \<open>system calls run; no commit\<close>
  | WriteLog nat       \<comment> \<open>in \<^verbatim>\<open>write_log\<close>, before the block with this \<^verbatim>\<open>tail\<close>; at its end, before \<^verbatim>\<open>write_head\<close>\<close>
  | Install nat        \<comment> \<open>in \<^verbatim>\<open>install_trans\<close>, before the block with this \<^verbatim>\<open>tail\<close>\<close>
  | Clear              \<comment> \<open>\<^verbatim>\<open>log.lh.n = 0\<close> done, before the second \<^verbatim>\<open>write_head\<close>\<close>
  | Boot               \<comment> \<open>before \<^verbatim>\<open>read_head\<close> in \<^verbatim>\<open>recover_from_log\<close>\<close>

record lsys =
  dsk :: "nat \<Rightarrow> bytes"
  mem :: "u32 \<Rightarrow> bytes"       \<comment> \<open>the buffer cache\<close>
  lhb :: "u32 list"             \<comment> \<open>the blocks of \<^verbatim>\<open>log.lh\<close>\<close>
  lpc :: log_pc
  lstart :: nat                 \<comment> \<open>\<^verbatim>\<open>log.start\<close>\<close>
  lsize :: nat                  \<comment> \<open>\<^verbatim>\<open>log.size\<close>, with the header\<close>

text \<open>A block outside of the log.\<close>

definition home :: "lsys \<Rightarrow> u32 \<Rightarrow> bool" where
  "home s b \<longleftrightarrow> unat b < lstart s \<or> lstart s + lsize s \<le> unat b"

inductive lc_step :: "lsys \<Rightarrow> lsys \<Rightarrow> bool" where
  l_log_write: "lpc s = Idle \<Longrightarrow> home s b \<Longrightarrow> length (lhb s) < LOGSIZE \<Longrightarrow> length (lhb s) + 1 < lsize s \<Longrightarrow>
     lc_step s (s\<lparr>mem := (mem s)(b := d),
       lhb := (if log_slot (\<lambda>i. lhb s ! i) (length (lhb s)) b = length (lhb s) then lhb s @ [b] else lhb s)\<rparr>)"
| l_commit: "lpc s = Idle \<Longrightarrow> lhb s \<noteq> [] \<Longrightarrow>
     lc_step s (s\<lparr>lpc := WriteLog 0\<rparr>)"
| l_write_log: "lpc s = WriteLog i \<Longrightarrow> i < length (lhb s) \<Longrightarrow>
     lc_step s (s\<lparr>dsk := (dsk s)(lstart s + i + 1 := mem s (lhb s ! i)), lpc := WriteLog (Suc i)\<rparr>)"
| l_write_head: "lpc s = WriteLog (length (lhb s)) \<Longrightarrow>
     lc_step s (s\<lparr>dsk := (dsk s)(lstart s := head_write (dsk s (lstart s)) (int (length (lhb s))) (\<lambda>i. lhb s ! i)),
       lpc := Install 0\<rparr>)"
| l_install: "lpc s = Install i \<Longrightarrow> i < length (lhb s) \<Longrightarrow>
     lc_step s (s\<lparr>dsk := (dsk s)(unat (lhb s ! i) := dsk s (lstart s + i + 1)),
       mem := (mem s)(lhb s ! i := dsk s (lstart s + i + 1)), lpc := Install (Suc i)\<rparr>)"
| l_installed: "lpc s = Install (length (lhb s)) \<Longrightarrow>
     lc_step s (s\<lparr>lhb := [], lpc := Clear\<rparr>)"
| l_clear: "lpc s = Clear \<Longrightarrow>
     lc_step s (s\<lparr>dsk := (dsk s)(lstart s := head_write (dsk s (lstart s)) (int (length (lhb s))) (\<lambda>i. lhb s ! i)),
       lpc := Idle\<rparr>)"
| l_crash:
     "lc_step s (s\<lparr>mem := (\<lambda>b. dsk s (unat b)), lhb := [], lpc := Boot\<rparr>)"
| l_read_head: "lpc s = Boot \<Longrightarrow>
     lc_step s (s\<lparr>lhb := head_blocks (dsk s (lstart s)), lpc := Install 0\<rparr>)"

text \<open>
  A machine starts with a disk whose header is empty, as \<^verbatim>\<open>mkfs\<close> makes it, or lists
  different blocks outside of the log.
\<close>

definition head_ok :: "lsys \<Rightarrow> bool" where
  "head_ok s \<longleftrightarrow> length (dsk s (lstart s)) = BSIZE \<and>
     (let hb = head_blocks (dsk s (lstart s))
      in length hb \<le> LOGSIZE \<and> length hb < lsize s \<and> distinct hb \<and> (\<forall>b \<in> set hb. home s b))"

definition lc_start :: "lsys \<Rightarrow> bool" where
  "lc_start s \<longleftrightarrow> lpc s = Boot \<and> lhb s = [] \<and> (\<forall>b. mem s b = dsk s (unat b)) \<and> head_ok s"

inductive lc_reachable :: "lsys \<Rightarrow> bool" where
  start: "lc_start s \<Longrightarrow> lc_reachable s"
| step: "lc_reachable s \<Longrightarrow> lc_step s t \<Longrightarrow> lc_reachable t"

text \<open>
  The file system as a recovery from this disk would make it: a block listed in the
  header has the contents that the log holds for it.
\<close>

definition logged :: "lsys \<Rightarrow> u32 \<rightharpoonup> nat" where
  "logged s = (let hb = head_blocks (dsk s (lstart s))
     in map_of (zip hb [lstart s + 1..<lstart s + 1 + length hb]))"

definition recovered :: "lsys \<Rightarrow> u32 \<Rightarrow> bytes" where
  "recovered s b = dsk s (case logged s b of None \<Rightarrow> unat b | Some k \<Rightarrow> k)"

subsection \<open>The invariant\<close>

definition blocks_ok :: "lsys \<Rightarrow> bool" where
  "blocks_ok s \<longleftrightarrow> length (lhb s) \<le> LOGSIZE \<and> length (lhb s) < lsize s \<and> distinct (lhb s) \<and> (\<forall>b \<in> set (lhb s). home s b)"

definition phase_ok :: "lsys \<Rightarrow> bool" where
  "phase_ok s \<longleftrightarrow>
     (let hb = head_blocks (dsk s (lstart s)) in
      case lpc s of
        Idle \<Rightarrow> hb = [] \<and> (\<forall>b. home s b \<longrightarrow> b \<notin> set (lhb s) \<longrightarrow> mem s b = dsk s (unat b))
      | WriteLog i \<Rightarrow> hb = [] \<and> i \<le> length (lhb s) \<and> (\<forall>j<i. dsk s (lstart s + j + 1) = mem s (lhb s ! j)) \<and>
          (\<forall>b. home s b \<longrightarrow> b \<notin> set (lhb s) \<longrightarrow> mem s b = dsk s (unat b))
      | Install i \<Rightarrow> hb = lhb s \<and> i \<le> length (lhb s) \<and>
          (\<forall>j<i. dsk s (unat (lhb s ! j)) = dsk s (lstart s + j + 1)) \<and>
          (\<forall>j<i. mem s (lhb s ! j) = dsk s (lstart s + j + 1)) \<and>
          (\<forall>b. home s b \<longrightarrow> b \<notin> set (lhb s) \<longrightarrow> mem s b = dsk s (unat b))
      | Clear \<Rightarrow> lhb s = [] \<and> (\<forall>j<length hb. dsk s (unat (hb ! j)) = dsk s (lstart s + j + 1)) \<and>
          (\<forall>b. home s b \<longrightarrow> mem s b = dsk s (unat b))
      | Boot \<Rightarrow> \<forall>b. mem s b = dsk s (unat b))"

definition lc_inv :: "lsys \<Rightarrow> bool" where
  "lc_inv s \<longleftrightarrow> head_ok s \<and> blocks_ok s \<and> phase_ok s"

lemma log_slot_new: "log_slot (\<lambda>i. bs ! i) (length bs) b = length bs \<longleftrightarrow> b \<notin> set bs"
proof -
  have "find (\<lambda>i. bs ! i = b) [0..<length bs] = None \<longleftrightarrow> b \<notin> set bs"
    by (auto simp: find_None_iff in_set_conv_nth)
  moreover have "i < length bs" if "find (\<lambda>i. bs ! i = b) [0..<length bs] = Some i" for i
    using that by (auto simp: find_Some_iff)
  ultimately show ?thesis
    by (auto simp: log_slot_def split: option.split)
qed

lemma home_upd [simp]:
  "home (s\<lparr>dsk := d\<rparr>) b = home s b" "home (s\<lparr>mem := m\<rparr>) b = home s b"
  "home (s\<lparr>lhb := l\<rparr>) b = home s b" "home (s\<lparr>lpc := p\<rparr>) b = home s b"
  by (simp_all add: home_def)

lemma home_not_log: "home s b \<Longrightarrow> i < lsize s \<Longrightarrow> unat b \<noteq> lstart s + i"
  by (auto simp: home_def)

lemmas inv_defs = lc_inv_def head_ok_def blocks_ok_def phase_ok_def Let_def

lemma inv_log_write:
  assumes "lc_inv s" "lpc s = Idle" "home s b" "length (lhb s) < LOGSIZE" "length (lhb s) + 1 < lsize s"
  shows "lc_inv (s\<lparr>mem := (mem s)(b := d),
    lhb := (if log_slot (\<lambda>i. lhb s ! i) (length (lhb s)) b = length (lhb s) then lhb s @ [b] else lhb s)\<rparr>)"
  using assms by (auto simp: inv_defs log_slot_new)

lemma inv_write_log:
  assumes "lc_inv s" "lpc s = WriteLog i" "i < length (lhb s)"
  shows "lc_inv (s\<lparr>dsk := (dsk s)(lstart s + i + 1 := mem s (lhb s ! i)), lpc := WriteLog (Suc i)\<rparr>)"
proof -
  have "i + 1 < lsize s" using assms by (simp add: inv_defs)
  then have "unat b \<noteq> Suc (lstart s + i)" if "home s b" for b
    using home_not_log [OF that, of "i + 1"] by simp
  then show ?thesis using assms by (auto simp: inv_defs less_Suc_eq)
qed

lemma inv_write_head:
  assumes "lc_inv s" "lpc s = WriteLog (length (lhb s))"
  shows "lc_inv (s\<lparr>dsk := (dsk s)(lstart s := head_write (dsk s (lstart s)) (int (length (lhb s))) (\<lambda>i. lhb s ! i)),
    lpc := Install 0\<rparr>)"
  using assms head_write_read [of "dsk s (lstart s)" "lhb s"]
  by (simp add: inv_defs home_not_log [where i = 0, simplified])

lemma inv_install:
  assumes "lc_inv s" "lpc s = Install i" "i < length (lhb s)"
  shows "lc_inv (s\<lparr>dsk := (dsk s)(unat (lhb s ! i) := dsk s (lstart s + i + 1)),
    mem := (mem s)(lhb s ! i := dsk s (lstart s + i + 1)), lpc := Install (Suc i)\<rparr>)"
proof -
  have h: "home s (lhb s ! i)" and d: "distinct (lhb s)" and l: "length (lhb s) < lsize s"
    using assms by (simp_all add: inv_defs)
  have "lstart s \<noteq> unat (lhb s ! i)" using home_not_log [OF h, of 0] l by simp
  moreover have "lstart s + j + 1 \<noteq> unat (lhb s ! i)" if "j \<le> i" for j
    using home_not_log [OF h, of "j + 1"] that l assms(3) by simp
  moreover have "lhb s ! j \<noteq> lhb s ! i \<and> unat (lhb s ! j) \<noteq> unat (lhb s ! i)" if "j < i" for j
    using d that assms(3) by (simp add: nth_eq_iff_index_eq flip: word_unat_eq_iff)
  moreover have "b \<noteq> lhb s ! i \<and> unat b \<noteq> unat (lhb s ! i)" if "b \<notin> set (lhb s)" for b
    using that assms(3) by (auto simp flip: word_unat_eq_iff)
  ultimately show ?thesis using assms by (auto simp: inv_defs less_Suc_eq)
qed

lemma inv_clear:
  assumes "lc_inv s" "lpc s = Clear"
  shows "lc_inv (s\<lparr>dsk := (dsk s)(lstart s := head_write (dsk s (lstart s)) (int (length (lhb s))) (\<lambda>i. lhb s ! i)),
    lpc := Idle\<rparr>)"
  using assms head_write_read [of "dsk s (lstart s)" "[]"]
  by (simp add: inv_defs home_not_log [where i = 0, simplified])

lemma lc_inv_step:
  assumes "lc_step s t" and inv: "lc_inv s"
  shows "lc_inv t"
  using assms(1)
proof cases
  case (l_log_write b d)
  then show ?thesis using inv_log_write [OF inv] by blast
next
  case l_commit
  then show ?thesis using inv by (simp add: inv_defs)
next
  case (l_write_log i)
  then show ?thesis using inv_write_log [OF inv] by blast
next
  case l_write_head
  then show ?thesis using inv_write_head [OF inv] by blast
next
  case (l_install i)
  then show ?thesis using inv_install [OF inv] by blast
next
  case l_installed
  then show ?thesis using inv by (auto simp: inv_defs in_set_conv_nth)
next
  case l_clear
  then show ?thesis using inv_clear [OF inv] by blast
next
  case l_crash
  then show ?thesis using inv by (simp add: inv_defs)
next
  case l_read_head
  then show ?thesis using inv by (simp add: inv_defs)
qed

lemma log_reachable_inv: "lc_reachable s \<Longrightarrow> lc_inv s"
proof (induction rule: lc_reachable.induct)
  case (start s)
  then show ?case by (simp add: lc_start_def inv_defs)
qed (rule lc_inv_step)

lemma home_not_head: "lc_inv s \<Longrightarrow> home s b \<Longrightarrow> unat b \<noteq> lstart s"
  using home_not_log [of s b 0] by (auto simp: inv_defs)

subsection \<open>Atomicity\<close>

lemma logged_nth:
  assumes "head_ok s" "j < length (head_blocks (dsk s (lstart s)))"
  shows "logged s (head_blocks (dsk s (lstart s)) ! j) = Some (lstart s + j + 1)"
  using assms map_of_zip_nth [of "head_blocks (dsk s (lstart s))"
      "[lstart s + 1..<lstart s + 1 + length (head_blocks (dsk s (lstart s)))]" j]
  by (simp add: head_ok_def logged_def Let_def del: upt_Suc)

lemma logged_other: "b \<notin> set (head_blocks (dsk s (lstart s))) \<Longrightarrow> logged s b = None"
  by (auto simp: logged_def Let_def map_of_eq_None_iff dest: set_zip_leftD simp del: upt_Suc)

lemma recovered_logged:
  "head_ok s \<Longrightarrow> j < length (head_blocks (dsk s (lstart s))) \<Longrightarrow>
    recovered s (head_blocks (dsk s (lstart s)) ! j) = dsk s (lstart s + j + 1)"
  by (simp add: recovered_def logged_nth)

lemma recovered_other: "b \<notin> set (head_blocks (dsk s (lstart s))) \<Longrightarrow> recovered s b = dsk s (unat b)"
  by (simp add: recovered_def logged_other)

text \<open>What decides the recovered contents.\<close>

lemma recovered_eqI:
  assumes "head_ok s" "head_ok t" "lstart t = lstart s"
    and "head_blocks (dsk t (lstart s)) = head_blocks (dsk s (lstart s))"
    and "\<And>j. j < length (head_blocks (dsk s (lstart s))) \<Longrightarrow> dsk t (lstart s + j + 1) = dsk s (lstart s + j + 1)"
    and "b \<notin> set (head_blocks (dsk s (lstart s))) \<Longrightarrow> dsk t (unat b) = dsk s (unat b)"
  shows "recovered t b = recovered s b"
proof (cases "b \<in> set (head_blocks (dsk s (lstart s)))")
  case True
  then obtain j where "j < length (head_blocks (dsk s (lstart s)))" "b = head_blocks (dsk s (lstart s)) ! j"
    by (auto simp: in_set_conv_nth)
  then show ?thesis
    using recovered_logged [OF assms(1), of j] recovered_logged [OF assms(2), of j] assms(3-5) by simp
next
  case False
  then show ?thesis using assms(3,4,6) by (simp add: recovered_other)
qed

lemma recovered_write_head:
  assumes "lc_inv s" "lc_inv t" "lpc s = WriteLog (length (lhb s))" "lstart t = lstart s"
    and d: "dsk t = (dsk s)(lstart s := head_write (dsk s (lstart s)) (int (length (lhb s))) (\<lambda>i. lhb s ! i))"
    and h: "home s b"
  shows "recovered t b = mem s b"
proof -
  have hb: "head_blocks (dsk t (lstart t)) = lhb s"
    using assms(1,4) head_write_read(1) [of "dsk s (lstart s)" "lhb s"] by (simp add: d inv_defs)
  have ok: "head_ok t" using assms(2) by (simp add: lc_inv_def)
  show ?thesis
  proof (cases "b \<in> set (lhb s)")
    case True
    then obtain j where j: "j < length (lhb s)" "b = lhb s ! j" by (auto simp: in_set_conv_nth)
    then have "recovered t b = dsk t (lstart t + j + 1)" using recovered_logged [OF ok, of j] by (simp add: hb)
    also have "\<dots> = mem s b" using assms(1,3,4) j by (simp add: d inv_defs)
    finally show ?thesis .
  next
    case False
    then have "recovered t b = dsk t (unat b)" using recovered_other [of b t] by (simp add: hb)
    also have "\<dots> = mem s b" using False assms(1,3) h home_not_head [OF assms(1) h] by (simp add: d inv_defs)
    finally show ?thesis .
  qed
qed

lemma recovered_install:
  assumes "lc_inv s" "lc_inv t" "lpc s = Install i" "i < length (lhb s)" "lstart t = lstart s"
    and d: "dsk t = (dsk s)(unat (lhb s ! i) := dsk s (lstart s + i + 1))"
  shows "recovered t b = recovered s b"
proof -
  have hb: "head_blocks (dsk s (lstart s)) = lhb s" "home s (lhb s ! i)" "length (lhb s) < lsize s"
    using assms by (simp_all add: inv_defs)
  have "lstart s \<noteq> unat (lhb s ! i)" using home_not_head [OF assms(1) hb(2)] by simp
  moreover have "lstart s + j + 1 \<noteq> unat (lhb s ! i)" if "j < length (lhb s)" for j
    using home_not_log [OF hb(2), of "j + 1"] that hb(3) by simp
  moreover have "unat b \<noteq> unat (lhb s ! i)" if "b \<notin> set (lhb s)"
    using that assms(4) by (auto simp flip: word_unat_eq_iff)
  moreover have "head_ok s" "head_ok t" using assms(1,2) by (simp_all add: lc_inv_def)
  ultimately show ?thesis
    by (intro recovered_eqI) (use assms(5) hb in \<open>simp_all add: d\<close>)
qed

lemma recovered_clear:
  assumes "lc_inv s" "lc_inv t" "lpc s = Clear" "lstart t = lstart s"
    and d: "dsk t = (dsk s)(lstart s := head_write (dsk s (lstart s)) (int (length (lhb s))) (\<lambda>i. lhb s ! i))"
    and h: "home s b"
  shows "recovered t b = recovered s b"
proof -
  let ?hb = "head_blocks (dsk s (lstart s))"
  have "lhb s = []" "length (dsk s (lstart s)) = BSIZE" using assms(1,3) by (simp_all add: inv_defs)
  then have "head_blocks (dsk t (lstart t)) = []"
    using assms(4) head_write_read(1) [of "dsk s (lstart s)" "[]"] by (simp add: d)
  then have "recovered t b = dsk t (unat b)" using recovered_other [of b t] by simp
  also have "\<dots> = dsk s (unat b)" using home_not_head [OF assms(1) h] by (simp add: d)
  also have "\<dots> = recovered s b"
  proof (cases "b \<in> set ?hb")
    case True
    then obtain j where "j < length ?hb" "b = ?hb ! j" by (auto simp: in_set_conv_nth)
    then show ?thesis using recovered_logged [of s j] assms(1,3) by (simp add: inv_defs)
  next
    case False
    then show ?thesis by (simp add: recovered_other)
  qed
  finally show ?thesis .
qed

text \<open>
  C1: The log makes transactions atomic.  In every run of log writes, commits, crashes
  and recoveries, crashes during recovery included, each step leaves the file system
  that a recovery would find unchanged, but for one: the write of the header at the
  end of \<^verbatim>\<open>write_log\<close>, which makes it at once the contents that all the system calls of
  the transaction have left in the buffer cache.
\<close>

theorem log_commit_atomic:
  assumes "lc_reachable s" "lc_step s t"
  shows "(\<forall>b. home s b \<longrightarrow> recovered t b = recovered s b) \<or>
    lpc s = WriteLog (length (lhb s)) \<and> (\<forall>b. home s b \<longrightarrow> recovered t b = mem s b)"
proof -
  note inv = log_reachable_inv [OF assms(1)] and inv' = lc_inv_step [OF assms(2) log_reachable_inv [OF assms(1)]]
  have ok: "head_ok s" "head_ok t" using inv inv' by (simp_all add: lc_inv_def)
  show ?thesis
    using assms(2)
  proof cases
    case (l_write_log i)
    have "head_blocks (dsk s (lstart s)) = []" "i + 1 < lsize s" using inv l_write_log by (simp_all add: inv_defs)
    then have "recovered t b = recovered s b" if "home s b" for b
      by (intro recovered_eqI [OF ok]) (use l_write_log home_not_log [OF that, of "i + 1"] in auto)
    then show ?thesis by blast
  next
    case l_write_head
    then show ?thesis using recovered_write_head [OF inv inv'] by simp
  next
    case (l_install i)
    then show ?thesis using recovered_install [OF inv inv', of i] by simp
  next
    case l_clear
    then show ?thesis using recovered_clear [OF inv inv'] by simp
  qed (auto simp: recovered_def logged_def)
qed

definition ex_log :: lsys where
  "ex_log = \<lparr>dsk = (\<lambda>_. replicate BSIZE 0), mem = (\<lambda>_. replicate BSIZE 0), lhb = [], lpc = Boot, lstart = 2, lsize = 30\<rparr>"

lemma ex_log_head: "head_blocks (replicate BSIZE 0) = []"
  by (simp add: head_blocks_def get32_def BSIZE_def)

lemma ex_log_reachable: "lc_reachable ex_log"
  by (intro lc_reachable.start) (simp add: lc_start_def head_ok_def ex_log_def ex_log_head)

definition ex_log_idle :: lsys where
  "ex_log_idle = (let t = ex_log\<lparr>lhb := [], lpc := Clear\<rparr>
     in t\<lparr>dsk := (dsk t)(lstart t := head_write (dsk t (lstart t)) (int (length (lhb t))) (\<lambda>i. lhb t ! i)), lpc := Idle\<rparr>)"

lemma ex_log_idle_reachable: "lc_reachable ex_log_idle"
proof -
  let ?s = "ex_log\<lparr>lhb := head_blocks (dsk ex_log (lstart ex_log)), lpc := Install 0\<rparr>"
  have "head_blocks (dsk ex_log (lstart ex_log)) = []"
    using ex_log_head by (simp add: ex_log_def)
  then have "lpc ?s = Install (length (lhb ?s))" by simp
  then have "lc_reachable (?s\<lparr>lhb := [], lpc := Clear\<rparr>)"
    by (intro lc_reachable.step [OF lc_reachable.step [OF ex_log_reachable l_read_head] l_installed]) (simp_all add: ex_log_def)
  then show ?thesis
    using lc_reachable.step [OF _ l_clear, of "?s\<lparr>lhb := [], lpc := Clear\<rparr>"] by (simp add: ex_log_idle_def Let_def)
qed

text \<open>A transaction on one block, up to the header write that commits it.\<close>

definition ex_data :: bytes where
  "ex_data = replicate BSIZE 1"

definition ex_logged :: lsys where
  "ex_logged = ex_log_idle\<lparr>mem := (mem ex_log_idle)(77 := ex_data), lhb := [77],
     dsk := (dsk ex_log_idle)(3 := ex_data), lpc := WriteLog 1\<rparr>"

lemma ex_logged_reachable: "lc_reachable ex_logged"
proof -
  let ?s = "ex_log_idle\<lparr>mem := (mem ex_log_idle)(77 := ex_data), lhb := [77]\<rparr>"
  have "lhb ex_log_idle = []" "log_slot f 0 77 = 0" for f by (simp_all add: ex_log_idle_def Let_def log_slot_def)
  then have s: "lc_reachable ?s"
    using lc_reachable.step [OF ex_log_idle_reachable l_log_write [of ex_log_idle 77 ex_data]]
    by (simp add: ex_log_idle_def ex_log_def home_def Let_def)
  have "lc_reachable (?s\<lparr>lpc := WriteLog 0\<rparr>)"
    by (rule lc_reachable.step [OF s l_commit]) (simp_all add: ex_log_idle_def Let_def)
  from lc_reachable.step [OF this l_write_log [of _ 0]] show ?thesis
    by (simp add: ex_logged_def ex_log_idle_def ex_log_def Let_def)
qed

definition ex_committed :: lsys where
  "ex_committed = ex_logged\<lparr>dsk := (dsk ex_logged)(lstart ex_logged := head_write (dsk ex_logged (lstart ex_logged))
     (int (length (lhb ex_logged))) (\<lambda>i. lhb ex_logged ! i)), lpc := Install 0\<rparr>"

lemma ex_committed_step: "lc_step ex_logged ex_committed"
  unfolding ex_committed_def by (rule l_write_head) (simp add: ex_logged_def)

lemma ex_committed_contents: "recovered ex_logged 77 = replicate BSIZE 0" "recovered ex_committed 77 = ex_data"
proof -
  note inv = log_reachable_inv [OF ex_logged_reachable]
  note inv' = log_reachable_inv [OF lc_reachable.step [OF ex_logged_reachable ex_committed_step]]
  show "recovered ex_committed 77 = ex_data"
    using recovered_write_head [OF inv inv'] by (simp add: ex_committed_def home_def) (simp add: ex_logged_def ex_log_idle_def ex_log_def Let_def)
  have "head_blocks (dsk ex_logged 2) = []" using inv by (simp add: inv_defs) (simp add: ex_logged_def ex_log_idle_def ex_log_def Let_def)
  then show "recovered ex_logged 77 = replicate BSIZE 0"
    by (simp add: recovered_def logged_def ex_logged_def ex_log_idle_def ex_log_def Let_def)
qed

theorem log_commit_atomic_witness:
  "\<exists>s t u. lc_reachable s \<and> lc_step s t \<and> lc_step t u \<and> lpc u = Boot \<and>
     recovered s 77 = replicate BSIZE 0 \<and> recovered t 77 = replicate BSIZE 1 \<and> recovered u 77 = replicate BSIZE 1"
proof -
  define u where "u = ex_committed\<lparr>mem := (\<lambda>b. dsk ex_committed (unat b)), lhb := [], lpc := Boot\<rparr>"
  have st: "lc_step ex_committed u" unfolding u_def by (rule l_crash)
  have "recovered u 77 = recovered ex_committed 77"
    using log_commit_atomic [OF lc_reachable.step [OF ex_logged_reachable ex_committed_step] st]
    by (auto simp: ex_committed_def ex_logged_def ex_log_idle_def ex_log_def Let_def home_def)
  then show ?thesis
    using ex_logged_reachable ex_committed_step st ex_committed_contents
    by (intro exI [of _ ex_logged] exI [of _ ex_committed] exI [of _ u]) (simp add: ex_data_def u_def)
qed

text \<open>
  C21: Between transactions the disk is the file system: whenever the log is idle, after
  a commit as after a recovery, every block outside of the log holds on disk what a
  recovery would give, and the buffer cache differs from it only in the blocks that
  the running transaction has logged.
\<close>

theorem log_idle_disk:
  assumes "lc_reachable s" "lpc s = Idle" "home s b"
  shows "dsk s (unat b) = recovered s b \<and> (b \<notin> set (lhb s) \<longrightarrow> mem s b = recovered s b)"
  using log_reachable_inv [OF assms(1)] assms(2,3) recovered_other [of b s] by (simp add: inv_defs)

theorem log_idle_disk_witness:
  "lpc ex_log_idle = Idle \<and> dsk ex_log_idle 77 = recovered ex_log_idle 77"
  using log_idle_disk [OF ex_log_idle_reachable, of 77] by (simp add: ex_log_idle_def ex_log_def home_def Let_def)

lemma install_runs:
  assumes "lc_inv s" "lpc s = Install i" "i \<le> length (lhb s)"
  shows "\<exists>t. lc_step\<^sup>*\<^sup>* s t \<and> lpc t = Install (length (lhb t)) \<and> home t = home s \<and> (\<forall>b. recovered t b = recovered s b)"
  using assms
proof (induction "length (lhb s) - i" arbitrary: s i)
  case 0
  then show ?case by auto
next
  case (Suc k)
  then have i: "i < length (lhb s)" by simp
  note st = l_install [OF Suc.prems(2) i]
  let ?s = "s\<lparr>dsk := (dsk s)(unat (lhb s ! i) := dsk s (lstart s + i + 1)),
    mem := (mem s)(lhb s ! i := dsk s (lstart s + i + 1)), lpc := Install (Suc i)\<rparr>"
  have inv: "lc_inv ?s" by (rule lc_inv_step [OF st Suc.prems(1)])
  obtain t where t: "lc_step\<^sup>*\<^sup>* ?s t" "lpc t = Install (length (lhb t))" "home t = home ?s"
      "\<forall>b. recovered t b = recovered ?s b"
  proof -
    have "k = length (lhb ?s) - Suc i" "lpc ?s = Install (Suc i)" "Suc i \<le> length (lhb ?s)"
      using Suc.hyps(2) i by simp_all
    then show ?thesis using that Suc.hyps(1) [of ?s "Suc i", OF _ inv] by blast
  qed
  moreover have "recovered ?s b = recovered s b" for b
    by (rule recovered_install [OF Suc.prems(1) inv Suc.prems(2) i]) simp_all
  moreover have "home ?s = home s" by (simp add: fun_eq_iff)
  ultimately show ?case using t converse_rtranclp_into_rtranclp [OF st t(1)] by auto
qed

lemma clear_runs:
  assumes inv: "lc_inv s" and pc: "lpc s = Install (length (lhb s))"
  shows "\<exists>t. lc_step\<^sup>*\<^sup>* s t \<and> lpc t = Idle \<and> (\<forall>b. home s b \<longrightarrow> dsk t (unat b) = recovered s b)"
proof -
  let ?t1 = "s\<lparr>lhb := [], lpc := Clear\<rparr>"
  let ?t2 = "?t1\<lparr>dsk := (dsk ?t1)(lstart ?t1 := head_write (dsk ?t1 (lstart ?t1)) (int (length (lhb ?t1))) (\<lambda>i. lhb ?t1 ! i)),
    lpc := Idle\<rparr>"
  note s1 = l_installed [OF pc]
  have s2: "lc_step ?t1 ?t2" by (rule l_clear) simp
  have i1: "lc_inv ?t1" by (rule lc_inv_step [OF s1 inv])
  have i2: "lc_inv ?t2" by (rule lc_inv_step [OF s2 i1])
  have "dsk ?t2 (unat b) = recovered s b" if h: "home s b" for b
  proof -
    have "head_blocks (dsk ?t2 (lstart ?t2)) = []" using i2 by (simp add: lc_inv_def phase_ok_def Let_def)
    then have "dsk ?t2 (unat b) = recovered ?t2 b" using recovered_other [of b ?t2] by simp
    also have "\<dots> = recovered ?t1 b" by (rule recovered_clear [OF i1 i2]) (use h in simp_all)
    finally show ?thesis by (simp add: recovered_def logged_def)
  qed
  then show ?thesis using s1 s2 by (intro exI [of _ ?t2]) (auto intro: converse_rtranclp_into_rtranclp)
qed

text \<open>
  C14: A recovery succeeds: after a crash in any reachable state the recovery can run to
  its end, and then the disk holds what was committed before the crash.
\<close>

theorem log_recovery_completes:
  assumes "lc_reachable s"
  shows "\<exists>t. lc_step\<^sup>*\<^sup>* (s\<lparr>mem := (\<lambda>b. dsk s (unat b)), lhb := [], lpc := Boot\<rparr>) t \<and> lpc t = Idle \<and>
    (\<forall>b. home s b \<longrightarrow> dsk t (unat b) = recovered s b)"
proof -
  let ?c = "s\<lparr>mem := (\<lambda>b. dsk s (unat b)), lhb := [], lpc := Boot\<rparr>"
  let ?t = "?c\<lparr>lhb := head_blocks (dsk ?c (lstart ?c)), lpc := Install 0\<rparr>"
  have st: "lc_step ?c ?t" by (rule l_read_head) simp
  have inv: "lc_inv ?t"
    by (rule lc_inv_step [OF st lc_inv_step [OF l_crash log_reachable_inv [OF assms]]])
  have same: "recovered ?t b = recovered s b" for b by (simp add: recovered_def logged_def)
  obtain u where u: "lc_step\<^sup>*\<^sup>* ?t u" "lpc u = Install (length (lhb u))" "home u = home ?t" "\<forall>b. recovered u b = recovered ?t b"
    using install_runs [OF inv, of 0] by auto
  have "lc_inv u" using u(1) inv by (induction rule: rtranclp_induct) (auto intro: lc_inv_step)
  then obtain v where v: "lc_step\<^sup>*\<^sup>* u v" "lpc v = Idle" "\<forall>b. home u b \<longrightarrow> dsk v (unat b) = recovered u b"
    using clear_runs u(2) by blast
  have "lc_step\<^sup>*\<^sup>* ?c v" using st u(1) v(1) by (meson converse_rtranclp_into_rtranclp rtranclp_trans)
  then show ?thesis using v u(3,4) same by (auto simp: home_def fun_eq_iff intro!: exI [of _ v])
qed

theorem log_recovery_completes_witness:
  "\<exists>t. lc_step\<^sup>*\<^sup>* (ex_log\<lparr>mem := (\<lambda>b. dsk ex_log (unat b)), lhb := [], lpc := Boot\<rparr>) t \<and> lpc t = Idle \<and>
    dsk t 77 = recovered ex_log 77"
proof -
  have "home ex_log 77" "unat (77 :: u32) = 77" by (simp_all add: ex_log_def home_def)
  then show ?thesis using log_recovery_completes [OF ex_log_reachable] by metis
qed

end
