(* ===== verification/Mkfs.thy ===== *)
theory Mkfs
  imports Codec
begin

text \<open>
  \<^verbatim>\<open>mkfs/mkfs.c\<close>: the program that writes the first file system.  The image is the list
  of its blocks.  \<^verbatim>\<open>xshort\<close> and \<^verbatim>\<open>xint\<close> put the bytes of a word in little-endian order, so
  storing a converted word is \<^const>\<open>le16\<close> or \<^const>\<open>le32\<close>, and converting a stored one is
  \<^const>\<open>get16\<close> or \<^const>\<open>get32\<close>; the few words that are not converted are read as on a
  little-endian host.  \<^verbatim>\<open>die\<close> and a failed \<^verbatim>\<open>assert\<close> end the program, as a panic does here.
  The files of the host are an argument: for each name what the \<^verbatim>\<open>read\<close>s give, or \<open>None\<close>
  when it cannot be opened.
\<close>

subsection \<open>Layout\<close>

definition NINODES :: nat where [simp]: "NINODES = 200"
definition nbitmap :: nat where [simp]: "nbitmap = FSSIZE div BPB + 1"
definition ninodeblocks :: nat where [simp]: "ninodeblocks = NINODES div IPB + 1"
definition nlog :: nat where [simp]: "nlog = LOGSIZE"
definition nmeta :: nat where [simp]: "nmeta = 2 + nlog + ninodeblocks + nbitmap"

definition mk_sb :: superblock where
  "mk_sb = \<lparr>sb_magic = FSMAGIC, sb_size = of_nat FSSIZE, sb_nblocks = of_nat (FSSIZE - nmeta),
     sb_ninodes = of_nat NINODES, sb_nlog = of_nat nlog, sb_logstart = 2,
     sb_inodestart = of_nat (2 + nlog), sb_bmapstart = of_nat (2 + nlog + ninodeblocks)\<rparr>"

definition encode_superblock :: "superblock \<Rightarrow> bytes" where
  "encode_superblock b = concat (map le32 [sb_magic b, sb_size b, sb_nblocks b, sb_ninodes b, sb_nlog b,
     sb_logstart b, sb_inodestart b, sb_bmapstart b])"

definition zeroes :: bytes where
  "zeroes = replicate BSIZE 0"

record mkfs_state =
  img :: "bytes list"
  freeinode :: u32
  freeblock :: u32

type_synonym 'a mkfs = "(mkfs_state, 'a) kmon"

subsection \<open>Sectors and inodes\<close>

text \<open>A write beyond the end of a file leaves a hole of zeroes before it.\<close>

definition image_write :: "bytes list \<Rightarrow> nat \<Rightarrow> bytes \<Rightarrow> bytes list" where
  "image_write im k b =
     (if k < length im then im[k := b] else im @ replicate (k - length im) zeroes @ [b])"

text \<open>
  The block that \<^verbatim>\<open>lseek(fsfd, sec * BSIZE, 0)\<close> goes to: the product is a 32-bit one, so
  sectors from \<open>2^22\<close> on would alias the first ones.
\<close>

definition seek_block :: "u32 \<Rightarrow> nat" where
  "seek_block sec = unat (sec * of_nat BSIZE) div BSIZE"

definition wsect :: "u32 \<Rightarrow> bytes \<Rightarrow> unit mkfs" where
  "wsect sec b = kmodify (\<lambda>s. s\<lparr>img := image_write (img s) (seek_block sec) b\<rparr>)"

definition rsect :: "u32 \<Rightarrow> bytes mkfs" where
  "rsect sec =
     kbind (kget img) (\<lambda>im. if seek_block sec < length im then kret (im ! seek_block sec) else kpanic ''read'')"

definition blank_inode :: inode where
  "blank_inode = \<lparr>idev = 0, inum = 0, iref = 0, ivalid = False, itype = 0, imajor = 0, iminor = 0,
     inlink = 0, isize = 0, iaddrs = replicate (NDIRECT + 1) 0\<rparr>"

definition winode :: "u32 \<Rightarrow> inode \<Rightarrow> unit mkfs" where
  "winode i ip =
     (let bn = IBLOCK i mk_sb in
     kbind (rsect bn) (\<lambda>b.
     wsect bn (splice b (dinode_off i) (encode_dinode ip))))"

definition rinode :: "u32 \<Rightarrow> inode mkfs" where
  "rinode i =
     kbind (rsect (IBLOCK i mk_sb)) (\<lambda>b.
     kret (decode_dinode b (dinode_off i) blank_inode))"

definition mk_ialloc :: "u16 \<Rightarrow> u32 mkfs" where
  "mk_ialloc ty =
     kbind (kget freeinode) (\<lambda>i.
     kbind (kmodify (\<lambda>s. s\<lparr>freeinode := freeinode s + 1\<rparr>)) (\<lambda>_.
     kbind (winode i (blank_inode\<lparr>itype := ty, inlink := 1, isize := 0\<rparr>)) (\<lambda>_.
     kret i)))"

subsection \<open>Appending to a file\<close>

text \<open>\<^verbatim>\<open>freeblock++\<close>\<close>

definition fresh_block :: "u32 mkfs" where
  "fresh_block =
     kbind (kget freeblock) (\<lambda>b.
     kbind (kmodify (\<lambda>s. s\<lparr>freeblock := freeblock s + 1\<rparr>)) (\<lambda>_. kret b))"

text \<open>The inode with an indirect block, and the block number at offset \<open>k\<close> in that block.\<close>

definition get_indirect :: "inode \<Rightarrow> inode mkfs" where
  "get_indirect din =
     (if iaddrs din ! NDIRECT = 0
      then kbind fresh_block (\<lambda>b. kret (din\<lparr>iaddrs := (iaddrs din)[NDIRECT := b]\<rparr>))
      else kret din)"

definition get_entry :: "inode \<Rightarrow> nat \<Rightarrow> (inode \<times> u32) mkfs" where
  "get_entry din k =
     kbind (rsect (iaddrs din ! NDIRECT)) (\<lambda>indirect.
     if get32 indirect k = 0
     then
       kbind fresh_block (\<lambda>b.
       kbind (wsect (iaddrs din ! NDIRECT) (splice indirect k (le32 b))) (\<lambda>_.
       kret (din, b)))
     else kret (din, get32 indirect k))"

text \<open>The block of the file with number \<open>fbn\<close>, allocated if need be.\<close>

definition file_block :: "inode \<Rightarrow> nat \<Rightarrow> (inode \<times> u32) mkfs" where
  "file_block din fbn =
     (if fbn < NDIRECT then
        (if iaddrs din ! fbn = 0
         then kbind fresh_block (\<lambda>b. kret (din\<lparr>iaddrs := (iaddrs din)[fbn := b]\<rparr>, b))
         else kret (din, iaddrs din ! fbn))
      else kbind (get_indirect din) (\<lambda>din. get_entry din (4 * (fbn - NDIRECT))))"

text \<open>The loop of \<^verbatim>\<open>iappend\<close>; each round takes at least one byte.\<close>

primrec iappend_loop :: "nat \<Rightarrow> inode \<Rightarrow> u32 \<Rightarrow> bytes \<Rightarrow> (inode \<times> u32) mkfs" where
  "iappend_loop 0 din off p = kdiverge"
| "iappend_loop (Suc k) din off p =
     (if p = [] then kret (din, off) else
      (let fbn = unat off div BSIZE in
      if \<not> fbn < MAXFILE then kpanic ''assert'' else
      kbind (file_block din fbn) (\<lambda>(din', x).
      (let n1 = min (length p) ((fbn + 1) * BSIZE - unat off) in
      kbind (rsect x) (\<lambda>b.
      kbind (wsect x (splice b (unat off - fbn * BSIZE) (take n1 p))) (\<lambda>_.
      iappend_loop k din' (off + of_nat n1) (drop n1 p)))))))"

definition iappend :: "u32 \<Rightarrow> bytes \<Rightarrow> unit mkfs" where
  "iappend i p =
     kbind (rinode i) (\<lambda>din.
     kbind (iappend_loop (Suc (length p)) din (isize din) p) (\<lambda>(din', off).
     winode i (din'\<lparr>isize := off\<rparr>)))"

subsection \<open>The bitmap\<close>

definition bitmap_bytes :: "nat \<Rightarrow> bytes" where
  "bitmap_bytes used =
     fold (\<lambda>i b. b[i div 8 := b ! (i div 8) OR bit_mask i]) [0..<used] zeroes"

definition mk_balloc :: "u32 \<Rightarrow> unit mkfs" where
  "mk_balloc used =
     (if \<not> sint used < int BPB then kpanic ''assert''
      else wsect (sb_bmapstart mk_sb) (bitmap_bytes (nat (sint used))))"

subsection \<open>The program\<close>

definition dirent :: "u32 \<Rightarrow> bytes \<Rightarrow> bytes" where
  "dirent i name = le16 (ucast i) @ name @ replicate (DIRSIZ - length name) 0"

definition user_prefix :: bytes where
  "user_prefix = map of_char ''user/''"

text \<open>The name without \<^verbatim>\<open>user/\<close>, and without a leading \<^verbatim>\<open>_\<close>.\<close>

definition short_name :: "bytes \<Rightarrow> bytes" where
  "short_name path = (if take 5 path = user_prefix then drop 5 path else path)"

definition disk_name :: "bytes \<Rightarrow> bytes" where
  "disk_name path =
     (let short = short_name path in if short \<noteq> [] \<and> hd short = 0x5F then tl short else short)"

text \<open>
  A file is what \<^verbatim>\<open>open\<close> and the \<^verbatim>\<open>read\<close>s give: nothing when it cannot be opened, else the
  pieces that the reads return before the one that returns 0.  No bound on their length is
  assumed, although \<^verbatim>\<open>read\<close> returns at most the \<^verbatim>\<open>BSIZE\<close> bytes it is asked for.
\<close>

definition add_file :: "u32 \<Rightarrow> bytes \<times> bytes list option \<Rightarrow> unit mkfs" where
  "add_file rootino = (\<lambda>(path, contents).
     if slash \<in> set (short_name path) then kpanic ''assert'' else
     (case contents of
        None \<Rightarrow> kpanic ''open''
      | Some pieces \<Rightarrow>
          if length (disk_name path) > DIRSIZ then kpanic ''assert'' else
          kbind (mk_ialloc T_FILE) (\<lambda>i.
          kbind (iappend rootino (dirent i (disk_name path))) (\<lambda>_.
          kfor pieces (iappend i)))))"

definition mkfs_main :: "(bytes \<times> bytes list option) list \<Rightarrow> unit mkfs" where
  "mkfs_main args =
     (case args of
        [] \<Rightarrow> kpanic ''Usage: mkfs fs.img files...''
      | (path, None) # _ \<Rightarrow> kpanic ''open''
      | (path, Some _) # files \<Rightarrow>
          kbind (kmodify (\<lambda>s. s\<lparr>img := [], freeinode := 1, freeblock := of_nat nmeta\<rparr>)) (\<lambda>_.
          kbind (kfor [0..<FSSIZE] (\<lambda>i. wsect (of_nat i) zeroes)) (\<lambda>_.
          kbind (wsect 1 (splice zeroes 0 (encode_superblock mk_sb))) (\<lambda>_.
          kbind (mk_ialloc T_DIR) (\<lambda>rootino.
          if rootino \<noteq> ROOTINO then kpanic ''assert'' else
          kbind (iappend rootino (dirent rootino [0x2E])) (\<lambda>_.
          kbind (iappend rootino (dirent rootino [0x2E, 0x2E])) (\<lambda>_.
          kbind (kfor files (add_file rootino)) (\<lambda>_.
          kbind (rinode rootino) (\<lambda>din.
          kbind (winode rootino (din\<lparr>isize := (isize din div of_nat BSIZE + 1) * of_nat BSIZE\<rparr>)) (\<lambda>_.
          kbind (kget freeblock) (\<lambda>used.
          mk_balloc used)))))))))))"

end
