(* ===== verification/Mkfs_Blocks.thy ===== *)
theory Mkfs_Blocks
  imports Mkfs
begin

text \<open>
  What \<^verbatim>\<open>mkfs\<close> builds.  \<open>addr\<close> is the block of the image that holds a block of a file, as
  the kernel's \<^verbatim>\<open>bmap\<close> finds it; \<open>own\<close> says that the blocks of a file are its own.
\<close>

subsection \<open>The blocks of a file\<close>

definition indirect :: "inode \<Rightarrow> nat" where
  "indirect din = unat (iaddrs din ! NDIRECT)"

definition addr :: "bytes list \<Rightarrow> inode \<Rightarrow> nat \<Rightarrow> nat" where
  "addr im din g =
     (if g < NDIRECT then unat (iaddrs din ! g)
      else if indirect din = 0 then 0
      else unat (get32 (im ! indirect din) (4 * (g - NDIRECT))))"

definition refs :: "bytes list \<Rightarrow> inode \<Rightarrow> nat set" where
  "refs im din = insert (indirect din) (addr im din ` {..<MAXFILE}) - {0}"

definition file_byte :: "bytes list \<Rightarrow> inode \<Rightarrow> nat \<Rightarrow> u8" where
  "file_byte im din k = im ! addr im din (k div BSIZE) ! (k mod BSIZE)"

definition contents :: "bytes list \<Rightarrow> inode \<Rightarrow> bytes" where
  "contents im din = map (file_byte im din) [0..<unat (isize din)]"

text \<open>
  The image has its size, the blocks from \<open>f\<close> on are untouched, and no block of the file
  is used twice.
\<close>

definition image_ok :: "bytes list \<Rightarrow> nat \<Rightarrow> bool" where
  "image_ok im f \<longleftrightarrow> length im = FSSIZE \<and> (\<forall>b \<in> set im. length b = BSIZE) \<and> nmeta \<le> f \<and>
     (\<forall>k. f \<le> k \<longrightarrow> k < FSSIZE \<longrightarrow> im ! k = zeroes)"

definition own :: "bytes list \<Rightarrow> nat \<Rightarrow> inode \<Rightarrow> bool" where
  "own im f din \<longleftrightarrow> length (iaddrs din) = NDIRECT + 1 \<and> indirect din < FSSIZE \<and>
     refs im din \<subseteq> {nmeta..<f} \<and>
     (\<forall>g < MAXFILE. addr im din g \<noteq> 0 \<longrightarrow> addr im din g \<noteq> indirect din \<and>
        (\<forall>h < MAXFILE. addr im din h = addr im din g \<longrightarrow> h = g))"

lemma image_ok_nth: "image_ok im f \<Longrightarrow> k < FSSIZE \<Longrightarrow> length (im ! k) = BSIZE"
  by (simp add: image_ok_def)

lemma indirect_upd [simp]:
  "indirect (din\<lparr>isize := z\<rparr>) = indirect din"
  "g < NDIRECT \<Longrightarrow> indirect (din\<lparr>iaddrs := (iaddrs din)[g := b]\<rparr>) = indirect din"
  by (simp_all add: indirect_def)

lemma addr_upd [simp]:
  "addr im (din\<lparr>isize := z\<rparr>) = addr im din"
  by (rule ext) (simp add: addr_def)

text \<open>A change outside of the file's indirect block does not change where its blocks are.\<close>

lemma addr_frame:
  "im' ! indirect din = im ! indirect din \<Longrightarrow> addr im' din = addr im din"
  by (rule ext) (simp only: addr_def)

lemma refs_frame:
  "im' ! indirect din = im ! indirect din \<Longrightarrow> refs im' din = refs im din"
  using addr_frame [of im' din im] by (simp add: refs_def)

lemma own_frame:
  "own im f din \<Longrightarrow> im' ! indirect din = im ! indirect din \<Longrightarrow> f \<le> f' \<Longrightarrow> own im' f' din"
  using addr_frame [of im' din im] refs_frame [of im' din im] by (auto simp: own_def)

lemma file_byte_frame:
  assumes "im' ! indirect din = im ! indirect din" "im' ! addr im din (k div BSIZE) = im ! addr im din (k div BSIZE)"
  shows "file_byte im' din k = file_byte im din k"
  using assms addr_frame [of im' din im] by (simp add: file_byte_def)

subsection \<open>Finding a block\<close>

lemma fresh_block_run:
  "fresh_block es s = Ret (freeblock s) es (s\<lparr>freeblock := freeblock s + 1\<rparr>)"
  by (simp add: fresh_block_def)

lemma seek_block_small [simp]: "unat x < 0x400000 \<Longrightarrow> seek_block x = unat x"
  by (simp add: seek_block_def BSIZE_def unat_word_ariths)

lemma wsect_run:
  "unat x < length (img s) \<Longrightarrow> length (img s) = FSSIZE \<Longrightarrow> wsect x b es s = Ret () es (s\<lparr>img := (img s)[unat x := b]\<rparr>)"
  by (simp add: wsect_def image_write_def)

lemma unat_succ: "unat b \<le> FSSIZE + 1 \<Longrightarrow> unat (b + 1 :: u32) = Suc (unat b)"
  by (simp add: unat_word_ariths)

lemma zero_entry: "k + 4 \<le> BSIZE \<Longrightarrow> get32 zeroes k = 0"
  by (simp add: get32_def zeroes_def)

text \<open>
  What \<open>file_block\<close> does: the file gets the block if it has none, which is then the first
  untouched one; all other blocks of the file stay where they are, and only the
  indirect block is written.
\<close>

definition block_found :: "mkfs_state \<Rightarrow> inode \<Rightarrow> nat \<Rightarrow> mkfs_state \<Rightarrow> inode \<Rightarrow> nat \<Rightarrow> bool" where
  "block_found s din g s' din' x \<longleftrightarrow>
     (let im = img s; im' = img s'; f = unat (freeblock s); f' = unat (freeblock s') in
     freeinode s' = freeinode s \<and> (\<exists>as. din' = din\<lparr>iaddrs := as\<rparr>) \<and>
     f \<le> f' \<and> (x < FSSIZE \<longrightarrow> f' \<le> FSSIZE) \<and> image_ok im' f' \<and> own im' f' din' \<and>
     addr im' din' g = x \<and> x \<noteq> 0 \<and> (addr im din g \<noteq> 0 \<longrightarrow> x = addr im din g) \<and>
     (addr im din g = 0 \<longrightarrow> f \<le> x) \<and>
     (\<forall>h < MAXFILE. h \<noteq> g \<longrightarrow> addr im' din' h = addr im din h) \<and>
     (\<forall>b. b \<noteq> indirect din' \<or> b = 0 \<longrightarrow> im' ! b = im ! b) \<and>
     refs im' din' \<subseteq> refs im din \<union> {f..<f'})"

text \<open>One more block, the first untouched one.\<close>

lemma own_add:
  assumes "own im f din" "nmeta \<le> f" "g < MAXFILE" "addr im din g = 0" "indirect din' = indirect din"
    and "length (iaddrs din') = NDIRECT + 1"
    and a: "\<And>h. h < MAXFILE \<Longrightarrow> addr im' din' h = (if h = g then f else addr im din h)"
  shows "own im' (Suc f) din'" "refs im' din' \<subseteq> insert f (refs im din)"
proof -
  have below: "indirect din < f \<or> indirect din = 0" "\<And>h. h < MAXFILE \<Longrightarrow> addr im din h < f \<or> addr im din h = 0"
    using assms(1) by (auto simp: own_def refs_def)
  have f: "0 < f" using assms(2) by simp
  show r: "refs im' din' \<subseteq> insert f (refs im din)"
    using assms(5) a by (auto simp: refs_def)
  have "addr im' din' k \<noteq> indirect din'" if "k < MAXFILE" "addr im' din' k \<noteq> 0" for k
    using a [OF that(1)] that below(1) f assms(1,5) by (auto simp: own_def split: if_splits)
  moreover have "h = k" if "k < MAXFILE" "h < MAXFILE" "addr im' din' k \<noteq> 0" "addr im' din' h = addr im' din' k" for h k
    using a [OF that(1)] a [OF that(2)] that below(2) [OF that(1)] below(2) [OF that(2)] f assms(1)
    by (auto simp: own_def split: if_splits)
  moreover have "refs im din \<subseteq> {nmeta..<f}" using assms(1) by (simp add: own_def)
  then have "refs im' din' \<subseteq> {nmeta..<Suc f}" using r assms(2) by fastforce
  ultimately show "own im' (Suc f) din'"
    using assms(1,5,6) by (auto simp: own_def)
qed

lemma image_ok_Suc: "image_ok im f \<Longrightarrow> image_ok im (Suc f)"
  by (simp add: image_ok_def)

lemma image_ok_upd: "image_ok im f \<Longrightarrow> k < f \<Longrightarrow> length b = BSIZE \<Longrightarrow> image_ok (im[k := b]) f"
  by (auto simp: image_ok_def nth_list_update dest: set_update_subset_insert [THEN subsetD])

lemma direct_block:
  assumes s: "image_ok (img s) (unat (freeblock s))" "own (img s) (unat (freeblock s)) din" "unat (freeblock s) \<le> FSSIZE"
    and g: "g < NDIRECT" and run: "file_block din g es s = Ret (din', x) es' s'"
  shows "es' = es \<and> block_found s din g s' din' (unat x)"
proof (cases "iaddrs din ! g = 0")
  case True
  let ?d = "din\<lparr>iaddrs := (iaddrs din)[g := freeblock s]\<rparr>"
  have r: "es' = es" "din' = ?d" "x = freeblock s" "s' = s\<lparr>freeblock := freeblock s + 1\<rparr>"
    using run True g by (auto simp: file_block_def fresh_block_run)
  have len: "length (iaddrs din) = 13" using s(2) by (simp add: own_def)
  have a: "addr (img s) ?d h = (if h = g then unat (freeblock s) else addr (img s) din h)" for h
    using g len by (auto simp: addr_def indirect_def)
  have z: "addr (img s) din g = 0" using True g by (simp add: addr_def)
  have m: "nmeta \<le> unat (freeblock s)" using s(1) by (simp add: image_ok_def)
  note o = own_add [OF s(2) m _ z, of ?d "img s"]
  have "own (img s) (Suc (unat (freeblock s))) ?d \<and> refs (img s) ?d \<subseteq> insert (unat (freeblock s)) (refs (img s) din)"
    using o a g len by simp
  then show ?thesis
    using r s m a z unat_succ [of "freeblock s"] by (auto simp: block_found_def Let_def image_ok_Suc intro!: exI)
next
  case False
  then have r: "es' = es" "din' = din" "x = iaddrs din ! g" "s' = s"
    using run g by (auto simp: file_block_def)
  have "addr (img s) din g = unat x" using g r by (simp add: addr_def)
  moreover have "din = din\<lparr>iaddrs := iaddrs din\<rparr>" by simp
  ultimately show ?thesis
    using r s False by (auto simp: block_found_def Let_def unat_eq_0 intro!: exI [of _ "iaddrs din"])
qed

text \<open>The indirect block, allocated if need be: it is all zeroes then, so no block appears.\<close>

definition indirect_found :: "mkfs_state \<Rightarrow> inode \<Rightarrow> mkfs_state \<Rightarrow> inode \<Rightarrow> bool" where
  "indirect_found s din s' din' \<longleftrightarrow>
     (let im = img s; f = unat (freeblock s); f' = unat (freeblock s') in
     freeinode s' = freeinode s \<and> img s' = im \<and> (\<exists>as. din' = din\<lparr>iaddrs := as\<rparr>) \<and>
     f \<le> f' \<and> f' \<le> FSSIZE \<and> image_ok im f' \<and> own im f' din' \<and> indirect din' \<noteq> 0 \<and> indirect din' < f' \<and>
     (\<forall>h < MAXFILE. addr im din' h = addr im din h) \<and>
     refs im din' \<subseteq> refs im din \<union> {f..<f'})"

lemma get_indirect_run:
  assumes s: "image_ok (img s) (unat (freeblock s))" "own (img s) (unat (freeblock s)) din" "unat (freeblock s) \<le> FSSIZE"
    and run: "get_indirect din es s = Ret din' es' s'" and ind: "indirect din' < FSSIZE"
  shows "es' = es \<and> indirect_found s din s' din'"
proof (cases "iaddrs din ! NDIRECT = 0")
  case True
  let ?f = "unat (freeblock s)" and ?d = "din\<lparr>iaddrs := (iaddrs din)[NDIRECT := freeblock s]\<rparr>"
  have len: "length (iaddrs din) = 13" using s(2) by (simp add: own_def)
  have r: "es' = es" "din' = ?d" "s' = s\<lparr>freeblock := freeblock s + 1\<rparr>"
    using run True by (auto simp: get_indirect_def fresh_block_run)
  have f: "indirect ?d = ?f" "?f < FSSIZE" "nmeta \<le> ?f"
    using ind r(2) s(1) len by (simp_all add: indirect_def image_ok_def)
  have z: "img s ! ?f = zeroes" using s(1) f by (simp add: image_ok_def)
  have a: "addr (img s) ?d h = addr (img s) din h" if "h < MAXFILE" for h
  proof (cases "h < NDIRECT")
    case False
    then have "4 * (h - NDIRECT) + 4 \<le> BSIZE" using that by (simp add: BSIZE_def)
    then show ?thesis using False True z f(1) zero_entry [of "4 * (h - 12)"] by (simp add: addr_def indirect_def)
  qed (simp add: addr_def)
  have "indirect din = 0" using True by (simp add: indirect_def)
  then have "own (img s) (Suc ?f) ?d" "refs (img s) ?d \<subseteq> insert ?f (refs (img s) din)"
    using s(2) a f len by (auto simp: own_def refs_def)
  then show ?thesis
    using r s f a unat_succ [of "freeblock s"] by (auto simp: indirect_found_def Let_def image_ok_Suc intro!: exI)
next
  case False
  then have r: "es' = es" "din' = din" "s' = s" using run by (simp_all add: get_indirect_def)
  have "indirect din \<noteq> 0" using False by (simp add: indirect_def unat_eq_0)
  then have "indirect din < unat (freeblock s)" using s(2) by (auto simp: own_def refs_def)
  then show ?thesis
    using r s \<open>indirect din \<noteq> 0\<close> by (auto simp: indirect_found_def Let_def intro!: exI [of _ "iaddrs din"])
qed

lemma get_entry_run:
  assumes s: "image_ok (img s) (unat (freeblock s))" "own (img s) (unat (freeblock s)) din" "unat (freeblock s) \<le> FSSIZE"
    and ind: "indirect din \<noteq> 0" "indirect din < unat (freeblock s)"
    and g: "\<not> g < NDIRECT" "g < MAXFILE" and run: "get_entry din (4 * (g - NDIRECT)) es s = Ret (din', x) es' s'"
  shows "es' = es \<and> din' = din \<and> block_found s din g s' din' (unat x)"
proof -
  let ?f = "unat (freeblock s)" and ?k = "4 * (g - NDIRECT)" and ?i = "indirect din"
  have i: "unat (iaddrs din ! 12) = ?i" "?i < length (img s)" "seek_block (iaddrs din ! 12) = ?i" and m: "nmeta \<le> ?f"
    using ind s by (simp_all add: indirect_def image_ok_def)
  have len: "length (img s ! ?i) = BSIZE" and k: "?k + 4 \<le> BSIZE"
    using s(1) i g by (simp_all add: image_ok_def BSIZE_def)
  have ag: "addr (img s) din g = unat (get32 (img s ! ?i) ?k)" using g(1) ind(1) by (simp add: addr_def)
  show ?thesis
  proof (cases "get32 (img s ! ?i) ?k = 0")
    case True
    let ?im = "(img s)[?i := splice (img s ! ?i) ?k (le32 (freeblock s))]"
    have r: "es' = es" "din' = din" "x = freeblock s" "s' = s\<lparr>img := ?im, freeblock := freeblock s + 1\<rparr>"
      using run True i by (auto simp: get_entry_def rsect_def fresh_block_run wsect_def image_write_def)
    have a: "addr ?im din h = (if h = g then ?f else addr (img s) din h)" if "h < MAXFILE" for h
    proof (cases "h < NDIRECT")
      case False
      have "4 * (h - NDIRECT) + 4 \<le> BSIZE" "h \<noteq> g \<Longrightarrow> 4 * (h - NDIRECT) + 4 \<le> ?k \<or> ?k + 4 \<le> 4 * (h - NDIRECT)"
        using that False g(1) by (auto simp: BSIZE_def)
      then show ?thesis
        using False i len k ind(1) get32_splice [of ?k "le32 (freeblock s)" "img s ! ?i"] get32_le32 [of "freeblock s" "[]"]
        by (simp add: addr_def)
    qed (use g(1) in \<open>simp add: addr_def\<close>)
    have z: "addr (img s) din g = 0" using True ag by simp
    have "own ?im (Suc ?f) din" "refs ?im din \<subseteq> insert ?f (refs (img s) din)"
      using own_add [OF s(2) m g(2) z refl _ a] s(2) by (simp_all add: own_def)
    moreover have "image_ok ?im (Suc ?f)"
      using image_ok_upd [OF image_ok_Suc [OF s(1)], of ?i] ind len k by simp
    ultimately show ?thesis
      using r s a z m g ind(1) unat_succ [of "freeblock s"]
      by (auto simp: block_found_def Let_def intro!: exI [of _ "iaddrs din"])
  next
    case False
    then have r: "es' = es" "din' = din" "x = get32 (img s ! ?i) ?k" "s' = s"
      using run i by (auto simp: get_entry_def rsect_def)
    then show ?thesis
      using s False ag by (auto simp: block_found_def Let_def unat_eq_0 intro!: exI [of _ "iaddrs din"])
  qed
qed

end
