(* ===== verification/Mkfs_Append.thy ===== *)
theory Mkfs_Append
  imports Mkfs_Blocks
begin

text \<open>
  \<^verbatim>\<open>iappend\<close>: finding the blocks of a file and appending to it, on the inode that the
  loop works on.
\<close>

lemma indirect_foundD:
  assumes "indirect_found s din s' din'"
  shows "freeinode s' = freeinode s" "img s' = img s" "\<exists>as. din' = din\<lparr>iaddrs := as\<rparr>"
    "unat (freeblock s) \<le> unat (freeblock s')" "unat (freeblock s') \<le> FSSIZE"
    "image_ok (img s) (unat (freeblock s'))" "own (img s) (unat (freeblock s')) din'"
    "indirect din' \<noteq> 0" "indirect din' < unat (freeblock s')"
    "h < MAXFILE \<Longrightarrow> addr (img s) din' h = addr (img s) din h"
    "refs (img s) din' \<subseteq> refs (img s) din \<union> {unat (freeblock s)..<unat (freeblock s')}"
  using assms by (simp_all add: indirect_found_def Let_def)

lemma block_foundD:
  assumes "block_found s din g s' din' x"
  shows "freeinode s' = freeinode s" "\<exists>as. din' = din\<lparr>iaddrs := as\<rparr>"
    "unat (freeblock s) \<le> unat (freeblock s')" "x < FSSIZE \<Longrightarrow> unat (freeblock s') \<le> FSSIZE"
    "image_ok (img s') (unat (freeblock s'))" "own (img s') (unat (freeblock s')) din'"
    "addr (img s') din' g = x" "x \<noteq> 0" "addr (img s) din g \<noteq> 0 \<Longrightarrow> x = addr (img s) din g"
    "addr (img s) din g = 0 \<Longrightarrow> unat (freeblock s) \<le> x"
    "h < MAXFILE \<Longrightarrow> h \<noteq> g \<Longrightarrow> addr (img s') din' h = addr (img s) din h"
    "b \<noteq> indirect din' \<or> b = 0 \<Longrightarrow> img s' ! b = img s ! b"
    "refs (img s') din' \<subseteq> refs (img s) din \<union> {unat (freeblock s)..<unat (freeblock s')}"
  using assms by (simp_all add: block_found_def Let_def)

lemma block_found_after:
  assumes i: "indirect_found s din s1 d1" and b: "block_found s1 d1 g s' din' x" and "g < MAXFILE"
  shows "block_found s din g s' din' x"
proof -
  note I = indirect_foundD [OF i] and B = block_foundD [OF b]
  have "\<exists>as. din' = din\<lparr>iaddrs := as\<rparr>" using I(3) B(2) by auto
  moreover have "addr (img s) d1 g = addr (img s) din g" using I(10) assms(3) by simp
  moreover have "refs (img s') din' \<subseteq> refs (img s) din \<union> {unat (freeblock s)..<unat (freeblock s')}"
  proof -
    have "{unat (freeblock s)..<unat (freeblock s1)} \<subseteq> {unat (freeblock s)..<unat (freeblock s')}"
        "{unat (freeblock s1)..<unat (freeblock s')} \<subseteq> {unat (freeblock s)..<unat (freeblock s')}"
      using I(4) B(3) by simp_all
    then show ?thesis using I(11) B(13) [unfolded I(2)] by blast
  qed
  moreover have "addr (img s') din' h = addr (img s) din h" if "h < MAXFILE" "h \<noteq> g" for h
    using I(2) I(10) B(11) that by simp
  moreover have "unat (freeblock s) \<le> unat (freeblock s')" using I(4) B(3) by simp
  ultimately show ?thesis
    unfolding block_found_def Let_def
    by (intro conjI allI impI) (use I(1,2,4) B(1) B(4-10,12) in \<open>simp_all only: simp_thms order_trans\<close>)
qed

lemma get_indirect_le:
  assumes "get_indirect din es s = Ret d es' s'" "length (iaddrs din) = NDIRECT + 1" "indirect din < FSSIZE"
    "unat (freeblock s) \<le> FSSIZE"
  shows "indirect d \<le> FSSIZE"
  using assms by (auto simp: get_indirect_def fresh_block_run indirect_def split: if_splits)

lemma get_entry_in:
  "get_entry d k es s = Ret r es' s' \<Longrightarrow> indirect d \<le> FSSIZE \<Longrightarrow> indirect d < length (img s)"
  by (auto simp: get_entry_def rsect_def indirect_def split: if_splits)

lemma file_block_free:
  assumes "file_block din g es s = Ret (d, x) es' s'" "unat (freeblock s) \<le> FSSIZE"
  shows "unat (freeblock s') \<le> FSSIZE + 2"
  using assms unat_succ [of "freeblock s"] unat_succ [of "freeblock s + 1"]
  by (auto simp: file_block_def get_indirect_def get_entry_def rsect_def wsect_def fresh_block_run split: if_splits)

lemma file_block_run:
  assumes s: "image_ok (img s) (unat (freeblock s))" "own (img s) (unat (freeblock s)) din" "unat (freeblock s) \<le> FSSIZE"
    and g: "g < MAXFILE" and run: "file_block din g es s = Ret (din', x) es' s'"
  shows "es' = es \<and> block_found s din g s' din' (unat x)"
proof (cases "g < NDIRECT")
  case True
  then show ?thesis using direct_block [OF s _ run] by simp
next
  case False
  then obtain d1 es1 s1 where r1: "get_indirect din es s = Ret d1 es1 s1"
      and r2: "get_entry d1 (4 * (g - NDIRECT)) es1 s1 = Ret (din', x) es' s'"
    using run by (auto simp: file_block_def split: outcome.splits)
  have "indirect d1 \<le> FSSIZE" using get_indirect_le [OF r1 _ _ s(3)] s(2) by (simp add: own_def)
  then have "indirect d1 < length (img s1)" by (rule get_entry_in [OF r2])
  moreover have "img s1 = img s" using r1 by (auto simp: get_indirect_def fresh_block_run split: if_splits)
  ultimately have "indirect d1 < FSSIZE" using s(1) by (simp add: image_ok_def)
  then have i: "es1 = es" "indirect_found s din s1 d1" using get_indirect_run [OF s r1] by simp_all
  note I = indirect_foundD [OF i(2)]
  have e: "es' = es1" "din' = d1" "block_found s1 d1 g s' din' (unat x)"
    using get_entry_run [OF _ _ _ I(8,9) False g r2] I(2,5,6,7) by auto
  show ?thesis using block_found_after [OF i(2) e(3) g] i(1) e(1) by simp
qed

subsection \<open>Appending\<close>

text \<open>Up to \<open>off\<close> the file has all its blocks.\<close>

definition filled :: "bytes list \<Rightarrow> inode \<Rightarrow> nat \<Rightarrow> bool" where
  "filled im din off \<longleftrightarrow> off \<le> MAXFILE * BSIZE \<and> (\<forall>g. g * BSIZE < off \<longrightarrow> addr im din g \<noteq> 0)"

definition appended :: "mkfs_state \<Rightarrow> inode \<Rightarrow> nat \<Rightarrow> bytes \<Rightarrow> mkfs_state \<Rightarrow> inode \<Rightarrow> bool" where
  "appended s din off p s' din' \<longleftrightarrow>
     (let im = img s; im' = img s'; f = unat (freeblock s); f' = unat (freeblock s') in
     freeinode s' = freeinode s \<and> (\<exists>as. din' = din\<lparr>iaddrs := as\<rparr>) \<and>
     f \<le> f' \<and> f' \<le> FSSIZE \<and> image_ok im' f' \<and> own im' f' din' \<and> filled im' din' (off + length p) \<and>
     (\<forall>k < off. file_byte im' din' k = file_byte im din k) \<and>
     (\<forall>k < length p. file_byte im' din' (off + k) = p ! k) \<and>
     (\<forall>b < f. b \<notin> refs im din \<longrightarrow> im' ! b = im ! b) \<and>
     refs im' din' \<subseteq> refs im din \<union> {f..<f'})"

lemma appended_Nil:
  "image_ok (img s) (unat (freeblock s)) \<Longrightarrow> own (img s) (unat (freeblock s)) din \<Longrightarrow>
    unat (freeblock s) \<le> FSSIZE \<Longrightarrow> filled (img s) din off \<Longrightarrow> appended s din off [] s din"
  by (auto simp: appended_def Let_def intro!: exI [of _ "iaddrs din"])

lemma appendedD:
  assumes "appended s din off p s' din'"
  shows "freeinode s' = freeinode s" "\<exists>as. din' = din\<lparr>iaddrs := as\<rparr>"
    "unat (freeblock s) \<le> unat (freeblock s')" "unat (freeblock s') \<le> FSSIZE"
    "image_ok (img s') (unat (freeblock s'))" "own (img s') (unat (freeblock s')) din'"
    "filled (img s') din' (off + length p)"
    "k < off \<Longrightarrow> file_byte (img s') din' k = file_byte (img s) din k"
    "k < length p \<Longrightarrow> file_byte (img s') din' (off + k) = p ! k"
    "b < unat (freeblock s) \<Longrightarrow> b \<notin> refs (img s) din \<Longrightarrow> img s' ! b = img s ! b"
    "refs (img s') din' \<subseteq> refs (img s) din \<union> {unat (freeblock s)..<unat (freeblock s')}"
  using assms by (simp_all add: appended_def Let_def)

lemma appended_trans:
  assumes a: "appended s din off p s1 d1" and b: "appended s1 d1 (off + length p) q s2 d2"
  shows "appended s din off (p @ q) s2 d2"
proof -
  note A = appendedD [OF a] and B = appendedD [OF b]
  have new: "file_byte (img s2) d2 (off + k) = (p @ q) ! k" if "k < length (p @ q)" for k
  proof (cases "k < length p")
    case True
    then show ?thesis using B(8) [of "off + k"] A(9) [of k] by (simp add: nth_append)
  next
    case False
    then show ?thesis using B(9) [of "k - length p"] that by (simp add: nth_append)
  qed
  have old: "file_byte (img s2) d2 k = file_byte (img s) din k" if "k < off" for k
    using A(8) [OF that] B(8) [of k] that by simp
  have frame: "img s2 ! k = img s ! k" if "k < unat (freeblock s)" "k \<notin> refs (img s) din" for k
  proof -
    have "k \<notin> refs (img s1) d1" using A(11) that by auto
    then show ?thesis using A(3) A(10) [OF that] B(10) [of k] that(1) by simp
  qed
  have own: "refs (img s2) d2 \<subseteq> refs (img s) din \<union> {unat (freeblock s)..<unat (freeblock s2)}"
  proof -
    have "{unat (freeblock s)..<unat (freeblock s1)} \<subseteq> {unat (freeblock s)..<unat (freeblock s2)}"
        "{unat (freeblock s1)..<unat (freeblock s2)} \<subseteq> {unat (freeblock s)..<unat (freeblock s2)}"
      using A(3) B(3) by simp_all
    then show ?thesis using A(11) B(11) by blast
  qed
  have "\<exists>as. d2 = din\<lparr>iaddrs := as\<rparr>" using A(2) B(2) by auto
  moreover have "unat (freeblock s) \<le> unat (freeblock s2)" using A(3) B(3) by simp
  moreover have "filled (img s2) d2 (off + length (p @ q))" using B(7) by (simp add: add.assoc)
  ultimately show ?thesis
    unfolding appended_def Let_def
    by (intro conjI allI impI) (use A(1) B(1) B(4-6) new old frame own in \<open>simp_all only: simp_thms\<close>)
qed

lemma own_not_indirect: "own im f din \<Longrightarrow> h < MAXFILE \<Longrightarrow> addr im din h \<noteq> 0 \<Longrightarrow> addr im din h \<noteq> indirect din"
  unfolding own_def by blast

lemma own_inj:
  "own im f din \<Longrightarrow> g < MAXFILE \<Longrightarrow> h < MAXFILE \<Longrightarrow> addr im din g \<noteq> 0 \<Longrightarrow> h \<noteq> g \<Longrightarrow> addr im din h \<noteq> addr im din g"
  unfolding own_def by blast

lemma div_mod_block:
  assumes "(off::nat) = g * b + o'" "o' < b"
  shows "off div b = g" "off mod b = o'"
  using assms by simp_all

lemma found_below:
  assumes b: "block_found s din g s' din' x" and g: "g < MAXFILE"
  shows "x < unat (freeblock s')"
proof -
  have "x \<in> refs (img s') din'" using block_foundD(7,8) [OF b] g by (auto simp: refs_def)
  then show ?thesis using block_foundD(6) [OF b] by (auto simp: own_def)
qed

text \<open>One round of the loop.\<close>

text \<open>Where a piece goes: into the block \<open>x\<close>, which holds the block \<open>g\<close> of the file.\<close>

lemma piece_place:
  assumes g: "g = off div BSIZE" "g < MAXFILE" and b: "block_found s din g s1 d1 x" and x: "x < FSSIZE"
    and p: "length p \<le> (g + 1) * BSIZE - off"
  defines "im \<equiv> (img s1)[x := splice (img s1 ! x) (off - g * BSIZE) p]" and "r \<equiv> off - g * BSIZE"
  shows "off = g * BSIZE + r" "r < BSIZE" "r + length p \<le> BSIZE" "length (img s1) = FSSIZE" "length (img s1 ! x) = BSIZE"
    "x \<noteq> indirect d1" "im ! indirect d1 = img s1 ! indirect d1" "addr im d1 = addr (img s1) d1"
    "h < MAXFILE \<Longrightarrow> h \<noteq> g \<Longrightarrow> addr (img s1) d1 h \<noteq> x"
proof -
  note B = block_foundD [OF b]
  show o: "off = g * BSIZE + r" "r < BSIZE" using g(1) by (simp_all add: r_def BSIZE_def)
  show "r + length p \<le> BSIZE" using p o by simp
  show "length (img s1) = FSSIZE" "length (img s1 ! x) = BSIZE" using B(5) x by (simp_all add: image_ok_def)
  show xi: "x \<noteq> indirect d1" using own_not_indirect [OF B(6) g(2)] B(7,8) by simp
  then show ind: "im ! indirect d1 = img s1 ! indirect d1" by (simp add: im_def)
  show "addr im d1 = addr (img s1) d1" by (rule addr_frame [OF ind])
  show "h < MAXFILE \<Longrightarrow> h \<noteq> g \<Longrightarrow> addr (img s1) d1 h \<noteq> x" using own_inj [OF B(6) g(2)] B(7,8) by simp
qed

lemma piece_keeps:
  assumes g: "g = off div BSIZE" "g < MAXFILE" and b: "block_found s din g s1 d1 x" and x: "x < FSSIZE"
    and p: "length p \<le> (g + 1) * BSIZE - off"
    and s: "filled (img s) din off" and k: "k < off"
  shows "file_byte ((img s1)[x := splice (img s1 ! x) (off - g * BSIZE) p]) d1 k = file_byte (img s) din k"
proof -
  note B = block_foundD [OF b]
  let ?im = "(img s1)[x := splice (img s1 ! x) (off - g * BSIZE) p]"
  let ?o = "off - g * BSIZE"
  note P = piece_place [OF g b x p]
  note off = P(1,2) and fits = P(3) and len = P(4,5) and xi = P(6) and a = P(8) and other = P(9)
  show ?thesis
  proof (cases "k div BSIZE = g")
    case True
    then have "g * BSIZE < off" using k by (metis div_times_less_eq_dividend le_less_trans)
    then have "addr (img s) din g \<noteq> 0" using s by (simp add: filled_def)
    then have "x = addr (img s) din g" by (rule B(9))
    moreover have "k mod BSIZE < ?o"
      using k off True by (metis add_less_cancel_left div_mult_mod_eq)
    ultimately show ?thesis
      using True a B(7) B(12) [of x] xi fits len x
      by (simp add: file_byte_def splice_nth)
  next
    case False
    let ?h = "k div BSIZE"
    have h: "?h < g" using k False g(1) by (metis div_le_mono le_neq_implies_less less_imp_le)
    have hm: "?h < MAXFILE" using h g(2) by simp
    have "?h * BSIZE < off" using k by (metis div_times_less_eq_dividend le_less_trans)
    then have "addr (img s) din ?h \<noteq> 0" using s by (simp add: filled_def)
    then have n: "addr (img s1) d1 ?h \<noteq> 0" "addr (img s1) d1 ?h = addr (img s) din ?h"
      using B(11) [OF hm False] by simp_all
    have "addr (img s1) d1 ?h \<noteq> indirect d1" by (rule own_not_indirect [OF B(6) hm n(1)])
    then show ?thesis
      using n a other [OF hm False] B(12) [of "addr (img s) din ?h"] by (simp add: file_byte_def)
  qed
qed

lemma piece_stored:
  assumes g: "g = off div BSIZE" "g < MAXFILE" and b: "block_found s din g s1 d1 x" and x: "x < FSSIZE"
    and p: "length p \<le> (g + 1) * BSIZE - off"
    and k: "k < length p"
  shows "file_byte ((img s1)[x := splice (img s1 ! x) (off - g * BSIZE) p]) d1 (off + k) = p ! k"
proof -
  note B = block_foundD [OF b]
  let ?im = "(img s1)[x := splice (img s1 ! x) (off - g * BSIZE) p]"
  let ?o = "off - g * BSIZE"
  note P = piece_place [OF g b x p]
  note off = P(1,2) and fits = P(3) and len = P(4,5) and xi = P(6) and a = P(8) and other = P(9)
  have "?o + k < BSIZE" "off + k = g * BSIZE + (?o + k)" using k fits off(1) by simp_all
  then have "(off + k) div BSIZE = g" "(off + k) mod BSIZE = ?o + k" by (simp_all only: div_mod_block)
  then show ?thesis using a B(7) fits len x k by (simp add: file_byte_def splice_nth)
qed

lemma piece_filled:
  assumes g: "g = off div BSIZE" "g < MAXFILE" and b: "block_found s din g s1 d1 x" and x: "x < FSSIZE"
    and p: "length p \<le> (g + 1) * BSIZE - off"
    and s: "filled (img s) din off"
  shows "filled ((img s1)[x := splice (img s1 ! x) (off - g * BSIZE) p]) d1 (off + length p)"
proof -
  note B = block_foundD [OF b]
  let ?im = "(img s1)[x := splice (img s1 ! x) (off - g * BSIZE) p]"
  let ?o = "off - g * BSIZE"
  note P = piece_place [OF g b x p]
  note off = P(1,2) and fits = P(3) and len = P(4,5) and xi = P(6) and a = P(8) and other = P(9)
  have "addr ?im d1 h \<noteq> 0" if h: "h * BSIZE < off + length p" for h
  proof (cases "h = g")
    case False
    have "h * BSIZE < (g + 1) * BSIZE" using h off fits by (simp add: algebra_simps)
    then have "h < g + 1" by (metis mult_less_cancel2)
    then have hg: "h < g" using False by simp
    then have "h * BSIZE < g * BSIZE" by (simp add: BSIZE_def)
    then have "h * BSIZE < off" using off(1) by linarith
    then show ?thesis using hg g(2) s a B(11) [of h] by (simp add: filled_def)
  qed (use a B(7,8) in simp)
  moreover have "off + length p \<le> MAXFILE * BSIZE"
    using off fits g(2) mult_le_mono1 [of "Suc g" MAXFILE BSIZE] by simp
  ultimately show ?thesis by (simp add: filled_def)
qed

lemma append_piece:
  assumes s: "image_ok (img s) (unat (freeblock s))" "own (img s) (unat (freeblock s)) din" "filled (img s) din off"
    and g: "g = off div BSIZE" "g < MAXFILE" and b: "block_found s din g s1 d1 x" and x: "x < FSSIZE"
    and p: "length p \<le> (g + 1) * BSIZE - off"
  shows "appended s din off p (s1\<lparr>img := (img s1)[x := splice (img s1 ! x) (off - g * BSIZE) p]\<rparr>) d1"
proof -
  note B = block_foundD [OF b]
  let ?im = "(img s1)[x := splice (img s1 ! x) (off - g * BSIZE) p]"
  let ?o = "off - g * BSIZE"
  note P = piece_place [OF g b x p]
  note fits = P(3) and len = P(4,5) and ind = P(7)
  have xf: "x < unat (freeblock s1)" by (rule found_below [OF b g(2)])
  have "filled ?im d1 (off + length p)" by (rule piece_filled [OF g b x p s(3)])
  moreover have "?im ! b = img s ! b" if "b < unat (freeblock s)" "b \<notin> refs (img s) din" for b
  proof -
    have "b \<noteq> x" using that B(9,10) B(8) g(2) by (cases "addr (img s) din g = 0") (auto simp: refs_def)
    moreover have "b \<noteq> indirect d1 \<or> b = 0"
      using that B(13) by (auto simp: refs_def)
    ultimately show ?thesis using B(12) by simp
  qed
  moreover have "image_ok ?im (unat (freeblock s1))"
    by (rule image_ok_upd [OF B(5) xf]) (use fits len in simp)
  moreover have "own ?im (unat (freeblock s1)) d1" by (rule own_frame [OF B(6) ind order_refl])
  moreover have "refs ?im d1 \<subseteq> refs (img s) din \<union> {unat (freeblock s)..<unat (freeblock s1)}"
    using refs_frame [OF ind] B(13) by simp
  ultimately show ?thesis
    unfolding appended_def Let_def
    by (intro conjI allI impI) (use B(1,2,3) B(4) [OF x] piece_keeps [OF g b x p s(3)] piece_stored [OF g b x p] in simp_all)
qed

text \<open>The blocks that \<open>n\<close> bytes from \<open>off\<close> on touch.\<close>

definition touched :: "nat \<Rightarrow> nat \<Rightarrow> nat" where
  "touched off n = (if n = 0 then 0 else (off mod BSIZE + n + (BSIZE - 1)) div BSIZE)"

lemma touched_step:
  assumes "0 < n" "m = min n (BSIZE - off mod BSIZE)"
  shows "touched off n \<ge> Suc (touched (off + m) (n - m))"
proof (cases "n \<le> BSIZE - off mod BSIZE")
  case True
  then have "touched (off + m) (n - m) = 0" using assms by (simp add: touched_def BSIZE_def)
  moreover have "1 * BSIZE \<le> off mod BSIZE + n + (BSIZE - 1)" using assms by simp
  then have "1 \<le> touched off n" using assms(1) unfolding touched_def by (simp add: BSIZE_def)
  ultimately show ?thesis by simp
next
  case False
  then have m: "m = BSIZE - off mod BSIZE" using assms by simp
  have lt: "off mod BSIZE < BSIZE" by (simp add: BSIZE_def)
  have "off + m = off div BSIZE * BSIZE + (off mod BSIZE + m)" by simp
  also have "off mod BSIZE + m = BSIZE" using m lt by simp
  finally have "(off + m) mod BSIZE = 0" by simp
  moreover have "off mod BSIZE + n = BSIZE + (n - m)" using m False lt by simp
  moreover have "0 < n - m" using m False by simp
  ultimately show ?thesis by (simp add: touched_def BSIZE_def)
qed

definition room :: "mkfs_state \<Rightarrow> inode \<Rightarrow> nat \<Rightarrow> bool" where
  "room s din n \<longleftrightarrow> unat (freeblock s) + n + (if indirect din = 0 then 1 else 0) \<le> FSSIZE"

lemma get_indirect_returns:
  assumes "unat (freeblock s) < FSSIZE" "length (iaddrs din) = NDIRECT + 1" "indirect din < FSSIZE"
  shows "\<exists>d s1. get_indirect din es s = Ret d es s1 \<and> indirect d < FSSIZE \<and> img s1 = img s"
  using assms by (simp add: get_indirect_def fresh_block_run indirect_def)

lemma get_entry_returns:
  assumes "indirect din < length (img s)" "length (img s) = FSSIZE"
  shows "\<exists>x s1. get_entry din k es s = Ret (din, x) es s1"
  using assms by (simp add: get_entry_def rsect_def fresh_block_run wsect_def indirect_def)

lemma file_block_returns:
  assumes "image_ok (img s) (unat (freeblock s))" "own (img s) (unat (freeblock s)) din" "room s din (Suc n)"
  shows "\<exists>d x s1. file_block din g es s = Ret (d, x) es s1"
proof (cases "g < NDIRECT")
  case True
  then show ?thesis by (simp add: file_block_def fresh_block_run)
next
  case False
  obtain d s1 where d: "get_indirect din es s = Ret d es s1" "indirect d < FSSIZE" "img s1 = img s"
    using get_indirect_returns [of s din es] assms by (auto simp: own_def room_def)
  obtain x s2 where "get_entry d (4 * (g - NDIRECT)) es s1 = Ret (d, x) es s2"
    using get_entry_returns [of d s1 "4 * (g - NDIRECT)" es] d assms(1) by (auto simp: image_ok_def)
  then show ?thesis using False d(1) by (simp add: file_block_def)
qed

lemma get_indirect_room:
  assumes "get_indirect din es s = Ret d es' s1" "length (iaddrs din) = NDIRECT + 1" "nmeta \<le> unat (freeblock s)" "room s din n"
  shows "room s1 d n \<and> indirect d \<noteq> 0"
proof (cases "iaddrs din ! NDIRECT = 0")
  case True
  then have "d = din\<lparr>iaddrs := (iaddrs din)[NDIRECT := freeblock s]\<rparr>" "s1 = s\<lparr>freeblock := freeblock s + 1\<rparr>"
    using assms(1) by (auto simp: get_indirect_def fresh_block_run)
  then show ?thesis
    using True assms(2-4) unat_succ [of "freeblock s"] by (simp add: room_def indirect_def)
next
  case False
  then show ?thesis using assms(1,4) by (auto simp: get_indirect_def indirect_def unat_eq_0)
qed

lemma get_entry_room:
  assumes "get_entry din k es s = Ret (d, x) es' s1" "room s din (Suc n)" "indirect din < length (img s)"
  shows "room s1 d n"
  using assms unat_succ [of "freeblock s"]
  by (auto simp: get_entry_def rsect_def fresh_block_run wsect_def room_def indirect_def split: if_splits)

lemma file_block_room:
  assumes run: "file_block din g es s = Ret (d, x) es' s1" and rm: "room s din (Suc n)"
    and s: "image_ok (img s) (unat (freeblock s))" "own (img s) (unat (freeblock s)) din"
  shows "room s1 d n"
proof (cases "g < NDIRECT")
  case True
  then have "(d, s1) = (din, s) \<or> d = din\<lparr>iaddrs := (iaddrs din)[g := freeblock s]\<rparr> \<and> s1 = s\<lparr>freeblock := freeblock s + 1\<rparr>"
    using run by (auto simp: file_block_def fresh_block_run split: if_splits)
  then show ?thesis using True rm unat_succ [of "freeblock s"] by (auto simp: room_def)
next
  case False
  then obtain d1 es1 s2 where r: "get_indirect din es s = Ret d1 es1 s2"
      "get_entry d1 (4 * (g - NDIRECT)) es1 s2 = Ret (d, x) es' s1"
    using run by (auto simp: file_block_def split: outcome.splits)
  have "room s2 d1 (Suc n)" using get_indirect_room [OF r(1) _ _ rm] s by (simp add: own_def image_ok_def)
  moreover have "indirect d1 \<le> FSSIZE" using get_indirect_le [OF r(1)] s rm by (simp add: own_def room_def)
  then have "indirect d1 < length (img s2)" by (rule get_entry_in [OF r(2)])
  ultimately show ?thesis using get_entry_room [OF r(2)] by simp
qed

lemma unat_add_nat32: "unat (w :: u32) + n < 4294967296 \<Longrightarrow> unat (w + of_nat n) = unat w + n"
  by (simp add: unat_word_ariths unat_of_nat mod_add_right_eq)

text \<open>The number of bytes that one round writes.\<close>

definition bite :: "u32 \<Rightarrow> bytes \<Rightarrow> nat" where
  "bite off p = min (length p) ((unat off div BSIZE + 1) * BSIZE - unat off)"

lemma bite_facts:
  assumes "unat off div BSIZE < MAXFILE"
  shows "bite off p = min (length p) (BSIZE - unat off mod BSIZE)" "p \<noteq> [] \<Longrightarrow> 0 < bite off p"
    "unat off + bite off p \<le> MAXFILE * BSIZE" "unat (off + of_nat (bite off p)) = unat off + bite off p"
    "length (take (bite off p) p) = bite off p"
proof -
  show b: "bite off p = min (length p) (BSIZE - unat off mod BSIZE)"
    by (simp add: bite_def minus_mult_div_eq_mod [symmetric] mult.commute BSIZE_def)
  show "p \<noteq> [] \<Longrightarrow> 0 < bite off p" unfolding b by (simp add: BSIZE_def)
  have "(unat off div BSIZE + 1) * BSIZE \<le> MAXFILE * BSIZE" using assms by (intro mult_le_mono1) simp
  moreover have "unat off \<le> (unat off div BSIZE + 1) * BSIZE"
    using mod_less_divisor [of BSIZE "unat off"] div_mult_mod_eq [of "unat off" BSIZE] by (simp add: BSIZE_def)
  ultimately show le: "unat off + bite off p \<le> MAXFILE * BSIZE" unfolding bite_def by linarith
  then show "unat (off + of_nat (bite off p)) = unat off + bite off p"
    by (intro unat_add_nat32) (simp add: BSIZE_def)
  show "length (take (bite off p) p) = bite off p" by (simp add: bite_def)
qed

definition piece_written :: "mkfs_state \<Rightarrow> nat \<Rightarrow> u32 \<Rightarrow> bytes \<Rightarrow> mkfs_state" where
  "piece_written s1 x off p = s1\<lparr>img := (img s1)[x := splice (img s1 ! x) (unat off - unat off div BSIZE * BSIZE) (take (bite off p) p)]\<rparr>"

lemma piece_written_free [simp]: "freeblock (piece_written s1 x off p) = freeblock s1"
  by (simp add: piece_written_def)

text \<open>A round of the loop as an equation, and what it does.\<close>

lemma iappend_round:
  assumes "p \<noteq> []" "unat off div BSIZE < MAXFILE" "file_block din (unat off div BSIZE) es s = Ret (d, x) es s1"
    "unat x < length (img s1)" "length (img s1) = FSSIZE"
  shows "iappend_loop (Suc k) din off p es s =
    iappend_loop k d (off + of_nat (bite off p)) (drop (bite off p) p) es (piece_written s1 (unat x) off p)"
  using assms by (simp add: rsect_def wsect_run Let_def bite_def piece_written_def)

lemma round_appended:
  assumes s: "image_ok (img s) (unat (freeblock s))" "own (img s) (unat (freeblock s)) din" "unat (freeblock s) \<le> FSSIZE"
    and "filled (img s) din (unat off)" "unat off div BSIZE < MAXFILE"
    and fb: "file_block din (unat off div BSIZE) es s = Ret (d, x) es' s1" and x: "unat x < FSSIZE"
  shows "appended s din (unat off) (take (bite off p) p) (piece_written s1 (unat x) off p) d"
proof -
  have "block_found s din (unat off div BSIZE) s1 d (unat x)" using file_block_run [OF s assms(5) fb] by simp
  then show ?thesis
    unfolding piece_written_def by (intro append_piece [OF s(1,2) assms(4) refl assms(5) _ x]) (auto simp: bite_def)
qed

lemma appended_round:
  assumes "appended s din (unat off) (take (bite off p) p) s1 d"
    "appended s1 d (unat off + bite off p) (drop (bite off p) p) s' d'" "bite off p \<le> length p"
  shows "appended s din (unat off) p s' d'"
  using appended_trans [OF assms(1), of "drop (bite off p) p" s' d'] assms(2,3) by simp

lemma bite_le: "bite off p \<le> length p"
  by (simp add: bite_def)

lemma iappend_loop_run:
  assumes "length p < k" "image_ok (img s) (unat (freeblock s))" "own (img s) (unat (freeblock s)) din"
    and "filled (img s) din (unat off)" "room s din (touched (unat off) (length p) + m)" "unat off + length p \<le> MAXFILE * BSIZE"
  shows "\<exists>din' off' s'. iappend_loop k din off p es s = Ret (din', off') es s' \<and>
    unat off' = unat off + length p \<and> appended s din (unat off) p s' din' \<and> room s' din' m"
  using assms
proof (induction k arbitrary: din off p s)
  case 0
  then show ?case by simp
next
  case (Suc k)
  note s = Suc.prems(2,3)
  have le: "unat (freeblock s) \<le> FSSIZE" using Suc.prems(5) by (simp add: room_def split: if_splits)
  show ?case
  proof (cases "p = []")
    case True
    then show ?thesis using appended_Nil [OF s le Suc.prems(4)] Suc.prems(5) by (simp add: touched_def)
  next
    case False
    let ?n = "bite off p"
    have "unat off < MAXFILE * BSIZE" using Suc.prems(6) False by (cases p) auto
    then have g: "unat off div BSIZE < MAXFILE" by (rule less_mult_imp_div_less)
    note n = bite_facts [OF g, of p]
    have t: "room s din (Suc (touched (unat off + ?n) (length p - ?n) + m))"
      using touched_step [of "length p" ?n "unat off"] n(1) False Suc.prems(5) by (simp add: room_def split: if_splits)
    obtain d x s1 where fb: "file_block din (unat off div BSIZE) es s = Ret (d, x) es s1"
      using file_block_returns [OF s t] by blast
    have rm: "room s1 d (touched (unat off + ?n) (length p - ?n) + m)" by (rule file_block_room [OF fb t s])
    have b: "block_found s din (unat off div BSIZE) s1 d (unat x)" using file_block_run [OF s le g fb] by simp
    have x: "unat x < FSSIZE" using found_below [OF b g] rm by (simp add: room_def split: if_splits)
    let ?s2 = "piece_written s1 (unat x) off p"
    note a = round_appended [OF s le Suc.prems(4) g fb x, of p] and A = appendedD [OF round_appended [OF s le Suc.prems(4) g fb x, of p]]
    have "\<exists>d' off' s'. iappend_loop k d (off + of_nat ?n) (drop ?n p) es ?s2 = Ret (d', off') es s' \<and>
        unat off' = unat (off + of_nat ?n) + length (drop ?n p) \<and> appended ?s2 d (unat (off + of_nat ?n)) (drop ?n p) s' d' \<and> room s' d' m"
    proof (rule Suc.IH)
      show "length (drop ?n p) < k" using Suc.prems(1) n(2) [OF False] False by (cases p) auto
      show "filled (img ?s2) d (unat (off + of_nat ?n))" using A(7) unfolding n(4,5) .
      show "room ?s2 d (touched (unat (off + of_nat ?n)) (length (drop ?n p)) + m)"
        using rm unfolding n(4) by (simp add: room_def)
      show "unat (off + of_nat ?n) + length (drop ?n p) \<le> MAXFILE * BSIZE"
        using Suc.prems(6) bite_le [of off p] unfolding n(4) by simp
    qed (rule A)+
    then obtain d' off' s' where l: "iappend_loop k d (off + of_nat ?n) (drop ?n p) es ?s2 = Ret (d', off') es s'"
        "unat off' = unat off + length p" "appended ?s2 d (unat off + ?n) (drop ?n p) s' d'" "room s' d' m"
      using bite_le [of off p] unfolding n(4) by auto
    have "unat x < length (img s1)" "length (img s1) = FSSIZE" using x block_foundD(5) [OF b] by (simp_all add: image_ok_def)
    then show ?thesis
      using iappend_round [OF False g fb] l(1,2,4) appended_round [OF a l(3) bite_le] by (intro exI conjI) simp_all
  qed
qed

text \<open>Whatever room there is: a run that returns has appended.\<close>

lemma iappend_loop_Ret:
  assumes "image_ok (img s) (unat (freeblock s))" "own (img s) (unat (freeblock s)) din" "unat (freeblock s) \<le> FSSIZE"
    and "filled (img s) din (unat off)" "iappend_loop k din off p es s = Ret (din', off') es' s'"
  shows "es' = es \<and> unat off' = unat off + length p \<and> appended s din (unat off) p s' din'"
  using assms
proof (induction k arbitrary: din off p s)
  case 0
  then show ?case by simp
next
  case (Suc k)
  note s = Suc.prems(1,2,3)
  show ?case
  proof (cases "p = []")
    case True
    then show ?thesis using appended_Nil [OF s Suc.prems(4)] Suc.prems(5) by auto
  next
    case False
    let ?n = "bite off p"
    have g: "unat off div BSIZE < MAXFILE" using Suc.prems(5) False by (auto simp: Let_def split: if_splits)
    note n = bite_facts [OF g, of p]
    obtain d x es1 s1 where fb1: "file_block din (unat off div BSIZE) es s = Ret (d, x) es1 s1"
      using Suc.prems(5) False g by (auto simp: Let_def split: outcome.splits)
    have b: "es1 = es" "block_found s din (unat off div BSIZE) s1 d (unat x)" using file_block_run [OF s g fb1] by simp_all
    note fb = fb1 [unfolded b(1)]
    have len: "length (img s1) = FSSIZE" using block_foundD(5) [OF b(2)] by (simp add: image_ok_def)
    have "unat x < FSSIZE + 2" using found_below [OF b(2) g] file_block_free [OF fb s(3)] by simp
    then have x: "unat x < FSSIZE"
      using Suc.prems(5) False g fb len by (auto simp: Let_def rsect_def split: if_splits)
    note a = round_appended [OF s Suc.prems(4) g fb x, of p] and A = appendedD [OF round_appended [OF s Suc.prems(4) g fb x, of p]]
    have "iappend_loop k d (off + of_nat ?n) (drop ?n p) es (piece_written s1 (unat x) off p) = Ret (din', off') es' s'"
      using iappend_round [OF False g fb, of k] Suc.prems(5) x len by simp
    then have "es' = es \<and> unat off' = unat (off + of_nat ?n) + length (drop ?n p) \<and>
        appended (piece_written s1 (unat x) off p) d (unat (off + of_nat ?n)) (drop ?n p) s' din'"
    proof (rule Suc.IH [rotated 4])
      show "filled (img (piece_written s1 (unat x) off p)) d (unat (off + of_nat ?n))" using A(7) unfolding n(4,5) .
    qed (rule A)+
    then show ?thesis using appended_round [OF a _ bite_le, of s' din'] bite_le [of off p] unfolding n(4) by simp
  qed
qed

end
