(* ===== verification/Mkfs_Correct.thy ===== *)
theory Mkfs_Correct
  imports Mkfs_Append
begin

text \<open>
  What \<^verbatim>\<open>mkfs\<close> builds: files that keep their contents while others grow, and an image
  that the kernel can start from.
\<close>

subsection \<open>Inodes\<close>

definition inode_of :: "bytes list \<Rightarrow> nat \<Rightarrow> inode" where
  "inode_of im i = decode_dinode (im ! (i div 16 + 32)) (64 * (i mod 16)) blank_inode"

text \<open>Every file has its own blocks, up to its size.\<close>

definition fs_ok :: "mkfs_state \<Rightarrow> bool" where
  "fs_ok s \<longleftrightarrow> image_ok (img s) (unat (freeblock s)) \<and> unat (freeblock s) \<le> FSSIZE \<and>
     (\<forall>i < NINODES. own (img s) (unat (freeblock s)) (inode_of (img s) i) \<and>
        filled (img s) (inode_of (img s) i) (unat (isize (inode_of (img s) i)))) \<and>
     (\<forall>i < NINODES. \<forall>j < NINODES. i \<noteq> j \<longrightarrow> refs (img s) (inode_of (img s) i) \<inter> refs (img s) (inode_of (img s) j) = {})"

lemma refs_same:
  assumes "\<forall>b \<in> refs im d. im' ! b = im ! b"
  shows "addr im' d = addr im d" "refs im' d = refs im d"
proof -
  have "indirect d \<noteq> 0 \<Longrightarrow> im' ! indirect d = im ! indirect d" using assms by (simp add: refs_def)
  then show a: "addr im' d = addr im d" by (intro ext) (simp add: addr_def)
  then show "refs im' d = refs im d" by (simp add: refs_def)
qed

lemma own_same:
  assumes "own im f d" "\<forall>b \<in> refs im d. im' ! b = im ! b" "f \<le> f'"
  shows "own im' f' d"
  using assms(1,3) refs_same [OF assms(2)] by (auto simp: own_def)

lemma filled_addr:
  "filled im d n \<Longrightarrow> k < n \<Longrightarrow> addr im d (k div BSIZE) \<in> refs im d"
proof -
  assume a: "filled im d n" "k < n"
  have "k div BSIZE * BSIZE < n" using a(2) div_times_less_eq_dividend [of k BSIZE] by linarith
  moreover have "k < MAXFILE * BSIZE" using a by (simp add: filled_def)
  then have "k div BSIZE < MAXFILE" by (rule less_mult_imp_div_less)
  ultimately show ?thesis using a(1) by (simp add: filled_def refs_def)
qed

lemma file_byte_same:
  assumes "\<forall>b \<in> refs im d. im' ! b = im ! b" "filled im d n" "k < n"
  shows "file_byte im' d k = file_byte im d k"
  using assms(1) filled_addr [OF assms(2,3)] refs_same(1) [OF assms(1)] by (simp add: file_byte_def)

lemma contents_same:
  assumes "\<forall>b \<in> refs im d. im' ! b = im ! b" "filled im d (unat (isize d))"
  shows "contents im' d = contents im d"
  unfolding contents_def by (rule map_cong [OF refl file_byte_same [OF assms]]) simp

text \<open>Where the inodes are.\<close>

lemma inode_place:
  assumes "i < NINODES"
  shows "unat (IBLOCK (of_nat i) mk_sb) = i div 16 + 32" "dinode_off (of_nat i) = 64 * (i mod 16)"
    "i div 16 + 32 < nmeta" "32 \<le> i div 16 + 32"
proof -
  have u: "unat (of_nat i :: u32) = i" using assms by (simp add: unat_of_nat)
  have "i div 16 < 13" using assms by simp
  then show "unat (IBLOCK (of_nat i) mk_sb) = i div 16 + 32"
    using u by (simp add: IBLOCK_def mk_sb_def BSIZE_def unat_word_ariths unat_div)
  show "dinode_off (of_nat i) = 64 * (i mod 16)" using u by (simp add: dinode_off_def BSIZE_def)
  show "i div 16 + 32 < nmeta" "32 \<le> i div 16 + 32" using \<open>i div 16 < 13\<close> by (simp_all add: BSIZE_def)
qed

lemma rinode_run:
  assumes "i < NINODES" "length (img s) = FSSIZE"
  shows "rinode (of_nat i) es s = Ret (inode_of (img s) i) es s"
  using assms inode_place [OF assms(1)] by (simp add: rinode_def rsect_def inode_of_def BSIZE_def)

definition inode_written :: "bytes list \<Rightarrow> nat \<Rightarrow> inode \<Rightarrow> bytes list" where
  "inode_written im i d = im[i div 16 + 32 := splice (im ! (i div 16 + 32)) (64 * (i mod 16)) (encode_dinode d)]"

lemma winode_run:
  assumes "i < NINODES" "length (img s) = FSSIZE"
  shows "winode (of_nat i) d es s = Ret () es (s\<lparr>img := inode_written (img s) i d\<rparr>)"
  using assms inode_place [OF assms(1)]
  by (simp add: winode_def rsect_def wsect_def image_write_def inode_written_def BSIZE_def Let_def)

text \<open>An inode as it is read from the disk: the fields in memory are those of the blank one.\<close>

definition on_disk :: "inode \<Rightarrow> bool" where
  "on_disk d \<longleftrightarrow> blank_inode\<lparr>itype := itype d, imajor := imajor d, iminor := iminor d, inlink := inlink d,
     isize := isize d, iaddrs := iaddrs d\<rparr> = d"

lemma inode_of_written:
  assumes "i < NINODES" "j < NINODES" "length im = FSSIZE" "\<forall>b \<in> set im. length b = BSIZE"
    "length (iaddrs d) = NDIRECT + 1" "on_disk d"
  shows "inode_of (inode_written im i d) j = (if j = i then d else inode_of im j)"
proof (cases "j div 16 = i div 16")
  case True
  have len: "length (im ! (i div 16 + 32)) = BSIZE" "i div 16 + 32 < length im"
    using assms inode_place(3) [OF assms(1)] by (simp_all add: BSIZE_def)
  have o: "dinode_off (of_nat i) = 64 * (i mod 16)" "dinode_off (of_nat j) = 64 * (j mod 16)"
    using inode_place(2) assms(1,2) by simp_all
  have "j = i \<longleftrightarrow> j mod 16 = i mod 16" using True by (metis div_mult_mod_eq)
  then show ?thesis
    using dinode_splice [OF len(1) assms(5), of "of_nat i" "of_nat j" blank_inode] True assms(6) len
    by (simp add: o inode_of_def inode_written_def on_disk_def)
next
  case False
  then show ?thesis by (auto simp: inode_of_def inode_written_def)
qed

lemma filled_same: "\<forall>b \<in> refs im d. im' ! b = im ! b \<Longrightarrow> filled im d n \<Longrightarrow> filled im' d n"
  using refs_same(1) [of im d im'] by (simp add: filled_def)

lemma refs_size [simp]: "refs im (d\<lparr>isize := z\<rparr>) = refs im d" "own im f (d\<lparr>isize := z\<rparr>) = own im f d"
    "filled im (d\<lparr>isize := z\<rparr>) n = filled im d n" "file_byte im (d\<lparr>isize := z\<rparr>) k = file_byte im d k"
  by (simp_all add: refs_def own_def filled_def file_byte_def)

lemma fs_okD:
  assumes "fs_ok s"
  shows "image_ok (img s) (unat (freeblock s))" "unat (freeblock s) \<le> FSSIZE" "length (img s) = FSSIZE"
    "\<forall>b \<in> set (img s). length b = BSIZE"
    "i < NINODES \<Longrightarrow> own (img s) (unat (freeblock s)) (inode_of (img s) i)"
    "i < NINODES \<Longrightarrow> filled (img s) (inode_of (img s) i) (unat (isize (inode_of (img s) i)))"
    "i < NINODES \<Longrightarrow> j < NINODES \<Longrightarrow> i \<noteq> j \<Longrightarrow> refs (img s) (inode_of (img s) i) \<inter> refs (img s) (inode_of (img s) j) = {}"
  using assms by (simp_all add: fs_ok_def image_ok_def)

lemma own_above: "own im f d \<Longrightarrow> b \<in> refs im d \<Longrightarrow> nmeta \<le> b \<and> b < f"
  unfolding own_def by auto

lemma on_disk_inode_of: "on_disk (inode_of im i)"
  by (simp add: on_disk_def inode_of_def decode_dinode_def)

lemma on_disk_upd: "on_disk d \<Longrightarrow> on_disk (d\<lparr>iaddrs := as\<rparr>)" "on_disk d \<Longrightarrow> on_disk (d\<lparr>isize := z\<rparr>)"
  by (cases d; simp add: on_disk_def blank_inode_def)+

lemma inode_written_ok:
  assumes "image_ok im f" "i < NINODES" "length (iaddrs d) = NDIRECT + 1"
  shows "image_ok (inode_written im i d) f"
proof -
  have "i mod 16 < 16" by simp
  then have "64 * (i mod 16) + 64 \<le> BSIZE" unfolding BSIZE_def by linarith
  moreover have "length (im ! (i div 16 + 32)) = BSIZE" "i div 16 + 32 < f"
    using assms(1) inode_place(3) [OF assms(2)] by (simp_all add: image_ok_def BSIZE_def)
  ultimately show ?thesis
    unfolding inode_written_def by (intro image_ok_upd [OF assms(1)]) (simp_all add: length_dinode [OF assms(3)])
qed

text \<open>
  Writing back the inode of a file that has grown by blocks of its own: the image is
  well formed again, and the other files are as they were.
\<close>

lemma write_back:
  assumes ok: "fs_ok s" and i: "i < NINODES" and a: "appended s (inode_of (img s) i) off p s1 d1"
    and off: "unat off' = off + length p" and d2: "d2 = d1\<lparr>isize := off'\<rparr>"
    and s2: "s2 = s1\<lparr>img := inode_written (img s1) i d2\<rparr>"
  shows "fs_ok s2" "inode_of (img s2) i = d2" "\<forall>b \<in> refs (img s1) d1. img s2 ! b = img s1 ! b"
    "\<And>j. j < NINODES \<Longrightarrow> j \<noteq> i \<Longrightarrow> inode_of (img s2) j = inode_of (img s) j \<and>
      contents (img s2) (inode_of (img s) j) = contents (img s) (inode_of (img s) j)"
proof -
  note O = fs_okD [OF ok] and A = appendedD [OF a]
  let ?d = "inode_of (img s) i" and ?f = "unat (freeblock s)" and ?f' = "unat (freeblock s1)" and ?ib = "i div 16 + 32"
  note ib = inode_place(3) [OF i]
  have fm: "nmeta \<le> ?f" "nmeta \<le> ?f'" using O(1) A(5) by (simp_all add: image_ok_def)
  have meta: "img s1 ! b = img s ! b" if "b < nmeta" for b
    using A(10) [of b] that fm own_above [OF O(5) [OF i], of b] by auto
  have i1: "length (img s1) = FSSIZE" "\<forall>b \<in> set (img s1). length b = BSIZE" using A(5) by (simp_all add: image_ok_def)
  obtain as where as: "d1 = ?d\<lparr>iaddrs := as\<rparr>" using A(2) by blast
  have len: "length (iaddrs d2) = NDIRECT + 1" using A(6) d2 by (simp add: own_def)
  have disk: "on_disk d2" using on_disk_inode_of [of "img s" i] as d2 by (simp add: on_disk_upd)
  have inode1: "inode_of (img s1) j = inode_of (img s) j" if "j < NINODES" for j
    using meta [OF inode_place(3) [OF that]] by (simp add: inode_of_def)
  have inode2: "inode_of (img s2) j = (if j = i then d2 else inode_of (img s) j)" if "j < NINODES" for j
    using inode_of_written [OF i that i1 len disk] inode1 [OF that] s2 by simp
  then show "inode_of (img s2) i = d2" using i by simp
  have im2: "img s2 ! b = img s1 ! b" if "nmeta \<le> b" for b
    using that ib s2 by (simp add: inode_written_def)
  then show same1: "\<forall>b \<in> refs (img s1) d1. img s2 ! b = img s1 ! b"
    using own_above [OF A(6)] by blast
  have same: "\<forall>b \<in> refs (img s) (inode_of (img s) j). img s2 ! b = img s ! b" if "j < NINODES" "j \<noteq> i" for j
    using im2 A(10) own_above [OF O(5) [OF that(1)]] O(7) [OF that(1) i that(2)] by fastforce
  show "inode_of (img s2) j = inode_of (img s) j \<and>
      contents (img s2) (inode_of (img s) j) = contents (img s) (inode_of (img s) j)" if "j < NINODES" "j \<noteq> i" for j
    using inode2 [OF that(1)] that(2) contents_same [OF same [OF that] O(6) [OF that(1)]] by simp
  have ok2: "image_ok (img s2) ?f'" using inode_written_ok [OF A(5) i len] s2 by simp
  have f2: "freeblock s2 = freeblock s1" using s2 by simp
  have "own (img s2) ?f' (inode_of (img s2) j) \<and>
      filled (img s2) (inode_of (img s2) j) (unat (isize (inode_of (img s2) j)))" if "j < NINODES" for j
    using inode2 [OF that] own_same [OF A(6) same1 order_refl] filled_same [OF same1 A(7)] off d2
      own_same [OF O(5) [OF that] same [OF that] A(3)] filled_same [OF same [OF that] O(6) [OF that]]
    by (cases "j = i") simp_all
  moreover have r: "refs (img s2) (inode_of (img s2) i) \<subseteq> refs (img s) ?d \<union> {?f..<?f'}"
    using refs_same(2) [OF same1] A(11) inode2 [OF i] d2 by simp
  have "refs (img s2) (inode_of (img s2) i) \<inter> refs (img s2) (inode_of (img s2) j) = {}" if "j < NINODES" "j \<noteq> i" for j
    using r refs_same(2) [OF same [OF that]] inode2 [OF that(1)] that(2) O(7) [OF i that(1)] own_above [OF O(5) [OF that(1)]]
    by fastforce
  moreover have "refs (img s2) (inode_of (img s2) j) \<inter> refs (img s2) (inode_of (img s2) k) = {}"
    if "j < NINODES" "j \<noteq> i" "k < NINODES" "k \<noteq> i" "j \<noteq> k" for j k
    using that refs_same(2) [OF same] inode2 O(7) by simp
  ultimately show "fs_ok s2"
    unfolding fs_ok_def f2 using ok2 A(4) by (metis Int_commute)
qed

text \<open>The blocks in front of the data that hold no inodes.\<close>

definition fixed_block :: "nat \<Rightarrow> bool" where
  "fixed_block b \<longleftrightarrow> b < 32 \<or> b = 45"

lemma fixed_block_facts: "fixed_block b \<Longrightarrow> b < nmeta \<and> (i < NINODES \<longrightarrow> b \<noteq> i div 16 + 32)"
  by (auto simp: fixed_block_def BSIZE_def)

definition grown :: "mkfs_state \<Rightarrow> nat \<Rightarrow> bytes \<Rightarrow> mkfs_state \<Rightarrow> bool" where
  "grown s i p s' \<longleftrightarrow> fs_ok s' \<and> freeinode s' = freeinode s \<and>
     (\<forall>b. fixed_block b \<longrightarrow> img s' ! b = img s ! b) \<and>
     contents (img s') (inode_of (img s') i) = contents (img s) (inode_of (img s) i) @ p \<and>
     itype (inode_of (img s') i) = itype (inode_of (img s) i) \<and>
     (\<forall>j < NINODES. j \<noteq> i \<longrightarrow> inode_of (img s') j = inode_of (img s) j \<and>
        contents (img s') (inode_of (img s') j) = contents (img s) (inode_of (img s) j))"

lemma iappend_loop_grown:
  assumes ok: "fs_ok s" and i: "i < NINODES" and off: "unat off' = unat (isize (inode_of (img s) i)) + length p"
    and a: "appended s (inode_of (img s) i) (unat (isize (inode_of (img s) i))) p s1 d1"
    and s2: "s2 = s1\<lparr>img := inode_written (img s1) i (d1\<lparr>isize := off'\<rparr>)\<rparr>"
  shows "grown s i p s2"
proof -
  note O = fs_okD [OF ok] and A = appendedD [OF a] and W = write_back [OF ok i a off refl s2]
  let ?d = "inode_of (img s) i" and ?d2 = "d1\<lparr>isize := off'\<rparr>"
  obtain as where as: "d1 = ?d\<lparr>iaddrs := as\<rparr>" using A(2) by blast
  have "img s2 ! b = img s ! b" if "fixed_block b" for b
  proof -
    have "b < nmeta" "b \<noteq> i div 16 + 32" using fixed_block_facts [OF that, of i] i by simp_all
    moreover have "nmeta \<le> unat (freeblock s)" using O(1) by (simp add: image_ok_def)
    ultimately show ?thesis
      using A(10) [of b] own_above [OF O(5) [OF i], of b] s2 by (auto simp: inode_written_def)
  qed
  moreover have "contents (img s2) ?d2 = contents (img s) ?d @ p"
  proof (rule nth_equalityI)
    show "length (contents (img s2) ?d2) = length (contents (img s) ?d @ p)" using off by (simp add: contents_def)
    fix k assume k: "k < length (contents (img s2) ?d2)"
    then have lt: "k < unat (isize ?d) + length p" using off by (simp add: contents_def)
    have "contents (img s2) ?d2 ! k = file_byte (img s1) d1 k"
      using file_byte_same [OF W(3) A(7) lt] k by (simp add: contents_def)
    also have "\<dots> = (contents (img s) ?d @ p) ! k"
      using A(8) [of k] A(9) [of "k - unat (isize ?d)"] lt
      by (cases "k < unat (isize ?d)") (auto simp: contents_def nth_append)
    finally show "contents (img s2) ?d2 ! k = (contents (img s) ?d @ p) ! k" .
  qed
  moreover have "freeinode s2 = freeinode s" using A(1) s2 by simp
  ultimately show ?thesis
    using W(1,2,4) as by (simp add: grown_def)
qed

lemma iappend_run:
  assumes ok: "fs_ok s" and i: "i < NINODES"
    and fits: "unat (isize (inode_of (img s) i)) + length p \<le> MAXFILE * BSIZE"
    and rm: "room s (inode_of (img s) i) (touched (unat (isize (inode_of (img s) i))) (length p) + m)"
  shows "\<exists>s'. iappend (of_nat i) p es s = Ret () es s' \<and> grown s i p s' \<and> room s' (inode_of (img s') i) m"
proof -
  note O = fs_okD [OF ok]
  obtain d1 off' s1 where l: "iappend_loop (Suc (length p)) (inode_of (img s) i) (isize (inode_of (img s) i)) p es s = Ret (d1, off') es s1"
      "unat off' = unat (isize (inode_of (img s) i)) + length p"
      "appended s (inode_of (img s) i) (unat (isize (inode_of (img s) i))) p s1 d1"
      "room s1 d1 m"
    using iappend_loop_run [OF _ O(1) O(5) [OF i] O(6) [OF i] rm fits, of "Suc (length p)" es] by auto
  let ?s2 = "s1\<lparr>img := inode_written (img s1) i (d1\<lparr>isize := off'\<rparr>)\<rparr>"
  have "length (img s1) = FSSIZE" using appendedD(5) [OF l(3)] by (simp add: image_ok_def)
  then have "iappend (of_nat i) p es s = Ret () es ?s2"
    using l(1) by (simp add: iappend_def rinode_run [OF i O(3)] winode_run [OF i])
  moreover have "grown s i p ?s2" by (rule iappend_loop_grown [OF ok i l(2,3) refl])
  moreover have "inode_of (img ?s2) i = d1\<lparr>isize := off'\<rparr>"
    using write_back [OF ok i l(3,2) refl refl] i by simp
  then have "room ?s2 (inode_of (img ?s2) i) m" using l(4) by (simp add: room_def)
  ultimately show ?thesis by blast
qed

end
