(* ===== verification/Mkfs_Image.thy ===== *)
theory Mkfs_Image
  imports Mkfs_Correct Log_Crash
begin

text \<open>
  The image that \<^verbatim>\<open>mkfs\<close> leaves, as the kernel finds it: the super block, an empty log,
  the root directory and the bitmap.
\<close>

subsection \<open>The bitmap\<close>

definition block_used :: "bytes \<Rightarrow> nat \<Rightarrow> bool" where
  "block_used d b \<longleftrightarrow> d ! (b div 8) AND bit_mask b \<noteq> 0"

lemma and_bit_mask: "(w :: u8) AND bit_mask b \<noteq> 0 \<longleftrightarrow> bit w (b mod 8)"
  by (simp add: bit_mask_def bit_iff_and_push_bit_not_eq_0)

lemma bit_bit_mask: "bit (bit_mask i) (b mod 8) \<longleftrightarrow> i mod 8 = b mod 8"
proof -
  have "b mod 8 < 8" by simp
  then show ?thesis by (auto simp: bit_mask_def bit_exp_iff simp del: mod_less_divisor)
qed

lemma bitmap_used:
  assumes "used \<le> BPB" "b < BPB"
  shows "length (bitmap_bytes used) = BSIZE \<and> (block_used (bitmap_bytes used) b \<longleftrightarrow> b < used)"
  using assms(1)
proof (induction used)
  case 0
  have "b div 8 < BSIZE" using assms(2) by simp
  then show ?case by (simp add: bitmap_bytes_def zeroes_def block_used_def)
next
  case (Suc i)
  let ?d = "bitmap_bytes i"
  have step: "bitmap_bytes (Suc i) = ?d[i div 8 := ?d ! (i div 8) OR bit_mask i]" by (simp add: bitmap_bytes_def)
  have IH: "length ?d = BSIZE" "block_used ?d b \<longleftrightarrow> b < i" using Suc by simp_all
  have lt: "i div 8 < BSIZE" "b div 8 < BSIZE" using Suc.prems assms(2) by simp_all
  show ?case
  proof (cases "b div 8 = i div 8")
    case True
    then have "b = i \<longleftrightarrow> i mod 8 = b mod 8" by (metis div_mult_mod_eq)
    then show ?thesis
      using True IH lt by (auto simp: step block_used_def and_bit_mask bit_or_iff bit_bit_mask less_Suc_eq)
  next
    case False
    then show ?thesis using IH lt by (auto simp: step block_used_def less_Suc_eq)
  qed
qed

lemma takeWhile_upt: "m \<le> n \<Longrightarrow> takeWhile (\<lambda>i. i < m) [0..<n] = [0..<m]"
proof -
  assume "m \<le> n"
  then have "[0..<n] = [0..<m] @ [m..<n]" by (metis le_add_diff_inverse upt_add_eq_append zero_le)
  then show ?thesis by (cases "m < n") (simp_all add: takeWhile_append upt_conv_Cons)
qed

lemma first_free_bit:
  assumes "used < FSSIZE"
  shows "balloc_bit (bitmap_bytes used) 0 FSSIZE = Some used"
proof -
  have u: "block_used (bitmap_bytes used) b \<longleftrightarrow> b < used" if "b < FSSIZE" for b
    using bitmap_used [of used b] assms that by (simp add: BSIZE_def)
  have "takeWhile (\<lambda>bi. 0 + bi < FSSIZE) [0..<BPB] = [0..<FSSIZE]"
    using takeWhile_upt [of FSSIZE BPB] by (simp add: BSIZE_def)
  moreover have "find (\<lambda>bi. \<not> block_used (bitmap_bytes used) bi) [0..<FSSIZE] = Some used"
    using u assms by (auto simp: find_Some_iff intro!: exI [of _ used])
  ultimately show ?thesis by (simp add: balloc_bit_def block_used_def)
qed

subsection \<open>The operations on the whole image\<close>

lemma iappend_Ret:
  assumes ok: "fs_ok s" and i: "i < NINODES" and run: "iappend (of_nat i) p es s = Ret u es' s'"
  shows "es' = es \<and> grown s i p s'"
proof -
  note O = fs_okD [OF ok]
  obtain d1 off' es1 s1 where l: "iappend_loop (Suc (length p)) (inode_of (img s) i) (isize (inode_of (img s) i)) p es s = Ret (d1, off') es1 s1"
      "winode (of_nat i) (d1\<lparr>isize := off'\<rparr>) es1 s1 = Ret u es' s'"
    using run by (auto simp: iappend_def rinode_run [OF i O(3)] split: outcome.splits)
  have a: "es1 = es" "unat off' = unat (isize (inode_of (img s) i)) + length p"
      "appended s (inode_of (img s) i) (unat (isize (inode_of (img s) i))) p s1 d1"
    using iappend_loop_Ret [OF O(1) O(5) [OF i] O(2) O(6) [OF i] l(1)] by simp_all
  have "length (img s1) = FSSIZE" using appendedD(5) [OF a(3)] by (simp add: image_ok_def)
  then have "es' = es1" "s' = s1\<lparr>img := inode_written (img s1) i (d1\<lparr>isize := off'\<rparr>)\<rparr>"
    using l(2) winode_run [OF i, of s1] by simp_all
  then show ?thesis using iappend_loop_grown [OF ok i a(2,3)] a(1) by simp
qed

lemma blank_refs: "iaddrs d = replicate (NDIRECT + 1) 0 \<Longrightarrow> refs im d = {}"
  by (auto simp: refs_def addr_def indirect_def simp del: replicate.simps)

lemma fs_okI:
  assumes "image_ok (img s) (unat (freeblock s))" "unat (freeblock s) \<le> FSSIZE"
    and "\<And>i. i < NINODES \<Longrightarrow> own (img s) (unat (freeblock s)) (inode_of (img s) i)"
    and "\<And>i. i < NINODES \<Longrightarrow> filled (img s) (inode_of (img s) i) (unat (isize (inode_of (img s) i)))"
    and "\<And>i j. i < NINODES \<Longrightarrow> j < NINODES \<Longrightarrow> i \<noteq> j \<Longrightarrow>
      refs (img s) (inode_of (img s) i) \<inter> refs (img s) (inode_of (img s) j) = {}"
  shows "fs_ok s"
  unfolding fs_ok_def using assms by blast

text \<open>A fresh inode has no blocks.\<close>

lemma write_fresh:
  assumes ok: "fs_ok s" and i: "i < NINODES" and d: "iaddrs d = replicate (NDIRECT + 1) 0" "isize d = 0" "on_disk d"
    and s2: "s2 = s\<lparr>freeinode := n, img := inode_written (img s) i d\<rparr>"
  shows "fs_ok s2" "\<forall>b. fixed_block b \<longrightarrow> img s2 ! b = img s ! b"
    "\<And>j. j < NINODES \<Longrightarrow> inode_of (img s2) j = (if j = i then d else inode_of (img s) j)"
    "\<And>j. j < NINODES \<Longrightarrow> j \<noteq> i \<Longrightarrow> contents (img s2) (inode_of (img s) j) = contents (img s) (inode_of (img s) j)"
proof -
  note O = fs_okD [OF ok]
  let ?f = "unat (freeblock s)" and ?ib = "i div 16 + 32"
  note ib = inode_place(3) [OF i]
  have len: "length (iaddrs d) = NDIRECT + 1" using d(1) by simp
  have fm: "nmeta \<le> ?f" using O(1) by (simp add: image_ok_def)
  show inode2: "inode_of (img s2) j = (if j = i then d else inode_of (img s) j)" if "j < NINODES" for j
    using inode_of_written [OF i that O(3,4) len d(3)] s2 by simp
  have im2: "img s2 ! b = img s ! b" if "b \<noteq> ?ib" for b using that s2 by (simp add: inode_written_def)
  then show "\<forall>b. fixed_block b \<longrightarrow> img s2 ! b = img s ! b" using fixed_block_facts i by blast
  have same: "\<forall>b \<in> refs (img s) (inode_of (img s) j). img s2 ! b = img s ! b" if "j < NINODES" for j
    using im2 ib own_above [OF O(5) [OF that]] by fastforce
  show "contents (img s2) (inode_of (img s) j) = contents (img s) (inode_of (img s) j)" if "j < NINODES" "j \<noteq> i" for j
    by (rule contents_same [OF same [OF that(1)] O(6) [OF that(1)]])
  have none: "refs (img s2) d = {}" by (rule blank_refs [OF d(1)])
  have own: "own (img s2) ?f d" using none len by (auto simp: own_def refs_def indirect_def d(1) simp del: replicate.simps)
  have f2: "freeblock s2 = freeblock s" using s2 by simp
  have other: "refs (img s2) (inode_of (img s) j) = refs (img s) (inode_of (img s) j)" if "j < NINODES" for j
    by (rule refs_same(2) [OF same [OF that]])
  show "fs_ok s2"
  proof (rule fs_okI)
    show "image_ok (img s2) (unat (freeblock s2))" using inode_written_ok [OF O(1) i len] s2 by simp
    show "unat (freeblock s2) \<le> FSSIZE" using O(2) f2 by simp
    show "own (img s2) (unat (freeblock s2)) (inode_of (img s2) j)" if "j < NINODES" for j
      using own own_same [OF O(5) [OF that] same [OF that] order_refl] inode2 [OF that] f2 by simp
    show "filled (img s2) (inode_of (img s2) j) (unat (isize (inode_of (img s2) j)))" if "j < NINODES" for j
      using filled_same [OF same [OF that] O(6) [OF that]] inode2 [OF that] d(2) by (simp add: filled_def)
    show "refs (img s2) (inode_of (img s2) j) \<inter> refs (img s2) (inode_of (img s2) k) = {}"
      if "j < NINODES" "k < NINODES" "j \<noteq> k" for j k
      using none other [OF that(1)] other [OF that(2)] O(7) [OF that] inode2 [OF that(1)] inode2 [OF that(2)] by simp
  qed
qed

text \<open>
  The image while it is built: the contents of the root directory and of the files, whose
  inodes come in order; the inodes that are left are blank, and the blocks in front are
  as they were at the start.
\<close>

definition front_block :: "nat \<Rightarrow> bytes" where
  "front_block b = (if b = 1 then splice zeroes 0 (encode_superblock mk_sb) else zeroes)"

definition fs_inv :: "mkfs_state \<Rightarrow> bytes \<Rightarrow> bytes list \<Rightarrow> bool" where
  "fs_inv s dir cs \<longleftrightarrow> fs_ok s \<and> unat (freeinode s) = length cs + 2 \<and> length cs + 2 \<le> NINODES \<and>
     (\<forall>j < NINODES. length cs + 2 \<le> j \<longrightarrow> inode_of (img s) j = blank_inode) \<and>
     (\<forall>b. fixed_block b \<longrightarrow> img s ! b = front_block b) \<and>
     itype (inode_of (img s) 1) = T_DIR \<and> contents (img s) (inode_of (img s) 1) = dir \<and>
     (\<forall>k < length cs. contents (img s) (inode_of (img s) (k + 2)) = cs ! k)"

lemma mk_ialloc_run:
  assumes "fs_ok s" "unat (freeinode s) = i" "i < NINODES"
  shows "mk_ialloc ty es s = Ret (of_nat i) es (s\<lparr>freeinode := freeinode s + 1,
    img := inode_written (img s) i (blank_inode\<lparr>itype := ty, inlink := 1, isize := 0\<rparr>)\<rparr>)"
proof -
  have "freeinode s = of_nat i" using assms(2) by auto
  then show ?thesis
    using winode_run [OF assms(3), of "s\<lparr>freeinode := freeinode s + 1\<rparr>"] fs_okD(3) [OF assms(1)]
    by (simp add: mk_ialloc_def)
qed

lemma fresh_inode: "iaddrs (blank_inode\<lparr>itype := ty, inlink := 1, isize := 0\<rparr>) = replicate (NDIRECT + 1) 0"
    "isize (blank_inode\<lparr>itype := ty, inlink := 1, isize := 0\<rparr>) = 0" "on_disk (blank_inode\<lparr>itype := ty, inlink := 1, isize := 0\<rparr>)"
  by (simp_all add: blank_inode_def on_disk_def del: replicate.simps)

lemma inv_ialloc:
  assumes inv: "fs_inv s dir cs" and lt: "length cs + 2 < NINODES"
  shows "\<exists>s'. mk_ialloc T_FILE es s = Ret (of_nat (length cs + 2)) es s' \<and> fs_inv s' dir (cs @ [[]])"
proof -
  let ?i = "length cs + 2" and ?d = "blank_inode\<lparr>itype := T_FILE, inlink := 1, isize := 0\<rparr>"
  let ?s = "s\<lparr>freeinode := freeinode s + 1, img := inode_written (img s) ?i ?d\<rparr>"
  have I: "fs_ok s" "unat (freeinode s) = ?i" using inv by (simp_all add: fs_inv_def)
  note W = write_fresh [OF I(1) lt fresh_inode [of T_FILE] refl, where n = "freeinode s + 1"]
  have "unat (freeinode s + 1) = ?i + 1" using I(2) lt unat_succ [of "freeinode s"] by simp
  moreover have "contents (img ?s) ?d = []" by (simp add: contents_def)
  ultimately have "fs_inv ?s dir (cs @ [[]])"
    using inv W lt by (auto simp: fs_inv_def nth_append less_Suc_eq)
  then show ?thesis using mk_ialloc_run [OF I lt, of T_FILE es] by blast
qed

lemma grown_other:
  assumes "grown s i p s'" "j < NINODES" "j \<noteq> i"
  shows "inode_of (img s') j = inode_of (img s) j" "contents (img s') (inode_of (img s) j) = contents (img s) (inode_of (img s) j)"
  using assms unfolding grown_def by metis+

lemma inv_grown_root:
  assumes "fs_inv s dir cs" "grown s 1 p s'"
  shows "fs_inv s' (dir @ p) cs"
  using assms grown_other [OF assms(2)] by (simp add: fs_inv_def) (simp add: grown_def)

lemma inv_grown_file:
  assumes "fs_inv s dir cs" "grown s (k + 2) p s'" "k < length cs"
  shows "fs_inv s' dir (cs[k := cs ! k @ p])"
  using assms grown_other [OF assms(2)] by (simp add: fs_inv_def nth_list_update) (simp add: grown_def)

lemma inv_pieces:
  assumes "fs_inv s dir cs" "k < length cs" "kfor ps (iappend (of_nat (k + 2))) es s = Ret u es' s'"
  shows "es' = es \<and> fs_inv s' dir (cs[k := cs ! k @ concat ps])"
  using assms
proof (induction ps arbitrary: s cs)
  case (Cons p ps)
  have k: "k + 2 < NINODES" and ok: "fs_ok s" using Cons.prems(1,2) by (simp_all add: fs_inv_def)
  obtain v es1 s1 where r: "iappend (of_nat (k + 2)) p es s = Ret v es1 s1" "kfor ps (iappend (of_nat (k + 2))) es1 s1 = Ret u es' s'"
    using Cons.prems(3) by (auto split: outcome.splits)
  have g: "es1 = es" "grown s (k + 2) p s1" using iappend_Ret [OF ok k r(1)] by simp_all
  show ?case
    using Cons.IH [OF inv_grown_file [OF Cons.prems(1) g(2) Cons.prems(2)]] r(2) g(1) Cons.prems(2) by simp
qed simp

definition entry_name :: "bytes \<Rightarrow> nat \<Rightarrow> bytes" where
  "entry_name path i = dirent (of_nat i) (disk_name path)"

lemma inv_add_file:
  assumes inv: "fs_inv s dir cs" and lt: "length cs + 2 < NINODES" and run: "add_file 1 (path, Some ps) es s = Ret u es' s'"
  shows "es' = es \<and> fs_inv s' (dir @ entry_name path (length cs + 2)) (cs @ [concat ps])"
proof -
  obtain s1 where i: "mk_ialloc T_FILE es s = Ret (of_nat (length cs + 2)) es s1" "fs_inv s1 dir (cs @ [[]])"
    using inv_ialloc [OF inv lt] by blast
  obtain v es2 s2 where r: "iappend 1 (entry_name path (length cs + 2)) es s1 = Ret v es2 s2"
      "kfor ps (iappend (of_nat (length cs + 2))) es2 s2 = Ret u es' s'"
    using run i(1) by (auto simp: add_file_def entry_name_def split: if_splits outcome.splits)
  have "es2 = es" "grown s1 1 (entry_name path (length cs + 2)) s2"
    using iappend_Ret [of s1 1, OF _ _ ] r(1) i(2) by (simp_all add: fs_inv_def)
  moreover note inv_grown_root [OF i(2) this(2)]
  ultimately show ?thesis using inv_pieces [of s2 _ "cs @ [[]]" "length cs"] r(2) by simp
qed

primrec dir_entries :: "nat \<Rightarrow> (bytes \<times> bytes list) list \<Rightarrow> bytes" where
  "dir_entries i [] = []"
| "dir_entries i (f # fs) = entry_name (fst f) i @ dir_entries (Suc i) fs"

definition given :: "bytes \<times> bytes list \<Rightarrow> bytes \<times> bytes list option" where
  "given f = (fst f, Some (snd f))"

lemma inv_files:
  assumes "fs_inv s dir cs" "length cs + length fs + 2 \<le> NINODES" "kfor (map given fs) (add_file 1) es s = Ret u es' s'"
  shows "es' = es \<and> fs_inv s' (dir @ dir_entries (length cs + 2) fs) (cs @ map (\<lambda>f. concat (snd f)) fs)"
  using assms
proof (induction fs arbitrary: s dir cs)
  case (Cons f fs)
  obtain v es1 s1 where r: "add_file 1 (fst f, Some (snd f)) es s = Ret v es1 s1" "kfor (map given fs) (add_file 1) es1 s1 = Ret u es' s'"
    using Cons.prems(3) by (simp add: given_def [of f] split: outcome.splits)
  have "length cs + 2 < NINODES" using Cons.prems(2) by simp
  from inv_add_file [OF Cons.prems(1) this r(1)]
  have g: "es1 = es" "fs_inv s1 (dir @ entry_name (fst f) (length cs + 2)) (cs @ [concat (snd f)])" by simp_all
  show ?case using Cons.IH [OF g(2)] Cons.prems(2) r(2) g(1) by simp
qed simp

subsection \<open>The start\<close>

lemma zero_blocks:
  "n \<le> FSSIZE \<Longrightarrow> img s = [] \<Longrightarrow> kfor [0..<n] (\<lambda>i. wsect (of_nat i) zeroes) es s = Ret () es (s\<lparr>img := replicate n zeroes\<rparr>)"
proof (induction n)
  case (Suc n)
  then have "unat (of_nat n :: u32) = n" by (simp add: unat_of_nat)
  then show ?case using Suc by (simp add: kfor_append wsect_def image_write_def replicate_append_same)
qed simp

definition empty_image :: "bytes list" where
  "empty_image = (replicate FSSIZE zeroes)[1 := splice zeroes 0 (encode_superblock mk_sb)]"

lemma empty_image_nth: "b < FSSIZE \<Longrightarrow> empty_image ! b = front_block b"
  by (simp add: empty_image_def front_block_def nth_list_update)

lemma length_superblock [simp]: "length (encode_superblock b) = 32"
  by (simp add: encode_superblock_def le32_def)

lemma blank_decoded: "k + 64 \<le> BSIZE \<Longrightarrow> decode_dinode zeroes k blank_inode = blank_inode"
  by (simp add: decode_dinode_def blank_inode_def zeroes_def get16_def get32_def BSIZE_def upt_rec)
    (simp add: numeral_eq_Suc)

lemma empty_inode: "i < NINODES \<Longrightarrow> inode_of empty_image i = blank_inode"
proof -
  assume i: "i < NINODES"
  have "i mod 16 < 16" by simp
  then have "64 * (i mod 16) + 64 \<le> BSIZE" unfolding BSIZE_def by linarith
  moreover have "empty_image ! (i div 16 + 32) = zeroes"
    using inode_place(3) [OF i] empty_image_nth [of "i div 16 + 32"] by (simp add: front_block_def BSIZE_def)
  ultimately show ?thesis by (simp add: inode_of_def blank_decoded)
qed

lemma length_zeroes [simp]: "length zeroes = BSIZE"
  by (simp add: zeroes_def)

lemma empty_ok:
  assumes "img s = empty_image" "freeblock s = of_nat nmeta"
  shows "fs_ok s"
proof -
  have f: "unat (freeblock s) = nmeta" using assms by (simp add: BSIZE_def)
  have n: "nmeta \<le> FSSIZE" by (simp add: BSIZE_def)
  have a: "iaddrs blank_inode = replicate (NDIRECT + 1) 0" "isize blank_inode = 0"
    by (simp_all add: blank_inode_def del: replicate.simps)
  then have r: "refs im blank_inode = {}" for im by (simp only: blank_refs)
  have z: "im ! k = zeroes" if "im = empty_image" "nmeta \<le> k" "k < FSSIZE" for im k
    using that empty_image_nth [of k] by (simp add: front_block_def BSIZE_def)
  show ?thesis
  proof (rule fs_okI, unfold f assms(1))
    show "image_ok empty_image nmeta"
      using z by (auto simp: image_ok_def empty_image_def BSIZE_def in_set_conv_nth nth_list_update)
    show "nmeta \<le> FSSIZE" by (rule n)
    fix i assume i: "i < NINODES"
    show "own empty_image nmeta (inode_of empty_image i)"
      unfolding empty_inode [OF i] using r [of empty_image] a by (auto simp: own_def refs_def)
    show "filled empty_image (inode_of empty_image i) (unat (isize (inode_of empty_image i)))"
      unfolding empty_inode [OF i] using a(2) by (simp add: filled_def)
    fix j assume "j < NINODES"
    then show "refs empty_image (inode_of empty_image i) \<inter> refs empty_image (inode_of empty_image j) = {}"
      unfolding empty_inode [OF i] by (simp add: r)
  qed
qed

lemma root_made:
  assumes "img s = empty_image" "freeblock s = of_nat nmeta" "freeinode s = 1"
  shows "\<exists>s'. mk_ialloc T_DIR es s = Ret 1 es s' \<and> fs_inv s' [] [] \<and> freeblock s' = of_nat nmeta"
proof -
  let ?d = "blank_inode\<lparr>itype := T_DIR, inlink := 1, isize := 0\<rparr>"
  let ?s = "s\<lparr>freeinode := freeinode s + 1, img := inode_written (img s) 1 ?d\<rparr>"
  have ok: "fs_ok s" and lt: "1 < NINODES" and u: "unat (freeinode s) = 1" using empty_ok assms by simp_all
  note W = write_fresh [OF ok lt fresh_inode [of T_DIR] refl, where n = "freeinode s + 1"]
  have b: "inode_of (img ?s) j = blank_inode" if "j < NINODES" "j \<noteq> 1" for j
    using W(3) [OF that(1)] that empty_inode assms(1) by simp
  have "\<forall>b. fixed_block b \<longrightarrow> img ?s ! b = front_block b"
    using W(2) assms(1) by (auto simp: fixed_block_def intro!: empty_image_nth)
  moreover have "inode_of (img ?s) 1 = ?d" using W(3) [OF lt] by simp
  moreover have "contents (img ?s) ?d = []" by (simp add: contents_def)
  moreover have "unat (freeinode s + 1) = 2" using assms(3) by simp
  ultimately have "fs_inv ?s [] []" using W(1) b by (simp add: fs_inv_def)
  then show ?thesis using mk_ialloc_run [OF ok u lt, of T_DIR es] assms(2) by (intro exI [of _ ?s]) simp
qed

subsection \<open>The end\<close>

definition closed :: "mkfs_state \<Rightarrow> mkfs_state" where
  "closed s = (let din = inode_of (img s) 1 in
     s\<lparr>img := (inode_written (img s) 1 (din\<lparr>isize := (isize din div of_nat BSIZE + 1) * of_nat BSIZE\<rparr>))
       [45 := bitmap_bytes (unat (freeblock s))]\<rparr>)"

lemma small_sint: "unat w \<le> FSSIZE \<Longrightarrow> sint (w :: u32) = int (unat w)"
proof -
  assume a: "unat w \<le> FSSIZE"
  define n where "n = unat w"
  have "sint (of_nat n :: u32) = int n" using a by (simp add: n_def [symmetric] signed_of_nat signed_take_bit_int_eq_self)
  then show ?thesis by (simp add: n_def)
qed

lemma closed_run:
  assumes "fs_ok s"
  shows "kbind (rinode 1) (\<lambda>din. kbind (winode 1 (din\<lparr>isize := (isize din div of_nat BSIZE + 1) * of_nat BSIZE\<rparr>)) (\<lambda>_.
    kbind (kget freeblock) mk_balloc)) es s = Ret () es (closed s)"
proof -
  note O = fs_okD [OF assms]
  have i: "(1 :: nat) < NINODES" by simp
  have "sint (freeblock s) < int BPB" "nat (sint (freeblock s)) = unat (freeblock s)"
    unfolding small_sint [OF O(2)] of_nat_less_iff using O(2) by (simp_all add: BSIZE_def)
  then show ?thesis
    using rinode_run [OF i O(3), of es] winode_run [OF i O(3), of _ es] O(2,3)
    by (simp add: closed_def mk_balloc_def wsect_run mk_sb_def BSIZE_def inode_written_def Let_def)
qed

lemma rounded_up:
  assumes "unat (n :: u32) \<le> MAXFILE * BSIZE"
  shows "unat n \<le> unat ((n div of_nat BSIZE + 1) * of_nat BSIZE)"
proof -
  have n: "unat n \<le> 274432" using assms by (simp add: BSIZE_def)
  have "unat n div 1024 * 1024 + unat n mod 1024 = unat n" "unat n mod 1024 < 1024" by simp_all
  moreover have "unat (n div 1024) = unat n div 1024" by (simp add: unat_div)
  ultimately have "unat ((n div 1024 + 1) * 1024) = (unat n div 1024 + 1) * 1024" "unat n \<le> (unat n div 1024 + 1) * 1024"
    using n by (simp_all add: unat_word_ariths)
  then show ?thesis by (simp add: BSIZE_def)
qed

lemma closed_image:
  assumes inv: "fs_inv s dir cs"
  shows "img (closed s) ! 45 = bitmap_bytes (unat (freeblock s))"
    "fixed_block b \<Longrightarrow> b \<noteq> 45 \<Longrightarrow> img (closed s) ! b = front_block b"
    "nmeta \<le> b \<Longrightarrow> img (closed s) ! b = img s ! b"
    "j < NINODES \<Longrightarrow> j \<noteq> 1 \<Longrightarrow> inode_of (img (closed s)) j = inode_of (img s) j"
    "\<exists>z. length dir \<le> unat z \<and> inode_of (img (closed s)) 1 = inode_of (img s) 1\<lparr>isize := z\<rparr>"
proof -
  let ?din = "inode_of (img s) 1" let ?z = "(isize ?din div of_nat BSIZE + 1) * of_nat BSIZE"
  let ?im = "inode_written (img s) 1 (?din\<lparr>isize := ?z\<rparr>)"
  have ok: "fs_ok s" and dir: "contents (img s) ?din = dir" and fb: "fixed_block b \<Longrightarrow> img s ! b = front_block b"
    using inv by (simp_all add: fs_inv_def)
  note O = fs_okD [OF ok]
  have i: "(1 :: nat) < NINODES" by simp
  have im: "img (closed s) = ?im[45 := bitmap_bytes (unat (freeblock s))]" by (simp add: closed_def Let_def)
  have w: "?im ! b = img s ! b" if "b \<noteq> 32" for b using that by (simp add: inode_written_def)
  have "length (iaddrs ?din) = NDIRECT + 1" using O(5) [OF i] by (simp add: own_def)
  then have j: "j < NINODES \<Longrightarrow> inode_of ?im j = (if j = 1 then ?din\<lparr>isize := ?z\<rparr> else inode_of (img s) j)" for j
    using inode_of_written [OF i, of j "img s" "?din\<lparr>isize := ?z\<rparr>"] O(3,4) on_disk_upd(2) [OF on_disk_inode_of] by simp
  have k: "j < NINODES \<Longrightarrow> inode_of (img (closed s)) j = inode_of ?im j" for j
  proof -
    assume "j < NINODES"
    then have "j div 16 + 32 \<noteq> 45" by auto
    then show ?thesis by (simp add: im inode_of_def)
  qed
  show "img (closed s) ! 45 = bitmap_bytes (unat (freeblock s))"
    using O(3) by (simp add: im inode_written_def)
  show "fixed_block b \<Longrightarrow> b \<noteq> 45 \<Longrightarrow> img (closed s) ! b = front_block b"
    using w [of b] fb fixed_block_facts [of b 0] by (auto simp: im)
  show "nmeta \<le> b \<Longrightarrow> img (closed s) ! b = img s ! b"
    using w [of b] by (simp add: im BSIZE_def)
  show "j < NINODES \<Longrightarrow> j \<noteq> 1 \<Longrightarrow> inode_of (img (closed s)) j = inode_of (img s) j"
    using j [of j] k [of j] by simp
  have "length dir = unat (isize ?din)" using dir by (auto simp: contents_def)
  moreover have "unat (isize ?din) \<le> unat ?z"
    using O(6) [OF i] by (intro rounded_up) (simp add: filled_def)
  ultimately show "\<exists>z. length dir \<le> unat z \<and> inode_of (img (closed s)) 1 = ?din\<lparr>isize := z\<rparr>"
    using j [OF i] k [OF i] by auto
qed

lemma closed_files:
  assumes inv: "fs_inv s dir cs" and j: "j < NINODES"
  shows "refs (img (closed s)) (inode_of (img (closed s)) j) = refs (img s) (inode_of (img s) j)"
    "j \<noteq> 1 \<Longrightarrow> contents (img (closed s)) (inode_of (img (closed s)) j) = contents (img s) (inode_of (img s) j)"
    "take (length dir) (contents (img (closed s)) (inode_of (img (closed s)) 1)) = dir"
proof -
  note C = closed_image [OF inv]
  have ok: "fs_ok s" and dir: "contents (img s) (inode_of (img s) 1) = dir" using inv by (simp_all add: fs_inv_def)
  note O = fs_okD [OF ok]
  have same: "\<forall>b \<in> refs (img s) (inode_of (img s) j). img (closed s) ! b = img s ! b" if "j < NINODES" for j
    using C(3) own_above [OF O(5) [OF that]] by blast
  have d: "\<exists>z. inode_of (img (closed s)) j = inode_of (img s) j\<lparr>isize := z\<rparr>"
  proof (cases "j = 1")
    case False
    then show ?thesis using C(4) [OF j] by (intro exI [of _ "isize (inode_of (img s) j)"]) simp
  next
    case True
    show ?thesis unfolding True using C(5) by blast
  qed
  then show "refs (img (closed s)) (inode_of (img (closed s)) j) = refs (img s) (inode_of (img s) j)"
    by (elim exE) (simp only: refs_size refs_same(2) [OF same [OF j]])
  show "contents (img (closed s)) (inode_of (img (closed s)) j) = contents (img s) (inode_of (img s) j)" if "j \<noteq> 1"
    using C(4) [OF j that] contents_same [OF same [OF j] O(6) [OF j]] by simp
  have i: "(1 :: nat) < NINODES" by simp
  obtain z where z: "length dir \<le> unat z" "inode_of (img (closed s)) 1 = inode_of (img s) 1\<lparr>isize := z\<rparr>"
    using C(5) by auto
  have "take (length dir) (contents (img (closed s)) (inode_of (img (closed s)) 1)) =
      map (file_byte (img (closed s)) (inode_of (img s) 1)) [0..<length dir]"
    unfolding z(2) contents_def using z(1) by (simp add: take_map)
  also have "\<dots> = contents (img (closed s)) (inode_of (img s) 1)"
    unfolding contents_def dir [symmetric] by simp
  also have "\<dots> = dir" using contents_same [OF same [OF i] O(6) [OF i]] dir by simp
  finally show "take (length dir) (contents (img (closed s)) (inode_of (img (closed s)) 1)) = dir" .
qed

subsection \<open>The program\<close>

definition root_entries :: "(bytes \<times> bytes list) list \<Rightarrow> bytes" where
  "root_entries files = dirent 1 [0x2E] @ dirent 1 [0x2E, 0x2E] @ dir_entries 2 files"

lemma empty_image_run:
  "kbind (kmodify (\<lambda>s. s\<lparr>img := [], freeinode := 1, freeblock := of_nat nmeta\<rparr>)) (\<lambda>_.
   kbind (kfor [0..<FSSIZE] (\<lambda>i. wsect (of_nat i) zeroes)) (\<lambda>_.
   kbind (wsect 1 (splice zeroes 0 (encode_superblock mk_sb))) m)) es s =
   m () es (s\<lparr>img := empty_image, freeinode := 1, freeblock := of_nat nmeta\<rparr>)"
  using zero_blocks [of FSSIZE "s\<lparr>img := [], freeinode := 1, freeblock := of_nat nmeta\<rparr>" es]
  by (cases s) (simp add: wsect_def image_write_def empty_image_def del: upt.simps)

lemma mkfs_main_start:
  "\<exists>t. fs_inv t [] [] \<and> freeblock t = of_nat nmeta \<and> mkfs_main ((path, Some c) # files) es s =
     kbind (iappend 1 (dirent 1 [0x2E])) (\<lambda>_.
     kbind (iappend 1 (dirent 1 [0x2E, 0x2E])) (\<lambda>_.
     kbind (kfor files (add_file 1)) (\<lambda>_.
     kbind (rinode 1) (\<lambda>din.
     kbind (winode 1 (din\<lparr>isize := (isize din div of_nat BSIZE + 1) * of_nat BSIZE\<rparr>)) (\<lambda>_.
     kbind (kget freeblock) mk_balloc))))) es t"
proof -
  let ?s = "s\<lparr>img := empty_image, freeinode := 1, freeblock := of_nat nmeta\<rparr>"
  obtain t where t: "mk_ialloc T_DIR es ?s = Ret 1 es t" "fs_inv t [] []" "freeblock t = of_nat nmeta"
    using root_made [of ?s es] by auto
  show ?thesis using t(1)
    by (intro exI [of _ t], simp only: t(2,3) mkfs_main_def list.case prod.case option.case empty_image_run)
      (simp del: kget_apply)
qed

lemma root_appended:
  assumes "fs_inv s dir cs" "iappend 1 p es s = Ret u es' s'"
  shows "es' = es" "fs_inv s' (dir @ p) cs"
proof -
  have "fs_ok s" using assms(1) by (simp add: fs_inv_def)
  then have "es' = es \<and> grown s 1 p s'" using iappend_Ret [of s 1 p es u es' s'] assms(2) by simp
  then show "es' = es" "fs_inv s' (dir @ p) cs" using inv_grown_root [OF assms(1)] by blast+
qed

lemma mkfs_main_Ret:
  assumes n: "length files + 2 \<le> NINODES" and run: "mkfs_main ((path, Some c) # map given files) es s = Ret u es' s'"
  shows "\<exists>t. fs_inv t (root_entries files) (map (\<lambda>f. concat (snd f)) files) \<and> s' = closed t"
proof -
  obtain t0 where t0: "fs_inv t0 [] []" and m: "mkfs_main ((path, Some c) # map given files) es s =
     kbind (iappend 1 (dirent 1 [0x2E])) (\<lambda>_.
     kbind (iappend 1 (dirent 1 [0x2E, 0x2E])) (\<lambda>_.
     kbind (kfor (map given files) (add_file 1)) (\<lambda>_.
     kbind (rinode 1) (\<lambda>din.
     kbind (winode 1 (din\<lparr>isize := (isize din div of_nat BSIZE + 1) * of_nat BSIZE\<rparr>)) (\<lambda>_.
     kbind (kget freeblock) mk_balloc))))) es t0"
    using mkfs_main_start by blast
  have i: "(1 :: nat) < NINODES" by simp
  obtain u1 es1 t1 where r1: "iappend 1 (dirent 1 [0x2E]) es t0 = Ret u1 es1 t1"
    using run unfolding m by (cases "iappend 1 (dirent 1 [0x2E]) es t0") simp_all
  note g1 = root_appended [OF t0 r1]
  obtain u2 es2 t2 where r2: "iappend 1 (dirent 1 [0x2E, 0x2E]) es t1 = Ret u2 es2 t2"
    using run unfolding m by (cases "iappend 1 (dirent 1 [0x2E, 0x2E]) es t1") (simp_all add: r1 g1)
  note g2 = root_appended [OF g1(2) r2]
  obtain u3 es3 t3 where r3: "kfor (map given files) (add_file 1) es t2 = Ret u3 es3 t3"
    using run unfolding m by (cases "kfor (map given files) (add_file 1) es t2") (simp_all add: r1 g1 r2 g2)
  have g3: "es3 = es" "fs_inv t3 (root_entries files) (map (\<lambda>f. concat (snd f)) files)"
    using inv_files [OF g2(2) _ r3] n by (simp_all add: root_entries_def numeral_2_eq_2)
  have "s' = closed t3"
    using run closed_run [of t3 es] g3 unfolding m by (simp add: r1 g1 r2 g2 r3 fs_inv_def del: kget_apply)
  then show ?thesis using g3 by blast
qed

lemma front_superblock: "superblock_of (front_block 1) = mk_sb"
proof -
  let ?ws = "[sb_magic mk_sb, sb_size mk_sb, sb_nblocks mk_sb, sb_ninodes mk_sb, sb_nlog mk_sb,
    sb_logstart mk_sb, sb_inodestart mk_sb, sb_bmapstart mk_sb]"
  have "front_block 1 = concat (map le32 ?ws) @ drop 32 zeroes"
    by (simp add: front_block_def splice_def encode_superblock_def)
  then have "get32 (front_block 1) (4 * k) = ?ws ! k" if "k < length ?ws" for k
    using get32_words [OF that] by simp
  from this [of 0] this [of 1] this [of 2] this [of 3] this [of 4] this [of 5] this [of 6] this [of 7]
  show ?thesis by (simp add: superblock_of_def)
qed

lemma front_log: "head_blocks (front_block 2) = []"
  by (simp add: head_blocks_def front_block_def get32_def zeroes_def BSIZE_def)

lemma closed_allocated:
  assumes inv: "fs_inv t dir cs" and j: "j < NINODES" and b: "b \<in> refs (img (closed t)) (inode_of (img (closed t)) j)"
  shows "b < FSSIZE \<and> block_used (img (closed t) ! 45) b"
proof -
  have ok: "fs_ok t" using inv by (simp add: fs_inv_def)
  have "b \<in> refs (img t) (inode_of (img t) j)" using b closed_files(1) [OF inv j] by simp
  then have u: "b < unat (freeblock t)" using own_above [OF fs_okD(5) [OF ok j]] by blast
  have f: "unat (freeblock t) \<le> BPB" "b < BPB" "b < FSSIZE" using u fs_okD(2) [OF ok] by (simp_all add: BSIZE_def)
  then show ?thesis using bitmap_used [OF f(1,2)] u closed_image(1) [OF inv] by simp
qed

subsection \<open>It ends\<close>

definition ends :: "('s, 'a) kmon \<Rightarrow> bool" where
  "ends m \<longleftrightarrow> (\<forall>es s. case m es s of Ret _ _ _ \<Rightarrow> True | Panic _ _ \<Rightarrow> True | _ \<Rightarrow> False)"

lemma ends_basic: "ends (kret x)" "ends (kget f)" "ends (kmodify g)" "ends (kpanic e)"
  by (simp_all add: ends_def)

lemma ends_kbind: "ends m \<Longrightarrow> (\<And>x. ends (f x)) \<Longrightarrow> ends (kbind m f)"
  unfolding ends_def by (fastforce split: outcome.splits)

lemma ends_kfor: "(\<And>x. ends (f x)) \<Longrightarrow> ends (kfor xs f)"
  by (induction xs) (simp_all add: ends_basic ends_kbind del: kbind_apply)

lemma ends_cases:
  "(c \<Longrightarrow> ends m) \<Longrightarrow> (\<not> c \<Longrightarrow> ends n) \<Longrightarrow> ends (if c then m else n)"
  "(\<And>x y. ends (f x y)) \<Longrightarrow> ends (case p of (x, y) \<Rightarrow> f x y)"
  "ends m \<Longrightarrow> (\<And>x. ends (g x)) \<Longrightarrow> ends (case v of None \<Rightarrow> m | Some x \<Rightarrow> g x)"
  "ends m \<Longrightarrow> (\<And>y ys. ends (h y ys)) \<Longrightarrow> ends (case xs of [] \<Rightarrow> m | y # ys \<Rightarrow> h y ys)"
  by (simp_all split: prod.splits option.splits list.splits)

lemmas ends_rules = ends_basic ends_kbind ends_kfor ends_cases

lemma ends_sector: "ends (rsect x)" "ends (wsect x b)" "ends (rinode i)" "ends (winode i d)" "ends (mk_ialloc ty)" "ends fresh_block"
  unfolding rinode_def winode_def mk_ialloc_def rsect_def wsect_def fresh_block_def Let_def by (intro ends_rules)+

lemma ends_file_block: "ends (file_block din g)"
  unfolding file_block_def get_indirect_def get_entry_def by (intro ends_rules ends_sector)

lemma ends_iappend_loop: "length p < k \<Longrightarrow> ends (iappend_loop k din off p)"
proof (induction k arbitrary: din off p)
  case (Suc k)
  have "unat off div BSIZE * BSIZE + BSIZE > unat off"
    using div_mult_mod_eq [of "unat off" BSIZE] mod_less_divisor [of BSIZE "unat off"] by (simp add: BSIZE_def)
  then have "p \<noteq> [] \<Longrightarrow> length (drop (min (length p) ((unat off div BSIZE + 1) * BSIZE - unat off)) p) < k"
    using Suc.prems by (cases p) auto
  then show ?case
    unfolding iappend_loop.simps Let_def by (intro ends_rules ends_sector ends_file_block Suc.IH)
qed simp

lemma ends_iappend: "ends (iappend i p)"
  unfolding iappend_def by (intro ends_rules ends_sector ends_iappend_loop) simp

lemma ends_add_file: "ends (add_file i f)"
  unfolding add_file_def by (intro ends_rules ends_sector ends_iappend)

text \<open>
  C24: \<open>mkfs\<close> always ends: for every command line and every content of the files, it returns
  or stops with an error message or a failed assertion; no loop runs forever.
\<close>

theorem mkfs_ends:
  "case mkfs_main args es s of Ret _ _ _ \<Rightarrow> True | Panic _ _ \<Rightarrow> True | Blocked _ \<Rightarrow> False | Diverge _ \<Rightarrow> False"
proof -
  have "ends (mkfs_main args)"
    unfolding mkfs_main_def mk_balloc_def by (intro ends_rules ends_sector ends_iappend ends_add_file)
  then show ?thesis by (simp add: ends_def split: outcome.splits)
qed

end
