(* ===== verification/Mkfs_Total.thy ===== *)
theory Mkfs_Total
  imports Mkfs_Image
begin

text \<open>
  \<^verbatim>\<open>mkfs\<close> succeeds when the files fit: a count of the blocks it takes, and a run of
  the whole program.
\<close>

subsection \<open>Counting blocks\<close>

definition pot :: "mkfs_state \<Rightarrow> nat \<Rightarrow> nat" where
  "pot s i = unat (freeblock s) + (if indirect (inode_of (img s) i) = 0 then 1 else 0)"

lemma room_pot: "room s (inode_of (img s) i) n \<longleftrightarrow> pot s i + n \<le> FSSIZE"
  by (simp add: room_def pot_def)

lemma pot_bounds: "unat (freeblock s) \<le> pot s i" "pot s i \<le> unat (freeblock s) + 1"
  by (simp_all add: pot_def)

lemma append_pot:
  assumes "fs_ok s" "i < NINODES" "length (contents (img s) (inode_of (img s) i)) = n" "n + length p \<le> MAXFILE * BSIZE"
    and "pot s i + touched n (length p) \<le> FSSIZE"
  shows "\<exists>s'. iappend (of_nat i) p es s = Ret () es s' \<and> grown s i p s' \<and> pot s' i \<le> pot s i + touched n (length p)"
proof -
  let ?m = "FSSIZE - pot s i - touched n (length p)"
  have n: "unat (isize (inode_of (img s) i)) = n" using assms(3) by (simp add: contents_def)
  have "room s (inode_of (img s) i) (touched n (length p) + ?m)" unfolding room_pot using assms(5) by simp
  then obtain s' where s': "iappend (of_nat i) p es s = Ret () es s'" "grown s i p s'" "room s' (inode_of (img s') i) ?m"
    using iappend_run [OF assms(1,2), unfolded n, OF assms(4)] by blast
  then show ?thesis using assms(5) unfolding room_pot by auto
qed

primrec blocks_touched :: "nat \<Rightarrow> bytes list \<Rightarrow> nat" where
  "blocks_touched off [] = 0"
| "blocks_touched off (p # ps) = touched off (length p) + blocks_touched (off + length p) ps"

lemma pieces_pot:
  assumes "fs_inv s dir cs" "k < length cs" "length (cs ! k) + length (concat ps) \<le> MAXFILE * BSIZE"
    and "pot s (k + 2) + blocks_touched (length (cs ! k)) ps \<le> FSSIZE"
  shows "\<exists>s'. kfor ps (iappend (of_nat (k + 2))) es s = Ret () es s' \<and>
    pot s' (k + 2) \<le> pot s (k + 2) + blocks_touched (length (cs ! k)) ps"
  using assms
proof (induction ps arbitrary: s cs)
  case (Cons p ps)
  have k: "k + 2 < NINODES" and ok: "fs_ok s" and c: "length (contents (img s) (inode_of (img s) (k + 2))) = length (cs ! k)"
    using Cons.prems(1,2) by (simp_all add: fs_inv_def)
  obtain s1 where s1: "iappend (of_nat (k + 2)) p es s = Ret () es s1" "grown s (k + 2) p s1"
      "pot s1 (k + 2) \<le> pot s (k + 2) + touched (length (cs ! k)) (length p)"
    using append_pot [OF ok k c, of p es] Cons.prems(3,4) by auto
  show ?case
    using Cons.IH [OF inv_grown_file [OF Cons.prems(1) s1(2) Cons.prems(2)]] s1(1,3) Cons.prems(2-4)
    by fastforce
qed simp

lemma touched_entry: "touched n 16 \<le> 2"
proof -
  have "n mod BSIZE < BSIZE" by (simp add: BSIZE_def)
  then show ?thesis by (simp add: touched_def BSIZE_def)
qed

lemma entry_pot:
  assumes inv: "fs_inv s dir cs" and p: "length p = 16" "length dir + 16 \<le> MAXFILE * BSIZE" and f: "unat (freeblock s) + 3 \<le> FSSIZE"
  shows "\<exists>s'. iappend 1 p es s = Ret () es s' \<and> fs_inv s' (dir @ p) cs \<and> unat (freeblock s') \<le> unat (freeblock s) + 3"
proof -
  have ok: "fs_ok s" and c: "length (contents (img s) (inode_of (img s) 1)) = length dir" using inv by (simp_all add: fs_inv_def)
  have i: "(1 :: nat) < NINODES" by simp
  have t: "pot s 1 + touched (length dir) (length p) \<le> unat (freeblock s) + 3"
    using touched_entry [of "length dir"] pot_bounds(2) [of s 1] p(1) by simp
  then obtain s' where s': "iappend (of_nat 1) p es s = Ret () es s'" "grown s 1 p s'"
      "pot s' 1 \<le> pot s 1 + touched (length dir) (length p)"
    using append_pot [OF ok i c, of p es] p f by auto
  then show ?thesis
    using inv_grown_root [OF inv s'(2)] pot_bounds(1) [of s' 1] t by auto
qed

subsection \<open>The files\<close>

definition storable :: "bytes \<times> bytes list \<Rightarrow> bool" where
  "storable f \<longleftrightarrow> slash \<notin> set (short_name (fst f)) \<and> length (disk_name (fst f)) \<le> DIRSIZ \<and>
     length (concat (snd f)) \<le> MAXFILE * BSIZE"

definition file_need :: "bytes \<times> bytes list \<Rightarrow> nat" where
  "file_need f = 4 + blocks_touched 0 (snd f)"

lemma length_dirent: "length name \<le> DIRSIZ \<Longrightarrow> length (dirent i name) = 16"
  by (simp add: dirent_def)

lemma add_file_pot:
  assumes inv: "fs_inv s dir cs" and lt: "length cs + 2 < NINODES" and d: "length dir + 16 \<le> MAXFILE * BSIZE"
    and f: "storable f" "unat (freeblock s) + file_need f \<le> FSSIZE"
  shows "\<exists>s'. add_file 1 (given f) es s = Ret () es s' \<and> unat (freeblock s') \<le> unat (freeblock s) + file_need f"
proof -
  let ?i = "length cs + 2" and ?p = "dirent (of_nat (length cs + 2)) (disk_name (fst f))"
  obtain s1 where s1: "mk_ialloc T_FILE es s = Ret (of_nat ?i) es s1" "fs_inv s1 dir (cs @ [[]])"
    using inv_ialloc [OF inv lt] by blast
  have p: "length ?p = 16" using f(1) by (intro length_dirent) (simp add: storable_def)
  have "freeblock s1 = freeblock s"
    using s1(1) mk_ialloc_run [of s ?i T_FILE es] inv lt by (auto simp: fs_inv_def)
  moreover obtain s2 where s2: "iappend 1 ?p es s1 = Ret () es s2" "fs_inv s2 (dir @ ?p) (cs @ [[]])"
      "unat (freeblock s2) \<le> unat (freeblock s1) + 3"
    using entry_pot [OF s1(2) p d, of es] f(2) calculation by (auto simp: file_need_def)
  moreover have p2: "pot s2 ?i + blocks_touched 0 (snd f) \<le> unat (freeblock s) + file_need f"
    using calculation pot_bounds(2) [of s2 ?i] by (simp add: file_need_def)
  then obtain s3 where s3: "kfor (snd f) (iappend (of_nat ?i)) es s2 = Ret () es s3"
      "pot s3 ?i \<le> pot s2 ?i + blocks_touched 0 (snd f)"
    using pieces_pot [OF s2(2), of "length cs" "snd f" es] f by (auto simp: storable_def)
  ultimately have "unat (freeblock s3) \<le> unat (freeblock s) + file_need f" using pot_bounds(1) [of s3 ?i] p2 by linarith
  then show ?thesis
    using f(1) s1(1) s2(1) s3(1) by (auto simp: add_file_def given_def storable_def)
qed

lemma length_entry: "storable f \<Longrightarrow> length (entry_name (fst f) i) = 16"
  by (simp add: entry_name_def storable_def length_dirent)

lemma files_pot:
  assumes "fs_inv s dir cs" "length cs + length fs + 2 \<le> NINODES" "length dir + 16 * length fs \<le> MAXFILE * BSIZE"
    and "\<forall>f \<in> set fs. storable f" "unat (freeblock s) + sum_list (map file_need fs) \<le> FSSIZE"
  shows "\<exists>s'. kfor (map given fs) (add_file 1) es s = Ret () es s'"
  using assms
proof (induction fs arbitrary: s dir cs)
  case (Cons f fs)
  have lt: "length cs + 2 < NINODES" using Cons.prems(2) by simp
  obtain s1 where s1: "add_file 1 (given f) es s = Ret () es s1" "unat (freeblock s1) \<le> unat (freeblock s) + file_need f"
    using add_file_pot [OF Cons.prems(1) lt, of f es] Cons.prems(3-5) by auto
  have inv: "fs_inv s1 (dir @ entry_name (fst f) (length cs + 2)) (cs @ [concat (snd f)])"
    using inv_add_file [OF Cons.prems(1) lt s1(1) [unfolded given_def]] by simp
  have "\<exists>s'. kfor (map given fs) (add_file 1) es s1 = Ret () es s'"
    by (rule Cons.IH [OF inv]) (use Cons.prems s1(2) length_entry [of f] in simp_all)
  then show ?case using s1(1) by simp
qed simp

lemma mkfs_main_returns:
  assumes n: "length files + 2 \<le> NINODES" and f: "\<forall>f \<in> set files. storable f"
    and b: "nmeta + 6 + sum_list (map file_need files) \<le> FSSIZE"
  shows "\<exists>s'. mkfs_main ((path, Some c) # map given files) es s = Ret () es s'"
proof -
  obtain t0 where t0: "fs_inv t0 [] []" "freeblock t0 = of_nat nmeta"
    and m: "mkfs_main ((path, Some c) # map given files) es s =
     kbind (iappend 1 (dirent 1 [0x2E])) (\<lambda>_.
     kbind (iappend 1 (dirent 1 [0x2E, 0x2E])) (\<lambda>_.
     kbind (kfor (map given files) (add_file 1)) (\<lambda>_.
     kbind (rinode 1) (\<lambda>din.
     kbind (winode 1 (din\<lparr>isize := (isize din div of_nat BSIZE + 1) * of_nat BSIZE\<rparr>)) (\<lambda>_.
     kbind (kget freeblock) mk_balloc))))) es t0"
    using mkfs_main_start by blast
  have f0: "unat (freeblock t0) = nmeta" using t0(2) by (simp add: BSIZE_def)
  have d: "length (dirent 1 [0x2E]) = 16" "length (dirent 1 [0x2E, 0x2E]) = 16" by (simp_all add: length_dirent)
  obtain t1 where t1: "iappend 1 (dirent 1 [0x2E]) es t0 = Ret () es t1" "fs_inv t1 (dirent 1 [0x2E]) []"
      "unat (freeblock t1) \<le> nmeta + 3"
    using entry_pot [OF t0(1) d(1), of es] b f0 by (auto simp: BSIZE_def)
  obtain t2 where t2: "iappend 1 (dirent 1 [0x2E, 0x2E]) es t1 = Ret () es t2"
      "fs_inv t2 (dirent 1 [0x2E] @ dirent 1 [0x2E, 0x2E]) []" "unat (freeblock t2) \<le> nmeta + 6"
    using entry_pot [OF t1(2) d(2), of es] b t1(3) d by (auto simp: BSIZE_def)
  obtain t3 where t3: "kfor (map given files) (add_file 1) es t2 = Ret () es t3"
    using files_pot [OF t2(2), of files es] n f b t2(3) d by (auto simp: BSIZE_def)
  have "fs_ok t3" using inv_files [OF t2(2) _ t3] n by (simp add: fs_inv_def)
  then show ?thesis
    unfolding m using closed_run [of t3 es] by (simp add: t1(1) t2(1) t3 del: kget_apply)
qed

subsection \<open>The properties\<close>

text \<open>
  C9: \<^verbatim>\<open>mkfs\<close> stores its files.  When the names are legal and the files fit on the
  disk, the program returns; the root directory begins with its two own entries and one
  entry per argument, which name the inodes 2, 3, ... in order; and each of these inodes
  reads back as the bytes of the argument it was made from, through its direct and
  indirect blocks.
\<close>

theorem mkfs_stores_files:
  assumes "length files + 2 \<le> NINODES" "\<forall>f \<in> set files. storable f"
    and "nmeta + 6 + sum_list (map file_need files) \<le> FSSIZE"
  shows "\<exists>s'. mkfs_main ((path, Some c) # map given files) es s = Ret () es s' \<and>
    itype (inode_of (img s') 1) = T_DIR \<and>
    take (length (root_entries files)) (contents (img s') (inode_of (img s') 1)) = root_entries files \<and>
    (\<forall>k < length files. contents (img s') (inode_of (img s') (k + 2)) = concat (snd (files ! k)))"
proof -
  obtain s' where run: "mkfs_main ((path, Some c) # map given files) es s = Ret () es s'"
    using mkfs_main_returns [OF assms] by blast
  obtain t where t: "fs_inv t (root_entries files) (map (\<lambda>f. concat (snd f)) files)" "s' = closed t"
    using mkfs_main_Ret [OF assms(1) run] by blast
  have "contents (img s') (inode_of (img s') (k + 2)) = concat (snd (files ! k))" if "k < length files" for k
    using closed_files(2) [OF t(1), of "k + 2"] t that assms(1) by (simp add: fs_inv_def)
  moreover have "itype (inode_of (img s') 1) = T_DIR"
    using closed_image(5) [OF t(1)] t by (auto simp: fs_inv_def)
  ultimately show ?thesis using run closed_files(3) [OF t(1), of 1] t(2) by simp
qed

definition two_files :: "(bytes \<times> bytes list) list" where
  "two_files = [(map of_char ''user/_cat'', [replicate 1024 7, [1, 2, 3]]), (map of_char ''README'', [[82]])]"

lemma two_files_fit:
  "length two_files + 2 \<le> NINODES" "\<forall>f \<in> set two_files. storable f"
  "nmeta + 6 + sum_list (map file_need two_files) \<le> FSSIZE"
  by (simp_all add: two_files_def storable_def file_need_def touched_def short_name_def disk_name_def
      user_prefix_def slash_def BSIZE_def Let_def)

theorem mkfs_stores_files_witness:
  "\<exists>s'. mkfs_main ((map of_char ''fs.img'', Some []) # map given two_files) [] \<lparr>img = [], freeinode = 0, freeblock = 0\<rparr> = Ret () [] s' \<and>
    contents (img s') (inode_of (img s') 2) = replicate 1024 7 @ [1, 2, 3] \<and> contents (img s') (inode_of (img s') 3) = [82]"
proof -
  obtain s' where s': "mkfs_main ((map of_char ''fs.img'', Some []) # map given two_files) [] \<lparr>img = [], freeinode = 0, freeblock = 0\<rparr> = Ret () [] s'"
      "\<forall>k < length two_files. contents (img s') (inode_of (img s') (k + 2)) = concat (snd (two_files ! k))"
    using mkfs_stores_files [OF two_files_fit] by blast
  have "contents (img s') (inode_of (img s') 2) = replicate 1024 7 @ [1, 2, 3]" "contents (img s') (inode_of (img s') 3) = [82]"
    using s'(2) [rule_format, of 0] s'(2) [rule_format, of 1] by (simp_all add: two_files_def numeral_2_eq_2 numeral_3_eq_3)
  then show ?thesis using s'(1) by blast
qed

text \<open>
  C15: the image \<open>mkfs\<close> makes from at most 198 files, as many as have inodes besides the
  unused inode 0 and the root (\<open>mkfs\<close> itself does not check this, and with more files
  it uses inode numbers beyond \<^verbatim>\<open>NINODES\<close>), is one the kernel can boot from: the super block is the one
  \<open>readsb\<close> expects, the log is empty, every block a file refers to is marked in the bitmap
  and lies inside the disk, no block belongs to two files, and the first block \<open>balloc\<close>
  would hand out is the first one \<open>mkfs\<close> did not use.
\<close>

theorem mkfs_image_boots:
  assumes "length files + 2 \<le> NINODES"
    and "mkfs_main ((path, Some c) # map given files) es s = Ret u es' s'"
  shows "superblock_of (img s' ! 1) = mk_sb \<and> head_blocks (img s' ! 2) = [] \<and>
    (\<forall>i < NINODES. \<forall>b \<in> refs (img s') (inode_of (img s') i). b < FSSIZE \<and> block_used (img s' ! 45) b) \<and>
    (\<forall>i < NINODES. \<forall>j < NINODES. i \<noteq> j \<longrightarrow> refs (img s') (inode_of (img s') i) \<inter> refs (img s') (inode_of (img s') j) = {}) \<and>
    (unat (freeblock s') < FSSIZE \<longrightarrow> balloc_bit (img s' ! 45) 0 FSSIZE = Some (unat (freeblock s')))"
proof -
  obtain t where t: "fs_inv t (root_entries files) (map (\<lambda>f. concat (snd f)) files)" and s': "s' = closed t"
    using mkfs_main_Ret [OF assms] by blast
  have ok: "fs_ok t" using t by (simp add: fs_inv_def)
  have fb: "fixed_block 1" "fixed_block 2" by (simp_all add: fixed_block_def)
  have f: "freeblock (closed t) = freeblock t" by (simp add: closed_def Let_def)
  note C = closed_image [OF t]
  have "superblock_of (img s' ! 1) = mk_sb" "head_blocks (img s' ! 2) = []"
    using C(2) [OF fb(1)] C(2) [OF fb(2)] front_superblock front_log s' by simp_all
  moreover have "unat (freeblock s') < FSSIZE \<longrightarrow> balloc_bit (img s' ! 45) 0 FSSIZE = Some (unat (freeblock s'))"
    unfolding s' C(1) f using first_free_bit by blast
  moreover have "refs (img s') (inode_of (img s') i) \<inter> refs (img s') (inode_of (img s') j) = {}"
    if "i < NINODES" "j < NINODES" "i \<noteq> j" for i j
    unfolding s' closed_files(1) [OF t that(1)] closed_files(1) [OF t that(2)] using fs_okD(7) [OF ok that] .
  moreover have "\<forall>b \<in> refs (img s') (inode_of (img s') i). b < FSSIZE \<and> block_used (img s' ! 45) b" if "i < NINODES" for i
    unfolding s' using closed_allocated [OF t that] by blast
  ultimately show ?thesis by blast
qed

theorem mkfs_image_boots_witness:
  "\<exists>s'. mkfs_main ((map of_char ''fs.img'', Some []) # map given two_files) [] \<lparr>img = [], freeinode = 0, freeblock = 0\<rparr> = Ret () [] s' \<and>
    superblock_of (img s' ! 1) = mk_sb \<and> head_blocks (img s' ! 2) = []"
proof -
  obtain s' where s': "mkfs_main ((map of_char ''fs.img'', Some []) # map given two_files) [] \<lparr>img = [], freeinode = 0, freeblock = 0\<rparr> = Ret () [] s'"
    using mkfs_main_returns [OF two_files_fit] by blast
  then show ?thesis using mkfs_image_boots [OF two_files_fit(1) s'] by blast
qed

text \<open>
  C19: \<^verbatim>\<open>iappend\<close> appends.  On an image in which every file has its own blocks, as long as
  the file stays below its largest size and blocks are left, the program returns, the
  file has the new bytes behind the old ones, through direct and indirect blocks, all
  other files are unchanged, and every file still has its own blocks.
\<close>

theorem iappend_appends:
  assumes "fs_ok s" "i < NINODES"
    and "unat (isize (inode_of (img s) i)) + length p \<le> MAXFILE * BSIZE"
    and "room s (inode_of (img s) i) (touched (unat (isize (inode_of (img s) i))) (length p))"
  shows "\<exists>s'. iappend (of_nat i) p es s = Ret () es s' \<and> fs_ok s' \<and>
    contents (img s') (inode_of (img s') i) = contents (img s) (inode_of (img s) i) @ p \<and>
    (\<forall>j < NINODES. j \<noteq> i \<longrightarrow> contents (img s') (inode_of (img s') j) = contents (img s) (inode_of (img s) j))"
  using iappend_run [OF assms(1-3), of 0 es] assms(4) by (auto simp: grown_def)

theorem iappend_appends_witness:
  "\<exists>s'. iappend (of_nat 5) [1, 2, 3] [] \<lparr>img = empty_image, freeinode = 1, freeblock = of_nat nmeta\<rparr> = Ret () [] s' \<and>
    contents (img s') (inode_of (img s') 5) = [1, 2, 3]"
proof -
  let ?s = "\<lparr>img = empty_image, freeinode = 1, freeblock = of_nat nmeta\<rparr>"
  have ok: "fs_ok ?s" by (rule empty_ok) simp_all
  have d: "inode_of (img ?s) 5 = blank_inode" using empty_inode [of 5] by simp
  then have c: "contents (img ?s) (inode_of (img ?s) 5) = []" "isize (inode_of (img ?s) 5) = 0"
    by (simp_all add: contents_def blank_inode_def)
  have "room ?s (inode_of (img ?s) 5) (touched (unat (isize (inode_of (img ?s) 5))) (length [1, 2, 3 :: u8]))"
    unfolding c(2) by (simp add: room_def touched_def BSIZE_def)
  moreover have "unat (isize (inode_of (img ?s) 5)) + length [1, 2, 3 :: u8] \<le> MAXFILE * BSIZE"
    unfolding c(2) by (simp add: BSIZE_def)
  ultimately show ?thesis using iappend_appends [OF ok, of 5 "[1, 2, 3]" "[]"] unfolding c(1) by auto
qed

end
