(* ===== verification/Ulib.thy ===== *)
theory Ulib
  imports Syscall
begin

text \<open>
  The C library of the user programs: the system calls as a program sees them
  (\<^verbatim>\<open>user/user.h\<close>), \<^verbatim>\<open>user/ulib.c\<close> and \<^verbatim>\<open>user/printf.c\<close>.

  A user program is a computation whose state is the trace of the system calls it has
  made, the kernel's last reply and its heap.  A call extends the trace and waits; what the
  environment does there is the kernel's answer.  \<^verbatim>\<open>exit\<close> extends the trace and
  is never resumed.  A string is the list of bytes from the address a pointer holds
  to the end of its object, as in the kernel's string functions.
\<close>

subsection \<open>System calls\<close>

datatype call =
    Cfork | Cexit int | Cwait | Cpipe | Cwrite int bytes | Cread int int | Cclose int | Ckill int
  | Cexec bytes "bytes list" | Copen bytes u32 | Cmknod bytes int int | Cunlink bytes | Cfstat int
  | Clink bytes bytes | Cmkdir bytes | Cchdir bytes | Cdup int | Cgetpid | Csbrk int | Csleep int | Cuptime

text \<open>
  A reply: the value returned, the bytes a \<^verbatim>\<open>read\<close> has put into the buffer, the
  descriptors of a \<^verbatim>\<open>pipe\<close>, the result of an \<^verbatim>\<open>fstat\<close>, the exit status a \<^verbatim>\<open>wait\<close> has stored.
\<close>

record answer =
  a_ret :: int
  a_data :: bytes
  a_fds :: "int \<times> int"
  a_stat :: stat
  a_status :: int

text \<open>
  Beside the trace and the last reply a process has its heap: the headers of
  \<^verbatim>\<open>user/umalloc.c\<close> by address, \<^verbatim>\<open>freep\<close> (0 is the null pointer) and the address of
  \<^verbatim>\<open>base\<close>.
\<close>

record header =
  hptr :: u64
  hsize :: u32

record user_state =
  calls :: "call list"
  reply :: answer
  hdr :: "u64 \<Rightarrow> header"
  freep :: u64
  base_at :: u64

type_synonym 'a umon = "(user_state, 'a) kmon"

definition ucall :: "call \<Rightarrow> answer umon" where
  "ucall c =
     kbind (kmodify (\<lambda>s. s\<lparr>calls := calls s @ [c]\<rparr>)) (\<lambda>_.
     kbind kwait (\<lambda>_.
     kget reply))"

definition u_exit :: "int \<Rightarrow> 'a umon" where
  "u_exit n =
     kbind (kmodify (\<lambda>s. s\<lparr>calls := calls s @ [Cexit n]\<rparr>)) (\<lambda>_ es s. Blocked s)"

text \<open>The string a pointer argument stands for; without a NUL in its object it has none.\<close>

definition uarg :: "bytes \<Rightarrow> (bytes \<Rightarrow> 'a umon) \<Rightarrow> 'a umon" where
  "uarg b f = (if 0 \<in> set b then f (cstr b) else kundef)"

definition ucall_ret :: "call \<Rightarrow> int umon" where
  "ucall_ret c = kbind (ucall c) (\<lambda>a. kret (a_ret a))"

definition u_fork :: "int umon" where "u_fork = ucall_ret Cfork"
definition u_wait :: "int umon" where "u_wait = ucall_ret Cwait"
definition u_pipe :: "(int \<times> int \<times> int) umon" where
  "u_pipe = kbind (ucall Cpipe) (\<lambda>a. kret (a_ret a, a_fds a))"
definition u_write :: "int \<Rightarrow> bytes \<Rightarrow> int umon" where "u_write fd b = ucall_ret (Cwrite fd b)"
definition u_read :: "int \<Rightarrow> int \<Rightarrow> (int \<times> bytes) umon" where
  "u_read fd n = kbind (ucall (Cread fd n)) (\<lambda>a. kret (a_ret a, a_data a))"
definition u_close :: "int \<Rightarrow> int umon" where "u_close fd = ucall_ret (Cclose fd)"
definition u_kill :: "int \<Rightarrow> int umon" where "u_kill p = ucall_ret (Ckill p)"
definition u_exec :: "bytes \<Rightarrow> bytes list \<Rightarrow> int umon" where
  "u_exec path argv = uarg path (\<lambda>p.
     if \<forall>b \<in> set argv. 0 \<in> set b then ucall_ret (Cexec p (map cstr argv)) else kundef)"
definition u_open :: "bytes \<Rightarrow> u32 \<Rightarrow> int umon" where "u_open path m = uarg path (\<lambda>p. ucall_ret (Copen p m))"
definition u_mknod :: "bytes \<Rightarrow> int \<Rightarrow> int \<Rightarrow> int umon" where
  "u_mknod path a b = uarg path (\<lambda>p. ucall_ret (Cmknod p a b))"
definition u_unlink :: "bytes \<Rightarrow> int umon" where "u_unlink path = uarg path (\<lambda>p. ucall_ret (Cunlink p))"
definition u_fstat :: "int \<Rightarrow> (int \<times> stat) umon" where
  "u_fstat fd = kbind (ucall (Cfstat fd)) (\<lambda>a. kret (a_ret a, a_stat a))"
definition u_link :: "bytes \<Rightarrow> bytes \<Rightarrow> int umon" where
  "u_link old new = uarg old (\<lambda>p. uarg new (\<lambda>q. ucall_ret (Clink p q)))"
definition u_mkdir :: "bytes \<Rightarrow> int umon" where "u_mkdir path = uarg path (\<lambda>p. ucall_ret (Cmkdir p))"
definition u_chdir :: "bytes \<Rightarrow> int umon" where "u_chdir path = uarg path (\<lambda>p. ucall_ret (Cchdir p))"
definition u_dup :: "int \<Rightarrow> int umon" where "u_dup fd = ucall_ret (Cdup fd)"
definition u_getpid :: "int umon" where "u_getpid = ucall_ret Cgetpid"
definition u_sbrk :: "int \<Rightarrow> int umon" where "u_sbrk n = ucall_ret (Csbrk n)"
definition u_sleep :: "int \<Rightarrow> int umon" where "u_sleep n = ucall_ret (Csleep n)"
definition u_uptime :: "int umon" where "u_uptime = ucall_ret Cuptime"

definition udo :: "'a umon \<Rightarrow> unit umon" where
  "udo m = kbind m (\<lambda>_. kret ())"

text \<open>A string literal.\<close>

definition lit :: "string \<Rightarrow> bytes" where
  "lit s = map of_char s @ [0]"

subsection \<open>ulib.c\<close>

text \<open>\<^verbatim>\<open>start\<close>: run \<^verbatim>\<open>main\<close>, then exit.\<close>

definition u_start :: "int umon \<Rightarrow> unit umon" where
  "u_start main = kbind main (\<lambda>_. u_exit 0)"

fun ustrcpy_loop :: "bytes \<Rightarrow> nat \<Rightarrow> bytes \<Rightarrow> bytes option" where
  "ustrcpy_loop s i [] = None"
| "ustrcpy_loop s i (c # t) =
     Option.bind (poke s i c) (\<lambda>s'. if c \<noteq> 0 then ustrcpy_loop s' (Suc i) t else Some s')"

definition ustrcpy :: "bytes \<Rightarrow> bytes \<Rightarrow> bytes option" where
  "ustrcpy s t = ustrcpy_loop s 0 t"

fun ustrcmp :: "bytes \<Rightarrow> bytes \<Rightarrow> int option" where
  "ustrcmp (a # p) (b # q) = (if a \<noteq> 0 \<and> a = b then ustrcmp p q else Some (uint a - uint b))"
| "ustrcmp _ _ = None"

fun ustrlen :: "bytes \<Rightarrow> nat option" where
  "ustrlen [] = None"
| "ustrlen (c # s) = (if c \<noteq> 0 then map_option Suc (ustrlen s) else Some 0)"

definition umemset :: "memory \<Rightarrow> u64 \<Rightarrow> u32 \<Rightarrow> u32 \<Rightarrow> memory" where
  "umemset m dst c n = memset_loop m dst (ucast c) (unat n)"

text \<open>The offset of the character, or \<open>None\<close> for the null pointer.\<close>

fun ustrchr :: "bytes \<Rightarrow> u8 \<Rightarrow> nat option option" where
  "ustrchr [] c = None"
| "ustrchr (a # s) c =
     (if a = 0 then Some None else if a = c then Some (Some 0)
      else map_option (map_option Suc) (ustrchr s c))"

text \<open>The loop of \<^verbatim>\<open>gets\<close>; \<open>k\<close> is \<^verbatim>\<open>max - 1 - i\<close>.\<close>

primrec ugets_loop :: "nat \<Rightarrow> nat \<Rightarrow> bytes \<Rightarrow> (nat \<times> bytes) umon" where
  "ugets_loop 0 i buf = kret (i, buf)"
| "ugets_loop (Suc k) i buf =
     kbind (u_read 0 1) (\<lambda>(cc, d).
     if cc < 1 then kret (i, buf) else
     (case d of [] \<Rightarrow> kundef | c # _ \<Rightarrow>
     (case poke buf i c of None \<Rightarrow> kundef | Some buf' \<Rightarrow>
     if c = 0x0A \<or> c = 0x0D then kret (Suc i, buf') else ugets_loop k (Suc i) buf')))"

definition ugets :: "bytes \<Rightarrow> int \<Rightarrow> bytes umon" where
  "ugets buf mx =
     kbind (ugets_loop (nat (mx - 1)) 0 buf) (\<lambda>(i, buf').
     case poke buf' i 0 of None \<Rightarrow> kundef | Some b \<Rightarrow> kret b)"

definition ustat :: "bytes \<Rightarrow> (int \<times> stat option) umon" where
  "ustat n =
     kbind (u_open n O_RDONLY) (\<lambda>fd.
     if fd < 0 then kret (- 1, None) else
     kbind (u_fstat fd) (\<lambda>(r, st).
     kbind (u_close fd) (\<lambda>_.
     kret (r, Some st))))"

text \<open>
  \<^verbatim>\<open>atoi\<close>; \<open>None\<close> if it leaves the string or the arithmetic on \<^verbatim>\<open>int\<close> overflows, which
  C leaves undefined.
\<close>

fun uatoi_loop :: "int \<Rightarrow> bytes \<Rightarrow> int option" where
  "uatoi_loop n [] = None"
| "uatoi_loop n (c # s) =
     (if 0x30 \<le> c \<and> c \<le> 0x39
      then (let n' = n * 10 + uint c - 0x30
            in if n * 10 + uint c < 2 ^ 31 then uatoi_loop n' s else None)
      else Some n)"

definition uatoi :: "bytes \<Rightarrow> int option" where
  "uatoi s = uatoi_loop 0 s"

definition umemmove :: "memory \<Rightarrow> u64 \<Rightarrow> u64 \<Rightarrow> int \<Rightarrow> memory" where
  "umemmove m dst src n =
     (if src > dst then copy_up m dst src (nat n)
      else copy_down m (dst + of_int n) (src + of_int n) (nat n))"

definition umemcmp :: "memory \<Rightarrow> u64 \<Rightarrow> u64 \<Rightarrow> u32 \<Rightarrow> int" where
  "umemcmp m s1 s2 n = memcmp_loop m s1 s2 (unat n)"

definition umemcpy :: "memory \<Rightarrow> u64 \<Rightarrow> u64 \<Rightarrow> u32 \<Rightarrow> memory" where
  "umemcpy m dst src n = umemmove m dst src (sint n)"

subsection \<open>printf.c\<close>

definition udigit_chars :: string where
  "udigit_chars = ''0123456789ABCDEF''"

definition uputc :: "int \<Rightarrow> u8 \<Rightarrow> unit umon" where
  "uputc fd c = udo (u_write fd [c])"

text \<open>The \<^verbatim>\<open>do\<close> loop of \<^verbatim>\<open>printint\<close>: the digits, the least significant first.\<close>

function udigits :: "nat \<Rightarrow> nat \<Rightarrow> bytes" where
  "udigits x base =
     of_char (udigit_chars ! (x mod base)) # (if base \<le> 1 \<or> x div base = 0 then [] else udigits (x div base) base)"
  by pat_completeness auto
termination
  by (relation "measure fst") (auto intro!: div_less_dividend gr0I)

declare udigits.simps [simp del]

definition uprintint_buf :: "u32 \<Rightarrow> nat \<Rightarrow> bool \<Rightarrow> bytes" where
  "uprintint_buf xx base sg =
     (let neg = (sg \<and> sint xx < 0)
      in udigits (unat (if neg then - xx else xx)) base @ (if neg then [0x2D] else []))"

definition uprintint :: "int \<Rightarrow> u32 \<Rightarrow> nat \<Rightarrow> bool \<Rightarrow> unit umon" where
  "uprintint fd xx base sg =
     (let buf = uprintint_buf xx base sg
      in if length buf > 16 then kundef else kfor (rev buf) (uputc fd))"

definition uprintptr :: "int \<Rightarrow> u64 \<Rightarrow> unit umon" where
  "uprintptr fd x = kseq [
     uputc fd 0x30,
     uputc fd 0x78,
     kfor [0..<16] (\<lambda>i. uputc fd (of_char (udigit_chars ! unat (drop_bit 60 (push_bit (4 * i) x)))))]"

definition uva_word :: "vararg list \<Rightarrow> (u64 \<Rightarrow> unit umon) \<Rightarrow> unit umon" where
  "uva_word ap f = (case ap of AWord w # _ \<Rightarrow> f w | _ \<Rightarrow> kundef)"

definition uva_str :: "vararg list \<Rightarrow> (bytes option \<Rightarrow> unit umon) \<Rightarrow> unit umon" where
  "uva_str ap f = (case ap of AStr s # _ \<Rightarrow> f s | _ \<Rightarrow> kundef)"

definition uprint_str :: "int \<Rightarrow> bytes option \<Rightarrow> unit umon" where
  "uprint_str fd s =
     uarg (case s of None \<Rightarrow> lit ''(null)'' | Some b \<Rightarrow> b) (\<lambda>b. kfor b (uputc fd))"

text \<open>
  A conversion: the further characters of the format it takes, whether it takes an
  argument, and what it prints.  \<^verbatim>\<open>printint\<close> takes an \<^verbatim>\<open>int\<close>, so the upper half of a
  64-bit argument is dropped.
\<close>

definition uconv :: "int \<Rightarrow> char \<Rightarrow> char \<Rightarrow> char \<Rightarrow> vararg list \<Rightarrow> nat \<times> bool \<times> unit umon" where
  "uconv fd c0 c1 c2 ap =
     (if c0 = CHR ''d'' then (0, True, uva_word ap (\<lambda>w. uprintint fd (ucast w) 10 True))
      else if c0 = CHR ''l'' \<and> c1 = CHR ''d'' then (1, True, uva_word ap (\<lambda>w. uprintint fd (ucast w) 10 True))
      else if c0 = CHR ''l'' \<and> c1 = CHR ''l'' \<and> c2 = CHR ''d'' then (2, True, uva_word ap (\<lambda>w. uprintint fd (ucast w) 10 True))
      else if c0 = CHR ''u'' then (0, True, uva_word ap (\<lambda>w. uprintint fd (ucast w) 10 False))
      else if c0 = CHR ''l'' \<and> c1 = CHR ''u'' then (1, True, uva_word ap (\<lambda>w. uprintint fd (ucast w) 10 False))
      else if c0 = CHR ''l'' \<and> c1 = CHR ''l'' \<and> c2 = CHR ''u'' then (2, True, uva_word ap (\<lambda>w. uprintint fd (ucast w) 10 False))
      else if c0 = CHR ''x'' then (0, True, uva_word ap (\<lambda>w. uprintint fd (ucast w) 16 False))
      else if c0 = CHR ''l'' \<and> c1 = CHR ''x'' then (1, True, uva_word ap (\<lambda>w. uprintint fd (ucast w) 16 False))
      else if c0 = CHR ''l'' \<and> c1 = CHR ''l'' \<and> c2 = CHR ''x'' then (2, True, uva_word ap (\<lambda>w. uprintint fd (ucast w) 16 False))
      else if c0 = CHR ''p'' then (0, True, uva_word ap (uprintptr fd))
      else if c0 = CHR ''s'' then (0, True, uva_str ap (uprint_str fd))
      else if c0 = CHR ''%'' then (0, False, uputc fd 0x25)
      else (0, False, kseq [uputc fd 0x25, uputc fd (of_char c0)]))"

text \<open>A \<^verbatim>\<open>%\<close> at the end of the format prints nothing.\<close>

function uvprintf :: "int \<Rightarrow> string \<Rightarrow> vararg list \<Rightarrow> unit umon" where
  "uvprintf fd [] ap = kret ()"
| "uvprintf fd (c # fmt) ap =
     (if c \<noteq> CHR ''%'' then kbind (uputc fd (of_char c)) (\<lambda>_. uvprintf fd fmt ap)
      else if fmt = [] then kret ()
      else (case uconv fd (fmt_at fmt 0) (fmt_at fmt 1) (fmt_at fmt 2) ap of
        (skip, takes, act) \<Rightarrow>
          kbind act (\<lambda>_. uvprintf fd (drop (Suc skip) fmt) (if takes then tl ap else ap))))"
  by pat_completeness auto
termination
  by (relation "measure (\<lambda>(fd, fmt, ap). length fmt)") auto

definition ufprintf :: "int \<Rightarrow> string \<Rightarrow> vararg list \<Rightarrow> unit umon" where
  "ufprintf fd fmt ap = uvprintf fd fmt ap"

definition uprintf :: "string \<Rightarrow> vararg list \<Rightarrow> unit umon" where
  "uprintf fmt ap = uvprintf 1 fmt ap"

definition nl :: string where
  "nl = [CHR 0x0A]"

end
