(* ===== verification/Umalloc.thy ===== *)
theory Umalloc
  imports Ulib
begin

text \<open>
  \<^verbatim>\<open>user/umalloc.c\<close>: the allocator of Kernighan and Ritchie.  The free blocks form a
  circular list of headers of 16 bytes, linked by address; sizes count headers.  The
  two loops end when they come round to where they started; a header takes 16 bytes,
  so a list that is circular has at most \<open>2 ^ 60\<close> of them.
\<close>

definition HDR :: u64 where [simp]: "HDR = 16"

definition max_headers :: nat where
  "max_headers = 2 ^ 60"

definition hget :: "u64 \<Rightarrow> (header \<Rightarrow> 'a) \<Rightarrow> 'a umon" where
  "hget p f = kget (\<lambda>s. f (hdr s p))"

definition hset :: "u64 \<Rightarrow> (header \<Rightarrow> header) \<Rightarrow> unit umon" where
  "hset p f = kmodify (\<lambda>s. s\<lparr>hdr := (hdr s)(p := f (hdr s p))\<rparr>)"

text \<open>\<open>hp + n\<close> for a pointer to headers\<close>

definition hadd :: "u64 \<Rightarrow> u32 \<Rightarrow> u64" where
  "hadd p n = p + HDR * ucast n"

text \<open>The loop of \<^verbatim>\<open>free\<close>: the header after which \<open>bp\<close> belongs.\<close>

primrec free_find :: "nat \<Rightarrow> u64 \<Rightarrow> u64 \<Rightarrow> u64 umon" where
  "free_find 0 bp p = kdiverge"
| "free_find (Suc k) bp p =
     kbind (hget p hptr) (\<lambda>nx.
     if bp > p \<and> bp < nx then kret p
     else if p \<ge> nx \<and> (bp > p \<or> bp < nx) then kret p
     else free_find k bp nx)"

definition u_free :: "u64 \<Rightarrow> unit umon" where
  "u_free ap =
     (let bp = ap - HDR in
     kbind (kget freep) (\<lambda>fp.
     kbind (free_find max_headers bp fp) (\<lambda>p.
     kbind (hget p hptr) (\<lambda>nx.
     kbind (hget bp hsize) (\<lambda>bsz.
     kbind (if hadd bp bsz = nx then
              kbind (hget nx hsize) (\<lambda>nsz.
              kbind (hset bp (\<lambda>h. h\<lparr>hsize := hsize h + nsz\<rparr>)) (\<lambda>_.
              kbind (hget nx hptr) (\<lambda>nn.
              hset bp (\<lambda>h. h\<lparr>hptr := nn\<rparr>))))
            else hset bp (\<lambda>h. h\<lparr>hptr := nx\<rparr>)) (\<lambda>_.
     kbind (hget p hsize) (\<lambda>psz.
     kbind (if hadd p psz = bp then
              kbind (hget bp hsize) (\<lambda>bsz'.
              kbind (hset p (\<lambda>h. h\<lparr>hsize := hsize h + bsz'\<rparr>)) (\<lambda>_.
              kbind (hget bp hptr) (\<lambda>bn.
              hset p (\<lambda>h. h\<lparr>hptr := bn\<rparr>))))
            else hset p (\<lambda>h. h\<lparr>hptr := bp\<rparr>)) (\<lambda>_.
     kmodify (\<lambda>s. s\<lparr>freep := p\<rparr>)))))))))"

text \<open>
  \<^verbatim>\<open>sbrk\<close> takes an \<^verbatim>\<open>int\<close>: the product is computed with 64 bits and truncated.  A null
  pointer is 0.
\<close>

definition morecore :: "u32 \<Rightarrow> u64 umon" where
  "morecore nu0 =
     (let nu = (if nu0 < 4096 then 4096 else nu0) in
     kbind (u_sbrk (sint (ucast (ucast nu * HDR) :: u32))) (\<lambda>r.
     if r = - 1 then kret 0 else
     (let hp = of_int r in
     kbind (hset hp (\<lambda>h. h\<lparr>hsize := nu\<rparr>)) (\<lambda>_.
     kbind (u_free (hp + HDR)) (\<lambda>_.
     kget freep)))))"

primrec malloc_loop :: "nat \<Rightarrow> u32 \<Rightarrow> u64 \<Rightarrow> u64 \<Rightarrow> u64 umon" where
  "malloc_loop 0 nunits prevp p = kdiverge"
| "malloc_loop (Suc k) nunits prevp p =
     kbind (hget p hsize) (\<lambda>sz.
     if sz \<ge> nunits then
       kbind (if sz = nunits then
                kbind (hget p hptr) (\<lambda>nx.
                kbind (hset prevp (\<lambda>h. h\<lparr>hptr := nx\<rparr>)) (\<lambda>_.
                kret p))
              else
                kbind (hset p (\<lambda>h. h\<lparr>hsize := hsize h - nunits\<rparr>)) (\<lambda>_.
                (let p' = hadd p (sz - nunits) in
                kbind (hset p' (\<lambda>h. h\<lparr>hsize := nunits\<rparr>)) (\<lambda>_.
                kret p')))) (\<lambda>q.
       kbind (kmodify (\<lambda>s. s\<lparr>freep := prevp\<rparr>)) (\<lambda>_.
       kret (q + HDR)))
     else
       kbind (kget freep) (\<lambda>fp.
       kbind (if p = fp then kbind (morecore nunits) (\<lambda>q. kret (q = 0, q)) else kret (False, p)) (\<lambda>(null, p1).
       if null then kret 0
       else kbind (hget p1 hptr) (\<lambda>nx. malloc_loop k nunits p1 nx))))"

text \<open>\<^verbatim>\<open>nbytes\<close> is an unsigned \<^verbatim>\<open>int\<close>; the division is done with 64 bits.\<close>

definition malloc_units :: "u32 \<Rightarrow> u32" where
  "malloc_units nbytes = ucast (((ucast nbytes :: u64) + 16 - 1) div 16 + 1)"

definition u_malloc :: "u32 \<Rightarrow> u64 umon" where
  "u_malloc nbytes =
     (let nunits = malloc_units nbytes in
     kbind (kget freep) (\<lambda>fp.
     kbind (kwhen (fp = 0) (
       kbind (kget base_at) (\<lambda>b. kseq [
         kmodify (\<lambda>s. s\<lparr>freep := b\<rparr>),
         hset b (\<lambda>h. h\<lparr>hptr := b\<rparr>),
         hset b (\<lambda>h. h\<lparr>hsize := 0\<rparr>)]))) (\<lambda>_.
     kbind (kget freep) (\<lambda>prevp.
     kbind (hget prevp hptr) (\<lambda>p.
     malloc_loop (2 * max_headers) nunits prevp p)))))"

end
