(* ===== verification/Programs.thy ===== *)
theory Programs
  imports Umalloc
begin

text \<open>
  The small user programs, each as what its \<^verbatim>\<open>main\<close> does with the system calls.  \<open>argv\<close> is
  the list of the argument strings, so \<^verbatim>\<open>argc\<close> is its length.  A loop that makes a
  system call in every round is bounded by the replies that are left.
\<close>

definition kopt :: "'a option \<Rightarrow> ('a \<Rightarrow> ('s, 'b) kmon) \<Rightarrow> ('s, 'b) kmon" where
  "kopt x f = (case x of None \<Rightarrow> kundef | Some y \<Rightarrow> f y)"

abbreviation sarg :: "bytes \<Rightarrow> vararg" where
  "sarg b \<equiv> AStr (Some b)"

abbreviation iarg :: "int \<Rightarrow> vararg" where
  "iarg n \<equiv> AWord (of_int n)"

subsection \<open>cat.c\<close>

definition cat :: "int \<Rightarrow> unit umon" where
  "cat fd = kwaitloop (
     kbind (u_read fd 512) (\<lambda>(n, d).
     if n > 0 then
       kbind (u_write 1 d) (\<lambda>w.
       if w \<noteq> n then kbind (ufprintf 2 (''cat: write error'' @ nl) []) (\<lambda>_. u_exit 1)
       else kret None)
     else if n < 0 then kbind (ufprintf 2 (''cat: read error'' @ nl) []) (\<lambda>_. u_exit 1)
     else kret (Some ())))"

definition cat_main :: "bytes list \<Rightarrow> unit umon" where
  "cat_main argv =
     (if length argv \<le> 1 then kbind (cat 0) (\<lambda>_. u_exit 0)
      else kbind (kfor (tl argv) (\<lambda>arg.
        kbind (u_open arg O_RDONLY) (\<lambda>fd.
        if fd < 0 then kbind (ufprintf 2 (''cat: cannot open %s'' @ nl) [sarg arg]) (\<lambda>_. u_exit 1)
        else kbind (cat fd) (\<lambda>_. udo (u_close fd))))) (\<lambda>_. u_exit 0))"

subsection \<open>echo.c\<close>

definition echo_main :: "bytes list \<Rightarrow> unit umon" where
  "echo_main argv =
     kbind (kfor [1..<length argv] (\<lambda>i.
       uarg (argv ! i) (\<lambda>s.
       kbind (u_write 1 s) (\<lambda>_.
       udo (u_write 1 (if i + 1 < length argv then [0x20] else [0x0A])))))) (\<lambda>_.
     u_exit 0)"

subsection \<open>rm.c, mkdir.c, ln.c, kill.c, sleep.c\<close>

definition rm_main :: "bytes list \<Rightarrow> unit umon" where
  "rm_main argv =
     (if length argv < 2 then kbind (ufprintf 2 (''Usage: rm files...'' @ nl) []) (\<lambda>_. u_exit 1)
      else kbind (kfind (tl argv) (\<lambda>arg.
        kbind (u_unlink arg) (\<lambda>r.
        if r < 0 then kbind (ufprintf 2 (''rm: %s failed to delete'' @ nl) [sarg arg]) (\<lambda>_. kret (Some ()))
        else kret None))) (\<lambda>_. u_exit 0))"

definition mkdir_main :: "bytes list \<Rightarrow> unit umon" where
  "mkdir_main argv =
     (if length argv < 2 then kbind (ufprintf 2 (''Usage: mkdir files...'' @ nl) []) (\<lambda>_. u_exit 1)
      else kbind (kfind (tl argv) (\<lambda>arg.
        kbind (u_mkdir arg) (\<lambda>r.
        if r < 0 then kbind (ufprintf 2 (''mkdir: %s failed to create'' @ nl) [sarg arg]) (\<lambda>_. kret (Some ()))
        else kret None))) (\<lambda>_. u_exit 0))"

definition ln_main :: "bytes list \<Rightarrow> unit umon" where
  "ln_main argv =
     (if length argv \<noteq> 3 then kbind (ufprintf 2 (''Usage: ln old new'' @ nl) []) (\<lambda>_. u_exit 1)
      else
        kbind (u_link (argv ! 1) (argv ! 2)) (\<lambda>r.
        kbind (kwhen (r < 0) (ufprintf 2 (''link %s %s: failed'' @ nl) [sarg (argv ! 1), sarg (argv ! 2)])) (\<lambda>_.
        u_exit 0)))"

definition kill_main :: "bytes list \<Rightarrow> unit umon" where
  "kill_main argv =
     (if length argv < 2 then kbind (ufprintf 2 (''usage: kill pid...'' @ nl) []) (\<lambda>_. u_exit 1)
      else kbind (kfor (tl argv) (\<lambda>arg. kopt (uatoi arg) (\<lambda>p. udo (u_kill p)))) (\<lambda>_. u_exit 0))"

definition sleep_main :: "bytes list \<Rightarrow> int umon" where
  "sleep_main argv =
     (if length argv < 2 then kbind (ufprintf 2 (''usage: sleep [time]'' @ nl) []) (\<lambda>_. u_exit 1)
      else kopt (uatoi (argv ! 1)) (\<lambda>n. kbind (u_sleep n) (\<lambda>_. kret 0)))"

subsection \<open>init.c\<close>

text \<open>The inner loop: wait until the shell has exited.\<close>

definition init_wait :: "int \<Rightarrow> unit umon" where
  "init_wait sh = kwaitloop (
     kbind u_wait (\<lambda>wpid.
     if wpid = sh then kret (Some ())
     else if wpid < 0 then kbind (uprintf (''init: wait returned an error'' @ nl) []) (\<lambda>_. u_exit 1)
     else kret None))"

definition init_main :: "unit umon" where
  "init_main =
     kbind (u_open (lit ''console'') O_RDWR) (\<lambda>fd.
     kbind (kwhen (fd < 0) (kseq [
       udo (u_mknod (lit ''console'') (int CONSOLE) 0),
       udo (u_open (lit ''console'') O_RDWR)])) (\<lambda>_.
     kbind (u_dup 0) (\<lambda>_.
     kbind (u_dup 0) (\<lambda>_.
     kwaitloop (
       kbind (uprintf (''init: starting sh'' @ nl) []) (\<lambda>_.
       kbind u_fork (\<lambda>pid.
       if pid < 0 then kbind (uprintf (''init: fork failed'' @ nl) []) (\<lambda>_. u_exit 1)
       else if pid = 0 then
         kbind (u_exec (lit ''sh'') [lit ''sh'']) (\<lambda>_.
         kbind (uprintf (''init: exec sh failed'' @ nl) []) (\<lambda>_. u_exit 1))
       else kbind (init_wait pid) (\<lambda>_. kret None))))))))"

subsection \<open>zombie.c, stressfs.c, forktest.c, pingpong.c\<close>

definition zombie_main :: "unit umon" where
  "zombie_main =
     kbind u_fork (\<lambda>pid.
     kbind (kwhen (pid > 0) (udo (u_sleep 5))) (\<lambda>_.
     u_exit 0))"

text \<open>\<^verbatim>\<open>for(i = 0; i < 4; i++) if(fork() > 0) break;\<close>\<close>

definition stressfs_fork :: "nat umon" where
  "stressfs_fork =
     kbind (kfind [0..<4] (\<lambda>i. kbind u_fork (\<lambda>pid. kret (if pid > 0 then Some i else None)))) (\<lambda>r.
     kret (case r of Some i \<Rightarrow> i | None \<Rightarrow> 4))"

definition stressfs_main :: "unit umon" where
  "stressfs_main =
     (let data = replicate 512 0x61 in
     kbind (uprintf (''stressfs starting'' @ nl) []) (\<lambda>_.
     kbind stressfs_fork (\<lambda>i.
     kbind (uprintf (''write %d'' @ nl) [iarg (int i)]) (\<lambda>_.
     (let path = (lit ''stressfs0'')[8 := 0x30 + of_nat i] in
     kbind (u_open path (O_CREATE OR O_RDWR)) (\<lambda>fd.
     kbind (kfor [0..<20] (\<lambda>_. udo (u_write fd data))) (\<lambda>_.
     kbind (u_close fd) (\<lambda>_.
     kbind (uprintf (''read'' @ nl) []) (\<lambda>_.
     kbind (u_open path O_RDONLY) (\<lambda>fd'.
     kbind (kfor [0..<20] (\<lambda>_. udo (u_read fd' 512))) (\<lambda>_.
     kbind (u_close fd') (\<lambda>_.
     kbind u_wait (\<lambda>_.
     u_exit 0)))))))))))))"

definition ft_print :: "string \<Rightarrow> unit umon" where
  "ft_print s = udo (u_write 1 (map of_char s))"

definition forktest :: "unit umon" where
  "forktest =
     kbind (ft_print (''fork test'' @ nl)) (\<lambda>_.
     kbind (kfind [0..<1000] (\<lambda>n.
       kbind u_fork (\<lambda>pid.
       if pid < 0 then kret (Some n) else if pid = 0 then u_exit 0 else kret None))) (\<lambda>r.
     case r of
       None \<Rightarrow> kbind (ft_print (''fork claimed to work N times!'' @ nl)) (\<lambda>_. u_exit 1)
     | Some n \<Rightarrow>
         kbind (kfor [0..<n] (\<lambda>_.
           kbind u_wait (\<lambda>r. kwhen (r < 0) (kbind (ft_print (''wait stopped early'' @ nl)) (\<lambda>_. u_exit 1))))) (\<lambda>_.
         kbind u_wait (\<lambda>r.
         kbind (kwhen (r \<noteq> - 1) (kbind (ft_print (''wait got too many'' @ nl)) (\<lambda>_. u_exit 1))) (\<lambda>_.
         ft_print (''fork test OK'' @ nl))))))"

definition forktest_main :: "unit umon" where
  "forktest_main = kbind forktest (\<lambda>_. u_exit 0)"

definition pipe_or_die :: "(int \<times> int) umon" where
  "pipe_or_die =
     kbind u_pipe (\<lambda>(r, fds).
     if r = - 1 then kbind (ufprintf 2 (''Pipe failed'' @ nl) []) (\<lambda>_. u_exit 1)
     else kret fds)"

definition pingpong_main :: "int umon" where
  "pingpong_main =
     kbind pipe_or_die (\<lambda>(p0, p1).
     kbind pipe_or_die (\<lambda>(c0, c1).
     kbind u_fork (\<lambda>child.
     if child = 0 then
       kbind (kseq [
         udo (u_close p1), udo (u_close c0), udo (u_read p0 1),
         kbind u_getpid (\<lambda>me. uprintf (''%d: received ping '' @ nl) [iarg me]),
         udo (u_close p0), udo (u_write c1 [0x63]), udo (u_close c1)]) (\<lambda>_.
       u_exit 0)
     else
       kbind (kseq [
         udo (u_close p0), udo (u_close c1), udo (u_write p1 [0x70]), udo (u_close p1),
         udo (u_read c0 1),
         kbind u_getpid (\<lambda>me. uprintf (''%d: received pong '' @ nl) [iarg me]),
         udo (u_close c0)]) (\<lambda>_.
       kret 0))))"

subsection \<open>primes.c\<close>

text \<open>
  \<^verbatim>\<open>aux_buf\<close> has one byte, and four are asked for: a reply with more than one byte
  overruns it, which is undefined behaviour, as is storing a 36th number.
\<close>

primrec primes_fill :: "nat \<Rightarrow> int \<Rightarrow> u8 \<Rightarrow> nat \<Rightarrow> int list \<Rightarrow> (nat \<times> int list) umon" where
  "primes_fill 0 fd aux i ps = kdiverge"
| "primes_fill (Suc k) fd aux i ps =
     kbind (u_read fd 4) (\<lambda>(n, d).
     if n = 0 then kret (i, ps)
     else if length d > 1 \<or> i \<ge> length ps then kundef
     else (let aux' = (if d = [] then aux else hd d)
           in primes_fill k fd aux' (Suc i) (ps[i := uint aux'])))"

primrec new_process_loop :: "nat \<Rightarrow> u8 \<Rightarrow> int \<Rightarrow> unit umon" where
  "new_process_loop 0 aux last0 = kdiverge"
| "new_process_loop (Suc k) aux last0 =
     kbind pipe_or_die (\<lambda>(next0, next1).
     kbind (\<lambda>es s. primes_fill (Suc (length es)) last0 aux 0 (replicate 35 0) es s) (\<lambda>(i, primes).
     kbind (u_close last0) (\<lambda>_.
     if i = 0 then kseq [udo (u_close next0), udo (u_close next1)] else
     (let n = primes ! 0 in
     kbind (uprintf (''%d '' @ nl) [iarg n]) (\<lambda>_.
     if n = 0 then kundef else
     kbind (kfor [1..<35] (\<lambda>i.
       kwhen (primes ! i mod n \<noteq> 0) (udo (u_write next1 (le32 (of_int (primes ! i))))))) (\<lambda>_.
     kbind (u_close next1) (\<lambda>_.
     kbind u_fork (\<lambda>pid.
     if pid = 0 then new_process_loop k aux next0 else kret ()))))))))"

definition new_process :: "u8 \<Rightarrow> int \<Rightarrow> unit umon" where
  "new_process aux last0 = (\<lambda>es s. new_process_loop (Suc (length es)) aux last0 es s)"

definition primes_main :: "u8 \<Rightarrow> int umon" where
  "primes_main aux =
     kbind pipe_or_die (\<lambda>(p0, p1).
     kbind (uprintf (''%d '' @ nl) [iarg 2]) (\<lambda>_.
     kbind (kfor [2..<36] (\<lambda>i. kwhen (i mod 2 \<noteq> 0) (udo (u_write p1 (le32 (of_nat i)))))) (\<lambda>_.
     kbind (u_close p1) (\<lambda>_.
     kbind (new_process aux p0) (\<lambda>_.
     kbind u_wait (\<lambda>_.
     kret 0))))))"

subsection \<open>wc.c\<close>

text \<open>The counters \<^verbatim>\<open>l\<close>, \<^verbatim>\<open>w\<close>, \<^verbatim>\<open>c\<close> and \<^verbatim>\<open>inword\<close> after one more character.\<close>

definition wc_blank :: bytes where
  "wc_blank = [0x20, 0x0D, 0x09, 0x0A, 0x0B, 0]"

definition wc_char :: "u8 \<Rightarrow> u32 \<times> u32 \<times> u32 \<times> bool \<Rightarrow> u32 \<times> u32 \<times> u32 \<times> bool" where
  "wc_char ch = (\<lambda>(l, w, c, inword).
     let l' = (if ch = 0x0A then l + 1 else l)
     in if ustrchr wc_blank ch \<noteq> Some None then (l', w, c + 1, False)
        else if \<not> inword then (l', w + 1, c + 1, True)
        else (l', w, c + 1, inword))"

primrec wc_loop :: "nat \<Rightarrow> int \<Rightarrow> u32 \<times> u32 \<times> u32 \<times> bool \<Rightarrow> (u32 \<times> u32 \<times> u32 \<times> bool) umon" where
  "wc_loop 0 fd st = kdiverge"
| "wc_loop (Suc k) fd st =
     kbind (u_read fd 512) (\<lambda>(n, d).
     if n > 0 then wc_loop k fd (fold wc_char d st)
     else if n < 0 then kbind (uprintf (''wc: read error'' @ nl) []) (\<lambda>_. u_exit 1)
     else kret st)"

definition wc :: "int \<Rightarrow> bytes \<Rightarrow> unit umon" where
  "wc fd name =
     kbind (\<lambda>es s. wc_loop (Suc (length es)) fd (0, 0, 0, False) es s) (\<lambda>(l, w, c, inword).
     uprintf (''%d %d %d %s'' @ nl) [AWord (scast l), AWord (scast w), AWord (scast c), sarg name])"

definition wc_main :: "bytes list \<Rightarrow> unit umon" where
  "wc_main argv =
     (if length argv \<le> 1 then kbind (wc 0 (lit [])) (\<lambda>_. u_exit 0)
      else kbind (kfor (tl argv) (\<lambda>arg.
        kbind (u_open arg O_RDONLY) (\<lambda>fd.
        if fd < 0 then kbind (uprintf (''wc: cannot open %s'' @ nl) [sarg arg]) (\<lambda>_. u_exit 1)
        else kbind (wc fd arg) (\<lambda>_. udo (u_close fd))))) (\<lambda>_. u_exit 0))"

subsection \<open>ls.c\<close>

text \<open>
  \<^verbatim>\<open>fmtname\<close>: what follows the last slash, padded with blanks to 14 characters.
\<close>

definition fmtname :: "bytes \<Rightarrow> bytes" where
  "fmtname path =
     (let p = rev (takeWhile (\<lambda>c. c \<noteq> 0x2F) (rev (cstr path)))
      in (if length p \<ge> DIRSIZ then p else p @ replicate (DIRSIZ - length p) 0x20) @ [0])"

definition ls_print :: "bytes \<Rightarrow> stat \<Rightarrow> unit umon" where
  "ls_print path st = uprintf (''%s %d %d %d'' @ nl)
     [sarg (fmtname path), AWord (scast (st_type st)), AWord (ucast (st_ino st)), AWord (st_size st)]"

definition ls :: "bytes \<Rightarrow> unit umon" where
  "ls path =
     kbind (u_open path O_RDONLY) (\<lambda>fd.
     if fd < 0 then ufprintf 2 (''ls: cannot open %s'' @ nl) [sarg path] else
     kbind (u_fstat fd) (\<lambda>(r, st).
     if r < 0 then kseq [ufprintf 2 (''ls: cannot stat %s'' @ nl) [sarg path], udo (u_close fd)] else
     kbind (
       if st_type st = T_DEVICE \<or> st_type st = T_FILE then ls_print path st
       else if st_type st = T_DIR then
         (if length (cstr path) + 1 + DIRSIZ + 1 > 512 then uprintf (''ls: path too long'' @ nl) []
          else kwaitloop (
            kbind (u_read fd 16) (\<lambda>(n, de).
            if n \<noteq> 16 then kret (Some ())
            else if de_inum de = 0 then kret None
            else (let buf = cstr path @ [0x2F] @ de_name de @ [0] in
              kbind (ustat buf) (\<lambda>(r, st).
              if r < 0 then kbind (uprintf (''ls: cannot stat %s'' @ nl) [sarg buf]) (\<lambda>_. kret None)
              else kopt st (\<lambda>st. kbind (ls_print buf st) (\<lambda>_. kret None)))))))
       else kret ()) (\<lambda>_.
     udo (u_close fd))))"

definition ls_main :: "bytes list \<Rightarrow> unit umon" where
  "ls_main argv =
     (if length argv < 2 then kbind (ls (lit ''.'')) (\<lambda>_. u_exit 0)
      else kbind (kfor (tl argv) ls) (\<lambda>_. u_exit 0))"

subsection \<open>xargs.c\<close>

text \<open>Copies of the arguments, each in memory of its own; storing through the null pointer is undefined.\<close>

primrec copy_args :: "bytes list \<Rightarrow> bytes list umon" where
  "copy_args [] = kret []"
| "copy_args (a # as) =
     uarg a (\<lambda>s.
     kbind (u_malloc (of_nat (length s + 1))) (\<lambda>p.
     if p = 0 then kundef
     else kbind (copy_args as) (\<lambda>bs. kret ((s @ [0]) # bs))))"

definition copy_argv :: "bytes list \<Rightarrow> bytes \<Rightarrow> bytes list umon" where
  "copy_argv ori_argv new_argv = copy_args (ori_argv @ [new_argv])"

definition xargs_print :: "bytes list \<Rightarrow> nat \<Rightarrow> unit umon" where
  "xargs_print s n =
     (if n > length s then kundef else kfor (take n s) (\<lambda>a. uprintf (''%s'' @ nl) [sarg a]))"

definition xargs_run :: "bytes list \<Rightarrow> bytes \<Rightarrow> unit umon" where
  "xargs_run argv param =
     kbind u_fork (\<lambda>pid.
     if pid = 0 then
       (if length argv \<ge> MAXARG then kundef else
        kbind (copy_argv (tl argv) param) (\<lambda>cmd_argv.
        kbind (u_exec (hd cmd_argv) cmd_argv) (\<lambda>_.
        u_exit 0)))
     else udo u_wait)"

text \<open>\<open>param\<close> holds the \<^verbatim>\<open>i\<close> characters taken so far.\<close>

primrec xargs_loop :: "nat \<Rightarrow> bytes list \<Rightarrow> bytes \<Rightarrow> bool \<Rightarrow> unit umon" where
  "xargs_loop 0 argv param ignore = kdiverge"
| "xargs_loop (Suc k) argv param ignore =
     kbind (u_read 0 1) (\<lambda>(n, d).
     if \<not> n > 0 then kret () else
     kopt (case d of [] \<Rightarrow> None | c # _ \<Rightarrow> Some c) (\<lambda>ch.
     if ch = 0x0A then
       (if ignore then xargs_loop k argv [] False
        else kbind (xargs_run argv (param @ [0])) (\<lambda>_. xargs_loop k argv [] ignore))
     else if \<not> ignore \<and> length param \<ge> 512 - 1 then
       kbind (uprintf (''xargs: too long arguments...'' @ nl) []) (\<lambda>_. xargs_loop k argv param True)
     else if \<not> ignore then xargs_loop k argv (param @ [ch]) ignore
     else xargs_loop k argv param ignore))"

definition xargs_main :: "bytes list \<Rightarrow> unit umon" where
  "xargs_main argv =
     (if length argv \<le> 1 then kbind (ufprintf 2 (''Usage: xargx command [arg ...]'' @ nl) []) (\<lambda>_. u_exit 1)
      else kbind (\<lambda>es s. xargs_loop (Suc (length es)) argv [] False es s) (\<lambda>_. u_exit 0))"

end
