(* ===== verification/Grind.thy ===== *)
theory Grind
  imports Programs
begin

text \<open>
  \<^verbatim>\<open>user/grind.c\<close>: random system calls.  The endless loop of \<^verbatim>\<open>go\<close> is run for a number of
  rounds that is an argument, since a round need not make a call.  \<^verbatim>\<open>rand_next\<close> is passed
  along.  The values of type \<^verbatim>\<open>long\<close> in \<^verbatim>\<open>do_rand\<close> are integers; they stay in range.
\<close>

subsection \<open>Random numbers\<close>

definition do_rand :: "u64 \<Rightarrow> u64 \<times> int" where
  "do_rand ctx =
     (let x = uint ctx mod 0x7ffffffe + 1;
          hi = x div 127773;
          lo = x mod 127773;
          x = 16807 * lo - 2836 * hi;
          x = (if x < 0 then x + 0x7fffffff else x);
          x = x - 1
      in (word_of_int x, sint (word_of_int x :: u32)))"

definition rand :: "u64 \<Rightarrow> u64 \<times> int" where
  "rand rand_next = do_rand rand_next"

subsection \<open>A round\<close>

definition grind_fails :: "string \<Rightarrow> 'a umon" where
  "grind_fails msg = kbind (uprintf (''grind: '' @ msg @ '' failed'' @ nl) []) (\<lambda>_. u_exit 1)"

text \<open>The parent's process id of a fork whose child runs \<open>child\<close>, which exits.\<close>

definition grind_fork :: "int umon \<Rightarrow> int umon" where
  "grind_fork child =
     kbind u_fork (\<lambda>pid.
     if pid = 0 then child
     else if pid < 0 then grind_fails ''fork''
     else kret pid)"

definition open_close :: "string \<Rightarrow> unit umon" where
  "open_close path = kbind (u_open (lit path) (O_CREATE OR O_RDWR)) (\<lambda>fd. udo (u_close fd))"

definition grind_pipe_test :: "unit umon" where
  "grind_pipe_test =
     kbind u_pipe (\<lambda>(r, f0, f1).
     if r < 0 then grind_fails ''pipe'' else
     kbind (grind_fork (
       kbind u_fork (\<lambda>_.
       kbind u_fork (\<lambda>_.
       kbind (u_write f1 [0x78]) (\<lambda>n.
       kbind (kwhen (n \<noteq> 1) (uprintf (''grind: pipe write failed'' @ nl) [])) (\<lambda>_.
       kbind (u_read f0 1) (\<lambda>(n, c).
       kbind (kwhen (n \<noteq> 1) (uprintf (''grind: pipe read failed'' @ nl) [])) (\<lambda>_.
       u_exit 0)))))))) (\<lambda>_.
     kseq [udo (u_close f0), udo (u_close f1), udo u_wait]))"

definition grind_create_test :: "unit umon" where
  "grind_create_test =
     kbind (u_unlink (lit ''c'')) (\<lambda>_.
     kbind (u_open (lit ''c'') (O_CREATE OR O_RDWR)) (\<lambda>fd1.
     if fd1 < 0 then grind_fails ''create c'' else
     kbind (u_write fd1 [0x78]) (\<lambda>n.
     if n \<noteq> 1 then grind_fails ''write c'' else
     kbind (u_fstat fd1) (\<lambda>(r, st).
     if r \<noteq> 0 then grind_fails ''fstat'' else
     if st_size st \<noteq> 1 then
       kbind (uprintf (''grind: fstat reports wrong size %d'' @ nl) [AWord (scast (ucast (st_size st) :: u32))]) (\<lambda>_. u_exit 1)
     else if st_ino st > 200 then
       kbind (uprintf (''grind: fstat reports crazy i-number %d'' @ nl) [AWord (ucast (st_ino st))]) (\<lambda>_. u_exit 1)
     else
     kseq [udo (u_close fd1), udo (u_unlink (lit ''c''))]))))"

text \<open>\<^verbatim>\<open>echo hi | cat\<close>: a program on descriptors, which may fail with the exit status given.\<close>

definition grind_dup :: "int \<Rightarrow> int \<Rightarrow> int \<Rightarrow> unit umon" where
  "grind_dup fd to status =
     kbind (u_dup fd) (\<lambda>r.
     kwhen (r \<noteq> to) (kbind (ufprintf 2 (''grind: dup failed'' @ nl) []) (\<lambda>_. u_exit status)))"

definition grind_echo :: "int \<times> int \<Rightarrow> int \<times> int \<Rightarrow> 'a umon" where
  "grind_echo aa bb =
     kbind (kseq [udo (u_close (fst bb)), udo (u_close (snd bb)), udo (u_close (fst aa)), udo (u_close 1),
       grind_dup (snd aa) 1 1, udo (u_close (snd aa))]) (\<lambda>_.
     kbind (u_exec (lit ''grindir/../echo'') [lit ''echo'', lit ''hi'']) (\<lambda>_.
     kbind (ufprintf 2 (''grind: echo: not found'' @ nl) []) (\<lambda>_.
     u_exit 2)))"

definition grind_cat :: "int \<times> int \<Rightarrow> int \<times> int \<Rightarrow> 'a umon" where
  "grind_cat aa bb =
     kbind (kseq [udo (u_close (snd aa)), udo (u_close (fst bb)), udo (u_close 0),
       grind_dup (fst aa) 0 4, udo (u_close (fst aa)), udo (u_close 1),
       grind_dup (snd bb) 1 5, udo (u_close (snd bb))]) (\<lambda>_.
     kbind (u_exec (lit ''/cat'') [lit ''cat'']) (\<lambda>_.
     kbind (ufprintf 2 (''grind: cat: not found'' @ nl) []) (\<lambda>_.
     u_exit 6)))"

text \<open>An exit status that \<^verbatim>\<open>wait\<close> stores, or none: when it fails it stores nothing.\<close>

definition wait_status :: "int option \<Rightarrow> int option umon" where
  "wait_status st = kbind (ucall Cwait) (\<lambda>a. kret (if a_ret a < 0 then st else Some (a_status a)))"

definition grind_pipeline :: "unit umon" where
  "grind_pipeline =
     kbind u_pipe (\<lambda>(r, aa).
     if r < 0 then kbind (ufprintf 2 (''grind: pipe failed'' @ nl) []) (\<lambda>_. u_exit 1) else
     kbind u_pipe (\<lambda>(r, bb).
     if r < 0 then kbind (ufprintf 2 (''grind: pipe failed'' @ nl) []) (\<lambda>_. u_exit 1) else
     kbind u_fork (\<lambda>pid1.
     if pid1 = 0 then grind_echo aa bb
     else if pid1 < 0 then kbind (ufprintf 2 (''grind: fork failed'' @ nl) []) (\<lambda>_. u_exit 3) else
     kbind u_fork (\<lambda>pid2.
     if pid2 = 0 then grind_cat aa bb
     else if pid2 < 0 then kbind (ufprintf 2 (''grind: fork failed'' @ nl) []) (\<lambda>_. u_exit 7) else
     kbind (kseq [udo (u_close (fst aa)), udo (u_close (snd aa)), udo (u_close (snd bb))]) (\<lambda>_.
     kbind (u_read (fst bb) 1) (\<lambda>(_, d0).
     kbind (u_read (fst bb) 1) (\<lambda>(_, d1).
     kbind (u_read (fst bb) 1) (\<lambda>(_, d2).
     let buf = splice (splice (splice [0, 0, 0, 0] 0 d0) 1 d1) 2 d2 in
     kbind (u_close (fst bb)) (\<lambda>_.
     kbind (wait_status None) (\<lambda>st1.
     kbind (wait_status None) (\<lambda>st2.
     kopt st1 (\<lambda>st1. kopt st2 (\<lambda>st2. kopt (ustrcmp buf (lit (''hi'' @ nl))) (\<lambda>c.
     kwhen (st1 \<noteq> 0 \<or> st2 \<noteq> 0 \<or> c \<noteq> 0)
       (kbind (uprintf (''grind: exec pipeline failed %d %d '' @ [CHR 0x22] @ ''%s'' @ [CHR 0x22] @ nl) [iarg st1, iarg st2, sarg buf]) (\<lambda>_.
        u_exit 1))))))))))))))))"

text \<open>One choice; \<open>fd\<close> and \<open>buf\<close> are kept from round to round.\<close>

definition go_step :: "int \<Rightarrow> int \<Rightarrow> int \<Rightarrow> bytes \<Rightarrow> (int \<times> bytes) umon" where
  "go_step what break0 fd buf =
     (let keep = (\<lambda>m. kbind m (\<lambda>_. kret (fd, buf)));
          create = O_CREATE OR O_RDWR in
      if what = 1 then keep (open_close ''grindir/../a'')
      else if what = 2 then keep (open_close ''grindir/../grindir/../b'')
      else if what = 3 then keep (udo (u_unlink (lit ''grindir/../a'')))
      else if what = 4 then
        kbind (u_chdir (lit ''grindir'')) (\<lambda>r.
        if r \<noteq> 0 then grind_fails ''chdir grindir'' else
        keep (kseq [udo (u_unlink (lit ''../b'')), udo (u_chdir (lit ''/''))]))
      else if what = 5 then
        kbind (u_close fd) (\<lambda>_. kbind (u_open (lit ''/grindir/../a'') create) (\<lambda>fd. kret (fd, buf)))
      else if what = 6 then
        kbind (u_close fd) (\<lambda>_. kbind (u_open (lit ''/./grindir/./../b'') create) (\<lambda>fd. kret (fd, buf)))
      else if what = 7 then keep (udo (u_write fd buf))
      else if what = 8 then kbind (u_read fd 999) (\<lambda>(n, d). kret (fd, splice buf 0 d))
      else if what = 9 then
        keep (kseq [udo (u_mkdir (lit ''grindir/../a'')), open_close ''a/../a/./a'', udo (u_unlink (lit ''a/a''))])
      else if what = 10 then
        keep (kseq [udo (u_mkdir (lit ''/../b'')), open_close ''grindir/../b/b'', udo (u_unlink (lit ''b/b''))])
      else if what = 11 then
        keep (kseq [udo (u_unlink (lit ''b'')), udo (u_link (lit ''../grindir/./../a'') (lit ''../b''))])
      else if what = 12 then
        keep (kseq [udo (u_unlink (lit ''../grindir/../a'')), udo (u_link (lit ''.././b'') (lit ''/grindir/../a''))])
      else if what = 13 then keep (kseq [udo (grind_fork (u_exit 0)), udo u_wait])
      else if what = 14 then
        keep (kseq [udo (grind_fork (kbind u_fork (\<lambda>_. kbind u_fork (\<lambda>_. u_exit 0)))), udo u_wait])
      else if what = 15 then keep (udo (u_sbrk 6011))
      else if what = 16 then
        kbind (u_sbrk 0) (\<lambda>b.
        if (word_of_int b :: u64) > word_of_int break0
        then kbind (u_sbrk 0) (\<lambda>b. keep (udo (u_sbrk (sint (word_of_int (- (b - break0)) :: u32)))))
        else kret (fd, buf))
      else if what = 17 then
        kbind (grind_fork (kbind (open_close ''a'') (\<lambda>_. u_exit 0))) (\<lambda>pid.
        kbind (u_chdir (lit ''../grindir/..'')) (\<lambda>r.
        if r \<noteq> 0 then grind_fails ''chdir'' else
        keep (kseq [udo (u_kill pid), udo u_wait])))
      else if what = 18 then
        keep (kseq [udo (grind_fork (kbind u_getpid (\<lambda>p. kbind (u_kill p) (\<lambda>_. u_exit 0)))), udo u_wait])
      else if what = 19 then keep grind_pipe_test
      else if what = 20 then
        keep (kseq [udo (grind_fork (
          kbind (kseq [udo (u_unlink (lit ''a'')), udo (u_mkdir (lit ''a'')), udo (u_chdir (lit ''a'')),
            udo (u_unlink (lit ''../a'')), udo (u_open (lit ''x'') create), udo (u_unlink (lit ''x''))]) (\<lambda>_.
          u_exit 0))), udo u_wait])
      else if what = 21 then keep grind_create_test
      else if what = 22 then keep grind_pipeline
      else kret (fd, buf))"

subsection \<open>The program\<close>

primrec go_loop :: "nat \<Rightarrow> int \<Rightarrow> int \<Rightarrow> u64 \<Rightarrow> int \<Rightarrow> bytes \<Rightarrow> u64 \<Rightarrow> unit umon" where
  "go_loop 0 which_child break0 iters fd buf rand_next = kdiverge"
| "go_loop (Suc n) which_child break0 iters fd buf rand_next =
     (let iters = iters + 1; (rand_next, r) = rand rand_next in
     kbind (kwhen (iters mod 500 = 0) (udo (u_write 1 (if which_child \<noteq> 0 then [0x42] else [0x41])))) (\<lambda>_.
     kbind (go_step (r mod 23) break0 fd buf) (\<lambda>(fd, buf).
     go_loop n which_child break0 iters fd buf rand_next)))"

definition go :: "nat \<Rightarrow> int \<Rightarrow> u64 \<Rightarrow> unit umon" where
  "go n which_child rand_next =
     kbind (u_sbrk 0) (\<lambda>break0.
     kbind (u_mkdir (lit ''grindir'')) (\<lambda>_.
     kbind (u_chdir (lit ''grindir'')) (\<lambda>r.
     if r \<noteq> 0 then grind_fails ''chdir grindir'' else
     kbind (u_chdir (lit ''/'')) (\<lambda>_.
     go_loop n which_child break0 0 (-1) (replicate 999 0) rand_next))))"

definition iter :: "nat \<Rightarrow> u64 \<Rightarrow> 'a umon" where
  "iter n rand_next =
     kbind (u_unlink (lit ''a'')) (\<lambda>_.
     kbind (u_unlink (lit ''b'')) (\<lambda>_.
     kbind u_fork (\<lambda>pid1.
     if pid1 < 0 then grind_fails ''fork'' else
     if pid1 = 0 then kbind (go n 0 (rand_next XOR 31)) (\<lambda>_. u_exit 0) else
     kbind u_fork (\<lambda>pid2.
     if pid2 < 0 then grind_fails ''fork'' else
     if pid2 = 0 then kbind (go n 1 (rand_next XOR 7177)) (\<lambda>_. u_exit 0) else
     kbind (wait_status (Some (-1))) (\<lambda>st1.
     kbind (kwhen (st1 \<noteq> Some 0) (kseq [udo (u_kill pid1), udo (u_kill pid2)])) (\<lambda>_.
     kbind (wait_status (Some (-1))) (\<lambda>st2.
     u_exit 0)))))))"

primrec grind_loop :: "nat \<Rightarrow> nat \<Rightarrow> u64 \<Rightarrow> unit umon" where
  "grind_loop 0 n rand_next = kdiverge"
| "grind_loop (Suc k) n rand_next =
     kbind u_fork (\<lambda>pid.
     if pid = 0 then iter n rand_next else
     kbind (kwhen (pid > 0) (udo u_wait)) (\<lambda>_.
     kbind (u_sleep 20) (\<lambda>_.
     grind_loop k n (rand_next + 1))))"

definition grind_main :: "nat \<Rightarrow> unit umon" where
  "grind_main n = (\<lambda>es s. grind_loop (Suc (length es)) n 1 es s)"

subsection \<open>The generator\<close>

text \<open>The sum that the generator computes is not zero modulo \<open>2^31 - 1\<close>, nor large.\<close>

lemma schrage:
  fixes x :: int
  assumes "1 \<le> x" "x \<le> 0x7ffffffe"
  defines "y \<equiv> 16807 * (x mod 127773) - 2836 * (x div 127773)"
  shows "\<bar>y\<bar> < 2 ^ 31 - 1" "y \<noteq> 0" "16807 * x mod 0x7fffffff = y mod 0x7fffffff"
proof -
  let ?hi = "x div 127773" and ?lo = "x mod 127773"
  have x: "x = 127773 * ?hi + ?lo" by simp
  have lo: "0 \<le> ?lo" "?lo \<le> 127772" by simp_all
  have hi: "0 \<le> ?hi" "?hi \<le> 16807" using assms(1,2) x lo by linarith+
  show "\<bar>y\<bar> < 2 ^ 31 - 1" unfolding y_def using lo hi by simp
  show "y \<noteq> 0"
  proof
    assume "y = 0"
    then have e: "16807 * ?lo = 2836 * ?hi" by (simp add: y_def)
    then have "(16807 :: int) dvd 2836 * ?hi" by (metis dvd_triv_left)
    moreover have "coprime (16807 :: int) 2836" by (simp add: coprime_iff_gcd_eq_1 gcd_non_0_int)
    ultimately have "16807 dvd ?hi" by (simp add: coprime_dvd_mult_right_iff)
    then have "?hi = 0 \<or> ?hi = 16807" using hi by (auto elim!: dvdE)
    then show False using e x assms(1,2) by auto
  qed
  have "16807 * x = y + 0x7fffffff * ?hi" unfolding y_def using x by linarith
  then show "16807 * x mod 0x7fffffff = y mod 0x7fffffff" by simp
qed

lemma small_signed: "0 \<le> z \<Longrightarrow> z < 2 ^ 31 \<Longrightarrow> sint (word_of_int z :: u32) = z"
  by (simp add: signed_of_int signed_take_bit_int_eq_self)

lemma small_unsigned: "0 \<le> z \<Longrightarrow> z < 2 ^ 31 \<Longrightarrow> uint (word_of_int z :: u64) = z"
  by (simp add: uint_word_of_int_eq take_bit_int_eq_self)

text \<open>
  C33: the random numbers of \<^verbatim>\<open>grind\<close> are those of Park and Miller: \<^verbatim>\<open>do_rand\<close> multiplies
  the state, moved to the range from 1 to \<open>2^31 - 2\<close>, by \<open>7^5\<close> modulo \<open>2^31 - 1\<close>, the value
  before the reduction fits into 32 bits with its sign, and the result, which is also the new
  state, is between 0 and \<^verbatim>\<open>0x7ffffffd\<close>.
\<close>

theorem do_rand_park_miller:
  "let x = uint ctx mod 0x7ffffffe + 1; r = snd (do_rand ctx) in
     r + 1 = 7 ^ 5 * x mod (2 ^ 31 - 1) \<and> 0 \<le> r \<and> r \<le> 0x7ffffffd \<and> uint (fst (do_rand ctx)) = r \<and>
     \<bar>16807 * (x mod 127773) - 2836 * (x div 127773)\<bar> < 2 ^ 31 - 1"
proof -
  define x where "x = uint ctx mod 0x7ffffffe + 1"
  define y where "y = 16807 * (x mod 127773) - 2836 * (x div 127773)"
  define z where "z = (if y < 0 then y + 0x7fffffff else y)"
  have x: "1 \<le> x" "x \<le> 0x7ffffffe" unfolding x_def by (simp_all add: zle_add1_eq_le [symmetric] del: zle_add1_eq_le)
  note S = schrage [OF x, folded y_def]
  have z: "1 \<le> z" "z < 0x7fffffff" using S(1,2) by (auto simp: z_def abs_less_iff)
  have m: "z mod 0x7fffffff = y mod 0x7fffffff" unfolding z_def by simp
  have "do_rand ctx = (word_of_int (z - 1), sint (word_of_int (z - 1) :: u32))"
    by (simp add: do_rand_def Let_def x_def y_def z_def)
  then have r: "do_rand ctx = (word_of_int (z - 1), z - 1)" using small_signed [of "z - 1"] z by simp
  have u: "uint (word_of_int (z - 1) :: u64) = z - 1" using small_unsigned [of "z - 1"] z by simp
  have "z = 7 ^ 5 * x mod (2 ^ 31 - 1)" using S(3) z m by simp
  then show ?thesis unfolding Let_def r x_def [symmetric] y_def [symmetric] using z S(1) u by simp
qed

end
