(* ===== verification/Grep.thy ===== *)
theory Grep
  imports Programs
begin

text \<open>
  \<^verbatim>\<open>user/grep.c\<close> and \<^verbatim>\<open>user/find.c\<close>: two matchers of simple regular expressions and the
  programs around them.  \<open>None\<close> is a read beyond the end of a string's object.
\<close>

subsection \<open>grep.c: the matcher\<close>

text \<open>The characters \<^verbatim>\<open>$\<close>, \<^verbatim>\<open>*\<close>, \<^verbatim>\<open>.\<close> and \<^verbatim>\<open>^\<close>.\<close>

abbreviation "DOLLAR \<equiv> 0x24 :: u8"
abbreviation "STAR \<equiv> 0x2A :: u8"
abbreviation "DOT \<equiv> 0x2E :: u8"
abbreviation "CARET \<equiv> 0x5E :: u8"

function (sequential) matchhere :: "bytes \<Rightarrow> bytes \<Rightarrow> bool option"
  and matchstar :: "u8 \<Rightarrow> bytes \<Rightarrow> bytes \<Rightarrow> bool option" where
  "matchhere [] text = None"
| "matchhere (r0 # re) text =
     (if r0 = 0 then Some True
      else (case re of
        [] \<Rightarrow> None
      | r1 # re2 \<Rightarrow>
          if r1 = STAR then matchstar r0 re2 text
          else (case text of
            [] \<Rightarrow> None
          | t # text' \<Rightarrow>
              if r0 = DOLLAR \<and> r1 = 0 then Some (t = 0)
              else if t \<noteq> 0 \<and> (r0 = DOT \<or> r0 = t) then matchhere re text'
              else Some False)))"
| "matchstar c re text =
     (case matchhere re text of
        None \<Rightarrow> None
      | Some True \<Rightarrow> Some True
      | Some False \<Rightarrow>
          (case text of
             [] \<Rightarrow> None
           | t # text' \<Rightarrow>
               if t \<noteq> 0 \<and> (t = c \<or> c = DOT) then matchstar c re text' else Some False))"
  by pat_completeness auto
termination
  by (relation "measures [\<lambda>x. case x of Inl (re, text) \<Rightarrow> length re | Inr (c, re, text) \<Rightarrow> length re,
      \<lambda>x. case x of Inl (re, text) \<Rightarrow> length text | Inr (c, re, text) \<Rightarrow> length text,
      \<lambda>x. case x of Inl _ \<Rightarrow> 0 | Inr _ \<Rightarrow> 1]") auto

text \<open>\<^verbatim>\<open>do { if(matchhere(re, text)) return 1; } while(*text++ != '\0');\<close>\<close>

fun match_loop :: "bytes \<Rightarrow> bytes \<Rightarrow> bool option" where
  "match_loop re text =
     (case matchhere re text of
        None \<Rightarrow> None
      | Some True \<Rightarrow> Some True
      | Some False \<Rightarrow>
          (case text of
             [] \<Rightarrow> None
           | t # text' \<Rightarrow> if t \<noteq> 0 then match_loop re text' else Some False))"

definition match :: "bytes \<Rightarrow> bytes \<Rightarrow> bool option" where
  "match re text =
     (case re of
        [] \<Rightarrow> None
      | r0 # re1 \<Rightarrow> if r0 = CARET then matchhere re1 text else match_loop re text)"

declare matchhere.simps [simp del] matchstar.simps [simp del] match_loop.simps [simp del]

subsection \<open>grep.c: the program\<close>

text \<open>
  The inner loop over the lines in \<^verbatim>\<open>buf\<close>; \<open>p\<close> is the offset of \<^verbatim>\<open>p\<close>.  Each round moves
  it past a newline, so the bytes after it bound the rounds.
\<close>

primrec grep_lines :: "nat \<Rightarrow> bytes \<Rightarrow> bytes \<Rightarrow> nat \<Rightarrow> (nat \<times> bytes) umon" where
  "grep_lines 0 pattern buf p = kdiverge"
| "grep_lines (Suc k) pattern buf p =
     (case ustrchr (drop p buf) 0x0A of
        None \<Rightarrow> kundef
      | Some None \<Rightarrow> kret (p, buf)
      | Some (Some i) \<Rightarrow>
          (let q = p + i; buf0 = buf[q := 0]
           in case match pattern (drop p buf0) of
                None \<Rightarrow> kundef
              | Some True \<Rightarrow>
                  (let buf1 = buf0[q := 0x0A]
                   in kbind (u_write 1 (take (Suc i) (drop p buf1))) (\<lambda>_.
                      grep_lines k pattern buf1 (Suc q)))
              | Some False \<Rightarrow> grep_lines k pattern buf0 (Suc q)))"

text \<open>
  The outer loop: each round reads once, so the replies that are left bound the
  rounds.  \<open>m\<close> bytes of \<^verbatim>\<open>buf\<close> are an unfinished line.
\<close>

primrec grep_loop :: "nat \<Rightarrow> bytes \<Rightarrow> int \<Rightarrow> nat \<Rightarrow> bytes \<Rightarrow> bytes umon" where
  "grep_loop 0 pattern fd m buf = kdiverge"
| "grep_loop (Suc k) pattern fd m buf =
     kbind (u_read fd (1024 - int m - 1)) (\<lambda>(n, d).
     if \<not> n > 0 then kret buf else
     (let m1 = m + nat n; buf1 = take m buf @ d @ drop (m + length d) buf
      in case poke buf1 m1 0 of None \<Rightarrow> kundef | Some buf2 \<Rightarrow>
         kbind (grep_lines (Suc (length buf2)) pattern buf2 0) (\<lambda>(p, buf3).
         if m1 > 0
         then (let m2 = m1 - p
               in grep_loop k pattern fd m2 (take m2 (drop p buf3) @ drop m2 buf3))
         else grep_loop k pattern fd m1 buf3)))"

definition grep :: "bytes \<Rightarrow> int \<Rightarrow> bytes \<Rightarrow> bytes umon" where
  "grep pattern fd buf = (\<lambda>es s. grep_loop (Suc (length es)) pattern fd 0 buf es s)"

primrec grep_files :: "bytes \<Rightarrow> bytes list \<Rightarrow> bytes \<Rightarrow> unit umon" where
  "grep_files pattern [] buf = kret ()"
| "grep_files pattern (arg # args) buf =
     kbind (u_open arg O_RDONLY) (\<lambda>fd.
     if fd < 0 then
       kbind (uprintf (''grep: cannot open %s'' @ nl) [AStr (Some arg)]) (\<lambda>_. u_exit 1)
     else
       kbind (grep pattern fd buf) (\<lambda>buf'.
       kbind (u_close fd) (\<lambda>_.
       grep_files pattern args buf')))"

definition grep_main :: "bytes list \<Rightarrow> unit umon" where
  "grep_main argv =
     (let buf = replicate 1024 0
      in if length argv \<le> 1 then
           kbind (ufprintf 2 (''usage: grep pattern [file ...]'' @ nl) []) (\<lambda>_. u_exit 1)
         else if length argv \<le> 2 then
           kbind (grep (argv ! 1) 0 buf) (\<lambda>_. u_exit 0)
         else
           kbind (grep_files (argv ! 1) (drop 2 argv) buf) (\<lambda>_. u_exit 0))"

subsection \<open>find.c\<close>

function (sequential) find_match :: "bytes \<Rightarrow> bytes \<Rightarrow> bool option" where
  "find_match s [] = None"
| "find_match s (p0 # p) =
     (case s of
        [] \<Rightarrow> None
      | s0 # s' \<Rightarrow>
          if p0 = 0 then Some (s0 = 0)
          else (case p of
            [] \<Rightarrow> None
          | p1 # p2 \<Rightarrow>
              (let one = (s0 = p0 \<or> p0 = DOT \<and> s0 \<noteq> 0)
               in if p1 \<noteq> STAR then (if one then find_match s' p else Some False)
                  else if one then
                    (case find_match s p2 of
                       None \<Rightarrow> None
                     | Some True \<Rightarrow> Some True
                     | Some False \<Rightarrow> find_match s' (p0 # p))
                  else find_match s p2)))"
  by pat_completeness auto
termination
  by (relation "measure (\<lambda>(s, p). length s + length p)") auto

declare find_match.simps [simp del]

text \<open>
  \<^verbatim>\<open>catdir\<close> writes \<^verbatim>\<open>predix/name\<close> and a NUL into a buffer of 512 bytes, whose rest keeps
  what it held.
\<close>

definition catdir :: "bytes \<Rightarrow> bytes \<Rightarrow> bytes \<Rightarrow> bytes option" where
  "catdir predix name buf =
     (case (ustrlen predix, ustrlen name) of
        (Some a, Some b) \<Rightarrow>
          if a + b + 2 \<le> length buf
          then Some (take a predix @ [0x2F] @ take b name @ [0] @ drop (a + b + 2) buf)
          else None
      | _ \<Rightarrow> None)"

text \<open>
  \<^verbatim>\<open>find\<close>: every round, and every call for a subdirectory, makes system calls, so the
  replies that are left bound both.  \<open>stack\<close> is what the buffer \<^verbatim>\<open>path\<close> happens to hold;
  \<^verbatim>\<open>de\<close> ends with the 14 bytes of the name.
\<close>

primrec find_loop :: "nat \<Rightarrow> bytes \<Rightarrow> int \<Rightarrow> bytes \<Rightarrow> bytes \<Rightarrow> unit umon" where
  "find_loop 0 stack fd dir name = kdiverge"
| "find_loop (Suc k) stack fd dir name =
     kbind (u_read fd 16) (\<lambda>(n, de).
     if n \<noteq> 16 then kret () else
     kopt (ustrcmp (de_name de) (lit ''.'')) (\<lambda>c1.
     kopt (if c1 = 0 then Some 0 else ustrcmp (de_name de) (lit ''..'')) (\<lambda>c2.
     if c1 = 0 \<or> c2 = 0 then find_loop k stack fd dir name else
     kopt (catdir dir (de_name de) stack) (\<lambda>path.
     if de_inum de = 0 then find_loop k stack fd dir name else
     kbind (ustat path) (\<lambda>(r, st).
     if r < 0 then
       kbind (uprintf (''find: cannot stat %s'' @ nl) [AStr (Some path)]) (\<lambda>_.
       find_loop k stack fd dir name)
     else kopt st (\<lambda>st.
     kopt (if st_type st = T_FILE then find_match (de_name de) name else Some False) (\<lambda>hit.
     if hit then
       kbind (uprintf (''%s'' @ nl) [AStr (Some path)]) (\<lambda>_. find_loop k stack fd dir name)
     else if st_type st = T_DIR then
       kbind (u_open path 0) (\<lambda>subfd.
       if subfd < 0 then
         kbind (uprintf (''find: cannot open %s'' @ nl) [AStr (Some path)]) (\<lambda>_.
         find_loop k stack fd dir name)
       else
         kbind (find_loop k stack subfd path name) (\<lambda>_.
         find_loop k stack fd dir name))
     else find_loop k stack fd dir name)))))))"

definition find :: "bytes \<Rightarrow> int \<Rightarrow> bytes \<Rightarrow> bytes \<Rightarrow> unit umon" where
  "find stack fd dir name = (\<lambda>es s. find_loop (Suc (length es)) stack fd dir name es s)"

text \<open>
  \<^verbatim>\<open>main\<close>: \<open>dir0\<close> and \<open>name0\<close> are what its two buffers of 15 bytes happen to hold; the
  arguments are copied into them without their NUL.
\<close>

definition find_main :: "bytes \<Rightarrow> bytes \<Rightarrow> bytes \<Rightarrow> bytes list \<Rightarrow> unit umon" where
  "find_main stack dir0 name0 argv =
     (if length argv \<noteq> 3 then
        kbind (ufprintf 2 (''Usage: find dir name'' @ nl) []) (\<lambda>_. u_exit 1)
      else
        kopt (ustrlen (argv ! 1)) (\<lambda>a.
        kopt (ustrlen (argv ! 2)) (\<lambda>b.
        if a > DIRSIZ \<or> b > DIRSIZ then
          kbind (ufprintf 2 (''dir or name too long...'' @ nl) []) (\<lambda>_. u_exit 1)
        else
          (let dir = take a (argv ! 1) @ drop a dir0; name = take b (argv ! 2) @ drop b name0
           in kbind (u_open dir 0) (\<lambda>fd.
              if fd < 0 then
                kbind (ufprintf 2 (''find: cannot open %s'' @ nl) [AStr (Some dir)]) (\<lambda>_. u_exit 1)
              else
                kbind (u_fstat fd) (\<lambda>(r, st).
                if r < 0 then
                  kbind (ufprintf 2 (''find: cannot stat %s'' @ nl) [AStr (Some dir)]) (\<lambda>_.
                  kbind (u_close fd) (\<lambda>_. u_exit 1))
                else
                  kbind (if st_type st \<noteq> T_DIR
                         then uprintf (''%s is not a dir'' @ nl) [AStr (Some dir)]
                         else find stack fd dir name) (\<lambda>_.
                  u_exit 0)))))))"

end
