(* ===== verification/Grep_Correct.thy ===== *)
theory Grep_Correct
  imports Grep
begin

text \<open>
  What the two matchers accept, against the languages the patterns denote, and what
  \<^verbatim>\<open>grep\<close> prints.
\<close>

subsection \<open>Patterns and their languages\<close>

datatype atom = Any | Lit u8

fun admits :: "atom \<Rightarrow> u8 \<Rightarrow> bool" where
  "admits Any c \<longleftrightarrow> True"
| "admits (Lit a) c \<longleftrightarrow> c = a"

datatype item = One atom | Many atom

fun item_lang :: "item \<Rightarrow> bytes set" where
  "item_lang (One a) = {[c] | c. admits a c}"
| "item_lang (Many a) = {u. \<forall>c \<in> set u. admits a c}"

fun lang :: "item list \<Rightarrow> bytes set" where
  "lang [] = {[]}"
| "lang (i # is) = {u @ v | u v. u \<in> item_lang i \<and> v \<in> lang is}"

definition atom_of :: "u8 \<Rightarrow> atom" where
  "atom_of c = (if c = DOT then Any else Lit c)"

text \<open>
  The items of a pattern; with \<open>dollar\<close>, a final \<^verbatim>\<open>$\<close> is an anchor, which is reported
  beside them.
\<close>

fun items :: "bool \<Rightarrow> bytes \<Rightarrow> item list \<times> bool" where
  "items dollar [] = ([], False)"
| "items dollar [c] = (if dollar \<and> c = DOLLAR then ([], True) else ([One (atom_of c)], False))"
| "items dollar (c # d # p) =
     (if d = STAR then apfst ((#) (Many (atom_of c))) (items dollar p)
      else apfst ((#) (One (atom_of c))) (items dollar (d # p)))"

text \<open>The text starts with a word of the pattern; is one, if the pattern is anchored.\<close>

definition here :: "bytes \<Rightarrow> bytes \<Rightarrow> bool" where
  "here re tx \<longleftrightarrow> (\<exists>u v. tx = u @ v \<and> u \<in> lang (fst (items True re)) \<and> (snd (items True re) \<longrightarrow> v = []))"

lemma lang_One: "u \<in> lang (One a # is) \<longleftrightarrow> (\<exists>c v. u = c # v \<and> admits a c \<and> v \<in> lang is)"
proof
  assume "\<exists>c v. u = c # v \<and> admits a c \<and> v \<in> lang is"
  then obtain c v where "u = [c] @ v \<and> [c] \<in> item_lang (One a) \<and> v \<in> lang is" by auto
  then show "u \<in> lang (One a # is)" unfolding lang.simps by blast
qed auto

lemma lang_Many:
  "u \<in> lang (Many a # is) \<longleftrightarrow> u \<in> lang is \<or> (\<exists>c v. u = c # v \<and> admits a c \<and> v \<in> lang (Many a # is))"
proof
  assume "u \<in> lang (Many a # is)"
  then obtain x y where "u = x @ y" "\<forall>c \<in> set x. admits a c" "y \<in> lang is" by auto
  then show "u \<in> lang is \<or> (\<exists>c v. u = c # v \<and> admits a c \<and> v \<in> lang (Many a # is))"
    by (cases x) auto
next
  assume "u \<in> lang is \<or> (\<exists>c v. u = c # v \<and> admits a c \<and> v \<in> lang (Many a # is))"
  then show "u \<in> lang (Many a # is)"
  proof
    assume "u \<in> lang is"
    then have "u = [] @ u \<and> [] \<in> item_lang (Many a) \<and> u \<in> lang is" by simp
    then show ?thesis unfolding lang.simps by blast
  next
    assume "\<exists>c v. u = c # v \<and> admits a c \<and> v \<in> lang (Many a # is)"
    then obtain c x y where "u = (c # x) @ y" "admits a c" "x \<in> item_lang (Many a)" "y \<in> lang is" by auto
    then have "u = (c # x) @ y \<and> c # x \<in> item_lang (Many a) \<and> y \<in> lang is" by simp
    then show ?thesis unfolding lang.simps by blast
  qed
qed

lemma here_One:
  assumes "items True re = apfst ((#) (One a)) (items True p)"
  shows "here re [] = False" "here re (t # ts) = (admits a t \<and> here p ts)"
proof -
  have i: "fst (items True re) = One a # fst (items True p)" "snd (items True re) = snd (items True p)"
    using assms by simp_all
  show "here re [] = False" unfolding here_def i lang_One by simp
  show "here re (t # ts) = (admits a t \<and> here p ts)"
  proof
    assume "here re (t # ts)"
    then obtain c w v where "t # ts = (c # w) @ v" "admits a c" "w \<in> lang (fst (items True p))"
      "snd (items True p) \<longrightarrow> v = []"
      unfolding here_def i lang_One by blast
    then have "admits a t" "ts = w @ v \<and> w \<in> lang (fst (items True p)) \<and> (snd (items True p) \<longrightarrow> v = [])" by simp_all
    then show "admits a t \<and> here p ts" unfolding here_def by blast
  next
    assume "admits a t \<and> here p ts"
    then obtain w v where "admits a t" "ts = w @ v" "w \<in> lang (fst (items True p))" "snd (items True p) \<longrightarrow> v = []"
      unfolding here_def by blast
    then have "t # ts = (t # w) @ v \<and> t # w \<in> lang (One a # fst (items True p)) \<and> (snd (items True p) \<longrightarrow> v = [])"
      unfolding lang_One by simp
    then show "here re (t # ts)" unfolding here_def i by blast
  qed
qed

lemma here_Many:
  assumes "items True re = apfst ((#) (Many a)) (items True p)"
  shows "here re tx = (here p tx \<or> (\<exists>t ts. tx = t # ts \<and> admits a t \<and> here re ts))"
proof -
  have i: "fst (items True re) = Many a # fst (items True p)" "snd (items True re) = snd (items True p)"
    using assms by simp_all
  show ?thesis
    unfolding here_def i
  proof (intro iffI)
    assume "\<exists>u v. tx = u @ v \<and> u \<in> lang (Many a # fst (items True p)) \<and> (snd (items True p) \<longrightarrow> v = [])"
    then obtain u v where u: "tx = u @ v" "u \<in> lang (Many a # fst (items True p))" "snd (items True p) \<longrightarrow> v = []"
      by blast
    from u(2) lang_Many [of u a] consider "u \<in> lang (fst (items True p))"
      | c w where "u = c # w" "admits a c" "w \<in> lang (Many a # fst (items True p))" by blast
    then show "(\<exists>u v. tx = u @ v \<and> u \<in> lang (fst (items True p)) \<and> (snd (items True p) \<longrightarrow> v = [])) \<or>
        (\<exists>t ts. tx = t # ts \<and> admits a t \<and>
          (\<exists>u v. ts = u @ v \<and> u \<in> lang (Many a # fst (items True p)) \<and> (snd (items True p) \<longrightarrow> v = [])))"
      using u(1,3) by cases (blast, metis append_Cons)
  next
    assume "(\<exists>u v. tx = u @ v \<and> u \<in> lang (fst (items True p)) \<and> (snd (items True p) \<longrightarrow> v = [])) \<or>
        (\<exists>t ts. tx = t # ts \<and> admits a t \<and>
          (\<exists>u v. ts = u @ v \<and> u \<in> lang (Many a # fst (items True p)) \<and> (snd (items True p) \<longrightarrow> v = [])))"
    then show "\<exists>u v. tx = u @ v \<and> u \<in> lang (Many a # fst (items True p)) \<and> (snd (items True p) \<longrightarrow> v = [])"
      using lang_Many [of _ a "fst (items True p)"] by (metis append_Cons)
  qed
qed

lemma admits_atom: "admits (atom_of c) t \<longleftrightarrow> c = DOT \<or> c = t"
  by (auto simp: atom_of_def)

subsection \<open>The matcher of grep\<close>

lemma matchstar_run:
  assumes "\<And>tx. 0 \<notin> set tx \<Longrightarrow> matchhere R (tx @ 0 # y) = Some (here p tx)" "0 \<notin> set tx"
    and "items True re = apfst ((#) (Many (atom_of c))) (items True p)"
  shows "matchstar c R (tx @ 0 # y) = Some (here re tx)"
  using assms(2)
proof (induction tx)
  case Nil
  then show ?case using assms(1) [of "[]"] here_Many [OF assms(3), of "[]"] by (simp add: matchstar.simps split: bool.splits)
next
  case (Cons t tx)
  then show ?case
    using assms(1) [of "t # tx"] here_Many [OF assms(3), of "t # tx"]
    by (auto simp: matchstar.simps [of c R "t # tx @ 0 # y"] admits_atom split: bool.splits)
qed

lemma matchhere_run:
  assumes "0 \<notin> set re" "0 \<notin> set tx"
  shows "matchhere (re @ 0 # x) (tx @ 0 # y) = Some (here re tx)"
  using assms
proof (induction "True" re arbitrary: tx rule: items.induct)
  case 1
  then show ?case by (simp add: matchhere.simps here_def)
next
  case (2 c)
  show ?case
  proof (cases "c = DOLLAR")
    case True
    then show ?thesis using 2 by (cases tx) (auto simp: matchhere.simps here_def)
  next
    case False
    then have "items True [c] = apfst ((#) (One (atom_of c))) (items True [])" by simp
    note h = here_One [OF this]
    have e: "here [] u" for u by (simp add: here_def)
    show ?thesis using 2 False h e by (cases tx) (auto simp: matchhere.simps admits_atom)
  qed
next
  case (3 c d p)
  show ?case
  proof (cases "d = STAR")
    case True
    have "matchstar c (p @ 0 # x) (tx @ 0 # y) = Some (here (c # d # p) tx)"
      by (rule matchstar_run [of "p @ 0 # x" y p]) (use 3 True in auto)
    then show ?thesis using True 3 by (simp add: matchhere.simps)
  next
    case False
    then have "items True (c # d # p) = apfst ((#) (One (atom_of c))) (items True (d # p))" by simp
    note h = here_One [OF this]
    show ?thesis
    proof (cases tx)
      case Nil
      then show ?thesis using 3 False h by (simp add: matchhere.simps)
    next
      case (Cons t ts)
      have "matchhere ((d # p) @ 0 # x) (ts @ 0 # y) = Some (here (d # p) ts)"
        using 3 False Cons by simp
      then show ?thesis
        using 3 False h Cons by (auto simp: matchhere.simps(2) [of c] admits_atom)
    qed
  qed
qed

lemma match_loop_run:
  assumes "0 \<notin> set re" "0 \<notin> set tx"
  shows "match_loop (re @ 0 # x) (tx @ 0 # y) = Some (\<exists>u v. tx = u @ v \<and> here re v)"
  using assms(2)
proof (induction tx)
  case Nil
  then show ?case using matchhere_run [OF assms(1), of "[]"] by (simp add: match_loop.simps split: bool.splits)
next
  case (Cons t tx)
  have "(\<exists>u v. t # tx = u @ v \<and> here re v) \<longleftrightarrow> here re (t # tx) \<or> (\<exists>u v. tx = u @ v \<and> here re v)"
    by (metis append_Cons append_Nil list.sel(3) neq_Nil_conv)
  then show ?case
    using Cons matchhere_run [OF assms(1), of "t # tx"]
    by (simp add: match_loop.simps [of _ "t # tx @ 0 # y"] split: bool.splits)
qed

text \<open>
  What \<^verbatim>\<open>grep\<close>'s patterns mean: with a leading \<^verbatim>\<open>^\<close> the text starts with a word of the
  rest, otherwise some suffix of the text does.
\<close>

definition grep_matches :: "bytes \<Rightarrow> bytes \<Rightarrow> bool" where
  "grep_matches re tx \<longleftrightarrow>
     (if re \<noteq> [] \<and> hd re = CARET then here (tl re) tx else \<exists>u v. tx = u @ v \<and> here re v)"

text \<open>
  C18: The matcher of \<^verbatim>\<open>grep\<close> decides the language of its pattern.  For strings that end
  with a NUL, \<^verbatim>\<open>match\<close> terminates, never reads past that NUL, and returns true just if a
  word of the pattern's language occurs in the tx: \<^verbatim>\<open>.\<close> stands for any character,
  \<^verbatim>\<open>*\<close> for any number of its predecessor, a leading \<^verbatim>\<open>^\<close> ties the word to the start and a
  final \<^verbatim>\<open>$\<close> to the end of the text.
\<close>

theorem grep_match_decides:
  assumes "0 \<notin> set re" "0 \<notin> set tx"
  shows "match (re @ 0 # x) (tx @ 0 # y) = Some (grep_matches re tx)"
proof (cases re)
  case Nil
  then show ?thesis using match_loop_run [OF assms] by (simp add: match_def grep_matches_def)
next
  case (Cons c r)
  then show ?thesis
    using assms match_loop_run [OF assms] matchhere_run [of r tx] by (simp add: match_def grep_matches_def)
qed

theorem grep_match_decides_witness:
  "match [0x5E, 0x61, 0x2A, 0x2E, 0x24, 0] [0x61, 0x61, 0x62, 0] = Some True \<and>
   grep_matches [0x5E, 0x61, 0x2A, 0x2E, 0x24] [0x61, 0x61, 0x62]"
proof -
  have run: "match [0x5E, 0x61, 0x2A, 0x2E, 0x24, 0] [0x61, 0x61, 0x62, 0] = Some True"
    by (simp add: match_def matchhere.simps matchstar.simps)
  with grep_match_decides [of "[0x5E, 0x61, 0x2A, 0x2E, 0x24]" "[0x61, 0x61, 0x62]" "[]" "[]"] show ?thesis by simp
qed

subsection \<open>The matcher of find\<close>

lemma find_match_star:
  assumes "\<And>s. 0 \<notin> set s \<Longrightarrow> find_match (s @ 0 # x) P = Some (s \<in> lang is)" "0 \<notin> set s" "c \<noteq> 0"
  shows "find_match (s @ 0 # x) (c # STAR # P) = Some (s \<in> lang (Many (atom_of c) # is))"
  using assms(2)
proof (induction s)
  case Nil
  then show ?case
    using assms(1) [of "[]"] assms(3) lang_Many [of "[]" "atom_of c" "is"] by (simp add: find_match.simps)
next
  case (Cons a s)
  then have "(a # s \<in> lang (Many (atom_of c) # is)) =
      (a # s \<in> lang is \<or> admits (atom_of c) a \<and> s \<in> lang (Many (atom_of c) # is))"
    using lang_Many [of "a # s" "atom_of c" "is"] by auto
  then show ?case
    using Cons assms(1) [of "a # s"] assms(3)
    by (auto simp: find_match.simps(2) [of "a # s @ 0 # x"] admits_atom Let_def simp del: lang.simps split: bool.splits)
qed

text \<open>
  C29: The matcher of \<^verbatim>\<open>find\<close> decides whether the whole name is a word of the pattern.
  For strings that end with a NUL it terminates, stays within them, and returns true
  just if the name belongs to the language of the pattern, in which only \<^verbatim>\<open>.\<close> and \<^verbatim>\<open>*\<close>
  are special.
\<close>

theorem find_match_decides:
  assumes "0 \<notin> set p" "0 \<notin> set s"
  shows "find_match (s @ 0 # x) (p @ 0 # y) = Some (s \<in> lang (fst (items False p)))"
  using assms
proof (induction "False" p arbitrary: s rule: items.induct)
  case 1
  then show ?case by (cases s) (auto simp: find_match.simps)
next
  case (2 c)
  then show ?case
    by (cases s; cases "tl s")
      (auto simp: find_match.simps(2) admits_atom lang_One Let_def simp del: lang.simps(2) split: list.splits)
next
  case (3 c d p)
  show ?case
  proof (cases "d = STAR")
    case True
    have "find_match (s @ 0 # x) (c # STAR # p @ 0 # y) = Some (s \<in> lang (Many (atom_of c) # fst (items False p)))"
      by (rule find_match_star) (use 3 True in auto)
    then show ?thesis using True by simp
  next
    case False
    then show ?thesis
      using 3 by (cases s) (auto simp: find_match.simps(2) [of _ c] admits_atom lang_One Let_def simp del: lang.simps(2))
  qed
qed

theorem find_match_decides_witness:
  "find_match [0x61, 0x61, 0x62, 0] [0x61, 0x2A, 0x2E, 0] = Some True \<and>
   [0x61, 0x61, 0x62] \<in> lang (fst (items False [0x61, 0x2A, 0x2E]))"
proof -
  have "find_match [0x61, 0x61, 0x62, 0] [0x61, 0x2A, 0x2E, 0] = Some True"
    by (simp add: find_match.simps)
  with find_match_decides [of "[0x61, 0x2A, 0x2E]" "[0x61, 0x61, 0x62]" "[]" "[]"] show ?thesis by simp
qed

end
