(* ===== verification/Grep_Output.thy ===== *)
theory Grep_Output
  imports Grep_Correct
begin

text \<open>What \<^verbatim>\<open>grep\<close> writes, whatever the pieces in which the kernel hands out the file.\<close>

subsection \<open>A file read in pieces\<close>

fun is_read :: "call \<Rightarrow> bool" where
  "is_read (Cread fd n) = True"
| "is_read _ = False"

fun written :: "call \<Rightarrow> bytes" where
  "written (Cwrite fd b) = (if fd = 1 then b else [])"
| "written _ = []"

definition reads :: "user_state \<Rightarrow> nat" where
  "reads s = length (filter is_read (calls s))"

definition stdout :: "user_state \<Rightarrow> bytes" where
  "stdout s = concat (map written (calls s))"

definition answer_of :: "bytes \<Rightarrow> answer" where
  "answer_of d = \<lparr>a_ret = int (length d), a_data = d, a_fds = (0, 0),
     a_stat = \<lparr>st_dev = 0, st_ino = 0, st_type = 0, st_nlink = 0, st_size = 0\<rparr>, a_status = 0\<rparr>"

text \<open>The \<open>k\<close>-th read gets the \<open>k\<close>-th piece, after the last one nothing.\<close>

definition serve :: "bytes list \<Rightarrow> user_state \<Rightarrow> user_state" where
  "serve cs s = s\<lparr>reply := answer_of
     (if calls s \<noteq> [] \<and> is_read (last (calls s)) \<and> reads s \<le> length cs then cs ! (reads s - 1) else [])\<rparr>"

lemma u_read_serve:
  assumes "reads s < length cs"
  obtains s' where "u_read fd n (serve cs # es) s = Ret (int (length (cs ! reads s)), cs ! reads s) es s'"
    "reads s' = Suc (reads s)" "stdout s' = stdout s"
  using assms by (simp add: u_read_def ucall_def serve_def reads_def stdout_def answer_of_def)

lemma u_read_end:
  assumes "length cs \<le> reads s"
  obtains s' where "u_read fd n (serve cs # es) s = Ret (0, []) es s'" "stdout s' = stdout s"
  using assms by (simp add: u_read_def ucall_def serve_def reads_def stdout_def answer_of_def)

lemma u_write_serve:
  obtains r s' where "u_write 1 b (serve cs # es) s = Ret r es s'"
    "reads s' = reads s" "stdout s' = stdout s @ b"
  by (simp add: u_write_def ucall_ret_def ucall_def serve_def reads_def stdout_def)

subsection \<open>Lines\<close>

text \<open>The complete lines of a text, without their newline, and the unfinished rest.\<close>

function lines :: "bytes \<Rightarrow> bytes list \<times> bytes" where
  "lines t =
     (if 0x0A \<in> set t
      then (let l = takeWhile (\<lambda>c. c \<noteq> 0x0A) t; r = lines (drop (Suc (length l)) t) in (l # fst r, snd r))
      else ([], t))"
  by pat_completeness auto
termination
  by (relation "measure length") (auto dest: length_pos_if_in_set)

declare lines.simps [simp del]

lemma lines_rest [simp]: "0x0A \<notin> set t \<Longrightarrow> lines t = ([], t)"
  by (simp add: lines.simps)

lemma lines_line:
  assumes "0x0A \<notin> set l"
  shows "lines (l @ 0x0A # t) = (l # fst (lines t), snd (lines t))"
proof -
  have "takeWhile (\<lambda>c. c \<noteq> 0x0A) (l @ 0x0A # t) = l" using assms by (auto simp: takeWhile_append)
  then show ?thesis by (simp add: lines.simps [of "l @ 0x0A # t"] Let_def)
qed

lemma split_line:
  assumes "0x0A \<in> set t"
  obtains l r where "t = l @ 0x0A # r" "0x0A \<notin> set l"
  using assms by (meson split_list_first)

lemma lines_append: "lines (t @ d) = (fst (lines t) @ fst (lines (snd (lines t) @ d)), snd (lines (snd (lines t) @ d)))"
proof (induction t rule: lines.induct)
  case (1 t)
  show ?case
  proof (cases "0x0A \<in> set t")
    case True
    then obtain l r where t: "t = l @ 0x0A # r" "0x0A \<notin> set l" by (rule split_line)
    then have "takeWhile (\<lambda>c. c \<noteq> 0x0A) t = l" by (auto simp: takeWhile_append)
    then have "lines (r @ d) = (fst (lines r) @ fst (lines (snd (lines r) @ d)), snd (lines (snd (lines r) @ d)))"
      using 1 [OF True refl] t(1) by simp
    then show ?thesis using t by (simp add: lines_line)
  qed simp
qed

lemma lines_snd: "0x0A \<notin> set (snd (lines t))" "set (snd (lines t)) \<subseteq> set t" "length (snd (lines t)) \<le> length t"
proof (induction t rule: lines.induct)
  case (1 t)
  {
    assume n: "0x0A \<in> set t"
    then obtain l r where t: "t = l @ 0x0A # r" "0x0A \<notin> set l" by (rule split_line)
    then have w: "takeWhile (\<lambda>c. c \<noteq> 0x0A) t = l" by (auto simp: takeWhile_append)
    have "0x0A \<notin> set (snd (lines r))" "set (snd (lines r)) \<subseteq> set r" "length (snd (lines r)) \<le> length r"
      using 1 [OF n w [symmetric]] t(1) by simp_all
    then have "0x0A \<notin> set (snd (lines t))" "set (snd (lines t)) \<subseteq> set t" "length (snd (lines t)) \<le> length t"
      using t by (auto simp: lines_line)
  }
  then show "0x0A \<notin> set (snd (lines t))" "set (snd (lines t)) \<subseteq> set t" "length (snd (lines t)) \<le> length t"
    by (cases "0x0A \<in> set t"; simp)+
qed

definition hits :: "bytes \<Rightarrow> bytes \<Rightarrow> bytes list" where
  "hits re t = filter (grep_matches re) (fst (lines t))"

definition shown :: "bytes list \<Rightarrow> bytes" where
  "shown lns = concat (map (\<lambda>l. l @ [0x0A]) lns)"

subsection \<open>The lines in the buffer\<close>

lemma ustrchr_run:
  "0 \<notin> set t \<Longrightarrow> c \<noteq> 0 \<Longrightarrow> c \<notin> set t \<Longrightarrow> ustrchr (t @ 0 # z) c = Some None"
  "0 \<notin> set t \<Longrightarrow> c \<notin> set t \<Longrightarrow> c \<noteq> 0 \<Longrightarrow> ustrchr (t @ c # z) c = Some (Some (length t))"
  by (induction t) auto

lemma update_line:
  assumes "drop p buf = l @ c # u" "p \<le> length buf"
  shows "drop p (buf[p + length l := x]) = l @ x # u" "drop (Suc (p + length l)) (buf[p + length l := x]) = u"
proof -
  have b: "buf = take p buf @ l @ c # u" using assms(1) append_take_drop_id [of p buf] by simp
  have "length (take p buf) = p" using assms(2) by simp
  then show "drop p (buf[p + length l := x]) = l @ x # u" "drop (Suc (p + length l)) (buf[p + length l := x]) = u"
    by (subst b, simp add: list_update_append)+
qed

lemma grep_lines_run:
  assumes "drop p buf = t @ 0 # z" "0 \<notin> set t" "0 \<notin> set re" "length t < k" "length (hits re t) \<le> N" "p \<le> length buf"
  shows "\<exists>buf' s'. grep_lines k (re @ 0 # x) buf p (replicate N (serve cs)) s =
      Ret (p + length t - length (snd (lines t)), buf') (replicate (N - length (hits re t)) (serve cs)) s' \<and>
    reads s' = reads s \<and> stdout s' = stdout s @ shown (hits re t) \<and>
    drop (p + length t - length (snd (lines t))) buf' = snd (lines t) @ 0 # z \<and> length buf' = length buf"
  using assms
proof (induction k arbitrary: p buf t N s)
  case 0
  then show ?case by simp
next
  case (Suc k)
  show ?case
  proof (cases "0x0A \<in> set t")
    case False
    then show ?thesis using Suc.prems ustrchr_run(1) [of t "0x0A" z] by (simp add: hits_def shown_def)
  next
    case True
    then obtain l r where t: "t = l @ 0x0A # r" "0x0A \<notin> set l" by (rule split_line)
    let ?q = "p + length l"
    have chr: "ustrchr (drop p buf) 0x0A = Some (Some (length l))"
      using Suc.prems(1,2) t ustrchr_run(2) [of l "0x0A"] by simp
    have b: "drop p buf = l @ 0x0A # (r @ 0 # z)" using Suc.prems(1) t by simp
    note u0 = update_line [OF b Suc.prems(6), of 0] and u1 = update_line [OF b Suc.prems(6), of "0x0A"]
    have m: "match (re @ 0 # x) (drop p (buf[?q := 0])) = Some (grep_matches re l)"
      using grep_match_decides [of re l x "r @ 0 # z"] Suc.prems(2,3) t u0(1) by simp
    have len: "Suc ?q \<le> length buf" using arg_cong [OF b, of length] Suc.prems(6) by simp
    have ln: "hits re t = (if grep_matches re l then l # hits re r else hits re r)"
      "snd (lines t) = snd (lines r)" using t by (simp_all add: hits_def lines_line)
    have p': "Suc ?q + length r - length (snd (lines r)) = p + length t - length (snd (lines t))"
      using lines_snd(3) [of r] by (simp add: t ln(2) [unfolded t(1)])
    show ?thesis
    proof (cases "grep_matches re l")
      case hit: True
      then obtain N' where N: "N = Suc N'" "length (hits re r) \<le> N'" using Suc.prems(5) ln(1) by (cases N) auto
      have same: "buf[?q := 0, ?q := 0x0A] = buf[?q := 0x0A]" by simp
      have wr: "take (Suc (length l)) (drop p (buf[?q := 0x0A])) = l @ [0x0A]" by (simp add: u1(1))
      obtain w s1 where s1: "u_write 1 (l @ [0x0A]) (serve cs # replicate N' (serve cs)) s = Ret w (replicate N' (serve cs)) s1"
        "reads s1 = reads s" "stdout s1 = stdout s @ l @ [0x0A]" by (rule u_write_serve)
      obtain buf' s' where IH: "grep_lines k (re @ 0 # x) (buf[?q := 0x0A]) (Suc ?q) (replicate N' (serve cs)) s1 =
          Ret (Suc ?q + length r - length (snd (lines r)), buf') (replicate (N' - length (hits re r)) (serve cs)) s'"
        "reads s' = reads s1" "stdout s' = stdout s1 @ shown (hits re r)"
        "drop (Suc ?q + length r - length (snd (lines r))) buf' = snd (lines r) @ 0 # z" "length buf' = length buf"
        using Suc.IH [of "Suc ?q" "buf[?q := 0x0A]" r N' s1] u1(2) Suc.prems t N(2) len by auto
      have "grep_lines (Suc k) (re @ 0 # x) buf p (replicate N (serve cs)) s =
          Ret (p + length t - length (snd (lines t)), buf') (replicate (N - length (hits re t)) (serve cs)) s'"
        using chr m hit same wr s1(1) IH(1) p' by (simp add: N(1) ln Let_def)
      then show ?thesis using IH s1 p' hit by (auto simp: ln shown_def)
    next
      case miss: False
      obtain buf' s' where IH: "grep_lines k (re @ 0 # x) (buf[?q := 0]) (Suc ?q) (replicate N (serve cs)) s =
          Ret (Suc ?q + length r - length (snd (lines r)), buf') (replicate (N - length (hits re r)) (serve cs)) s'"
        "reads s' = reads s" "stdout s' = stdout s @ shown (hits re r)"
        "drop (Suc ?q + length r - length (snd (lines r))) buf' = snd (lines r) @ 0 # z" "length buf' = length buf"
        using Suc.IH [of "Suc ?q" "buf[?q := 0]" r N s] u0(2) Suc.prems t ln miss len by auto
      then show ?thesis using chr m miss p' by (auto simp: ln Let_def)
    qed
  qed
qed

subsection \<open>The whole file\<close>

text \<open>
  Each piece is not empty and no longer than what \<^verbatim>\<open>grep\<close> asks for: the 1023 bytes of
  the buffer less the unfinished line, and there is room for that.
\<close>

fun pieces_fit :: "bytes \<Rightarrow> bytes list \<Rightarrow> bool" where
  "pieces_fit l [] = True"
| "pieces_fit l (d # ds) \<longleftrightarrow>
     d \<noteq> [] \<and> length l + length d \<le> 1023 \<and> 0 \<notin> set d \<and> pieces_fit (snd (lines (l @ d))) ds"

lemma hits_append: "hits re (t @ d) = hits re t @ hits re (snd (lines t) @ d)"
  using lines_append [of t d] by (simp add: hits_def)

lemma shown_append [simp]: "shown (a @ b) = shown a @ shown b"
  by (simp add: shown_def)

lemma grep_loop_run:
  assumes "pieces_fit l (drop (reads s) cs)" "length buf = 1024" "take (length l) buf = l" "0 \<notin> set l" "0x0A \<notin> set l"
    "length l \<le> 1023" "0 \<notin> set re" "length (drop (reads s) cs) < k"
    "Suc (length (drop (reads s) cs) + length (hits re (l @ concat (drop (reads s) cs)))) \<le> N"
  shows "\<exists>buf' es' s'. grep_loop k (re @ 0 # x) fd (length l) buf (replicate N (serve cs)) s = Ret buf' es' s' \<and>
    stdout s' = stdout s @ shown (hits re (l @ concat (drop (reads s) cs)))"
  using assms
proof (induction k arbitrary: l s buf N)
  case 0
  then show ?case by simp
next
  case (Suc k)
  obtain N' where N: "N = Suc N'" using Suc.prems(9) by (cases N) auto
  show ?case
  proof (cases "reads s < length cs")
    case False
    then have "length cs \<le> reads s" by simp
    then obtain s' where "u_read fd (1023 - int (length l)) (serve cs # replicate N' (serve cs)) s = Ret (0, []) (replicate N' (serve cs)) s'"
      "stdout s' = stdout s" by (rule u_read_end)
    then show ?thesis using False Suc.prems(5) by (simp add: N hits_def shown_def)
  next
    case True
    define d where "d = cs ! reads s"
    have rem: "drop (reads s) cs = d # drop (Suc (reads s)) cs" using True by (simp add: d_def Cons_nth_drop_Suc)
    have fit: "d \<noteq> []" "length l + length d \<le> 1023" "0 \<notin> set d" "pieces_fit (snd (lines (l @ d))) (drop (Suc (reads s)) cs)"
      using Suc.prems(1) rem by simp_all
    obtain s1 where s1: "u_read fd (1023 - int (length l)) (serve cs # replicate N' (serve cs)) s =
        Ret (int (length d), d) (replicate N' (serve cs)) s1" "reads s1 = Suc (reads s)" "stdout s1 = stdout s"
      unfolding d_def by (rule u_read_serve [OF True])
    define b1 where "b1 = take (length l) buf @ d @ drop (length l + length d) buf"
    define b2 where "b2 = b1[length l + length d := 0]"
    have lb: "length b1 = 1024" "length b2 = 1024" using Suc.prems(2) fit(2) by (simp_all add: b1_def b2_def)
    obtain c z where cz: "drop (length l + length d) buf = c # z"
      using Suc.prems(2) fit(2) by (cases "drop (length l + length d) buf") auto
    have b2: "b2 = (l @ d) @ 0 # z"
      using Suc.prems(3) fit(2) cz by (simp add: b2_def b1_def list_update_append)
    have poke: "poke b1 (length l + length d) 0 = Some b2" using lb fit(2) by (simp add: poke_def b2_def)
    let ?t = "l @ d"
    have more: "hits re (l @ concat (drop (reads s) cs)) = hits re ?t @ hits re (snd (lines ?t) @ concat (drop (Suc (reads s)) cs))"
      using hits_append [of re ?t] rem by simp
    have hN: "length (hits re ?t) \<le> N'" using Suc.prems(9) more N by simp
    obtain b3 s2 where s2: "grep_lines (Suc (length b2)) (re @ 0 # x) b2 0 (replicate N' (serve cs)) s1 =
        Ret (length ?t - length (snd (lines ?t)), b3) (replicate (N' - length (hits re ?t)) (serve cs)) s2"
      "reads s2 = reads s1" "stdout s2 = stdout s1 @ shown (hits re ?t)"
      "drop (length ?t - length (snd (lines ?t))) b3 = snd (lines ?t) @ 0 # z" "length b3 = 1024"
      using grep_lines_run [of 0 b2 ?t z re "Suc (length b2)" N' x cs s1] b2 Suc.prems(4,7) fit(2,3) hN lb
      by (auto simp del: grep_lines.simps)
    define r where "r = snd (lines ?t)"
    have r: "length r \<le> length ?t" "0x0A \<notin> set r" "set r \<subseteq> set ?t" using lines_snd [of ?t] by (simp_all add: r_def)
    define b4 where "b4 = take (length r) (drop (length ?t - length r) b3) @ drop (length r) b3"
    have b4: "length b4 = 1024" "take (length r) b4 = r"
      using s2(4,5) r(1) fit(2) by (simp_all add: b4_def r_def)
    have e: "drop (reads s2) cs = drop (Suc (reads s)) cs" using s2(2) s1(2) by simp
    obtain buf' es' s' where IH: "grep_loop k (re @ 0 # x) fd (length r) b4 (replicate (N' - length (hits re ?t)) (serve cs)) s2 =
        Ret buf' es' s'" "stdout s' = stdout s2 @ shown (hits re (r @ concat (drop (Suc (reads s)) cs)))"
    proof -
      have "pieces_fit r (drop (reads s2) cs)" "0 \<notin> set r" "length r \<le> 1023" "length (drop (reads s2) cs) < k"
        using fit(2-4) r(1,3) Suc.prems(4,8) rem unfolding e by (auto simp: r_def)
      moreover have "Suc (length (drop (reads s2) cs) + length (hits re (r @ concat (drop (reads s2) cs)))) \<le> N' - length (hits re ?t)"
        using Suc.prems(9) more unfolding e rem N r_def by simp
      ultimately show thesis
        using Suc.IH [of r s2 b4 "N' - length (hits re ?t)"] b4 r(2) Suc.prems(7) that unfolding e by blast
    qed
    have "grep_loop (Suc k) (re @ 0 # x) fd (length l) buf (replicate N (serve cs)) s = Ret buf' es' s'"
      using s1(1) poke s2(1) IH(1) fit(1) r(1)
      by (simp add: N b1_def [symmetric] b4_def r_def [symmetric] Let_def del: grep_lines.simps)
    then show ?thesis using IH(2) s2(3) s1(3) more by (simp add: r_def)
  qed
qed

text \<open>
  C11: \<^verbatim>\<open>grep\<close> prints the matching lines.  However the kernel cuts the file into pieces
  (none empty, none longer than asked for, and no NUL in them), as long as every line
  fits the buffer, \<^verbatim>\<open>grep\<close> reads to the end of the file and what it has written to the
  standard output is exactly the complete lines that match the pattern, in order.
\<close>

theorem grep_prints_matching_lines:
  assumes "0 \<notin> set re" "pieces_fit [] cs" "length buf = 1024" "reads s = 0"
    and "Suc (length cs + length (hits re (concat cs))) \<le> N"
  shows "\<exists>buf' es' s'. grep (re @ [0]) fd buf (replicate N (serve cs)) s = Ret buf' es' s' \<and>
    stdout s' = stdout s @ shown (filter (grep_matches re) (fst (lines (concat cs))))"
  using grep_loop_run [of "[]" s cs buf re "Suc N" N "[]" fd] assms
  by (simp add: grep_def hits_def del: grep_loop.simps)

definition ex_pieces :: "bytes list" where
  "ex_pieces = [[0x61, 0x62], [0x0A, 0x63, 0x0A, 0x61], [0x0A, 0x61]]"

definition ex_user_state :: user_state where
  "ex_user_state = \<lparr>calls = [], reply = answer_of [], hdr = (\<lambda>_. \<lparr>hptr = 0, hsize = 0\<rparr>), freep = 0, base_at = 0x2000\<rparr>"

theorem grep_prints_matching_lines_witness:
  "\<exists>buf' es' s'. grep [0x5E, 0x61, 0] 0 (replicate 1024 0) (replicate 9 (serve ex_pieces)) ex_user_state = Ret buf' es' s' \<and>
     stdout s' = [0x61, 0x62, 0x0A, 0x61, 0x0A]"
proof -
  have lines: "fst (lines (concat ex_pieces)) = [[0x61, 0x62], [0x63], [0x61]]"
    by (simp add: ex_pieces_def lines.simps Let_def)
  have c: "grep_matches [0x5E, 0x61] l = (matchhere [0x61, 0] (l @ [0]) = Some True)" if "0 \<notin> set l" for l
    using matchhere_run [of "[0x61]" l "[]" "[]"] that by (simp add: grep_matches_def)
  have m: "grep_matches [0x5E, 0x61] [0x61, 0x62]" "\<not> grep_matches [0x5E, 0x61] [0x63]" "grep_matches [0x5E, 0x61] [0x61]"
    by (simp_all add: c matchhere.simps)
  have fit: "pieces_fit [] ex_pieces" by (simp add: ex_pieces_def lines.simps Let_def)
  show ?thesis
    using grep_prints_matching_lines [of "[0x5E, 0x61]" ex_pieces "replicate 1024 0" ex_user_state 9 0] fit
    by (simp add: lines m hits_def shown_def ex_user_state_def reads_def stdout_def) (simp add: ex_pieces_def)
qed

end
