(* ===== verification/Shell.thy ===== *)
theory Shell
  imports Programs
begin

text \<open>
  \<^verbatim>\<open>user/sh.c\<close>.  A pointer into the command line is an offset; \<open>es\<close> is the offset of its
  terminating NUL.  A parsed command is a value of the datatype that the constructors
  of the source build; the strings in it are pairs of offsets, as in the source, and
  the buffer they point into is changed by \<^verbatim>\<open>nulterminate\<close>.
\<close>

subsection \<open>Parsed commands\<close>

datatype cmd =
    EXEC "(nat \<times> nat) list"
  | REDIR cmd nat nat u32 int
  | PIPE cmd cmd
  | LIST cmd cmd
  | BACK cmd

definition MAXARGS :: nat where [simp]: "MAXARGS = 10"

text \<open>
  \<^verbatim>\<open>cmd->argv[argc] = q; cmd->eargv[argc] = eq;\<close> where \<^verbatim>\<open>cmd\<close> points to the \<open>EXEC\<close> inside the
  redirections around it.
\<close>

fun add_arg :: "nat \<times> nat \<Rightarrow> cmd \<Rightarrow> cmd" where
  "add_arg a (EXEC as) = EXEC (as @ [a])"
| "add_arg a (REDIR c f e m d) = REDIR (add_arg a c) f e m d"
| "add_arg a c = c"

subsection \<open>Tokens\<close>

definition whitespace :: bytes where "whitespace = [0x20, 0x09, 0x0D, 0x0A, 0x0B, 0]"
definition symbols :: bytes where "symbols = [0x3C, 0x7C, 0x3E, 0x26, 0x3B, 0x28, 0x29, 0]"

definition is_in :: "bytes \<Rightarrow> u8 \<Rightarrow> bool" where
  "is_in cs c \<longleftrightarrow> ustrchr cs c \<noteq> Some None"

definition ch :: "bytes \<Rightarrow> nat \<Rightarrow> u8" where
  "ch b i = (if i < length b then b ! i else 0)"

text \<open>\<^verbatim>\<open>while(s < es && P(*s)) s++;\<close>\<close>

function skip_while :: "(u8 \<Rightarrow> bool) \<Rightarrow> bytes \<Rightarrow> nat \<Rightarrow> nat \<Rightarrow> nat" where
  "skip_while P b es s = (if s < es \<and> P (ch b s) then skip_while P b es (Suc s) else s)"
  by pat_completeness auto
termination
  by (relation "measure (\<lambda>(P, b, es, s). es - s)") auto

declare skip_while.simps [simp del]

abbreviation skip_blank :: "bytes \<Rightarrow> nat \<Rightarrow> nat \<Rightarrow> nat" where
  "skip_blank \<equiv> skip_while (is_in whitespace)"

text \<open>The token's kind and end, from its first character on.\<close>

definition token_at :: "bytes \<Rightarrow> nat \<Rightarrow> nat \<Rightarrow> u8 \<times> nat" where
  "token_at b es s =
     (let c = ch b s
      in if c = 0 then (0, s)
         else if c \<in> {0x7C, 0x28, 0x29, 0x3B, 0x26, 0x3C} then (c, Suc s)
         else if c = 0x3E then (if ch b (Suc s) = 0x3E then (0x2B, Suc (Suc s)) else (c, Suc s))
         else (0x61, skip_while (\<lambda>c. \<not> is_in whitespace c \<and> \<not> is_in symbols c) b es s))"

text \<open>The kind, \<^verbatim>\<open>*q\<close>, \<^verbatim>\<open>*eq\<close> and the new \<^verbatim>\<open>*ps\<close>.\<close>

definition gettoken :: "bytes \<Rightarrow> nat \<Rightarrow> nat \<Rightarrow> u8 \<times> nat \<times> nat \<times> nat" where
  "gettoken b es ps =
     (let q = skip_blank b es ps; (ret, eq) = token_at b es q
      in (ret, q, eq, skip_blank b es eq))"

definition peek :: "bytes \<Rightarrow> nat \<Rightarrow> bytes \<Rightarrow> nat \<Rightarrow> bool \<times> nat" where
  "peek b es toks ps =
     (let s = skip_blank b es ps
      in (ch b s \<noteq> 0 \<and> is_in toks (ch b s), s))"

lemma skip_while_bounds:
  "s \<le> skip_while P b es s \<and> (s \<le> es \<longrightarrow> skip_while P b es s \<le> es)"
proof (induction P b es s rule: skip_while.induct)
  case (1 P b es s)
  then show ?case
    by (cases "s < es \<and> P (ch b s)") (auto simp: skip_while.simps [of P b es s])
qed

lemma skip_while_stop: "s \<le> es \<Longrightarrow> skip_while P b es s < es \<Longrightarrow> \<not> P (ch b (skip_while P b es s))"
proof (induction P b es s rule: skip_while.induct)
  case (1 P b es s)
  then show ?case
    by (cases "s < es \<and> P (ch b s)") (auto simp: skip_while.simps [of P b es s])
qed

subsection \<open>Parsing\<close>

text \<open>
  \<open>Perr m\<close> is \<^verbatim>\<open>panic(m)\<close>, \<open>Leftovers s\<close> the panic after the message about what is left
  from \<open>s\<close> on; \<open>NoFuel\<close> would be a recursion that has not ended within its bound.
\<close>

datatype parse_error = Perr string | Leftovers nat | NoFuel

type_synonym 'a parsed = "parse_error + 'a"

definition pbind :: "'a parsed \<Rightarrow> ('a \<Rightarrow> 'b parsed) \<Rightarrow> 'b parsed" where
  "pbind m f = (case m of Inl e \<Rightarrow> Inl e | Inr x \<Rightarrow> f x)"

definition redir_of :: "u8 \<Rightarrow> cmd \<Rightarrow> nat \<Rightarrow> nat \<Rightarrow> cmd" where
  "redir_of tok c q eq =
     (if tok = 0x3C then REDIR c q eq O_RDONLY 0
      else if tok = 0x3E then REDIR c q eq (O_WRONLY OR O_CREATE OR O_TRUNC) 1
      else if tok = 0x2B then REDIR c q eq (O_WRONLY OR O_CREATE) 1
      else c)"

text \<open>
  The loops of the parser take at least one character a round: the characters that are
  left bound the rounds.
\<close>

primrec redirs_loop :: "nat \<Rightarrow> bytes \<Rightarrow> nat \<Rightarrow> cmd \<Rightarrow> nat \<Rightarrow> (cmd \<times> nat) parsed" where
  "redirs_loop 0 b es c ps = Inl NoFuel"
| "redirs_loop (Suc k) b es c ps =
     (case peek b es [0x3C, 0x3E, 0] ps of (hit, s) \<Rightarrow>
        if \<not> hit then Inr (c, s)
        else
          (case gettoken b es s of (tok, _, _, s1) \<Rightarrow>
             (case gettoken b es s1 of (tok2, q, eq, s2) \<Rightarrow>
                if tok2 \<noteq> 0x61 then Inl (Perr ''missing file for redirection'')
                else redirs_loop k b es (redir_of tok c q eq) s2)))"

definition parseredirs :: "bytes \<Rightarrow> nat \<Rightarrow> cmd \<Rightarrow> nat \<Rightarrow> (cmd \<times> nat) parsed" where
  "parseredirs b es c ps = redirs_loop (Suc (es - ps)) b es c ps"

primrec args_loop :: "nat \<Rightarrow> bytes \<Rightarrow> nat \<Rightarrow> nat \<Rightarrow> cmd \<Rightarrow> nat \<Rightarrow> (cmd \<times> nat) parsed" where
  "args_loop 0 b es argc c ps = Inl NoFuel"
| "args_loop (Suc k) b es argc c ps =
     (case peek b es [0x7C, 0x29, 0x26, 0x3B, 0] ps of (stop, s) \<Rightarrow>
        if stop then Inr (c, s)
        else
          (case gettoken b es s of (tok, q, eq, s1) \<Rightarrow>
             if tok = 0 then Inr (c, s1)
             else if tok \<noteq> 0x61 then Inl (Perr ''syntax'')
             else if Suc argc \<ge> MAXARGS then Inl (Perr ''too many args'')
             else pbind (parseredirs b es (add_arg (q, eq) c) s1) (\<lambda>(c', s2).
                  args_loop k b es (Suc argc) c' s2)))"

primrec amps_loop :: "nat \<Rightarrow> bytes \<Rightarrow> nat \<Rightarrow> cmd \<Rightarrow> nat \<Rightarrow> (cmd \<times> nat) parsed" where
  "amps_loop 0 b es c ps = Inl NoFuel"
| "amps_loop (Suc k) b es c ps =
     (case peek b es [0x26, 0] ps of (hit, s) \<Rightarrow>
        if \<not> hit then Inr (c, s)
        else (case gettoken b es s of (_, _, _, s1) \<Rightarrow> amps_loop k b es (BACK c) s1))"

text \<open>
  The four functions that call each other; \<open>rec\<close> stands for the calls, and \<open>parse n\<close> ties
  the knot with at most \<open>n\<close> nested ones.
\<close>

datatype nonterm = Line | Pipe | Exec | Block

type_synonym parser = "nonterm \<Rightarrow> nat \<Rightarrow> (cmd \<times> nat) parsed"

definition parseline :: "parser \<Rightarrow> bytes \<Rightarrow> nat \<Rightarrow> nat \<Rightarrow> (cmd \<times> nat) parsed" where
  "parseline rec b es ps =
     pbind (rec Pipe ps) (\<lambda>(c, s).
     pbind (amps_loop (Suc (es - s)) b es c s) (\<lambda>(c1, s1).
     case peek b es [0x3B, 0] s1 of (semi, s2) \<Rightarrow>
       if semi then
         (case gettoken b es s2 of (_, _, _, s3) \<Rightarrow>
            pbind (rec Line s3) (\<lambda>(r, s4). Inr (LIST c1 r, s4)))
       else Inr (c1, s2)))"

definition parsepipe :: "parser \<Rightarrow> bytes \<Rightarrow> nat \<Rightarrow> nat \<Rightarrow> (cmd \<times> nat) parsed" where
  "parsepipe rec b es ps =
     pbind (rec Exec ps) (\<lambda>(c, s).
     case peek b es [0x7C, 0] s of (bar, s1) \<Rightarrow>
       if bar then
         (case gettoken b es s1 of (_, _, _, s2) \<Rightarrow>
            pbind (rec Pipe s2) (\<lambda>(r, s3). Inr (PIPE c r, s3)))
       else Inr (c, s1))"

definition parseexec :: "parser \<Rightarrow> bytes \<Rightarrow> nat \<Rightarrow> nat \<Rightarrow> (cmd \<times> nat) parsed" where
  "parseexec rec b es ps =
     (case peek b es [0x28, 0] ps of (paren, s) \<Rightarrow>
        if paren then rec Block s
        else
          pbind (parseredirs b es (EXEC []) s) (\<lambda>(c, s1).
          args_loop (Suc (es - s1)) b es 0 c s1))"

definition parseblock :: "parser \<Rightarrow> bytes \<Rightarrow> nat \<Rightarrow> nat \<Rightarrow> (cmd \<times> nat) parsed" where
  "parseblock rec b es ps =
     (case peek b es [0x28, 0] ps of (paren, s) \<Rightarrow>
        if \<not> paren then Inl (Perr ''parseblock'')
        else
          (case gettoken b es s of (_, _, _, s1) \<Rightarrow>
             pbind (rec Line s1) (\<lambda>(c, s2).
             case peek b es [0x29, 0] s2 of (close, s3) \<Rightarrow>
               if \<not> close then Inl (Perr ''syntax - missing )'')
               else (case gettoken b es s3 of (_, _, _, s4) \<Rightarrow> parseredirs b es c s4))))"

primrec parse :: "bytes \<Rightarrow> nat \<Rightarrow> nat \<Rightarrow> parser" where
  "parse b es 0 nt ps = Inl NoFuel"
| "parse b es (Suc n) nt ps =
     (case nt of
        Line \<Rightarrow> parseline (parse b es n) b es ps
      | Pipe \<Rightarrow> parsepipe (parse b es n) b es ps
      | Exec \<Rightarrow> parseexec (parse b es n) b es ps
      | Block \<Rightarrow> parseblock (parse b es n) b es ps)"

text \<open>\<^verbatim>\<open>nulterminate\<close>: the buffer with a NUL at the end of every string of the command.\<close>

fun nulterminate :: "cmd \<Rightarrow> bytes \<Rightarrow> bytes" where
  "nulterminate (EXEC as) b = fold (\<lambda>(q, eq) b. b[eq := 0]) as b"
| "nulterminate (REDIR c q eq m d) b = (nulterminate c b)[eq := 0]"
| "nulterminate (PIPE l r) b = nulterminate r (nulterminate l b)"
| "nulterminate (LIST l r) b = nulterminate r (nulterminate l b)"
| "nulterminate (BACK c) b = nulterminate c b"

text \<open>Four calls may pass between two characters.\<close>

definition parse_fuel :: "nat \<Rightarrow> nat" where
  "parse_fuel n = 4 * n + 5"

definition parsecmd :: "bytes \<Rightarrow> (cmd \<times> bytes) parsed" where
  "parsecmd b =
     (let es = length (cstr b)
      in pbind (parse b es (parse_fuel es) Line 0) (\<lambda>(c, s).
         (let s1 = snd (peek b es [0] s)
          in if s1 \<noteq> es then Inl (Leftovers s1) else Inr (c, nulterminate c b))))"

subsection \<open>Running\<close>

definition sh_panic :: "string \<Rightarrow> 'a umon" where
  "sh_panic m = kbind (ufprintf 2 (''%s'' @ nl) [sarg (lit m)]) (\<lambda>_. u_exit 1)"

definition fork1 :: "int umon" where
  "fork1 = kbind u_fork (\<lambda>pid. if pid = - 1 then sh_panic ''fork'' else kret pid)"

text \<open>\<^verbatim>\<open>runcmd\<close> on a command whose strings are in the buffer \<open>b\<close>; it never returns.\<close>

primrec runcmd :: "bytes \<Rightarrow> cmd \<Rightarrow> unit umon" where
  "runcmd b (EXEC as) =
     (if as = [] then u_exit 1
      else (let argv = map (\<lambda>(q, eq). drop q b) as in
        kbind (u_exec (hd argv) argv) (\<lambda>_.
        kbind (ufprintf 2 (''exec %s failed'' @ nl) [sarg (hd argv)]) (\<lambda>_.
        u_exit 0))))"
| "runcmd b (REDIR c q eq mode fd) =
     kbind (u_close fd) (\<lambda>_.
     kbind (u_open (drop q b) mode) (\<lambda>r.
     if r < 0 then kbind (ufprintf 2 (''open %s failed'' @ nl) [sarg (drop q b)]) (\<lambda>_. u_exit 1)
     else runcmd b c))"
| "runcmd b (LIST l r) =
     kbind fork1 (\<lambda>pid.
     if pid = 0 then runcmd b l
     else kbind u_wait (\<lambda>_. runcmd b r))"
| "runcmd b (PIPE l r) =
     kbind u_pipe (\<lambda>(e, p0, p1).
     if e < 0 then sh_panic ''pipe'' else
     kbind fork1 (\<lambda>pid.
     if pid = 0 then
       kbind (kseq [udo (u_close 1), udo (u_dup p1), udo (u_close p0), udo (u_close p1)]) (\<lambda>_.
       runcmd b l)
     else
       kbind fork1 (\<lambda>pid2.
       if pid2 = 0 then
         kbind (kseq [udo (u_close 0), udo (u_dup p0), udo (u_close p0), udo (u_close p1)]) (\<lambda>_.
         runcmd b r)
       else
         kbind (kseq [udo (u_close p0), udo (u_close p1), udo u_wait, udo u_wait]) (\<lambda>_.
         u_exit 0))))"
| "runcmd b (BACK c) =
     kbind fork1 (\<lambda>pid. if pid = 0 then runcmd b c else u_exit 0)"

definition getcmd :: "nat \<Rightarrow> (int \<times> bytes) umon" where
  "getcmd nbuf =
     kbind (u_write 2 [0x24, 0x20]) (\<lambda>_.
     kbind (ugets (replicate nbuf 0) (int nbuf)) (\<lambda>buf.
     kret (if ch buf 0 = 0 then - 1 else 0, buf)))"

text \<open>
  The memory of the nodes: what \<^verbatim>\<open>execcmd\<close>, \<^verbatim>\<open>redircmd\<close>, \<^verbatim>\<open>pipecmd\<close>, \<^verbatim>\<open>listcmd\<close> and \<^verbatim>\<open>backcmd\<close>
  ask of \<^verbatim>\<open>malloc\<close>, in the order of the calls.  A null pointer is not checked for.  The
  parser calls \<^verbatim>\<open>execcmd\<close> before it can find an error, and that node is what is asked for
  on a line with an error; further ones would come out of the block that the first
  call has got from the kernel, and the process exits.
\<close>

fun node_sizes :: "cmd \<Rightarrow> u32 list" where
  "node_sizes (EXEC as) = [168]"
| "node_sizes (REDIR c q eq m d) = node_sizes c @ [40]"
| "node_sizes (PIPE l r) = node_sizes l @ node_sizes r @ [24]"
| "node_sizes (LIST l r) = node_sizes l @ node_sizes r @ [24]"
| "node_sizes (BACK c) = node_sizes c @ [16]"

definition alloc_nodes :: "u32 list \<Rightarrow> unit umon" where
  "alloc_nodes ns = kfor ns (\<lambda>n. kbind (u_malloc n) (\<lambda>p. if p = 0 then kundef else kret ()))"

definition run_line :: "bytes \<Rightarrow> unit umon" where
  "run_line buf =
     (case parsecmd buf of
        Inl (Perr m) \<Rightarrow> kbind (alloc_nodes [168]) (\<lambda>_. sh_panic m)
      | Inl (Leftovers s) \<Rightarrow>
          kbind (alloc_nodes [168]) (\<lambda>_.
          kbind (ufprintf 2 (''leftovers: %s'' @ nl) [sarg (drop s buf)]) (\<lambda>_. sh_panic ''syntax''))
      | Inl NoFuel \<Rightarrow> kdiverge
      | Inr (c, b) \<Rightarrow> kbind (alloc_nodes (node_sizes c)) (\<lambda>_. runcmd b c))"

definition sh_open :: "unit umon" where
  "sh_open = kwaitloop (
     kbind (u_open (lit ''console'') O_RDWR) (\<lambda>fd.
     if fd \<ge> 0 then
       (if fd \<ge> 3 then kbind (u_close fd) (\<lambda>_. kret (Some ())) else kret None)
     else kret (Some ())))"

definition sh_main :: "unit umon" where
  "sh_main =
     kbind sh_open (\<lambda>_.
     kbind (kwaitloop (
       kbind (getcmd 100) (\<lambda>(r, buf).
       if r < 0 then kret (Some ())
       else if ch buf 0 = 0x63 \<and> ch buf 1 = 0x64 \<and> ch buf 2 = 0x20 then
         (let buf' = buf[length (cstr buf) - 1 := 0] in
         kbind (u_chdir (drop 3 buf')) (\<lambda>e.
         kbind (kwhen (e < 0) (ufprintf 2 (''cannot cd %s'' @ nl) [sarg (drop 3 buf')])) (\<lambda>_.
         kret None)))
       else
         kbind fork1 (\<lambda>pid.
         if pid = 0 then kbind (run_line buf) (\<lambda>_. kret (Some ()))
         else kbind u_wait (\<lambda>_. kret None))))) (\<lambda>_.
     u_exit 0))"

end
