(* ===== verification/Shell_Correct.thy ===== *)
theory Shell_Correct
  imports Shell
begin

text \<open>
  The shell's parser ends on every command line, and what it returns is a command whose
  strings are words of that line.
\<close>

subsection \<open>Tokens\<close>

text \<open>\<open>es\<close> is where the line's terminating NUL is.\<close>

definition line_end :: "bytes \<Rightarrow> nat \<Rightarrow> bool" where
  "line_end b es \<longleftrightarrow> es < length b \<and> ch b es = 0 \<and> (\<forall>i < es. ch b i \<noteq> 0)"

definition delim :: "u8 \<Rightarrow> bool" where
  "delim c \<longleftrightarrow> c = 0 \<or> is_in whitespace c \<or> is_in symbols c"

text \<open>A word: a string without blanks and symbols that ends before one.\<close>

definition word :: "bytes \<Rightarrow> nat \<Rightarrow> nat \<times> nat \<Rightarrow> bool" where
  "word b es = (\<lambda>(q, eq). q < eq \<and> eq \<le> es \<and> (\<forall>i. q \<le> i \<and> i < eq \<longrightarrow> \<not> delim (ch b i)) \<and> delim (ch b eq))"

lemma line_end_cstr: "0 \<in> set b \<Longrightarrow> line_end b (length (cstr b))"
proof (induction b)
  case (Cons c b)
  then show ?case
    by (cases "c = 0") (auto simp: line_end_def ch_def less_Suc_eq_0_disj nth_Cons')
qed simp

lemma skip_blank_bounds: "ps \<le> es \<Longrightarrow> ps \<le> skip_blank b es ps \<and> skip_blank b es ps \<le> es"
  using skip_while_bounds by blast

lemma skip_while_all: "s \<le> i \<Longrightarrow> i < skip_while P b es s \<Longrightarrow> P (ch b i)"
proof (induction P b es s rule: skip_while.induct)
  case (1 P b es s)
  then show ?case
    by (cases "s < es \<and> P (ch b s)"; cases "i = s") (simp_all add: skip_while.simps [of P b es s])
qed

lemma token_at_bounds:
  assumes "line_end b es" "s \<le> es" "token_at b es s = (ret, eq)"
  shows "s \<le> eq" "eq \<le> es" "ret \<noteq> 0 \<longleftrightarrow> s < es" "\<not> is_in whitespace (ch b s) \<Longrightarrow> ret \<noteq> 0 \<Longrightarrow> s < eq"
    "\<not> is_in whitespace (ch b s) \<Longrightarrow> ret = 0x61 \<Longrightarrow> word b es (s, eq)"
proof -
  have end0: "ch b s = 0 \<longleftrightarrow> s = es" using assms(1,2) by (auto simp: line_end_def le_less)
  let ?P = "\<lambda>c. \<not> is_in whitespace c \<and> \<not> is_in symbols c"
  note sb = skip_while_bounds [of s ?P b es]
  have next_ok: "Suc s < es" if "s < es" "ch b (Suc s) \<noteq> 0"
    using that assms(1) by (metis line_end_def Suc_leI le_neq_implies_less)
  show "s \<le> eq" "eq \<le> es" "ret \<noteq> 0 \<longleftrightarrow> s < es"
    using assms(2,3) end0 sb next_ok
    by (auto simp: token_at_def Let_def split: if_splits)
  have stop: "delim (ch b (skip_while ?P b es s))"
    using skip_while_stop [OF assms(2), of ?P b] sb assms(1,2)
    by (cases "skip_while ?P b es s = es") (auto simp: delim_def line_end_def)
  {
    assume nb: "\<not> is_in whitespace (ch b s)"
    have sym: "is_in symbols c \<longleftrightarrow> c \<in> {0x7C, 0x28, 0x29, 0x3B, 0x26, 0x3C, 0x3E}" for c
      by (auto simp: is_in_def symbols_def)
    have first: "s < skip_while ?P b es s" if "s < es" "\<not> is_in symbols (ch b s)"
      using that nb skip_while_bounds [of "Suc s" ?P b es] by (simp add: skip_while.simps [of ?P b es s])
    {
      assume "ret \<noteq> 0"
      then show "s < eq"
        using assms(3) first end0 assms(2) sym [of "ch b s"]
        by (auto simp: token_at_def Let_def split: if_splits)
    }
    {
      assume w: "ret = 0x61"
      then have eq: "eq = skip_while ?P b es s" "ch b s \<noteq> 0" "\<not> is_in symbols (ch b s)"
        using assms(3) sym [of "ch b s"] by (auto simp: token_at_def Let_def split: if_splits)
      then have "s < eq" using first end0 assms(2) by simp
      moreover have "\<not> delim (ch b i)" if "s \<le> i" "i < eq" for i
        using skip_while_all [OF that(1), of ?P b es] that(2) eq(1) sb assms(1,2)
        by (auto simp: delim_def line_end_def)
      ultimately show "word b es (s, eq)"
        using stop sb assms(2) by (simp add: word_def eq(1))
    }
  }
qed

lemma blank_stop: "line_end b es \<Longrightarrow> ps \<le> es \<Longrightarrow> \<not> is_in whitespace (ch b (skip_blank b es ps))"
  using skip_while_stop [of ps es "is_in whitespace" b] skip_blank_bounds [of ps es b]
  by (cases "skip_blank b es ps = es") (auto simp: line_end_def is_in_def whitespace_def)

lemma gettoken_bounds:
  assumes "line_end b es" "ps \<le> es" "gettoken b es ps = (ret, q, eq, s)"
  shows "ps \<le> s" "s \<le> es" "ret \<noteq> 0 \<Longrightarrow> ps < s" "ret = 0x61 \<Longrightarrow> word b es (q, eq)"
proof -
  define x where "x = skip_blank b es ps"
  obtain r e where tok: "token_at b es x = (r, e)" by (cases "token_at b es x")
  have out: "ret = r" "q = x" "eq = e" "s = skip_blank b es e"
    using assms(3) tok by (auto simp: gettoken_def x_def Let_def)
  have x: "ps \<le> x" "x \<le> es" "\<not> is_in whitespace (ch b x)"
    using skip_blank_bounds [OF assms(2), of b] blank_stop [OF assms(1,2)] by (simp_all add: x_def)
  note t = token_at_bounds [OF assms(1) x(2) tok]
  note e = skip_blank_bounds [OF t(2), of b]
  show "ps \<le> s" "s \<le> es" using x t(1) e by (simp_all add: out)
  show "ps < s" if "ret \<noteq> 0" using t(4) [OF x(3)] that x(1) e by (simp add: out)
  show "word b es (q, eq)" if "ret = 0x61" using t(5) [OF x(3)] that by (simp add: out)
qed

lemma peek_bounds:
  assumes "line_end b es" "ps \<le> es" "peek b es toks ps = (hit, s)"
  shows "ps \<le> s" "s \<le> es" "hit \<Longrightarrow> s < es"
  using assms skip_blank_bounds [OF assms(2), of b]
  by (auto simp: peek_def Let_def line_end_def le_less)

lemma peek_gettoken:
  assumes "line_end b es" "ps \<le> es" "peek b es toks ps = (True, s)" "gettoken b es s = (ret, q, eq, s')"
  shows "s < s'" "s' \<le> es" "ps < s'"
proof -
  note p = peek_bounds [OF assms(1-3)]
  have "ret \<noteq> 0"
  proof -
    have "skip_blank b es s = s"
      using assms(3) blank_stop [OF assms(1,2)] by (auto simp: peek_def Let_def skip_while.simps [of _ b es s])
    then show ?thesis
      using assms(4) token_at_bounds(3) [OF assms(1) p(2)] p(3) by (auto simp: gettoken_def Let_def split: prod.splits)
  qed
  then show "s < s'" "s' \<le> es" using gettoken_bounds [OF assms(1) p(2) assms(4)] by simp_all
  then show "ps < s'" using p(1) by simp
qed

subsection \<open>The parser\<close>

fun wf_cmd :: "bytes \<Rightarrow> nat \<Rightarrow> cmd \<Rightarrow> bool" where
  "wf_cmd b es (EXEC as) \<longleftrightarrow> length as < MAXARGS \<and> (\<forall>a \<in> set as. word b es a)"
| "wf_cmd b es (REDIR c q eq m d) \<longleftrightarrow> wf_cmd b es c \<and> word b es (q, eq) \<and> d \<in> {0, 1}"
| "wf_cmd b es (PIPE l r) \<longleftrightarrow> wf_cmd b es l \<and> wf_cmd b es r"
| "wf_cmd b es (LIST l r) \<longleftrightarrow> wf_cmd b es l \<and> wf_cmd b es r"
| "wf_cmd b es (BACK c) \<longleftrightarrow> wf_cmd b es c"

text \<open>A command with its redirections only, and the number of its arguments.\<close>

fun plain :: "cmd \<Rightarrow> nat \<Rightarrow> bool" where
  "plain (EXEC as) n \<longleftrightarrow> length as = n"
| "plain (REDIR c q eq m d) n \<longleftrightarrow> plain c n"
| "plain _ n \<longleftrightarrow> False"

lemma add_arg_ok:
  "plain c n \<Longrightarrow> wf_cmd b es c \<Longrightarrow> word b es a \<Longrightarrow> Suc n < MAXARGS \<Longrightarrow>
     plain (add_arg a c) (Suc n) \<and> wf_cmd b es (add_arg a c)"
  by (induction a c rule: add_arg.induct) auto

text \<open>A parser's result: it has ended, moved on within the line, and built a well-formed command.\<close>

definition parsed_ok :: "bytes \<Rightarrow> nat \<Rightarrow> nat \<Rightarrow> (cmd \<Rightarrow> bool) \<Rightarrow> (cmd \<times> nat) parsed \<Rightarrow> bool" where
  "parsed_ok b es ps P r \<longleftrightarrow>
     (case r of Inl e \<Rightarrow> e \<noteq> NoFuel | Inr (c, s) \<Rightarrow> ps \<le> s \<and> s \<le> es \<and> wf_cmd b es c \<and> P c)"

lemma parsed_ok_simps [simp]:
  "parsed_ok b es ps P (Inl e) \<longleftrightarrow> e \<noteq> NoFuel"
  "parsed_ok b es ps P (Inr (c, s)) \<longleftrightarrow> ps \<le> s \<and> s \<le> es \<and> wf_cmd b es c \<and> P c"
  by (simp_all add: parsed_ok_def)

lemma parsed_ok_bind:
  assumes "parsed_ok b es ps P r"
    "\<And>c s. ps \<le> s \<Longrightarrow> s \<le> es \<Longrightarrow> wf_cmd b es c \<Longrightarrow> P c \<Longrightarrow> parsed_ok b es ps Q (f (c, s))"
  shows "parsed_ok b es ps Q (pbind r f)"
  using assms by (cases r) (auto simp: pbind_def)

lemma parsed_ok_mono: "parsed_ok b es s P r \<Longrightarrow> ps \<le> s \<Longrightarrow> (\<And>c. P c \<Longrightarrow> Q c) \<Longrightarrow> parsed_ok b es ps Q r"
  by (auto simp: parsed_ok_def split: sum.splits)

lemma redirs_loop_ok:
  assumes "line_end b es" "ps \<le> es" "es - ps < k" "wf_cmd b es c"
  shows "parsed_ok b es ps (\<lambda>c'. \<forall>n. plain c n \<longrightarrow> plain c' n) (redirs_loop k b es c ps)"
  using assms(2-)
proof (induction k arbitrary: c ps)
  case 0
  then show ?case by simp
next
  case (Suc k)
  obtain hit s where p: "peek b es [0x3C, 0x3E, 0] ps = (hit, s)" by (cases "peek b es [0x3C, 0x3E, 0] ps")
  note pb = peek_bounds [OF assms(1) Suc.prems(1) p]
  obtain tok q1 e1 s1 where g1: "gettoken b es s = (tok, q1, e1, s1)" by (cases "gettoken b es s")
  obtain tok2 q eq s2 where g2: "gettoken b es s1 = (tok2, q, eq, s2)" by (cases "gettoken b es s1")
  show ?case
  proof (cases "hit \<and> tok2 = 0x61")
    case False
    then show ?thesis using p pb g1 g2 Suc.prems by auto
  next
    case True
    have s1: "ps < s1" "s1 \<le> es" using peek_gettoken [OF assms(1) Suc.prems(1) _ g1] p True by auto
    note gb = gettoken_bounds [OF assms(1) s1(2) g2]
    have "wf_cmd b es (redir_of tok c q eq)" "\<And>n. plain c n \<Longrightarrow> plain (redir_of tok c q eq) n"
      using Suc.prems(3) gb(4) True by (auto simp: redir_of_def)
    moreover have "ps \<le> s2" "es - s2 < k" using s1 gb Suc.prems(2) by auto
    ultimately have "parsed_ok b es ps (\<lambda>c'. \<forall>n. plain c n \<longrightarrow> plain c' n) (redirs_loop k b es (redir_of tok c q eq) s2)"
      using Suc.IH [of s2 "redir_of tok c q eq"] gb(2) by (blast intro: parsed_ok_mono)
    then show ?thesis using p g1 g2 True by simp
  qed
qed

lemma parseredirs_ok:
  "line_end b es \<Longrightarrow> ps \<le> es \<Longrightarrow> wf_cmd b es c \<Longrightarrow>
     parsed_ok b es ps (\<lambda>c'. \<forall>n. plain c n \<longrightarrow> plain c' n) (parseredirs b es c ps)"
  by (simp only: parseredirs_def) (rule redirs_loop_ok, auto)

lemma args_loop_ok:
  assumes "line_end b es" "ps \<le> es" "es - ps < k" "wf_cmd b es c" "plain c argc" "argc < MAXARGS"
  shows "parsed_ok b es ps (\<lambda>_. True) (args_loop k b es argc c ps)"
  using assms(2-)
proof (induction k arbitrary: c ps argc)
  case 0
  then show ?case by simp
next
  case (Suc k)
  obtain stop s where p: "peek b es [0x7C, 0x29, 0x26, 0x3B, 0] ps = (stop, s)"
    by (cases "peek b es [0x7C, 0x29, 0x26, 0x3B, 0] ps")
  note pb = peek_bounds [OF assms(1) Suc.prems(1) p]
  obtain tok q eq s1 where g: "gettoken b es s = (tok, q, eq, s1)" by (cases "gettoken b es s")
  note gb = gettoken_bounds [OF assms(1) pb(2) g]
  show ?case
  proof (cases "\<not> stop \<and> tok = 0x61 \<and> Suc argc < MAXARGS")
    case False
    then show ?thesis using p pb g gb Suc.prems by auto
  next
    case True
    have add: "plain (add_arg (q, eq) c) (Suc argc)" "wf_cmd b es (add_arg (q, eq) c)"
      using add_arg_ok [OF Suc.prems(4,3), of "(q, eq)"] gb(4) True by auto
    have ps: "ps < s1" using pb gb(3) True by auto
    have "parsed_ok b es ps (\<lambda>c'. plain c' (Suc argc)) (parseredirs b es (add_arg (q, eq) c) s1)"
      by (rule parsed_ok_mono [OF parseredirs_ok [OF assms(1) gb(2) add(2)]]) (use ps add in auto)
    moreover have "parsed_ok b es ps (\<lambda>_. True) (args_loop k b es (Suc argc) c' s2)"
      if "parsed_ok b es s1 (\<lambda>c'. plain c' (Suc argc)) (Inr (c', s2))" for c' s2
      using parsed_ok_mono [OF Suc.IH [of s2 c' "Suc argc"]] that ps True Suc.prems(2) by auto
    ultimately have "parsed_ok b es ps (\<lambda>_. True)
        (pbind (parseredirs b es (add_arg (q, eq) c) s1) (\<lambda>(c', s2). args_loop k b es (Suc argc) c' s2))"
      using parseredirs_ok [OF assms(1) gb(2) add(2)] add(1)
      by (cases "parseredirs b es (add_arg (q, eq) c) s1") (auto simp: pbind_def)
    then show ?thesis using p g True by simp
  qed
qed

lemma amps_loop_ok:
  assumes "line_end b es" "ps \<le> es" "es - ps < k" "wf_cmd b es c"
  shows "parsed_ok b es ps (\<lambda>_. True) (amps_loop k b es c ps)"
  using assms(2-)
proof (induction k arbitrary: c ps)
  case 0
  then show ?case by simp
next
  case (Suc k)
  obtain hit s where p: "peek b es [0x26, 0] ps = (hit, s)" by (cases "peek b es [0x26, 0] ps")
  note pb = peek_bounds [OF assms(1) Suc.prems(1) p]
  obtain tok q eq s1 where g: "gettoken b es s = (tok, q, eq, s1)" by (cases "gettoken b es s")
  show ?case
  proof (cases hit)
    case True
    have "ps < s1" "s1 \<le> es" using peek_gettoken [OF assms(1) Suc.prems(1) _ g] p True by auto
    then show ?thesis
      using p g True parsed_ok_mono [OF Suc.IH [of s1 "BACK c"], of ps] Suc.prems by simp
  qed (use p pb Suc.prems in simp)
qed

fun rank :: "nonterm \<Rightarrow> nat" where
  "rank Line = 3" | "rank Pipe = 2" | "rank Exec = 1" | "rank Block = 0"

lemma parseline_ok:
  assumes "line_end b es" "parsed_ok b es ps (\<lambda>_. True) (rec Pipe ps)"
    and later: "\<And>s. ps < s \<Longrightarrow> s \<le> es \<Longrightarrow> parsed_ok b es ps (\<lambda>_. True) (rec Line s)"
  shows "parsed_ok b es ps (\<lambda>_. True) (parseline rec b es ps)"
  unfolding parseline_def
proof (rule parsed_ok_bind [OF assms(2)], unfold prod.case, rule parsed_ok_bind)
  fix c s assume s: "ps \<le> s" "s \<le> es" "wf_cmd b es c"
  show "parsed_ok b es ps (\<lambda>_. True) (amps_loop (Suc (es - s)) b es c s)"
    by (rule parsed_ok_mono [OF amps_loop_ok [OF assms(1) s(2) _ s(3)]]) (use s in auto)
  fix c1 s1 assume s1: "ps \<le> s1" "s1 \<le> es" "wf_cmd b es c1"
  obtain hit s2 where p: "peek b es [0x3B, 0] s1 = (hit, s2)" by (cases "peek b es [0x3B, 0] s1")
  note pb = peek_bounds [OF assms(1) s1(2) p]
  obtain tok q eq s3 where g: "gettoken b es s2 = (tok, q, eq, s3)" by (cases "gettoken b es s2")
  have "parsed_ok b es ps (\<lambda>_. True) (pbind (rec Line s3) (\<lambda>(r, s4). Inr (LIST c1 r, s4)))" if hit
    by (rule parsed_ok_bind [OF later])
      (use peek_gettoken [OF assms(1) s1(2) _ g, of "[0x3B, 0]"] p that s1 in simp_all)
  then show "parsed_ok b es ps (\<lambda>_. True) (case (c1, s1) of (c1, s1) \<Rightarrow>
      case peek b es [0x3B, 0] s1 of (semi, s2) \<Rightarrow>
        if semi then (case gettoken b es s2 of (_, _, _, s3) \<Rightarrow>
          pbind (rec Line s3) (\<lambda>(r, s4). Inr (LIST c1 r, s4)))
        else Inr (c1, s2))"
    using p g pb s1 by auto
qed

lemma parsepipe_ok:
  assumes "line_end b es" "parsed_ok b es ps (\<lambda>_. True) (rec Exec ps)"
    and later: "\<And>s. ps < s \<Longrightarrow> s \<le> es \<Longrightarrow> parsed_ok b es ps (\<lambda>_. True) (rec Pipe s)"
  shows "parsed_ok b es ps (\<lambda>_. True) (parsepipe rec b es ps)"
  unfolding parsepipe_def
proof (rule parsed_ok_bind [OF assms(2)])
  fix c s assume s: "ps \<le> s" "s \<le> es" "wf_cmd b es c"
  obtain hit s1 where p: "peek b es [0x7C, 0] s = (hit, s1)" by (cases "peek b es [0x7C, 0] s")
  note pb = peek_bounds [OF assms(1) s(2) p]
  obtain tok q eq s2 where g: "gettoken b es s1 = (tok, q, eq, s2)" by (cases "gettoken b es s1")
  have "parsed_ok b es ps (\<lambda>_. True) (pbind (rec Pipe s2) (\<lambda>(r, s3). Inr (PIPE c r, s3)))" if hit
    by (rule parsed_ok_bind [OF later])
      (use peek_gettoken [OF assms(1) s(2) _ g, of "[0x7C, 0]"] p that s in simp_all)
  then show "parsed_ok b es ps (\<lambda>_. True) (case (c, s) of (c, s) \<Rightarrow> case peek b es [0x7C, 0] s of (bar, s1) \<Rightarrow>
      if bar then (case gettoken b es s1 of (_, _, _, s2) \<Rightarrow>
        pbind (rec Pipe s2) (\<lambda>(r, s3). Inr (PIPE c r, s3)))
      else Inr (c, s1))"
    using p g pb s by auto
qed

lemma parseexec_ok:
  assumes "line_end b es" "ps \<le> es"
    and block: "\<And>s. ps \<le> s \<Longrightarrow> s \<le> es \<Longrightarrow> parsed_ok b es ps (\<lambda>_. True) (rec Block s)"
  shows "parsed_ok b es ps (\<lambda>_. True) (parseexec rec b es ps)"
proof -
  obtain hit s where p: "peek b es [0x28, 0] ps = (hit, s)" by (cases "peek b es [0x28, 0] ps")
  note pb = peek_bounds [OF assms(1,2) p]
  have "parsed_ok b es ps (\<lambda>_. True) (pbind (parseredirs b es (EXEC []) s) (\<lambda>(c, s1). args_loop (Suc (es - s1)) b es 0 c s1))"
  proof (rule parsed_ok_bind [OF parsed_ok_mono [OF parseredirs_ok [OF assms(1) pb(2), of "EXEC []"] pb(1)]])
    fix c s1 assume "ps \<le> s1" "s1 \<le> es" "wf_cmd b es c" "plain c 0"
    then show "parsed_ok b es ps (\<lambda>_. True) (case (c, s1) of (c, s1) \<Rightarrow> args_loop (Suc (es - s1)) b es 0 c s1)"
      using parsed_ok_mono [OF args_loop_ok [OF assms(1), of s1 "Suc (es - s1)" c 0], of ps] by simp
  qed auto
  then show ?thesis using p pb block [of s] by (simp add: parseexec_def)
qed

lemma parseblock_ok:
  assumes "line_end b es" "ps \<le> es"
    and later: "\<And>s. ps < s \<Longrightarrow> s \<le> es \<Longrightarrow> parsed_ok b es ps (\<lambda>_. True) (rec Line s)"
  shows "parsed_ok b es ps (\<lambda>_. True) (parseblock rec b es ps)"
proof -
  obtain hit s where p: "peek b es [0x28, 0] ps = (hit, s)" by (cases "peek b es [0x28, 0] ps")
  obtain tok q eq s1 where g: "gettoken b es s = (tok, q, eq, s1)" by (cases "gettoken b es s")
  have "parsed_ok b es ps (\<lambda>_. True) (pbind (rec Line s1) (\<lambda>(c, s2).
      case peek b es [0x29, 0] s2 of (close, s3) \<Rightarrow>
        if \<not> close then Inl (Perr ''syntax - missing )'')
        else (case gettoken b es s3 of (_, _, _, s4) \<Rightarrow> parseredirs b es c s4)))" if hit
  proof (rule parsed_ok_bind [OF later])
    show "ps < s1" "s1 \<le> es" using peek_gettoken [OF assms(1,2) _ g, of "[0x28, 0]"] p that by simp_all
    fix c s2 assume s2: "ps \<le> s2" "s2 \<le> es" "wf_cmd b es c"
    obtain hit s3 where p3: "peek b es [0x29, 0] s2 = (hit, s3)" by (cases "peek b es [0x29, 0] s2")
    obtain tok q eq s4 where g4: "gettoken b es s3 = (tok, q, eq, s4)" by (cases "gettoken b es s3")
    have "parsed_ok b es ps (\<lambda>_. True) (parseredirs b es c s4)" if hit
      by (rule parsed_ok_mono [OF parseredirs_ok [OF assms(1) _ s2(3)]])
        (use peek_gettoken [OF assms(1) s2(2) _ g4, of "[0x29, 0]"] p3 that s2 in simp_all)
    then show "parsed_ok b es ps (\<lambda>_. True) (case (c, s2) of (c, s2) \<Rightarrow> case peek b es [0x29, 0] s2 of (close, s3) \<Rightarrow>
        if \<not> close then Inl (Perr ''syntax - missing )'')
        else (case gettoken b es s3 of (_, _, _, s4) \<Rightarrow> parseredirs b es c s4))"
      using p3 g4 by simp
  qed
  then show ?thesis using p g by (simp add: parseblock_def)
qed

lemma parse_ok:
  assumes "line_end b es" "ps \<le> es" "4 * (es - ps) + rank nt < n"
  shows "parsed_ok b es ps (\<lambda>_. True) (parse b es n nt ps)"
  using assms(2-)
proof (induction n arbitrary: nt ps)
  case 0
  then show ?case by simp
next
  case (Suc n)
  have later: "parsed_ok b es ps (\<lambda>_. True) (parse b es n nt' s)" if "ps < s" "s \<le> es" for nt' s
    by (rule parsed_ok_mono [OF Suc.IH]) (use that Suc.prems in \<open>cases nt'; auto\<close>)+
  have same: "parsed_ok b es ps (\<lambda>_. True) (parse b es n nt' s)" if "rank nt' < rank nt" "ps \<le> s" "s \<le> es" for nt' s
    by (rule parsed_ok_mono [OF Suc.IH]) (use that Suc.prems in auto)
  show ?case
    using same [of Pipe ps] same [of Exec ps] same [of Block] later Suc.prems(1)
    by (cases nt) (simp_all add: parseline_ok parsepipe_ok parseexec_ok parseblock_ok assms(1))
qed

text \<open>
  C23: The shell's parser ends.  On every command line that ends with a NUL, \<^verbatim>\<open>parsecmd\<close>
  returns a command or stops with one of its error messages; the recursion through
  \<^verbatim>\<open>parseline\<close>, \<^verbatim>\<open>parsepipe\<close>, \<^verbatim>\<open>parseexec\<close> and \<^verbatim>\<open>parseblock\<close> and their loops never run out
  of the bound of four calls per character.
\<close>

theorem parsecmd_ends:
  assumes "0 \<in> set b"
  shows "parsecmd b \<noteq> Inl NoFuel"
proof -
  have "parsed_ok b (length (cstr b)) 0 (\<lambda>_. True) (parse b (length (cstr b)) (parse_fuel (length (cstr b))) Line 0)"
    using parse_ok [OF line_end_cstr [OF assms]] by (simp add: parse_fuel_def)
  then show ?thesis
    by (cases "parse b (length (cstr b)) (parse_fuel (length (cstr b))) Line 0")
      (auto simp: parsecmd_def pbind_def Let_def split: if_splits)
qed

theorem parsecmd_ends_witness:
  "parsecmd [0x28, 0x28, 0x3B, 0x26, 0] \<noteq> Inl NoFuel"
  by (rule parsecmd_ends) simp

subsection \<open>The strings of a command\<close>

fun strings :: "cmd \<Rightarrow> (nat \<times> nat) set" where
  "strings (EXEC as) = set as"
| "strings (REDIR c q eq m d) = insert (q, eq) (strings c)"
| "strings (PIPE l r) = strings l \<union> strings r"
| "strings (LIST l r) = strings l \<union> strings r"
| "strings (BACK c) = strings c"

lemma wf_strings: "wf_cmd b es c \<Longrightarrow> a \<in> strings c \<Longrightarrow> word b es a"
  by (induction c) auto

lemma nth_update: "j < length xs \<Longrightarrow> xs[i := x] ! j = (if i = j then x else xs ! j)"
  by simp

lemma terminate_args:
  "length (fold (\<lambda>(q, eq) b. b[eq := 0]) as b) = length b"
  "i < length b \<Longrightarrow> fold (\<lambda>(q, eq) b. b[eq := 0]) as b ! i = (if i \<in> snd ` set as then 0 else b ! i)"
  by (induction as arbitrary: b) (simp_all add: nth_update split: prod.split)

lemma nulterminate_nth:
  "length (nulterminate c b) = length b"
  "i < length b \<Longrightarrow> nulterminate c b ! i = (if i \<in> snd ` strings c then 0 else b ! i)"
  by (induction c arbitrary: b) (simp_all add: terminate_args nth_update image_Un)

text \<open>
  C10: What the parser returns is well formed.  Every string of the command, whether
  argument or file name, is a word of the line without blanks and symbols; every list
  of arguments leaves room for the null pointer that ends it; and once \<^verbatim>\<open>nulterminate\<close>
  has run, each string that the command points to is exactly that word, although all
  the strings share one buffer.
\<close>

theorem parsecmd_well_formed:
  assumes "0 \<in> set b" "parsecmd b = Inr (c, b')"
  shows "wf_cmd b (length (cstr b)) c \<and> length b' = length b \<and>
    (\<forall>(q, eq) \<in> strings c. cstr (drop q b') = take (eq - q) (drop q b))"
proof -
  let ?es = "length (cstr b)"
  note le = line_end_cstr [OF assms(1)]
  have ok: "parsed_ok b ?es 0 (\<lambda>_. True) (parse b ?es (parse_fuel ?es) Line 0)"
    using parse_ok [OF le] by (simp add: parse_fuel_def)
  have c: "wf_cmd b ?es c" "b' = nulterminate c b"
    using assms(2) ok by (auto simp: parsecmd_def pbind_def Let_def split: sum.splits if_splits)
  have "cstr (drop q b') = take (eq - q) (drop q b)" if a: "(q, eq) \<in> strings c" for q eq
  proof -
    have w: "word b ?es (q, eq)" by (rule wf_strings [OF c(1) a])
    have qe: "q < eq" using w by (simp add: word_def)
    have len: "eq < length b" using w le by (simp add: word_def line_end_def)
    have same: "b' ! i = b ! i \<and> b ! i \<noteq> 0" if i: "q \<le> i" "i < eq" for i
    proof -
      have nd: "\<not> delim (ch b i)" using w i by (simp add: word_def)
      have "i \<notin> snd ` strings c" using wf_strings [OF c(1)] nd by (force simp: word_def)
      then show ?thesis using nd len i by (simp add: c(2) nulterminate_nth delim_def ch_def)
    qed
    have z: "b' ! eq = 0" using a len by (force simp: c(2) nulterminate_nth)
    have lt: "length b' = length b" by (simp add: c(2) nulterminate_nth)
    have "drop q b' = take (eq - q) (drop q b) @ 0 # drop (Suc eq) b'"
    proof (rule nth_equalityI)
      show "length (drop q b') = length (take (eq - q) (drop q b) @ 0 # drop (Suc eq) b')"
        using qe len lt by auto
      fix i assume "i < length (drop q b')"
      then show "drop q b' ! i = (take (eq - q) (drop q b) @ 0 # drop (Suc eq) b') ! i"
        using qe len lt same [of "q + i"] z
        by (cases "q + i" eq rule: linorder_cases) (auto simp: nth_append nth_Cons' add.commute)
    qed
    moreover have "0 \<notin> set (take (eq - q) (drop q b))"
      using same len by (auto simp: in_set_conv_nth)
    ultimately show ?thesis by (simp add: cstr_def takeWhile_append)
  qed
  then show ?thesis using c by (auto simp: nulterminate_nth)
qed

definition ex_line :: bytes where
  "ex_line = [0x61, 0x20, 0x62, 0x3E, 0x6F, 0x7C, 0x63, 0x0A, 0]"

lemma ex_line_parsed:
  "parsecmd ex_line = Inr (PIPE (REDIR (EXEC [(0, 1), (2, 3)]) 4 5 0x601 1) (EXEC [(6, 7)]),
    [0x61, 0, 0x62, 0, 0x6F, 0, 0x63, 0, 0])"
  by code_simp

theorem parsecmd_well_formed_witness:
  "cstr (drop 4 [0x61, 0, 0x62, 0, 0x6F, 0, 0x63, 0, 0]) = take 1 (drop 4 ex_line) \<and>
    wf_cmd ex_line (length (cstr ex_line)) (PIPE (REDIR (EXEC [(0, 1), (2, 3)]) 4 5 0x601 1) (EXEC [(6, 7)]))"
  using parsecmd_well_formed [OF _ ex_line_parsed] by (simp add: ex_line_def)

end
