(* ===== verification/Spec2Isabelle.thy ===== *)
theory Spec2Isabelle
  imports Priority_Correct Sleep_Protocol Pipe_Correct Console_Correct Bio_Correct Log_Crash Mkfs_Total Grind Grep_Output Shell_Correct
begin

text \<open>
  A verification library for xv6: the kernel (\<^verbatim>\<open>src/kernel\<close>), the user programs
  (\<^verbatim>\<open>src/user\<close>) and the program that makes the first file system (\<^verbatim>\<open>src/mkfs\<close>).

  \<^bold>\<open>The system.\<close>  The kernel runs on several harts over one physical memory.  Spin locks
  (\<^verbatim>\<open>spinlock.c\<close>) protect everything else.  \<^verbatim>\<open>kalloc.c\<close> hands out the pages from which
  \<^verbatim>\<open>vm.c\<close> builds page tables and user memory; \<^verbatim>\<open>proc.c\<close> keeps the processes, the
  scheduler, \<^verbatim>\<open>sleep\<close> and \<^verbatim>\<open>wakeup\<close>, and a list of processes per priority.  Sleep locks,
  pipes and the console wait with them.  The file system is a stack: disk driver
  (\<^verbatim>\<open>virtio_disk.c\<close>), buffer cache (\<^verbatim>\<open>bio.c\<close>), redo log (\<^verbatim>\<open>log.c\<close>), inodes, directories and
  paths (\<^verbatim>\<open>fs.c\<close>), open files (\<^verbatim>\<open>file.c\<close>).  System calls and traps call all of them for user
  programs, which see the kernel only through the calls they make.

  \<^bold>\<open>How the code is modelled.\<close>  \<^verbatim>\<open>Prelude\<close> has the type in which every stateful C function
  is written: from a state and a list of steps of the rest of the system to an outcome, which
  is a return, a panic (also undefined behaviour, under its own message), a wait that no step
  is left for, or a loop that used up its bound.  Where a hart waits (it spins, it
  sleeps, it gives the processor away, a program waits for the kernel) the next step of the
  rest of the system is taken; these steps are arbitrary functions on the state.  The states
  are records that extend each other in the order of the theories, one field per global
  variable or register.  A pointer to an element of a static table is its index, a null
  pointer is \<open>None\<close>; physical memory is a function from addresses to bytes; words keep
  their widths, and a C \<^verbatim>\<open>int\<close> is an integer: counting \<^verbatim>\<open>noff\<close>, the process ids and the
  reference counts of inodes and files past the range of an \<^verbatim>\<open>int\<close> is undefined behaviour,
  so that what is said of code under locks assumes room for its nesting.  Devices are parameters of the state: what a read of a register gives is an
  arbitrary function, what is written is logged.

  \<^bold>\<open>Theories and sources, in the order of the imports.\<close>
  \<^item> \<^verbatim>\<open>Prelude\<close>: outcomes, loops, invariants along a program.  \<^verbatim>\<open>Riscv\<close>: \<^verbatim>\<open>types.h\<close>,
    \<^verbatim>\<open>param.h\<close>, \<^verbatim>\<open>memlayout.h\<close>, the page-table macros of \<^verbatim>\<open>riscv.h\<close>.  \<^verbatim>\<open>Ring\<close>: ring buffers
    with free-running indices, as a locale of bounded queues.
  \<^item> \<^verbatim>\<open>Spinlock\<close>: \<^verbatim>\<open>spinlock.c\<close>, the locale \<^verbatim>\<open>mutex\<close> of what a client of a lock relies on, and
    \<^verbatim>\<open>acquire\<close> and \<^verbatim>\<open>release\<close> as interleaved instructions.  \<^verbatim>\<open>KString\<close>: \<^verbatim>\<open>string.c\<close>.
  \<^item> \<^verbatim>\<open>Kalloc\<close>: \<^verbatim>\<open>kalloc.c\<close>, with the locale of a page allocator.  \<^verbatim>\<open>Vm\<close>: \<^verbatim>\<open>vm.c\<close>.  \<^verbatim>\<open>Pagetable\<close>,
    \<^verbatim>\<open>Addrspace\<close>, \<^verbatim>\<open>Uvm\<close>: its functions against the map from virtual pages to entries.
  \<^item> \<^verbatim>\<open>Printf\<close>: \<^verbatim>\<open>printf.c\<close> and the polling side of \<^verbatim>\<open>uart.c\<close>.  \<^verbatim>\<open>Proc\<close>: \<^verbatim>\<open>proc.c\<close> and
    \<^verbatim>\<open>proc.h\<close>; \<^verbatim>\<open>Proc_Correct\<close>, \<^verbatim>\<open>Priority_Correct\<close> (with the locale of a family of lists) and
    \<^verbatim>\<open>Sleep_Protocol\<close> are about it.
  \<^item> \<^verbatim>\<open>Sleeplock\<close>: \<^verbatim>\<open>sleeplock.c\<close>.  \<^verbatim>\<open>Console\<close>: \<^verbatim>\<open>console.c\<close> and the interrupt side of \<^verbatim>\<open>uart.c\<close>;
    \<^verbatim>\<open>Console_Correct\<close>.
  \<^item> \<^verbatim>\<open>Virtio\<close>: \<^verbatim>\<open>virtio_disk.c\<close>, \<^verbatim>\<open>virtio.h\<close>, \<^verbatim>\<open>buf.h\<close>.  \<^verbatim>\<open>Bio\<close>: \<^verbatim>\<open>bio.c\<close>; \<^verbatim>\<open>Bio_Correct\<close>.
    \<^verbatim>\<open>Log\<close>: \<^verbatim>\<open>log.c\<close>; \<^verbatim>\<open>Log_Crash\<close>.  \<^verbatim>\<open>Fs\<close>: \<^verbatim>\<open>fs.c\<close>, \<^verbatim>\<open>fs.h\<close>, \<^verbatim>\<open>stat.h\<close>; \<^verbatim>\<open>Codec\<close>.
  \<^item> \<^verbatim>\<open>Pipe\<close>: \<^verbatim>\<open>pipe.c\<close>; \<^verbatim>\<open>Pipe_Correct\<close>.  \<^verbatim>\<open>File\<close>: \<^verbatim>\<open>file.c\<close>, \<^verbatim>\<open>file.h\<close>.  \<^verbatim>\<open>Process\<close>: \<^verbatim>\<open>fork\<close>,
    \<^verbatim>\<open>exit\<close> and \<^verbatim>\<open>userinit\<close> of \<^verbatim>\<open>proc.c\<close>, and \<^verbatim>\<open>exec.c\<close>.  \<^verbatim>\<open>Syscall\<close>: \<^verbatim>\<open>syscall.c\<close>, \<^verbatim>\<open>sysproc.c\<close>,
    \<^verbatim>\<open>sysfile.c\<close>.  \<^verbatim>\<open>Trap\<close>: \<^verbatim>\<open>trap.c\<close>, \<^verbatim>\<open>plic.c\<close>, \<^verbatim>\<open>main.c\<close>, \<^verbatim>\<open>start.c\<close>.
  \<^item> \<^verbatim>\<open>Sample\<close>: a machine at rest, from which witnesses start.  \<^verbatim>\<open>User_Copy\<close>: a process in a
    critical section that copies from and to its own memory.
  \<^item> \<^verbatim>\<open>Ulib\<close>: \<^verbatim>\<open>ulib.c\<close>, the user's \<^verbatim>\<open>printf.c\<close> and the calls of \<^verbatim>\<open>user.h\<close>.  \<^verbatim>\<open>Umalloc\<close>:
    \<^verbatim>\<open>umalloc.c\<close>.  \<^verbatim>\<open>Programs\<close>: the small programs.  \<^verbatim>\<open>Grep\<close>: \<^verbatim>\<open>grep.c\<close> and \<^verbatim>\<open>find.c\<close>;
    \<^verbatim>\<open>Grep_Correct\<close>, \<^verbatim>\<open>Grep_Output\<close>.  \<^verbatim>\<open>Shell\<close>: \<^verbatim>\<open>sh.c\<close>; \<^verbatim>\<open>Shell_Correct\<close>.  \<^verbatim>\<open>Grind\<close>: \<^verbatim>\<open>grind.c\<close>.
  \<^item> \<^verbatim>\<open>Mkfs\<close>: \<^verbatim>\<open>mkfs.c\<close>; \<^verbatim>\<open>Mkfs_Blocks\<close>, \<^verbatim>\<open>Mkfs_Append\<close>, \<^verbatim>\<open>Mkfs_Correct\<close>, \<^verbatim>\<open>Mkfs_Image\<close>,
    \<^verbatim>\<open>Mkfs_Total\<close>.

  \<^bold>\<open>What is shown.\<close>
  \<^item> Concurrency: no two harts are in the critical section of a spin lock, in any
    interleaving of its instructions; no wakeup is lost between the test of a condition
    and \<^verbatim>\<open>sleep\<close>, and a sleeper whose condition is set can proceed; \<^verbatim>\<open>wakeup\<close>, \<^verbatim>\<open>kill\<close> and
    \<^verbatim>\<open>sched\<close> do what they say; the nesting of disabled interrupts is undone.
  \<^item> Memory: pages handed out are distinct, \<^verbatim>\<open>kinit\<close> frees all of them; \<^verbatim>\<open>mappages\<close> changes
    exactly its range, \<^verbatim>\<open>uvmalloc\<close> grows or changes nothing, what \<^verbatim>\<open>copyout\<close> writes \<^verbatim>\<open>copyin\<close>
    reads, \<^verbatim>\<open>copyinstr\<close> fetches a string.
  \<^item> Processes: the priority lists are lists of distinct processes; the path in \<^verbatim>\<open>fork\<close> that
    breaks this makes a cycle.
  \<^item> Input and output: pipes and the console are bounded queues across the wrap-around of their
    indices; what is written into a pipe is read from it; a line is edited and handed over.
  \<^item> Files: in every run with crashes at any disk write, also during recovery, the disk after
    recovery holds the last committed transactions and nothing of the others, and recovery
    can finish; a block is in at most one buffer, and the buffers stay in order of use; inodes
    on disk read back as written; the image of \<^verbatim>\<open>mkfs\<close> has its files, and the super block,
    log and bitmap that the kernel expects.
  \<^item> Programs: the parser of the shell ends and gives well-formed commands; \<^verbatim>\<open>grep\<close> prints
    exactly the lines that match, and the two matchers decide the languages of their patterns;
    the random numbers of \<^verbatim>\<open>grind\<close> are those of Park and Miller.

  \<^bold>\<open>Bounds.\<close>  A loop with a bound that is used up is the outcome \<open>Diverge\<close>.  Loops over
  memory, files and strings have as their bound a number that every round consumes: bytes,
  pages, directory entries or characters left.  Walks of linked structures (the buffers,
  the priority lists, the descriptors of the disk) have one step more than there are
  elements: a longer walk goes in a circle, and the C code does not return.  Loops that wait in
  every round are bounded by the steps of the environment that are left, and end as waiting
  when there are none.  \<^verbatim>\<open>scheduler\<close> and \<^verbatim>\<open>go\<close> of \<^verbatim>\<open>grind\<close> never return; the number of rounds
  is an argument.  That a bound is enough is part of the properties of the
  functions they are about: these state that the function returns.

  \<^bold>\<open>Where the model of the code stops.\<close>  The properties of the functions that take locks are
  for a hart that finds them free; what the others may do between two lock operations is in
  the step relations of \<^verbatim>\<open>Spinlock\<close>, \<^verbatim>\<open>Sleep_Protocol\<close> and \<^verbatim>\<open>Log_Crash\<close>, whose steps are the
  single assignments, lock operations and disk writes of the functions they name.  A disk
  write of one block is atomic.  The files that \<^verbatim>\<open>mkfs\<close> reads are an argument; its image is
  the list of blocks.

  \<^bold>\<open>Not modelled.\<close>  The assembly files and the linker script (\<^verbatim>\<open>entry.S\<close>, \<^verbatim>\<open>swtch.S\<close>,
  \<^verbatim>\<open>kernelvec.S\<close>, \<^verbatim>\<open>trampoline.S\<close>, \<^verbatim>\<open>initcode.S\<close>, \<^verbatim>\<open>kernel.ld\<close>): the C code ends at the calls of
  \<^verbatim>\<open>swtch\<close> and \<^verbatim>\<open>userret\<close>.  Those accessors of \<^verbatim>\<open>riscv.h\<close> that are one instruction each
  appear as fields of the states.  \<^verbatim>\<open>defs.h\<close> has prototypes only.  \<^verbatim>\<open>usys.pl\<close> generates the stubs of
  the system calls.  \<^verbatim>\<open>usertests.c\<close> drives the system calls from outside and is no part of the
  system.  The devices themselves are parameters.
\<close>

end
